(* ===== verification/Prelude.thy ===== *)
theory Prelude
  imports Complex_Main "HOL-Library.AList" "HOL-Library.Multiset"
begin

text \<open>
  Shared ground of the development: the model of JavaScript's \<open>Map\<close> as an association list in
  insertion order, the idiom "delete, set again, drop the oldest" that several of the server's
  in-memory tables use, and the rounding functions of \<open>Math\<close>.

  A JavaScript \<open>Map\<close> iterates its keys in the order of their first insertion; \<open>set\<close> on a key
  that is present keeps its place, \<open>delete\<close> followed by \<open>set\<close> moves it to the end. The library's
  \<open>AList.update\<close> and \<open>AList.delete\<close> do exactly this.
\<close>

named_theorems table_simps \<open>lookup and size of insertion-ordered tables\<close>
named_theorems inv_intros \<open>preservation of a component's invariant, one rule per operation\<close>

subsection \<open>JavaScript maps\<close>

type_synonym ('k, 'v) table = "('k \<times> 'v) list"

abbreviation table_get :: "('k, 'v) table \<Rightarrow> 'k \<Rightarrow> 'v option" where
  "table_get t k \<equiv> map_of t k"

abbreviation table_keys :: "('k, 'v) table \<Rightarrow> 'k list" where
  "table_keys t \<equiv> map fst t"

abbreviation table_set :: "'k \<Rightarrow> 'v \<Rightarrow> ('k, 'v) table \<Rightarrow> ('k, 'v) table" where
  "table_set \<equiv> AList.update"

abbreviation table_delete :: "'k \<Rightarrow> ('k, 'v) table \<Rightarrow> ('k, 'v) table" where
  "table_delete \<equiv> AList.delete"

definition wf_table :: "('k, 'v) table \<Rightarrow> bool" where
  "wf_table t \<longleftrightarrow> distinct (table_keys t)"

lemma wf_table_Nil [simp]: "wf_table []"
  by (simp add: wf_table_def)

lemma wf_table_set [inv_intros]: "wf_table t \<Longrightarrow> wf_table (table_set k v t)"
  by (simp add: wf_table_def distinct_update)

lemma wf_table_delete [inv_intros]: "wf_table t \<Longrightarrow> wf_table (table_delete k t)"
  by (simp add: wf_table_def distinct_delete)

lemma table_get_set [table_simps]: "table_get (table_set k v t) k' = (if k' = k then Some v else table_get t k')"
  by (simp add: update_conv)

lemma table_get_delete [table_simps]: "table_get (table_delete k t) k' = (if k' = k then None else table_get t k')"
  by (simp add: delete_conv)

lemma table_delete_filter: "table_delete k t = filter (\<lambda>p. fst p \<noteq> k) t"
  by (induction t) auto

lemma table_set_fresh: "k \<notin> set (table_keys t) \<Longrightarrow> table_set k v t = t @ [(k, v)]"
  by (induction t) auto

lemma length_table_delete [table_simps]: "length (table_delete k t) \<le> length t"
  by (simp add: table_delete_filter)

lemma length_table_delete_le: "length t \<le> n \<Longrightarrow> length (table_delete k t) \<le> n"
  using length_table_delete [of k t] by simp

lemma length_filter_bound: "length xs \<le> n \<Longrightarrow> length (filter P xs) \<le> n"
  by (rule order_trans [OF length_filter_le])

lemma length_table_delete_present:
  "wf_table t \<Longrightarrow> table_get t k = Some v \<Longrightarrow> Suc (length (table_delete k t)) = length t"
proof (induction t)
  case Nil
  then show ?case by simp
next
  case (Cons p t)
  have wf: "wf_table t" using Cons.prems(1) by (simp add: wf_table_def)
  show ?case
  proof (cases "fst p = k")
    case True
    then have "k \<notin> set (table_keys t)" using Cons.prems(1) by (auto simp: wf_table_def)
    then have "table_delete k t = t" by (simp add: delete_idem)
    with True show ?thesis by simp
  next
    case False
    then have "table_get t k = Some v" using Cons.prems(2) by (cases p) auto
    with Cons.IH wf False show ?thesis by auto
  qed
qed

lemma table_get_in_set: "table_get t k = Some v \<Longrightarrow> (k, v) \<in> set t"
  by (rule map_of_SomeD)

lemma wf_table_get: "wf_table t \<Longrightarrow> (k, v) \<in> set t \<Longrightarrow> table_get t k = Some v"
  by (simp add: wf_table_def)

lemma wf_table_tl: "wf_table t \<Longrightarrow> wf_table (tl t)"
  by (cases t) (auto simp: wf_table_def)

lemma wf_table_filter [inv_intros]: "wf_table t \<Longrightarrow> wf_table (filter P t)"
  by (induction t) (auto simp: wf_table_def)

text \<open>Filling a table in a loop: the last entry of each key stays.\<close>

lemma wf_table_fold_set: "wf_table t \<Longrightarrow> wf_table (fold (\<lambda>x. table_set (f x) (g x)) xs t)"
  by (induction xs arbitrary: t) (auto simp: wf_table_set)

lemma table_get_fold_other: "k \<notin> f ` set xs \<Longrightarrow> table_get (fold (\<lambda>x. table_set (f x) (g x)) xs t) k = table_get t k"
  by (induction xs arbitrary: t) (auto simp: table_simps)

lemma table_get_fold_set:
  "x \<in> set xs \<Longrightarrow> f x = k \<Longrightarrow> (\<And>y. y \<in> set xs \<Longrightarrow> f y = k \<Longrightarrow> g y = c) \<Longrightarrow>
   table_get (fold (\<lambda>x. table_set (f x) (g x)) xs t) k = Some c"
proof (induction xs arbitrary: t x)
  case (Cons y ys)
  show ?case
  proof (cases "k \<in> f ` set ys")
    case True
    then obtain z where "z \<in> set ys" "f z = k" by auto
    from Cons.IH [OF this, of "table_set (f y) (g y) t"] show ?thesis using Cons.prems(3) by simp
  next
    case False
    then have "x = y" using Cons.prems by auto
    then show ?thesis using False Cons.prems by (simp add: table_get_fold_other table_simps)
  qed
qed simp

lemma wf_table_values: "wf_table t \<Longrightarrow> \<forall>(k, v) \<in> set t. k = f v \<Longrightarrow> v \<in> snd ` set t \<longleftrightarrow> table_get t (f v) = Some v"
proof
  assume wf: "wf_table t" and keys: "\<forall>(k, v) \<in> set t. k = f v" and "v \<in> snd ` set t"
  then obtain k where k: "(k, v) \<in> set t" by force
  then have "k = f v" using keys by blast
  then show "table_get t (f v) = Some v" using wf_table_get [OF wf] k by simp
next
  assume "table_get t (f v) = Some v"
  then have "(f v, v) \<in> set t" by (rule table_get_in_set)
  then show "v \<in> snd ` set t" by force
qed

subsection \<open>Delete, set again, drop the oldest\<close>

definition reinsert :: "'k \<Rightarrow> 'v \<Rightarrow> ('k, 'v) table \<Rightarrow> ('k, 'v) table" where
  "reinsert k v t = table_set k v (table_delete k t)"

lemma reinsert_eq: "reinsert k v t = table_delete k t @ [(k, v)]"
  by (simp add: reinsert_def table_set_fresh delete_keys)

lemma wf_table_reinsert [inv_intros]: "wf_table t \<Longrightarrow> wf_table (reinsert k v t)"
  by (simp add: reinsert_def wf_table_set wf_table_delete)

lemma table_get_reinsert [table_simps]:
  "table_get (reinsert k v t) k' = (if k' = k then Some v else table_get t k')"
  by (simp add: reinsert_def table_simps)

lemma length_reinsert [table_simps]: "length (reinsert k v t) \<le> Suc (length t)"
  by (simp add: reinsert_eq length_table_delete)

definition drop_oldest :: "nat \<Rightarrow> ('k, 'v) table \<Rightarrow> ('k, 'v) table" where
  "drop_oldest cap t = (if length t > cap then tl t else t)"

lemma wf_table_drop_oldest [inv_intros]: "wf_table t \<Longrightarrow> wf_table (drop_oldest cap t)"
  by (simp add: drop_oldest_def wf_table_tl)

lemma length_drop_oldest: "length t \<le> Suc cap \<Longrightarrow> length (drop_oldest cap t) \<le> cap"
  by (auto simp: drop_oldest_def)

lemma table_get_drop_oldest_reinsert [table_simps]:
  assumes "0 < cap"
  shows "table_get (drop_oldest cap (reinsert k v t)) k = Some v"
proof (cases "table_delete k t")
  case Nil
  then show ?thesis using assms by (simp add: drop_oldest_def reinsert_eq)
next
  case (Cons p ps)
  have "k \<notin> fst ` set (table_delete k t)"
    by (auto simp: table_delete_filter)
  then have "map_of ps k = None" and "fst p \<noteq> k" using Cons by (auto simp: map_of_eq_None_iff)
  then show ?thesis using Cons
    by (cases p) (simp add: drop_oldest_def reinsert_eq map_add_def)
qed

lemma drop_oldest_other: "wf_table t \<Longrightarrow> table_get (drop_oldest cap t) k = None \<or> table_get (drop_oldest cap t) k = table_get t k"
proof (cases t)
  case (Cons p ps)
  assume "wf_table t"
  then have "fst p = k \<Longrightarrow> k \<notin> fst ` set ps" using Cons by (auto simp: wf_table_def)
  then show ?thesis using Cons by (cases p) (auto simp: drop_oldest_def map_of_eq_None_iff)
qed (simp add: drop_oldest_def)

subsection \<open>Sets and lists\<close>

text \<open>\<open>[...new Set(xs)]\<close>: each element once, in the order of first insertion.\<close>

definition js_set :: "'a list \<Rightarrow> 'a list" where
  "js_set xs = rev (remdups (rev xs))"

lemma set_js_set [simp]: "set (js_set xs) = set xs"
  by (simp add: js_set_def)

lemma distinct_js_set [simp]: "distinct (js_set xs)"
  by (simp add: js_set_def)

text \<open>\<open>m.get(k) ?? []\<close>.\<close>

abbreviation table_list :: "('k, 'v list) table \<Rightarrow> 'k \<Rightarrow> 'v list" where
  "table_list t k \<equiv> (case table_get t k of Some xs \<Rightarrow> xs | None \<Rightarrow> [])"

text \<open>\<open>xs ?? []\<close>.\<close>

definition or_nil :: "'a list option \<Rightarrow> 'a list" where
  "or_nil x = (case x of None \<Rightarrow> [] | Some xs \<Rightarrow> xs)"

subsection \<open>Grouping\<close>

text \<open>
  The loop \<open>const g = groups.get(key) ?? fresh; ...; groups.set(key, g)\<close>: the rows of each key folded in order
  into one state, which the first of them starts.
\<close>

definition group_into :: "('a \<Rightarrow> 'k) \<Rightarrow> ('a \<Rightarrow> 's) \<Rightarrow> ('a \<Rightarrow> 's \<Rightarrow> 's) \<Rightarrow> 'a list \<Rightarrow> ('k, 's) table" where
  "group_into key start step xs =
     fold (\<lambda>x t. table_set (key x) (step x (case table_get t (key x) of Some s \<Rightarrow> s | None \<Rightarrow> start x)) t) xs []"

lemma group_into_snoc:
  "group_into key start step (xs @ [x]) =
     (let t = group_into key start step xs
      in table_set (key x) (step x (case table_get t (key x) of Some s \<Rightarrow> s | None \<Rightarrow> start x)) t)"
  by (simp add: group_into_def Let_def)

lemma group_into_Nil [simp]: "group_into key start step [] = []"
  by (simp add: group_into_def)

lemma wf_group_into [simp]: "wf_table (group_into key start step xs)"
  by (induction xs rule: rev_induct) (simp_all add: group_into_snoc Let_def wf_table_set)

lemma group_into_get:
  "table_get (group_into key start step xs) k =
     (let ys = filter (\<lambda>x. key x = k) xs in if ys = [] then None else Some (fold step ys (start (hd ys))))"
proof (induction xs rule: rev_induct)
  case Nil
  then show ?case by simp
next
  case (snoc x xs)
  show ?case
  proof (cases "key x = k")
    case True
    then show ?thesis using snoc by (simp add: group_into_snoc Let_def table_simps hd_append)
  next
    case False
    then show ?thesis using snoc by (simp add: group_into_snoc Let_def table_simps)
  qed
qed

lemma group_into_keys: "fst ` set (group_into key start step xs) = key ` set xs"
proof -
  have "fst ` set (group_into key start step xs) = {k. table_get (group_into key start step xs) k \<noteq> None}"
    by (simp add: dom_map_of_conv_image_fst [symmetric] dom_def)
  then show ?thesis by (auto simp: group_into_get Let_def filter_empty_conv)
qed

lemma group_into_entry:
  "(k, s) \<in> set (group_into key start step xs) \<longleftrightarrow>
     k \<in> key ` set xs \<and> s = (let ys = filter (\<lambda>x. key x = k) xs in fold step ys (start (hd ys)))"
proof -
  have "(k, s) \<in> set (group_into key start step xs) \<longleftrightarrow> table_get (group_into key start step xs) k = Some s"
    using wf_table_get [OF wf_group_into] table_get_in_set by metis
  then show ?thesis by (auto simp: group_into_get Let_def filter_empty_conv)
qed

text \<open>Every row is in the group of its key and no other: figures per row add up over the groups.\<close>

lemma sum_over_keys:
  "distinct ks \<Longrightarrow> key ` set xs \<subseteq> set ks \<Longrightarrow> sum_list (map (\<lambda>k. sum_list (map f (filter (\<lambda>x. key x = k) xs))) ks) = sum_list (map f xs)"
  for f :: "'a \<Rightarrow> 'b :: comm_monoid_add"
proof (induction xs)
  case (Cons x xs)
  have "sum_list (map (\<lambda>k. sum_list (map f (filter (\<lambda>y. key y = k) (x # xs)))) ks)
      = sum_list (map (\<lambda>k. (if key x = k then f x else 0) + sum_list (map f (filter (\<lambda>y. key y = k) xs))) ks)"
    by (rule arg_cong [where f = sum_list], rule map_cong) auto
  also have "\<dots> = sum_list (map (\<lambda>k. if key x = k then f x else 0) ks) + sum_list (map f xs)"
    using Cons by (simp add: sum_list_addf)
  also have "sum_list (map (\<lambda>k. if key x = k then f x else 0) ks) = f x"
    using Cons.prems by (simp add: sum_list_distinct_conv_sum_set)
  finally show ?case by simp
qed simp

lemma sum_over_groups:
  "sum_list (map (\<lambda>k. sum_list (map f (filter (\<lambda>x. key x = k) xs))) (map fst (group_into key start step xs))) = sum_list (map f xs)"
  for f :: "'a \<Rightarrow> 'b :: comm_monoid_add"
proof (rule sum_over_keys)
  show "distinct (map fst (group_into key start step xs))" using wf_group_into [of key start step xs] by (simp add: wf_table_def)
  show "key ` set xs \<subseteq> set (map fst (group_into key start step xs))" by (simp add: group_into_keys)
qed

subsection \<open>Pages\<close>

text \<open>\<open>xs.slice((page - 1) * pageSize, page * pageSize)\<close> for a page from 1 on.\<close>

definition page_of :: "'a list \<Rightarrow> nat \<Rightarrow> nat \<Rightarrow> 'a list" where
  "page_of xs page n = take n (drop ((page - 1) * n) xs)"

lemma pages_tile: "concat (map (\<lambda>p. page_of xs (Suc p) n) [0..<m]) = take (m * n) xs"
proof (induction m)
  case (Suc m)
  have "take (m * n) xs @ take n (drop (m * n) xs) = take (m * n + n) xs"
    by (simp add: take_add)
  then show ?case using Suc by (simp add: page_of_def add.commute)
qed simp

lemma all_pages: "0 < n \<Longrightarrow> concat (map (\<lambda>p. page_of xs (Suc p) n) [0..<Suc (length xs div n)]) = xs"
proof -
  assume "0 < n"
  then have "length xs < Suc (length xs div n) * n" by (rule dividend_less_times_div [THEN order_less_le_trans]) simp
  then show ?thesis unfolding pages_tile by simp
qed

lemma set_page_of: "set (page_of xs p n) \<subseteq> set xs"
  using set_take_subset [of n "drop ((p - 1) * n) xs"] set_drop_subset [of "(p - 1) * n" xs] by (simp add: page_of_def)

lemma length_page_of: "length (page_of xs p n) \<le> n"
  by (simp add: page_of_def)

subsection \<open>Sorting\<close>

text \<open>
  \<open>xs.sort(cmp)\<close> is stable. For a comparator that orders consistently every stable sort gives the same
  list, so an insertion sort stands for it. A comparator is a sign; \<open>a || b\<close> tries the next one.
\<close>

fun sort_insert :: "('a \<Rightarrow> 'a \<Rightarrow> int) \<Rightarrow> 'a \<Rightarrow> 'a list \<Rightarrow> 'a list" where
  "sort_insert cmp x [] = [x]"
| "sort_insert cmp x (y # ys) = (if cmp x y \<le> 0 then x # y # ys else y # sort_insert cmp x ys)"

definition js_sort :: "('a \<Rightarrow> 'a \<Rightarrow> int) \<Rightarrow> 'a list \<Rightarrow> 'a list" where
  "js_sort cmp xs = foldr (sort_insert cmp) xs []"

definition compare :: "'a :: linorder \<Rightarrow> 'a \<Rightarrow> int" where
  "compare a b = (if a < b then -1 else if b < a then 1 else 0)"

definition or_else :: "int \<Rightarrow> int \<Rightarrow> int" where
  "or_else a b = (if a \<noteq> 0 then a else b)"

lemma set_sort_insert [simp]: "set (sort_insert cmp x ys) = insert x (set ys)"
  by (induction ys) auto

lemma length_sort_insert [simp]: "length (sort_insert cmp x ys) = Suc (length ys)"
  by (induction ys) auto

lemma set_js_sort [simp]: "set (js_sort cmp xs) = set xs"
  by (induction xs) (auto simp: js_sort_def)

lemma length_js_sort [simp]: "length (js_sort cmp xs) = length xs"
  by (induction xs) (auto simp: js_sort_def)

lemma mset_sort_insert: "mset (sort_insert cmp x ys) = add_mset x (mset ys)"
  by (induction ys) auto

lemma mset_js_sort [simp]: "mset (js_sort cmp xs) = mset xs"
  by (induction xs) (auto simp: js_sort_def mset_sort_insert)

lemma distinct_map_js_sort [simp]: "distinct (map f (js_sort cmp xs)) \<longleftrightarrow> distinct (map f xs)"
  by (metis mset_eq_imp_distinct_iff mset_js_sort mset_map)

lemma js_sort_Nil [simp]: "js_sort cmp [] = []"
  by (simp add: js_sort_def)

lemma js_sort_eq_Nil [simp]: "js_sort cmp xs = [] \<longleftrightarrow> xs = []"
  by (metis length_0_conv length_js_sort)

lemma sum_sort_insert: "sum_list (map f (sort_insert cmp x ys)) = f x + sum_list (map f ys)"
  for f :: "'a \<Rightarrow> 'b :: comm_monoid_add"
  by (induction ys) (auto simp: add_ac)

lemma sum_js_sort [simp]: "sum_list (map f (js_sort cmp xs)) = sum_list (map f xs)"
  for f :: "'a \<Rightarrow> 'b :: comm_monoid_add"
  by (induction xs) (auto simp: js_sort_def sum_sort_insert)

definition consistent :: "('a \<Rightarrow> 'a \<Rightarrow> int) \<Rightarrow> bool" where
  "consistent cmp \<longleftrightarrow> (\<forall>a b. 0 < cmp a b \<longrightarrow> cmp b a \<le> 0) \<and> (\<forall>a b c. cmp a b \<le> 0 \<longrightarrow> cmp b c \<le> 0 \<longrightarrow> cmp a c \<le> 0)"

lemma sorted_sort_insert:
  assumes "consistent cmp"
  shows "sorted_wrt (\<lambda>a b. cmp a b \<le> 0) ys \<Longrightarrow> sorted_wrt (\<lambda>a b. cmp a b \<le> 0) (sort_insert cmp x ys)"
proof (induction ys)
  case Nil
  then show ?case by simp
next
  case (Cons y ys)
  show ?case
  proof (cases "cmp x y \<le> 0")
    case True
    then have "\<forall>z \<in> set ys. cmp x z \<le> 0" using Cons.prems assms unfolding consistent_def by auto
    then show ?thesis using True Cons.prems by simp
  next
    case False
    then have "cmp y x \<le> 0" using assms unfolding consistent_def by auto
    then show ?thesis using False Cons by auto
  qed
qed

lemma sorted_js_sort: "consistent cmp \<Longrightarrow> sorted_wrt (\<lambda>a b. cmp a b \<le> 0) (js_sort cmp xs)"
  by (induction xs) (simp_all add: js_sort_def sorted_sort_insert)

lemma consistent_key: "consistent (\<lambda>a b. compare (f a) (f b))"
  by (auto simp: consistent_def compare_def split: if_splits)

lemma or_else_signs:
  "or_else (compare x y) c \<le> 0 \<longleftrightarrow> x < y \<or> (x = y \<and> c \<le> 0)"
  "0 < or_else (compare x y) c \<longleftrightarrow> y < x \<or> (x = y \<and> 0 < c)"
  by (auto simp: or_else_def compare_def)

lemma consistent_or_else:
  assumes "consistent g"
  shows "consistent (\<lambda>a b. or_else (compare (f a) (f b)) (g a b))"
proof -
  have anti: "0 < g a b \<Longrightarrow> g b a \<le> 0" and trans: "g a b \<le> 0 \<Longrightarrow> g b c \<le> 0 \<Longrightarrow> g a c \<le> 0" for a b c
    using assms unfolding consistent_def by blast+
  show ?thesis unfolding consistent_def or_else_signs
  proof (intro conjI allI impI)
    fix a b assume "f b < f a \<or> (f a = f b \<and> 0 < g a b)"
    then show "f b < f a \<or> (f b = f a \<and> g b a \<le> 0)" using anti by auto
  next
    fix a b c assume "f a < f b \<or> (f a = f b \<and> g a b \<le> 0)" "f b < f c \<or> (f b = f c \<and> g b c \<le> 0)"
    then show "f a < f c \<or> (f a = f c \<and> g a c \<le> 0)" using trans [of a b c] by auto
  qed
qed

text \<open>Largest first, and the first rows of such a list.\<close>

lemma consistent_down: "consistent (\<lambda>a b. compare (f b) (f a))"
  by (auto simp: consistent_def compare_def split: if_splits)

lemma largest_first: "sorted_wrt (\<lambda>a b. f b \<le> f a) (js_sort (\<lambda>a b. compare (f b) (f a)) xs)"
  by (rule sorted_wrt_mono_rel [OF _ sorted_js_sort [OF consistent_down]]) (auto simp: compare_def split: if_splits)

lemma first_rows_before_rest:
  assumes "sorted_wrt R ys" "y \<in> set (take n ys)" "x \<in> set ys" "x \<notin> set (take n ys)"
  shows "R y x"
proof -
  have "sorted_wrt R (take n ys @ drop n ys)" using assms(1) by simp
  moreover have "x \<in> set (drop n ys)" using assms(3,4) set_append [of "take n ys" "drop n ys"] by auto
  ultimately show ?thesis using assms(2) unfolding sorted_wrt_append by blast
qed

text \<open>\<open>xs.map(f).filter(notNull)\<close> keeps distinct keys.\<close>

lemma distinct_map_filter_key:
  "(\<And>x y. f x = Some y \<Longrightarrow> g y = k x) \<Longrightarrow> distinct (map k xs) \<Longrightarrow> distinct (map g (List.map_filter f xs))"
proof (induction xs)
  case (Cons x xs)
  have sub: "g ` set (List.map_filter f xs) \<subseteq> k ` set xs" using Cons.prems(1) by (force simp: map_filter_def)
  show ?case using Cons sub by (cases "f x") (auto simp: map_filter_simps)
qed (simp add: map_filter_simps)

subsection \<open>First and last of a sorted list\<close>

lemma find_first_sorted:
  "sorted (map c xs) \<Longrightarrow> v \<in> set xs \<Longrightarrow> P v \<Longrightarrow> (\<And>w. w \<in> set xs \<Longrightarrow> P w \<Longrightarrow> w \<noteq> v \<Longrightarrow> c v < c w) \<Longrightarrow> find P xs = Some v"
  for c :: "'a \<Rightarrow> 'b :: linorder"
proof (induction xs)
  case (Cons x xs)
  show ?case
  proof (cases "x = v")
    case False
    then have "v \<in> set xs" using Cons.prems(2) by simp
    then have "c x \<le> c v" using Cons.prems(1) by simp
    then have "\<not> P x" using Cons.prems(4) [of x] False by auto
    then show ?thesis using Cons \<open>v \<in> set xs\<close> by simp
  qed (use Cons.prems in simp)
qed simp

lemma take_last_sorted:
  "sorted (map c xs) \<Longrightarrow> v \<in> set xs \<Longrightarrow> (\<And>w. w \<in> set xs \<Longrightarrow> w \<noteq> v \<Longrightarrow> c w < c v) \<Longrightarrow> take 1 (rev xs) = [v]"
  for c :: "'a \<Rightarrow> 'b :: linorder"
proof (induction xs rule: rev_induct)
  case (snoc x xs)
  show ?case
  proof (cases "x = v")
    case False
    then have "v \<in> set xs" using snoc.prems(2) by simp
    then have "c v \<le> c x" using snoc.prems(1) by (simp add: sorted_append)
    then show ?thesis using snoc.prems(3) [of x] False by auto
  qed simp
qed simp

subsection \<open>Errors as values\<close>

text \<open>\<open>await\<close> on a call that may throw: go on with its value, or pass the error up.\<close>

fun and_then :: "'e + 'a \<Rightarrow> ('a \<Rightarrow> 'e + 'b) \<Rightarrow> 'e + 'b" where
  "and_then (Inl e) f = Inl e"
| "and_then (Inr x) f = f x"

lemma and_then_Inr: "and_then r f = Inr y \<longleftrightarrow> (\<exists>x. r = Inr x \<and> f x = Inr y)"
  by (cases r) auto

lemma and_then_Inl: "and_then r f = Inl e \<longleftrightarrow> r = Inl e \<or> (\<exists>x. r = Inr x \<and> f x = Inl e)"
  by (cases r) auto

text \<open>A run of checks, each of which may throw: the first error of the list.\<close>

fun first_error :: "'e option list \<Rightarrow> 'e option" where
  "first_error [] = None"
| "first_error (None # es) = first_error es"
| "first_error (Some e # es) = Some e"

lemma first_error_None: "first_error es = None \<longleftrightarrow> (\<forall>e \<in> set es. e = None)"
  by (induction es rule: first_error.induct) auto

text \<open>\<open>Promise.all\<close>: all values, or an error, here the first of the list.\<close>

fun all_or_error :: "('e + 'a) list \<Rightarrow> 'e + 'a list" where
  "all_or_error [] = Inr []"
| "all_or_error (Inl e # rs) = Inl e"
| "all_or_error (Inr a # rs) = (case all_or_error rs of Inl e \<Rightarrow> Inl e | Inr as \<Rightarrow> Inr (a # as))"

lemma all_or_error_Inr: "all_or_error (map (\<lambda>s. Inr (f s)) ss) = Inr (map f ss)"
  by (induction ss) auto

lemma all_or_error_Some: "(\<And>x. x \<in> set xs \<Longrightarrow> \<exists>b. f x = Inr (g x, b)) \<Longrightarrow>
  \<exists>rs. all_or_error (map f xs) = Inr rs \<and> map fst rs = map g xs"
proof (induction xs)
  case (Cons x xs)
  then obtain rs b where "all_or_error (map f xs) = Inr rs" "map fst rs = map g xs" "f x = Inr (g x, b)" by fastforce
  then show ?case by (intro exI [of _ "(g x, b) # rs"]) simp
qed simp

lemma map2_fst: "map fst rs = map f xs \<Longrightarrow> map2 (\<lambda>x r. g x (fst r)) xs rs = map (\<lambda>x. g x (f x)) xs"
  by (induction xs arbitrary: rs) auto

lemma set_map_filter: "set (List.map_filter f xs) = {y. \<exists>x \<in> set xs. f x = Some y}"
  by (induction xs) (auto simp: map_filter_simps split: option.split)

subsection \<open>Rounding\<close>

text \<open>\<open>Math.ceil(a / b)\<close> for whole numbers; \<open>Math.floor(a / b)\<close> is \<open>a div b\<close>.\<close>

definition ceil_div :: "int \<Rightarrow> int \<Rightarrow> int" where
  "ceil_div a b = - ((- a) div b)"

lemma int_le_div_iff: "0 < (b::int) \<Longrightarrow> k \<le> a div b \<longleftrightarrow> k * b \<le> a"
proof
  assume b: "0 < b" and le: "k * b \<le> a"
  then show "k \<le> a div b" using zdiv_mono1 [OF le b] by simp
next
  assume b: "0 < b" and le: "k \<le> a div b"
  then have "k * b \<le> (a div b) * b" by (simp add: mult_right_mono)
  also have "\<dots> \<le> a" using b pos_mod_sign [OF b, of a] div_mult_mod_eq [of a b] by linarith
  finally show "k * b \<le> a" .
qed

lemma ceil_div_le_iff: "0 < b \<Longrightarrow> ceil_div a b \<le> k \<longleftrightarrow> a \<le> k * b"
  using int_le_div_iff [of b "- k" "- a"] by (auto simp: ceil_div_def)

lemma ceil_div_lower: "0 < b \<Longrightarrow> a \<le> ceil_div a b * b"
  using ceil_div_le_iff [of b a "ceil_div a b"] by simp

text \<open>\<open>Math.round\<close> rounds halves up.\<close>

definition js_round :: "rat \<Rightarrow> int" where
  "js_round x = \<lfloor>x + 1 / 2\<rfloor>"

end
