(* ===== verification/JsText.thy ===== *)
theory JsText
  imports Prelude "HOL-Library.Char_ord"
begin

text \<open>
  The part of JavaScript's strings and numbers the server uses. A string is a list of characters
  of the Latin-1 range; numbers are exact rationals with \<open>NaN\<close> and the infinities (a decimal text
  whose magnitude reaches \<open>2^1024 - 2^970\<close> reads as infinite, as in IEEE double precision; the
  rounding of smaller texts to 53 bits is not modelled).
\<close>

subsection \<open>Values and numbers\<close>

datatype jsnum = NaN | PosInf | NegInf | Num rat

text \<open>A JSON value, and \<open>undefined\<close>: what arrives in a query string or a request body.\<close>

datatype jsval =
    JUndef
  | JNull
  | JBool bool
  | JNum rat
  | JStr string
  | JArr "jsval list"
  | JObj "(string \<times> jsval) list"

subsection \<open>Digits\<close>

definition is_digit :: "char \<Rightarrow> bool" where
  "is_digit c \<longleftrightarrow> CHR ''0'' \<le> c \<and> c \<le> CHR ''9''"

definition digit_val :: "char \<Rightarrow> nat" where
  "digit_val c = of_char c - 48"

definition digit_char :: "nat \<Rightarrow> char" where
  "digit_char d = char_of (48 + d)"

text \<open>The value of a text of decimal digits (Horner's rule from the left).\<close>

definition digits_val :: "string \<Rightarrow> nat" where
  "digits_val s = foldl (\<lambda>n c. 10 * n + digit_val c) 0 s"

definition all_digits :: "string \<Rightarrow> bool" where
  "all_digits s \<longleftrightarrow> list_all is_digit s"

fun show_nat :: "nat \<Rightarrow> string" where
  "show_nat n = (if n < 10 then [digit_char n] else show_nat (n div 10) @ [digit_char (n mod 10)])"

declare show_nat.simps [simp del]

definition show_int :: "int \<Rightarrow> string" where
  "show_int i = (if i < 0 then CHR ''-'' # show_nat (nat (- i)) else show_nat (nat i))"

text \<open>\<open>String(n).padStart(2, '0')\<close>.\<close>

definition pad2 :: "nat \<Rightarrow> string" where
  "pad2 n = (if n < 10 then CHR ''0'' # show_nat n else show_nat n)"

lemma is_digit_iff: "is_digit c \<longleftrightarrow> 48 \<le> (of_char c :: nat) \<and> (of_char c :: nat) \<le> 57"
  by (simp add: is_digit_def less_eq_char_def)

lemma digit_char_digit [simp]: "d < 10 \<Longrightarrow> is_digit (digit_char d)"
  by (simp add: is_digit_iff digit_char_def)

lemma digit_val_char [simp]: "d < 10 \<Longrightarrow> digit_val (digit_char d) = d"
  by (simp add: digit_val_def digit_char_def)

lemma digit_val_less: "is_digit c \<Longrightarrow> digit_val c < 10"
  by (auto simp: is_digit_iff digit_val_def)

lemma digit_char_val: "is_digit c \<Longrightarrow> digit_char (digit_val c) = c"
  by (simp add: is_digit_iff digit_val_def digit_char_def)

lemma all_digits_simps [simp]:
  "all_digits []" "all_digits (c # s) \<longleftrightarrow> is_digit c \<and> all_digits s"
  "all_digits (s @ t) \<longleftrightarrow> all_digits s \<and> all_digits t"
  by (auto simp: all_digits_def)

lemma digits_val_snoc [simp]: "digits_val (s @ [c]) = 10 * digits_val s + digit_val c"
  by (simp add: digits_val_def)

lemma digits_val_Nil [simp]: "digits_val [] = 0"
  by (simp add: digits_val_def)

lemma show_nat_correct: "all_digits (show_nat n) \<and> digits_val (show_nat n) = n \<and> show_nat n \<noteq> []"
proof (induction n rule: show_nat.induct)
  case (1 n)
  show ?case
  proof (cases "n < 10")
    case True
    then show ?thesis by (simp add: show_nat.simps [of n] digits_val_def)
  next
    case False
    then show ?thesis using 1 by (simp add: show_nat.simps [of n])
  qed
qed

lemmas show_nat_digits [simp] = show_nat_correct [THEN conjunct1]
lemmas digits_val_show [simp] = show_nat_correct [THEN conjunct2, THEN conjunct1]
lemmas show_nat_nonempty [simp] = show_nat_correct [THEN conjunct2, THEN conjunct2]

lemma show_nat_inj: "show_nat m = show_nat n \<longleftrightarrow> m = n"
  by (metis digits_val_show)

subsection \<open>String methods\<close>

definition is_space :: "char \<Rightarrow> bool" where
  "is_space c \<longleftrightarrow> c \<in> {CHR '' '', CHR 0x09, CHR 0x0A, CHR 0x0B, CHR 0x0C, CHR 0x0D, CHR 0xA0}"

definition trim :: "string \<Rightarrow> string" where
  "trim s = rev (dropWhile is_space (rev (dropWhile is_space s)))"

definition startsWith :: "string \<Rightarrow> string \<Rightarrow> bool" where
  "startsWith s p \<longleftrightarrow> take (length p) s = p"

text \<open>\<open>s.split(c)\<close> for a one-character separator: never empty.\<close>

fun split_on :: "char \<Rightarrow> string \<Rightarrow> string list" where
  "split_on c [] = [[]]"
| "split_on c (x # s) =
     (if x = c then [] # split_on c s
      else (case split_on c s of [] \<Rightarrow> [[x]] | w # ws \<Rightarrow> (x # w) # ws))"

text \<open>
  Case, for the Latin-1 letters. (Upper case leaves the range for three of them, the sharp s, the
  micro sign and y with diaeresis: these stay as they are here.)
\<close>

definition lower_char :: "char \<Rightarrow> char" where
  "lower_char c = (if (CHR ''A'' \<le> c \<and> c \<le> CHR ''Z'') \<or> (CHR 0xC0 \<le> c \<and> c \<le> CHR 0xDE \<and> c \<noteq> CHR 0xD7)
     then char_of (of_char c + (32::nat)) else c)"

definition upper_char :: "char \<Rightarrow> char" where
  "upper_char c = (if (CHR ''a'' \<le> c \<and> c \<le> CHR ''z'') \<or> (CHR 0xE0 \<le> c \<and> c \<le> CHR 0xFE \<and> c \<noteq> CHR 0xF7)
     then char_of (of_char c - (32::nat)) else c)"

definition toLowerCase :: "string \<Rightarrow> string" where "toLowerCase s = map lower_char s"
definition toUpperCase :: "string \<Rightarrow> string" where "toUpperCase s = map upper_char s"

fun join :: "string \<Rightarrow> string list \<Rightarrow> string" where
  "join sep [] = []"
| "join sep [w] = w"
| "join sep (w # v # ws) = w @ sep @ join sep (v # ws)"

lemma split_on_plain: "c \<notin> set w \<Longrightarrow> split_on c w = [w]"
  by (induction w) auto

lemma split_on_append: "c \<notin> set w \<Longrightarrow> split_on c (w @ c # s) = w # split_on c s"
  by (induction w) auto

lemma split_join: "ws \<noteq> [] \<Longrightarrow> \<forall>w \<in> set ws. c \<notin> set w \<Longrightarrow> split_on c (join [c] ws) = ws"
  by (induction "[c]" ws rule: join.induct) (simp_all add: split_on_plain split_on_append)

lemma set_join: "set (join sep ws) \<subseteq> \<Union> (set ` set ws) \<union> set sep"
  by (induction sep ws rule: join.induct) auto

lemma dropWhile_space_digits: "all_digits s \<Longrightarrow> dropWhile is_space s = s"
  by (cases s) (auto simp: is_space_def is_digit_def less_eq_char_def)

lemma all_digits_rev [simp]: "all_digits (rev s) \<longleftrightarrow> all_digits s"
  by (simp add: all_digits_def list_all_rev)

lemma trim_digits [simp]: "all_digits s \<Longrightarrow> trim s = s"
  by (simp add: trim_def dropWhile_space_digits)

subsection \<open>\<open>Number(text)\<close>\<close>

definition inf_bound :: rat where "inf_bound = 2 ^ 1024 - 2 ^ 970"

definition to_jsnum :: "rat \<Rightarrow> jsnum" where
  "to_jsnum q = (if q \<ge> inf_bound then PosInf else if q \<le> - inf_bound then NegInf else Num q)"

text \<open>A mantissa: digits with at most one point, at least one digit.\<close>

definition parse_mantissa :: "string \<Rightarrow> rat option" where
  "parse_mantissa s =
     (let ip = takeWhile is_digit s; rest = drop (length ip) s in
      case rest of
        [] \<Rightarrow> (if ip = [] then None else Some (of_nat (digits_val ip)))
      | c # fp \<Rightarrow>
          (if c = CHR ''.'' \<and> all_digits fp \<and> (ip \<noteq> [] \<or> fp \<noteq> [])
           then Some (of_nat (digits_val (ip @ fp)) / 10 ^ length fp) else None))"

definition parse_signed_digits :: "string \<Rightarrow> int option" where
  "parse_signed_digits s =
     (let (neg, d) = (case s of c # r \<Rightarrow> if c = CHR ''-'' then (True, r) else if c = CHR ''+'' then (False, r) else (False, s)
                      | [] \<Rightarrow> (False, []))
      in if d \<noteq> [] \<and> all_digits d then Some (if neg then - int (digits_val d) else int (digits_val d)) else None)"

definition scale10 :: "rat \<Rightarrow> int \<Rightarrow> rat" where
  "scale10 q e = (if e \<ge> 0 then q * 10 ^ nat e else q / 10 ^ nat (- e))"

definition parse_unsigned :: "string \<Rightarrow> rat option" where
  "parse_unsigned s =
     (let m = takeWhile (\<lambda>c. c \<noteq> CHR ''e'' \<and> c \<noteq> CHR ''E'') s; rest = drop (length m) s in
      case rest of
        [] \<Rightarrow> parse_mantissa m
      | _ # ex \<Rightarrow> (case (parse_mantissa m, parse_signed_digits ex) of
           (Some q, Some e) \<Rightarrow> Some (scale10 q e) | _ \<Rightarrow> None))"

fun radix_digit :: "char \<Rightarrow> nat" where
  "radix_digit c = (if is_digit c then digit_val c
     else let l = lower_char c in if CHR ''a'' \<le> l \<and> l \<le> CHR ''f'' then of_char l - 87 else 99)"

definition parse_radix :: "nat \<Rightarrow> string \<Rightarrow> jsnum" where
  "parse_radix b s =
     (if s \<noteq> [] \<and> list_all (\<lambda>c. radix_digit c < b) s
      then to_jsnum (of_nat (foldl (\<lambda>n c. b * n + radix_digit c) 0 s)) else NaN)"

definition parse_decimal :: "string \<Rightarrow> jsnum" where
  "parse_decimal s =
     (let (neg, d) = (case s of c # r \<Rightarrow> if c = CHR ''-'' then (True, r) else if c = CHR ''+'' then (False, r) else (False, s)
                      | [] \<Rightarrow> (False, []))
      in if d = ''Infinity'' then (if neg then NegInf else PosInf)
         else case parse_unsigned d of None \<Rightarrow> NaN | Some q \<Rightarrow> to_jsnum (if neg then - q else q))"

definition js_number :: "string \<Rightarrow> jsnum" where
  "js_number raw =
     (let s = trim raw in
      if s = [] then Num 0
      else if length s \<ge> 2 \<and> s ! 0 = CHR ''0'' \<and> s ! 1 \<in> {CHR ''x'', CHR ''X''} then parse_radix 16 (drop 2 s)
      else if length s \<ge> 2 \<and> s ! 0 = CHR ''0'' \<and> s ! 1 \<in> {CHR ''o'', CHR ''O''} then parse_radix 8 (drop 2 s)
      else if length s \<ge> 2 \<and> s ! 0 = CHR ''0'' \<and> s ! 1 \<in> {CHR ''b'', CHR ''B''} then parse_radix 2 (drop 2 s)
      else parse_decimal s)"

lemma takeWhile_digits_all: "all_digits s \<Longrightarrow> takeWhile is_digit s = s"
  by (simp add: all_digits_def list_all_iff takeWhile_eq_all_conv)

lemma digit_not: "is_digit c \<Longrightarrow> c \<noteq> CHR ''e'' \<and> c \<noteq> CHR ''E'' \<and> c \<noteq> CHR ''-'' \<and> c \<noteq> CHR ''+'' \<and> c \<noteq> CHR ''x''
   \<and> c \<noteq> CHR ''X'' \<and> c \<noteq> CHR ''o'' \<and> c \<noteq> CHR ''O'' \<and> c \<noteq> CHR ''b'' \<and> c \<noteq> CHR ''B'' \<and> c \<noteq> CHR ''I''
   \<and> c \<noteq> CHR ''.''"
  by (auto simp: is_digit_def less_eq_char_def)

lemma takeWhile_no_exp: "all_digits s \<Longrightarrow> takeWhile (\<lambda>c. c \<noteq> CHR ''e'' \<and> c \<noteq> CHR ''E'') s = s"
  by (induction s) (auto dest: digit_not)

lemma parse_unsigned_digits: "all_digits s \<Longrightarrow> s \<noteq> [] \<Longrightarrow> parse_unsigned s = Some (of_nat (digits_val s))"
  by (simp add: parse_unsigned_def takeWhile_no_exp parse_mantissa_def takeWhile_digits_all)

lemma js_number_digits:
  assumes "all_digits s" "s \<noteq> []"
  shows "js_number s = to_jsnum (of_nat (digits_val s))"
proof -
  obtain c r where s: "s = c # r" using assms(2) by (cases s) auto
  have c: "is_digit c" "all_digits r" using assms(1) s by auto
  have "parse_decimal s = to_jsnum (of_nat (digits_val s))"
    using digit_not [OF c(1)] parse_unsigned_digits [OF assms] s by (auto simp: parse_decimal_def)
  moreover have "length s \<ge> 2 \<Longrightarrow> is_digit (s ! 1)" using assms(1) by (simp add: all_digits_def list_all_length)
  then have "js_number s = parse_decimal s"
    using assms digit_not [of "s ! 1"] by (auto simp: js_number_def Let_def)
  ultimately show ?thesis by simp
qed

lemma js_number_show: "of_nat n < inf_bound \<Longrightarrow> js_number (show_nat n) = Num (of_nat n)"
  by (simp add: js_number_digits to_jsnum_def inf_bound_def)

subsection \<open>Numbers in Zabbix rows\<close>

text \<open>
  Zabbix's API sends whole numbers as decimal text. \<open>num0\<close> is \<open>Number(s) || 0\<close> on such a field, which may
  be absent; a text that is a number but not a whole one, which the API never sends there, is read as
  its floor. \<open>num_above\<close> and \<open>num_below\<close> are the comparisons \<open>Number(s) > x\<close> and \<open>Number(s) < x\<close>,
  false on \<open>NaN\<close>.
\<close>

definition num0 :: "string option \<Rightarrow> int" where
  "num0 f = (case f of None \<Rightarrow> 0 | Some s \<Rightarrow> (case js_number s of Num q \<Rightarrow> \<lfloor>q\<rfloor> | _ \<Rightarrow> 0))"

definition num_above :: "string \<Rightarrow> int \<Rightarrow> bool" where
  "num_above s x = (case js_number s of Num q \<Rightarrow> of_int x < q | PosInf \<Rightarrow> True | _ \<Rightarrow> False)"

definition num_below :: "string \<Rightarrow> int \<Rightarrow> bool" where
  "num_below s x = (case js_number s of Num q \<Rightarrow> q < of_int x | NegInf \<Rightarrow> True | _ \<Rightarrow> False)"

lemma inf_bound_large: "10 ^ 300 < inf_bound"
  by (simp add: inf_bound_def)

lemma num0_show [simp]: "n < 10 ^ 300 \<Longrightarrow> num0 (Some (show_nat n)) = int n"
proof -
  assume "n < 10 ^ 300"
  then have "(of_nat n :: rat) < of_nat (10 ^ 300)" by (simp only: of_nat_less_iff)
  then have "(of_nat n :: rat) < inf_bound" using inf_bound_large by (simp add: order_less_trans)
  then show ?thesis by (simp add: num0_def js_number_show)
qed

text \<open>The sign of \<open>a - b\<close>, as a comparator uses it; a difference that is \<open>NaN\<close> counts as equal.\<close>

definition sign_minus :: "jsnum \<Rightarrow> jsnum \<Rightarrow> int" where
  "sign_minus a b =
     (case (a, b) of
        (Num x, Num y) \<Rightarrow> compare x y
      | (NaN, _) \<Rightarrow> 0 | (_, NaN) \<Rightarrow> 0
      | (PosInf, PosInf) \<Rightarrow> 0 | (NegInf, NegInf) \<Rightarrow> 0
      | (PosInf, _) \<Rightarrow> 1 | (_, PosInf) \<Rightarrow> -1 | (NegInf, _) \<Rightarrow> -1 | (_, NegInf) \<Rightarrow> 1)"

text \<open>\<open>Number(s)\<close> of a field that may be missing, and a finite number or nothing.\<close>

definition number_of :: "string option \<Rightarrow> jsnum" where
  "number_of f = (case f of None \<Rightarrow> NaN | Some s \<Rightarrow> js_number s)"

definition finite_number :: "jsnum \<Rightarrow> rat option" where
  "finite_number n = (case n of Num q \<Rightarrow> Some q | _ \<Rightarrow> None)"

lemma num0_None [simp]: "num0 None = 0"
  by (simp add: num0_def)

subsection \<open>The order of an object's keys\<close>

text \<open>
  \<open>Object.values\<close> lists the keys that are array indices first, in their order as numbers, and then the others as
  they were inserted.
\<close>

definition array_index :: "string \<Rightarrow> nat option" where
  "array_index k =
     (let n = digits_val k in
      if k \<noteq> [] \<and> all_digits k \<and> show_nat n = k \<and> n < 2 ^ 32 - 1 then Some n else None)"

definition object_entries :: "(string, 'v) table \<Rightarrow> (string \<times> 'v) list" where
  "object_entries t =
     js_sort (\<lambda>a b. compare (array_index (fst a) = None) (array_index (fst b) = None))
       (js_sort (\<lambda>a b. compare (case array_index (fst a) of Some n \<Rightarrow> n | None \<Rightarrow> 0) (case array_index (fst b) of Some n \<Rightarrow> n | None \<Rightarrow> 0)) t)"

lemma mset_object_entries [simp]: "mset (object_entries t) = mset t"
  by (simp add: object_entries_def)

lemma set_object_entries [simp]: "set (object_entries t) = set t"
  by (simp add: object_entries_def)

lemma length_object_entries [simp]: "length (object_entries t) = length t"
  by (simp add: object_entries_def)

end
