(* ===== verification/Requests.thy ===== *)
theory Requests
  imports JsText
begin

text \<open>
  Reading a request: query-string validation (\<open>server/src/core/validate.ts\<close>), the sentences for a
  body that fails its schema (\<open>server/src/core/schemas.ts\<close>) and the \<open>Accept-Encoding\<close> header
  (\<open>server/src/core/acceptEncoding.ts\<close>). A thrown error is a value of \<open>api_error\<close>.
\<close>

datatype api_error =
    BadRequestError string
  | ZabbixApiError string
  | RangeError string

subsection \<open>\<open>validate.ts\<close>\<close>

definition requireId :: "jsval \<Rightarrow> string \<Rightarrow> api_error + string" where
  "requireId v name =
     (case v of
        JStr s \<Rightarrow>
          (if s \<noteq> [] \<and> all_digits s then Inr s
           else Inl (BadRequestError (name @ '' is required and must be a numeric Zabbix id.'')))
      | _ \<Rightarrow> Inl (BadRequestError (name @ '' is required and must be a numeric Zabbix id.'')))"

definition optionalId :: "jsval \<Rightarrow> string \<Rightarrow> api_error + string option" where
  "optionalId v name =
     (if v = JUndef \<or> v = JStr [] then Inr None
      else case requireId v name of Inl e \<Rightarrow> Inl e | Inr s \<Rightarrow> Inr (Some s))"

definition js_trunc :: "rat \<Rightarrow> int" where
  "js_trunc q = (if q \<ge> 0 then \<lfloor>q\<rfloor> else \<lceil>q\<rceil>)"

definition intParam :: "jsval \<Rightarrow> int \<Rightarrow> int \<Rightarrow> int \<Rightarrow> int" where
  "intParam v fallback lo hi =
     (let parsed = (case v of
            JStr s \<Rightarrow> (if trim s \<noteq> [] then (case js_number s of Num q \<Rightarrow> Some (js_trunc q) | _ \<Rightarrow> None) else None)
          | _ \<Rightarrow> None);
          n = (case parsed of Some i \<Rightarrow> i | None \<Rightarrow> fallback)
      in min (max n lo) hi)"

subsection \<open>\<open>acceptEncoding.ts\<close>\<close>

text \<open>A header is absent, sent once, or sent several times.\<close>

datatype header_val = NoHeader | OneHeader string | ManyHeaders "string list"

definition coding_step :: "string \<Rightarrow> (string, rat) table \<Rightarrow> (string, rat) table" where
  "coding_step part weights =
     (let ws = map (\<lambda>s. toLowerCase (trim s)) (split_on CHR '';'' part);
          name = hd ws; params = tl ws in
      if name = [] then weights
      else
        let weight = (case find (\<lambda>p. startsWith p ''q='') params of
               None \<Rightarrow> 1
             | Some q \<Rightarrow> (case js_number (drop 2 q) of Num w \<Rightarrow> w | _ \<Rightarrow> 0))
        in table_set name weight weights)"

definition codingWeight :: "header_val \<Rightarrow> string \<Rightarrow> rat" where
  "codingWeight header coding =
     (let text = (case header of NoHeader \<Rightarrow> [] | OneHeader s \<Rightarrow> s | ManyHeaders ss \<Rightarrow> join '','' ss);
          weights = fold coding_step (split_on CHR '','' text) []
      in case table_get weights coding of Some w \<Rightarrow> w
         | None \<Rightarrow> (case table_get weights ''*'' of Some w \<Rightarrow> w | None \<Rightarrow> 0))"

definition acceptsGzip :: "header_val \<Rightarrow> bool" where
  "acceptsGzip header \<longleftrightarrow> codingWeight header ''gzip'' > 0"

subsection \<open>\<open>schemas.ts\<close>: one sentence per validation error\<close>

text \<open>\<open>/messages/0/role\<close> as \<open>messages[0].role\<close>.\<close>

fun field_parts :: "nat \<Rightarrow> string list \<Rightarrow> string" where
  "field_parts i [] = []"
| "field_parts i (part # ps) =
     (if part \<noteq> [] \<and> all_digits part then ''['' @ part @ '']''
      else if i > 0 then ''.'' @ part else part) @ field_parts (Suc i) ps"

definition fieldName :: "string \<Rightarrow> string" where
  "fieldName pointer = field_parts 0 (filter (\<lambda>p. p \<noteq> []) (split_on CHR ''/'' pointer))"

text \<open>
  One entry of the validator's error list, with the parameters the messages read. The validator
  itself (Ajv) is third-party code.
\<close>

record problem =
  problem_keyword :: string
  problem_path :: string
  problem_missing :: string
  problem_type :: string
  problem_allowed :: "string list"
  problem_limit :: nat

definition subject_of :: "string \<Rightarrow> string" where
  "subject_of ctx =
     (if ctx = ''body'' then ''The request body'' else if ctx = ''querystring'' then ''The query string''
      else if ctx = ''params'' then ''The path'' else if ctx = ''headers'' then ''The headers''
      else ''The request'')"

definition type_word :: "string \<Rightarrow> string" where
  "type_word t =
     (if t = ''string'' then ''text'' else if t = ''boolean'' then ''true or false''
      else if t = ''array'' then ''a list'' else if t = ''object'' then ''a JSON object''
      else if t = ''integer'' then ''a whole number'' else if t = ''number'' then ''a number'' else t)"

definition validationProblem :: "problem list \<Rightarrow> string \<Rightarrow> string option" where
  "validationProblem validation ctx =
     (case validation of
        [] \<Rightarrow> None
      | p # _ \<Rightarrow>
         (let subject = subject_of ctx; name = fieldName (problem_path p);
              who = (if name = [] then subject else name); kw = problem_keyword p in
          Some
           (if kw = ''required'' then join ''.'' (filter (\<lambda>s. s \<noteq> []) [name, problem_missing p]) @ '' is required.''
            else if kw = ''type'' then
              (if ctx = ''querystring'' \<and> problem_type p = ''string'' then name @ '' must be given once.''
               else let types = split_on CHR '','' (problem_type p);
                        named = (if length types > 1 then filter (\<lambda>t. t \<noteq> ''null'') types else types)
                    in who @ '' must be '' @ join '' or '' (map type_word named) @ ''.'')
            else if kw = ''enum'' then who @ '' must be one of: '' @ join '', '' (problem_allowed p) @ ''.''
            else if kw = ''minItems'' \<or> kw = ''minLength'' then
              (if problem_limit p \<le> 1 then who @ '' must not be empty.''
               else who @ '' must have at least '' @ show_nat (problem_limit p) @ '' ''
                 @ (if kw = ''minItems'' then ''items'' else ''characters'') @ ''.'')
            else if kw = ''maxItems'' \<or> kw = ''maxLength'' then
              who @ '' must have at most '' @ show_nat (problem_limit p) @ '' ''
                @ (if kw = ''maxItems'' then ''items'' else ''characters'') @ ''.''
            else who @ '' is not valid.'')))"

subsection \<open>Lemmas\<close>

lemma js_trunc_of_int [simp]: "js_trunc (of_int i) = i"
  by (simp add: js_trunc_def)

lemma js_trunc_of_nat [simp]: "js_trunc (of_nat n) = int n"
  using js_trunc_of_int [of "int n"] by simp

lemma intParam_not_number:
  "(case v of JStr s \<Rightarrow> trim s = [] \<or> (\<forall>q. js_number s \<noteq> Num q) | _ \<Rightarrow> True) \<Longrightarrow>
   intParam v fallback lo hi = min (max fallback lo) hi"
  by (auto simp: intParam_def split: jsval.splits jsnum.splits)

lemma intParam_range: "lo \<le> hi \<Longrightarrow> lo \<le> intParam v fallback lo hi \<and> intParam v fallback lo hi \<le> hi"
  by (auto simp: intParam_def Let_def)

lemma intParam_show: "of_nat n < inf_bound \<Longrightarrow> intParam (JStr (show_nat n)) fallback lo hi = min (max (int n) lo) hi"
  by (simp add: intParam_def js_number_show)

lemma fold_coding_step_other:
  "\<forall>part \<in> set parts. toLowerCase (trim (hd (split_on CHR '';'' part))) \<noteq> c \<Longrightarrow>
   table_get (fold coding_step parts t) c = table_get t c"
proof (induction parts arbitrary: t)
  case Nil
  then show ?case by simp
next
  case (Cons part parts)
  have ne: "split_on CHR '';'' part \<noteq> []" by (cases part) (auto split: list.splits)
  have "table_get (coding_step part t) c = table_get t c"
    using Cons.prems ne by (auto simp: coding_step_def Let_def hd_map table_simps)
  then show ?case using Cons by simp
qed

subsection \<open>Properties\<close>

text \<open>
  An integer query parameter is always inside its bounds, whatever was sent (missing, a list,
  text, \<open>Infinity\<close>, \<open>NaN\<close>); a decimal text is read as its number and then clamped, and a value
  that is not a number falls back.
\<close>

theorem intParam_clamps:
  assumes "lo \<le> hi" and "of_nat n < inf_bound"
  shows "lo \<le> intParam v fallback lo hi \<and> intParam v fallback lo hi \<le> hi
    \<and> intParam (JStr (show_nat n)) fallback lo hi = min (max (int n) lo) hi
    \<and> ((\<forall>s. v \<noteq> JStr s) \<longrightarrow> intParam v fallback lo hi = min (max fallback lo) hi)"
  using intParam_range [OF assms(1)] intParam_show [OF assms(2)] intParam_not_number [of v]
  by (auto split: jsval.splits)

theorem intParam_clamps_witness:
  "intParam (JStr (show_nat 9999)) 30 1 365 = 365 \<and> intParam JUndef 30 1 365 = 30"
  using intParam_clamps [of 1 365 9999 JUndef 30] by (auto simp: inf_bound_def)

end
