(* ===== verification/Gate.thy ===== *)
theory Gate
  imports Requests
begin

text \<open>
  The gate for slow reports (\<open>server/src/core/gate.ts\<close>): at most \<open>limit\<close> jobs run at once, the rest
  wait first come first served. The closure's two variables are the state; \<open>run\<close> is split at its
  \<open>await\<close>s into an arrival and an end, whichever way the job ends. The lists \<open>arrived\<close> and \<open>started\<close>
  record the history for the statements and are not read by any step.
\<close>

record 'j gate =
  gate_limit :: nat
  running :: nat
  queue :: "'j list"
  active :: "'j list"
  arrived :: "'j list"
  started :: "'j list"

definition createGate :: "jsnum \<Rightarrow> api_error + 'j gate" where
  "createGate n =
     (case n of
        Num q \<Rightarrow>
          (if q \<in> \<int> \<and> q \<ge> 1
           then Inr \<lparr>gate_limit = nat \<lfloor>q\<rfloor>, running = 0, queue = [], active = [], arrived = [], started = []\<rparr>
           else Inl (RangeError ''A gate needs a whole limit of at least 1.''))
      | _ \<Rightarrow> Inl (RangeError ''A gate needs a whole limit of at least 1.''))"

text \<open>A call of \<open>run\<close>: take a place, or wait for one.\<close>

definition gate_arrive :: "'j \<Rightarrow> 'j gate \<Rightarrow> 'j gate" where
  "gate_arrive j g =
     (if running g < gate_limit g
      then g\<lparr>running := running g + 1, active := active g @ [j], arrived := arrived g @ [j], started := started g @ [j]\<rparr>
      else g\<lparr>queue := queue g @ [j], arrived := arrived g @ [j]\<rparr>)"

text \<open>The \<open>finally\<close> of \<open>run\<close>: hand the place to the next in line, or give it back.\<close>

definition gate_leave :: "'j \<Rightarrow> 'j gate \<Rightarrow> 'j gate" where
  "gate_leave j g =
     (case queue g of
        next # rest \<Rightarrow> g\<lparr>queue := rest, active := remove1 j (active g) @ [next], started := started g @ [next]\<rparr>
      | [] \<Rightarrow> g\<lparr>running := running g - 1, active := remove1 j (active g)\<rparr>)"

inductive gate_step :: "'j gate \<Rightarrow> 'j gate \<Rightarrow> bool" where
  arrive: "gate_step g (gate_arrive j g)"
| leave: "j \<in> set (active g) \<Longrightarrow> gate_step g (gate_leave j g)"

inductive gate_reach :: "jsnum \<Rightarrow> 'j gate \<Rightarrow> bool" for n :: jsnum where
  created: "createGate n = Inr g \<Longrightarrow> gate_reach n g"
| stepped: "gate_reach n g \<Longrightarrow> gate_step g h \<Longrightarrow> gate_reach n h"

definition gate_inv :: "'j gate \<Rightarrow> bool" where
  "gate_inv g \<longleftrightarrow> 1 \<le> gate_limit g \<and> running g = length (active g) \<and> running g \<le> gate_limit g \<and>
     (queue g \<noteq> [] \<longrightarrow> running g = gate_limit g) \<and> started g @ queue g = arrived g"

lemma gate_inv_create: "createGate n = Inr g \<Longrightarrow> gate_inv g"
  by (auto simp: createGate_def gate_inv_def le_nat_floor split: jsnum.splits if_splits elim: Ints_cases)

lemma gate_inv_arrive [inv_intros]: "gate_inv g \<Longrightarrow> gate_inv (gate_arrive j g)"
  by (auto simp: gate_arrive_def gate_inv_def append_assoc [symmetric] simp del: append_assoc)

lemma gate_inv_leave [inv_intros]:
  assumes "gate_inv g" "j \<in> set (active g)"
  shows "gate_inv (gate_leave j g)"
proof -
  have "Suc (length (remove1 j (active g))) = length (active g)"
    using assms(2) by (auto simp: length_remove1 dest: length_pos_if_in_set)
  then show ?thesis using assms by (auto simp: gate_leave_def gate_inv_def split: list.splits)
qed

lemma gate_inv_step: "gate_step g h \<Longrightarrow> gate_inv g \<Longrightarrow> gate_inv h"
  by (induction rule: gate_step.induct) (auto intro: inv_intros)

lemma gate_reach_inv: "gate_reach n g \<Longrightarrow> gate_inv g"
  by (induction rule: gate_reach.induct) (auto intro: gate_inv_create gate_inv_step)

subsection \<open>Properties\<close>

text \<open>
  C25. In every reachable state of a gate no more jobs run than its limit, jobs wait only while it is
  full, and jobs have started in exactly the order in which they arrived, with the waiting ones
  next in line: nobody is lost and nobody jumps the queue.
\<close>

theorem gate_bounded_and_fair:
  assumes "gate_reach n g"
  shows "length (active g) = running g \<and> running g \<le> gate_limit g \<and>
    (queue g \<noteq> [] \<longrightarrow> running g = gate_limit g) \<and> started g @ queue g = arrived g"
  using gate_reach_inv [OF assms] unfolding gate_inv_def by metis

theorem gate_bounded_and_fair_witness:
  "\<exists>g :: nat gate. gate_reach (Num 1) g \<and> running g = 1 \<and> queue g = [] \<and> started g = [7, 8]"
proof -
  define g0 :: "nat gate" where "g0 = \<lparr>gate_limit = 1, running = 0, queue = [], active = [], arrived = [], started = []\<rparr>"
  have "createGate (Num 1) = Inr g0" by (simp add: createGate_def g0_def)
  then have "gate_reach (Num 1) g0" by (rule gate_reach.created)
  then have "gate_reach (Num 1) (gate_arrive 7 g0)" by (rule gate_reach.stepped) (rule arrive)
  then have "gate_reach (Num 1) (gate_arrive 8 (gate_arrive 7 g0))" by (rule gate_reach.stepped) (rule arrive)
  then have r: "gate_reach (Num 1) (gate_leave 7 (gate_arrive 8 (gate_arrive 7 g0)))"
    by (rule gate_reach.stepped) (rule leave, simp add: gate_arrive_def g0_def)
  have "started (gate_leave 7 (gate_arrive 8 (gate_arrive 7 g0))) = [7, 8]"
    by (simp add: gate_arrive_def gate_leave_def g0_def)
  then show ?thesis using gate_bounded_and_fair [OF r] r
    by (intro exI [of _ "gate_leave 7 (gate_arrive 8 (gate_arrive 7 g0))"]) (simp add: gate_arrive_def gate_leave_def g0_def)
qed

end
