(* ===== verification/Calendar.thy ===== *)
theory Calendar
  imports Requests
begin

text \<open>
  Calendar months in a named time zone (\<open>server/src/sli/time.ts\<close>) and the day arithmetic of
  \<open>server/src/sli/maintenance.ts\<close>. \<open>Date.UTC\<close> and \<open>getUTC...\<close> are the proleptic Gregorian
  calendar of ECMAScript, written out here; the zone database behind \<open>Intl.DateTimeFormat\<close> is a
  parameter \<open>zone\<close>: the offset in seconds, east positive, in force at an instant. Instants are whole
  seconds; dates before the year 0 and beyond ECMAScript's time range are not modelled.
\<close>

subsection \<open>The Gregorian calendar of \<open>Date\<close>\<close>

definition day_from_year :: "int \<Rightarrow> int" where
  "day_from_year y = 365 * (y - 1970) + (y - 1969) div 4 - (y - 1901) div 100 + (y - 1601) div 400"

definition leap :: "int \<Rightarrow> bool" where
  "leap y \<longleftrightarrow> (y mod 4 = 0 \<and> y mod 100 \<noteq> 0) \<or> y mod 400 = 0"

text \<open>Days before month \<open>m\<close> (0 to 11) in a year.\<close>

definition month_start :: "bool \<Rightarrow> int \<Rightarrow> int" where
  "month_start lp m =
     (if m \<le> 0 then 0 else if m = 1 then 31
      else (if lp then 1 else 0) +
        (if m = 2 then 59 else if m = 3 then 90 else if m = 4 then 120 else if m = 5 then 151
         else if m = 6 then 181 else if m = 7 then 212 else if m = 8 then 243 else if m = 9 then 273
         else if m = 10 then 304 else if m = 11 then 334 else 365))"

definition month_of_yearday :: "bool \<Rightarrow> int \<Rightarrow> int" where
  "month_of_yearday lp n =
     (if n < 31 then 0 else
      let k = n - (if lp then 1 else 0) in
        if k < 59 then 1 else if k < 90 then 2 else if k < 120 then 3 else if k < 151 then 4
        else if k < 181 then 5 else if k < 212 then 6 else if k < 243 then 7 else if k < 273 then 8
        else if k < 304 then 9 else if k < 334 then 10 else 11)"

text \<open>\<open>Date.UTC(year, month, day) / 86400000\<close>: months and days may run over, years 0 to 99 mean 1900 to 1999.\<close>

definition make_day :: "int \<Rightarrow> int \<Rightarrow> int \<Rightarrow> int" where
  "make_day y m0 d =
     (let yy = y + m0 div 12; mm = m0 mod 12 in day_from_year yy + month_start (leap yy) mm + d - 1)"

definition utc_day :: "int \<Rightarrow> int \<Rightarrow> int \<Rightarrow> int" where
  "utc_day y m0 d = make_day (if 0 \<le> y \<and> y \<le> 99 then 1900 + y else y) m0 d"

lemma div_Suc_step: "0 < b \<Longrightarrow> (x + 1) div b = x div b + (if b dvd x + 1 then 1 else 0)" for b x :: int
proof -
  assume b: "0 < b"
  have eq: "x + 1 = b * (x div b) + (x mod b + 1)" by simp
  have r: "0 \<le> x mod b" "x mod b < b" using b by auto
  show ?thesis
  proof (cases "x mod b + 1 = b")
    case True
    then have "x + 1 = b * (x div b + 1)" using eq by (simp add: algebra_simps)
    then show ?thesis using b by (metis dvd_triv_left nonzero_mult_div_cancel_left order_less_irrefl)
  next
    case False
    then have "x mod b + 1 < b" using r by simp
    then have "(x + 1) div b = x div b" "(x + 1) mod b = x mod b + 1"
      using eq r b by (metis int_div_pos_eq add_nonneg_nonneg zero_le_one, metis int_mod_pos_eq add_nonneg_nonneg zero_le_one)
    then show ?thesis using r by (simp add: dvd_eq_mod_eq_0)
  qed
qed

lemma dvd_shift: "b dvd c \<Longrightarrow> b dvd y - c \<longleftrightarrow> b dvd y" for b c y :: int
  by (metis diff_add_cancel dvd_add_left_iff)

lemma day_from_year_Suc: "day_from_year (y + 1) = day_from_year y + 365 + (if leap y then 1 else 0)"
proof -
  have 4: "(y + 1 - 1969) div 4 = (y - 1969) div 4 + (if 4 dvd y then 1 else 0)"
    using div_Suc_step [of 4 "y - 1969"] dvd_shift [of 4 1968 y] by (simp add: algebra_simps)
  have 100: "(y + 1 - 1901) div 100 = (y - 1901) div 100 + (if 100 dvd y then 1 else 0)"
    using div_Suc_step [of 100 "y - 1901"] dvd_shift [of 100 1900 y] by (simp add: algebra_simps)
  have 400: "(y + 1 - 1601) div 400 = (y - 1601) div 400 + (if 400 dvd y then 1 else 0)"
    using div_Suc_step [of 400 "y - 1601"] dvd_shift [of 400 1600 y] by (simp add: algebra_simps)
  have "4 dvd y" if "100 dvd y" using that dvd_trans [of 4 100 y] by simp
  moreover have "100 dvd y" if "400 dvd y" using that dvd_trans [of 100 400 y] by simp
  ultimately show ?thesis
    unfolding day_from_year_def 4 100 400 leap_def by (auto simp: dvd_eq_mod_eq_0 [symmetric])
qed

lemma day_from_year_mono: "y \<le> z \<Longrightarrow> day_from_year y + 365 * (z - y) \<le> day_from_year z"
proof (induction z rule: int_ge_induct)
  case base
  then show ?case by simp
next
  case (step z)
  then show ?case using day_from_year_Suc [of z] by simp
qed

lemma day_from_year_less: "y < z \<Longrightarrow> day_from_year y < day_from_year z"
  using day_from_year_mono [of y z] by simp

text \<open>\<open>getUTCFullYear\<close>: from an estimate that is never too late, climb to the year of the day.\<close>

definition year_estimate :: "int \<Rightarrow> int" where
  "year_estimate n = 1970 + (if n \<ge> 0 then n div 366 else n div 365)"

function climb :: "int \<Rightarrow> int \<Rightarrow> int" where
  "climb y n = (if day_from_year (y + 1) \<le> n then climb (y + 1) n else y)"
  by pat_completeness auto
termination
  by (relation "measure (\<lambda>(y, n). nat (n - day_from_year y))")
     (use day_from_year_less in \<open>auto simp: day_from_year_Suc split: if_splits\<close>)

declare climb.simps [simp del]

definition year_of_day :: "int \<Rightarrow> int" where
  "year_of_day n = climb (year_estimate n) n"

record zdate =
  year :: int
  month :: int
  day :: int

record zdate_w = zdate +
  weekday :: int

definition civil :: "int \<Rightarrow> zdate" where
  "civil n =
     (let y = year_of_day n; yd = n - day_from_year y; m = month_of_yearday (leap y) yd
      in \<lparr>year = y, month = m + 1, day = yd - month_start (leap y) m + 1\<rparr>)"

definition days_in :: "int \<Rightarrow> int \<Rightarrow> int" where
  "days_in y m = month_start (leap y) m - month_start (leap y) (m - 1)"

definition valid_date :: "int \<Rightarrow> int \<Rightarrow> int \<Rightarrow> bool" where
  "valid_date y m d \<longleftrightarrow> 1 \<le> m \<and> m \<le> 12 \<and> 1 \<le> d \<and> d \<le> days_in y m"

lemma climb_correct: "day_from_year y \<le> n \<Longrightarrow>
  day_from_year (climb y n) \<le> n \<and> n < day_from_year (climb y n + 1)"
proof (induction y n rule: climb.induct)
  case (1 y n)
  then show ?case by (cases "day_from_year (y + 1) \<le> n") (simp_all add: climb.simps [of y n])
qed

lemma day_from_year_upper: "0 \<le> k \<Longrightarrow> day_from_year (1970 + k) \<le> 366 * k"
proof (induction k rule: int_ge_induct)
  case base
  then show ?case by (simp add: day_from_year_def)
next
  case (step k)
  have "day_from_year (1970 + (k + 1)) \<le> day_from_year (1970 + k) + 366"
    using day_from_year_Suc [of "1970 + k"] by (simp add: add.assoc)
  then show ?case using step by simp
qed

lemma day_from_year_lower: "k \<le> 0 \<Longrightarrow> day_from_year (1970 + k) \<le> 365 * k"
  using day_from_year_mono [of "1970 + k" 1970] by (simp add: day_from_year_def)

lemma year_estimate_early: "day_from_year (year_estimate n) \<le> n"
proof (cases "n \<ge> 0")
  case True
  have "day_from_year (1970 + n div 366) \<le> 366 * (n div 366)"
    using True by (intro day_from_year_upper) (simp add: pos_imp_zdiv_nonneg_iff)
  also have "\<dots> \<le> n" using int_le_div_iff [of 366 "n div 366" n] by simp
  finally show ?thesis using True by (simp add: year_estimate_def)
next
  case False
  have "n div 365 \<le> 0" using False int_le_div_iff [of 365 1 n] by auto
  then have "day_from_year (1970 + n div 365) \<le> 365 * (n div 365)" by (rule day_from_year_lower)
  also have "\<dots> \<le> n" using int_le_div_iff [of 365 "n div 365" n] by simp
  finally show ?thesis using False by (simp add: year_estimate_def)
qed

lemma year_of_day_bounds: "day_from_year (year_of_day n) \<le> n \<and> n < day_from_year (year_of_day n + 1)"
  unfolding year_of_day_def by (rule climb_correct [OF year_estimate_early])

lemma year_of_day_unique: "day_from_year y \<le> n \<Longrightarrow> n < day_from_year (y + 1) \<Longrightarrow> year_of_day n = y"
  using year_of_day_bounds [of n] day_from_year_less [of "y + 1" "year_of_day n"]
    day_from_year_less [of "year_of_day n + 1" y]
  by (metis linorder_less_linear not_less order.strict_trans1 order.strict_trans2 zless_add1_eq add1_zle_eq order_antisym_conv order_le_less)

lemma month_cases: "1 \<le> m \<Longrightarrow> m \<le> 12 \<Longrightarrow>
   m = 1 \<or> m = 2 \<or> m = 3 \<or> m = 4 \<or> m = 5 \<or> m = 6 \<or> m = 7 \<or> m = 8 \<or> m = 9 \<or> m = 10 \<or> m = 11 \<or> m = (12::int)"
  by presburger

lemma month_of_yearday_start:
  assumes "1 \<le> m" "m \<le> 12" "1 \<le> d" "d \<le> month_start lp m - month_start lp (m - 1)"
  shows "month_of_yearday lp (month_start lp (m - 1) + d - 1) = m - 1"
  using month_cases [OF assms(1,2)] assms(3,4)
  by (elim disjE) (auto simp: month_of_yearday_def month_start_def Let_def)

lemma month_of_yearday_bounds:
  assumes "0 \<le> n" "n < 365 + (if lp then 1 else 0)"
  shows "0 \<le> month_of_yearday lp n \<and> month_of_yearday lp n \<le> 11 \<and>
    month_start lp (month_of_yearday lp n) \<le> n \<and> n < month_start lp (month_of_yearday lp n + 1)"
  using assms by (auto simp: month_of_yearday_def month_start_def Let_def)

lemma month_start_mono: "1 \<le> m \<Longrightarrow> m \<le> 12 \<Longrightarrow>
  0 \<le> month_start lp (m - 1) \<and> month_start lp (m - 1) < month_start lp m \<and> month_start lp m \<le> 365 + (if lp then 1 else 0)"
  by (drule (1) month_cases) (auto simp: month_start_def)

lemma make_day_valid: "1 \<le> m \<Longrightarrow> m \<le> 12 \<Longrightarrow> make_day y (m - 1) d = day_from_year y + month_start (leap y) (m - 1) + d - 1"
  by (simp add: make_day_def Let_def)

lemma civil_make_day: "valid_date y m d \<Longrightarrow> civil (make_day y (m - 1) d) = \<lparr>year = y, month = m, day = d\<rparr>"
proof -
  assume v: "valid_date y m d"
  let ?n = "make_day y (m - 1) d"
  have n: "?n = day_from_year y + month_start (leap y) (m - 1) + d - 1"
    using v by (simp add: make_day_valid valid_date_def)
  have "year_of_day ?n = y"
    using v month_start_mono [of m "leap y"] day_from_year_Suc [of y] n
    by (intro year_of_day_unique) (auto simp: valid_date_def days_in_def)
  moreover have "month_of_yearday (leap y) (month_start (leap y) (m - 1) + (d - 1)) = m - 1"
    using v month_of_yearday_start [of m d "leap y"] by (simp add: valid_date_def days_in_def add_diff_eq)
  ultimately show ?thesis using n by (simp add: civil_def Let_def)
qed

lemma civil_valid: "valid_date (year (civil n)) (month (civil n)) (day (civil n))"
  and make_day_civil: "make_day (year (civil n)) (month (civil n) - 1) (day (civil n)) = n"
proof -
  let ?y = "year_of_day n"
  have b: "0 \<le> n - day_from_year ?y" "n - day_from_year ?y < 365 + (if leap ?y then 1 else 0)"
    using year_of_day_bounds [of n] day_from_year_Suc [of ?y] by auto
  note m = month_of_yearday_bounds [OF b]
  show "valid_date (year (civil n)) (month (civil n)) (day (civil n))"
    using m by (auto simp: valid_date_def civil_def days_in_def Let_def)
  show "make_day (year (civil n)) (month (civil n) - 1) (day (civil n)) = n"
    using m by (simp add: civil_def Let_def make_day_def)
qed

subsection \<open>Days, as \<open>maintenance.ts\<close> counts them\<close>

definition dayNumber :: "zdate \<Rightarrow> int" where
  "dayNumber d = utc_day (year d) (month d - 1) (day d)"

definition dateOf :: "int \<Rightarrow> zdate_w" where
  "dateOf n = zdate.extend (civil n) \<lparr>weekday = (n + 4) mod 7\<rparr>"

definition mondayIndex :: "int \<Rightarrow> int" where
  "mondayIndex wd = (wd + 6) mod 7"

definition daysInMonth :: "int \<Rightarrow> int \<Rightarrow> int" where
  "daysInMonth y m = day (civil (utc_day y m 0))"

subsection \<open>The operations of \<open>time.ts\<close>\<close>

text \<open>
  \<open>offsetSeconds\<close>: the wall clock's fields in the zone, read again as if they were UTC.
\<close>

definition offsetSeconds :: "(int \<Rightarrow> int) \<Rightarrow> int \<Rightarrow> int" where
  "offsetSeconds zone utc =
     (let wall = utc + zone utc; d = civil (wall div 86400); s = wall mod 86400;
          asUtc = utc_day (year d) (month d - 1) (day d) * 86400
                    + (s div 3600) * 3600 + ((s mod 3600) div 60) * 60 + s mod 60
      in asUtc - utc)"

definition zonedDayStart :: "(int \<Rightarrow> int) \<Rightarrow> int \<Rightarrow> int \<Rightarrow> int \<Rightarrow> int" where
  "zonedDayStart zone y m d =
     (let guess = utc_day y (m - 1) d * 86400;
          first = guess - offsetSeconds zone guess;
          second = guess - offsetSeconds zone first
      in second)"

definition zonedMonthStart :: "(int \<Rightarrow> int) \<Rightarrow> int \<Rightarrow> int \<Rightarrow> int" where
  "zonedMonthStart zone y m = zonedDayStart zone y m 1"

definition zonedDate :: "(int \<Rightarrow> int) \<Rightarrow> int \<Rightarrow> zdate" where
  "zonedDate zone instant = civil ((instant + zone instant) div 86400)"

text \<open>The pattern \<open>^(\d{4})-(0[1-9]|1[0-2])$\<close>: the year and the month it captures.\<close>

definition month_re :: "string \<Rightarrow> (string \<times> string) option" where
  "month_re s =
     (if length s = 7 \<and> all_digits (take 4 s) \<and> s ! 4 = CHR ''-'' \<and>
         ((s ! 5 = CHR ''0'' \<and> is_digit (s ! 6) \<and> s ! 6 \<noteq> CHR ''0'') \<or>
          (s ! 5 = CHR ''1'' \<and> s ! 6 \<in> {CHR ''0'', CHR ''1'', CHR ''2''}))
      then Some (take 4 s, drop 5 s) else None)"

definition parseMonth :: "jsval \<Rightarrow> api_error + string" where
  "parseMonth raw =
     (case raw of
        JStr s \<Rightarrow> (case month_re s of
            Some _ \<Rightarrow> Inr s
          | None \<Rightarrow> Inl (BadRequestError ''month must be YYYY-MM, e.g. 2026-08.''))
      | _ \<Rightarrow> Inl (BadRequestError ''month must be YYYY-MM, e.g. 2026-08.''))"

definition monthBounds :: "(int \<Rightarrow> int) \<Rightarrow> string \<Rightarrow> api_error + int \<times> int" where
  "monthBounds zone mon =
     (case parseMonth (JStr mon) of
        Inl e \<Rightarrow> Inl e
      | Inr s \<Rightarrow>
         (let (ys, ms) = the (month_re s); y = int (digits_val ys); m = int (digits_val ms);
              (ny, nm) = (if m = 12 then (y + 1, 1) else (y, m + 1))
          in Inr (zonedMonthStart zone y m, zonedMonthStart zone ny nm)))"

definition monthOf :: "(int \<Rightarrow> int) \<Rightarrow> int \<Rightarrow> string" where
  "monthOf zone instant = (let d = zonedDate zone instant in show_int (year d) @ ''-'' @ pad2 (nat (month d)))"

definition previousMonth :: "string \<Rightarrow> api_error + string" where
  "previousMonth mon =
     (case parseMonth (JStr mon) of
        Inl e \<Rightarrow> Inl e
      | Inr s \<Rightarrow>
         (let (ys, ms) = the (month_re s); y = int (digits_val ys); m = digits_val ms
          in Inr (if m = 1 then show_int (y - 1) @ ''-12''
                  else show_int y @ ''-'' @ pad2 (m - 1))))"

definition hourFloor :: "int \<Rightarrow> int" where
  "hourFloor t = (t div 3600) * 3600"

subsection \<open>Lemmas\<close>

lemma utc_day_make: "100 \<le> y \<Longrightarrow> utc_day y m d = make_day y m d"
  by (simp add: utc_day_def)

lemma hms_split: "(s div 3600) * 3600 + ((s mod 3600) div 60) * 60 + s mod 60 = s" for s :: int
proof -
  have "s mod 3600 mod 60 = s mod 60" by (simp add: mod_mod_cancel)
  moreover have "(s div 3600) * 3600 + s mod 3600 = s" by simp
  moreover have "((s mod 3600) div 60) * 60 + s mod 3600 mod 60 = s mod 3600" by (rule div_mult_mod_eq)
  ultimately show ?thesis by linarith
qed

text \<open>The double conversion recovers the offset, from the year 100 on.\<close>

lemma offsetSeconds_zone:
  assumes "100 \<le> year (civil ((t + zone t) div 86400))"
  shows "offsetSeconds zone t = zone t"
proof -
  define w where "w = t + zone t"
  have "utc_day (year (civil (w div 86400))) (month (civil (w div 86400)) - 1) (day (civil (w div 86400))) = w div 86400"
    using assms make_day_civil by (simp add: utc_day_make w_def)
  moreover define s where "s = w mod 86400"
  ultimately have "offsetSeconds zone t = w div 86400 * 86400 + ((s div 3600) * 3600 + ((s mod 3600) div 60) * 60 + s mod 60) - t"
    by (simp add: offsetSeconds_def Let_def flip: w_def s_def)
  also have "\<dots> = zone t"
    unfolding hms_split s_def by (simp add: w_def)
  finally show ?thesis .
qed

lemma year_civil_ge: "day_from_year y \<le> n \<Longrightarrow> y \<le> year (civil n)"
proof -
  assume le: "day_from_year y \<le> n"
  have "\<not> year_of_day n + 1 \<le> y"
  proof
    assume "year_of_day n + 1 \<le> y"
    then have "day_from_year (year_of_day n + 1) \<le> n"
      using le day_from_year_mono [of "year_of_day n + 1" y] by simp
    then show False using year_of_day_bounds [of n] by simp
  qed
  then show ?thesis by (simp add: civil_def Let_def)
qed

lemma day_number_positive: "1971 \<le> y \<Longrightarrow> 1 \<le> m \<Longrightarrow> m \<le> 12 \<Longrightarrow> 1 \<le> d \<Longrightarrow> 365 \<le> utc_day y (m - 1) d"
  using day_from_year_mono [of 1970 y] month_start_mono [of m "leap y"]
  by (simp add: utc_day_make make_day_valid day_from_year_def)

text \<open>Midnight is computed from the offset in force just after it, whatever the zone.\<close>

lemma zonedDayStart_eq:
  assumes "1972 \<le> y" "1 \<le> m" "m \<le> 12" "1 \<le> d" and zone: "\<And>t. \<bar>zone t\<bar> \<le> 86400"
  defines "guess \<equiv> utc_day y (m - 1) d * 86400"
  shows "zonedDayStart zone y m d = guess - zone (guess - zone guess)"
proof -
  have "730 \<le> utc_day y (m - 1) d"
    using day_from_year_mono [of 1970 y] month_start_mono [of m "leap y"] assms(1-4)
    by (simp add: utc_day_make make_day_valid day_from_year_def)
  then have g: "730 * 86400 \<le> guess" by (simp add: guess_def)
  have off: "offsetSeconds zone t = zone t" if "guess - 86400 \<le> t" for t
  proof (rule offsetSeconds_zone)
    have "0 \<le> t + zone t" using zone [of t] that g by linarith
    then have "day_from_year 1970 \<le> (t + zone t) div 86400" by (simp add: day_from_year_def)
    then show "100 \<le> year (civil ((t + zone t) div 86400))" using year_civil_ge by fastforce
  qed
  have "guess - 86400 \<le> guess" "guess - 86400 \<le> guess - zone guess" using zone [of guess] by linarith+
  then show ?thesis using off by (simp add: zonedDayStart_def Let_def flip: guess_def)
qed

lemma month_re_length: "month_re s = Some (ys, ms) \<Longrightarrow>
  length ys = 4 \<and> all_digits ys \<and> 1 \<le> digits_val ms \<and> digits_val ms \<le> 12 \<and> all_digits ms \<and> s = ys @ ''-'' @ ms"
proof -
  assume "month_re s = Some (ys, ms)"
  then have s: "length s = 7" "ys = take 4 s" "ms = drop 5 s" "all_digits (take 4 s)" "s ! 4 = CHR ''-''"
    and c: "(s ! 5 = CHR ''0'' \<and> is_digit (s ! 6) \<and> s ! 6 \<noteq> CHR ''0'') \<or>
       (s ! 5 = CHR ''1'' \<and> s ! 6 \<in> {CHR ''0'', CHR ''1'', CHR ''2''})"
    by (auto simp: month_re_def split: if_splits)
  have d: "drop 5 s = [s ! 5, s ! 6]" using s(1)
    by (simp add: list_eq_iff_nth_eq numeral_eq_Suc) (auto simp: less_Suc_eq)
  have "s = take 4 s @ [s ! 4] @ drop 5 s"
    using s(1) id_take_nth_drop [of 4 s] by simp
  moreover have "char_of (48::nat) = CHR ''0''" by code_simp
  then have "is_digit (s ! 6) \<Longrightarrow> digit_val (s ! 6) = 0 \<Longrightarrow> s ! 6 = CHR ''0''"
    using digit_char_val [of "s ! 6"] by (auto simp: digit_char_def)
  then have "is_digit (s ! 6) \<Longrightarrow> s ! 6 \<noteq> CHR ''0'' \<Longrightarrow> 1 \<le> digit_val (s ! 6)" by fastforce
  then have "1 \<le> digits_val [s ! 5, s ! 6] \<and> digits_val [s ! 5, s ! 6] \<le> 12 \<and> all_digits [s ! 5, s ! 6]"
    using c digit_val_less [of "s ! 6"]
    by (elim disjE conjE insertE emptyE) (simp_all add: digits_val_def, simp_all add: digit_val_def is_digit_iff)
  ultimately show ?thesis using s d by auto
qed

lemma length_show_nat4: "1000 \<le> n \<Longrightarrow> n \<le> 9999 \<Longrightarrow> length (show_nat n) = 4"
proof -
  assume n: "1000 \<le> n" "n \<le> 9999"
  have 1: "100 \<le> n div 10" "n div 10 \<le> 999"
    using div_le_mono [OF n(1), of 10] div_le_mono [OF n(2), of 10] by simp_all
  have 2: "10 \<le> n div 10 div 10" "n div 10 div 10 \<le> 99"
    using div_le_mono [OF 1(1), of 10] div_le_mono [OF 1(2), of 10] by simp_all
  have "n div 10 div 10 div 10 \<le> 9" using div_le_mono [OF 2(2), of 10] by simp
  then have "\<not> n div 10 div 10 < 10" "\<not> n div 10 < 10" "n div 10 div 10 div 10 < 10" "\<not> n < 10"
    using n 1 2 by linarith+
  then show ?thesis
    by (simp add: show_nat.simps [of n] show_nat.simps [of "n div 10"] show_nat.simps [of "n div 10 div 10"]
        show_nat.simps [of "n div 10 div 10 div 10"])
qed

lemma pad2_month: "1 \<le> m \<Longrightarrow> m \<le> 12 \<Longrightarrow>
  pad2 m \<in> {''01'', ''02'', ''03'', ''04'', ''05'', ''06'', ''07'', ''08'', ''09'', ''10'', ''11'', ''12''}
  \<and> digits_val (pad2 m) = m"
proof -
  assume "1 \<le> m" "m \<le> 12"
  then have "m = 1 \<or> m = 2 \<or> m = 3 \<or> m = 4 \<or> m = 5 \<or> m = 6 \<or> m = 7 \<or> m = 8 \<or> m = 9 \<or> m = 10 \<or> m = 11 \<or> m = 12"
    by presburger
  then show ?thesis
    by (elim disjE; hypsubst; code_simp)
qed

lemma month_re_show:
  assumes "1000 \<le> y" "y \<le> 9999" "1 \<le> m" "m \<le> 12"
  shows "month_re (show_int y @ ''-'' @ pad2 m) = Some (show_int y, pad2 m)"
proof -
  have "length (show_int y) = 4" using assms length_show_nat4 [of "nat y"] by (simp add: show_int_def)
  moreover have "all_digits (show_int y)" using assms by (simp add: show_int_def)
  ultimately show ?thesis using pad2_month [OF assms(3,4)]
    by (auto simp: month_re_def nth_append is_digit_def less_eq_char_def)
qed

text \<open>The month after \<open>(y, m)\<close>, as \<open>monthBounds\<close> steps.\<close>

definition next_month :: "int \<Rightarrow> int \<Rightarrow> int \<times> int" where
  "next_month y m = (if m = 12 then (y + 1, 1) else (y, m + 1))"

lemma monthBounds_show:
  assumes "1000 \<le> y" "y \<le> 9999" "1 \<le> m" "m \<le> 12"
  shows "monthBounds zone (show_int y @ ''-'' @ pad2 m) =
    Inr (zonedMonthStart zone y (int m), case next_month y (int m) of (ny, nm) \<Rightarrow> zonedMonthStart zone ny nm)"
proof -
  have "digits_val (show_int y) = nat y" using assms by (simp add: show_int_def)
  then show ?thesis using assms pad2_month [of m] month_re_show [OF assms]
    by (simp add: monthBounds_def parseMonth_def next_month_def Let_def)
qed

lemma previousMonth_show:
  assumes "1000 \<le> y" "y \<le> 9999" "1 \<le> m" "m \<le> 12"
  shows "previousMonth (show_int y @ ''-'' @ pad2 m) =
    Inr (if m = 1 then show_int (y - 1) @ ''-'' @ pad2 12 else show_int y @ ''-'' @ pad2 (m - 1))"
proof -
  have "digits_val (show_int y) = nat y" using assms by (simp add: show_int_def)
  moreover have "pad2 12 = ''12''" by code_simp
  ultimately show ?thesis using assms pad2_month [of m] month_re_show [OF assms]
    by (simp add: previousMonth_def parseMonth_def)
qed

lemma month_start_positive:
  assumes "1972 \<le> y" "1 \<le> m" "m \<le> 12" and zone: "\<And>t. \<bar>zone t\<bar> \<le> 86400"
  shows "zonedMonthStart zone y m < (case next_month y m of (ny, nm) \<Rightarrow> zonedMonthStart zone ny nm)"
proof -
  obtain ny nm where n: "next_month y m = (ny, nm)" by (metis surj_pair)
  have nn: "y \<le> ny" "1 \<le> nm" "nm \<le> 12" using n assms by (auto simp: next_month_def split: if_splits)
  have "28 \<le> utc_day ny (nm - 1) 1 - utc_day y (m - 1) 1"
    using n assms(1) month_cases [OF assms(2,3)] day_from_year_Suc [of y]
    by (elim disjE) (auto simp: next_month_def utc_day_make make_day_def month_start_def Let_def)
  then show ?thesis
    using zonedDayStart_eq [OF assms(1-3), of 1 zone] zonedDayStart_eq [of ny nm 1 zone] nn assms(1) zone
    by (simp add: n zonedMonthStart_def)
       (smt (verit) zone)
qed

subsection \<open>Properties\<close>

text \<open>
  Day numbers and calendar dates determine each other: every day number is the number of its
  date, every valid date from the year 100 on is the date of its number, and the date is valid.
\<close>

theorem day_number_round_trip:
  "100 \<le> y \<Longrightarrow> valid_date y m d \<Longrightarrow>
     zdate.truncate (dateOf (dayNumber \<lparr>year = y, month = m, day = d\<rparr>)) = \<lparr>year = y, month = m, day = d\<rparr> \<and>
     (100 \<le> year (civil n) \<longrightarrow> dayNumber (zdate.truncate (dateOf n)) = n \<and>
        valid_date (year (dateOf n)) (month (dateOf n)) (day (dateOf n)))"
  using civil_make_day [of y m d] make_day_civil [of n] civil_valid [of n]
  by (simp add: dateOf_def dayNumber_def utc_day_make zdate.defs)

theorem day_number_round_trip_witness:
  "zdate.truncate (dateOf (dayNumber \<lparr>year = 2024, month = 2, day = 29\<rparr>)) = \<lparr>year = 2024, month = 2, day = 29\<rparr>"
proof -
  have "valid_date 2024 2 29" by (simp add: valid_date_def days_in_def month_start_def leap_def)
  then show ?thesis using day_number_round_trip [of 2024 2 29 0] by simp
qed

text \<open>
  \<open>zonedDayStart\<close> is midnight in the zone. Whenever the zone's offset at the instant it finds is
  the one it was computed with (so always, except inside a clock change), the wall clock there
  shows the first second of the requested day; the zone itself is a parameter, within a day of UTC.
\<close>

theorem day_start_is_midnight:
  assumes "1972 \<le> y" "valid_date y m d" and "\<And>t. \<bar>zone t\<bar> \<le> 86400"
    and "zone (zonedDayStart zone y m d) = zone (utc_day y (m - 1) d * 86400 - zone (utc_day y (m - 1) d * 86400))"
  shows "zonedDate zone (zonedDayStart zone y m d) = \<lparr>year = y, month = m, day = d\<rparr>
    \<and> (zonedDayStart zone y m d + zone (zonedDayStart zone y m d)) mod 86400 = 0"
proof -
  have wall: "zonedDayStart zone y m d + zone (zonedDayStart zone y m d) = utc_day y (m - 1) d * 86400"
    using assms zonedDayStart_eq [of y m d zone] by (simp add: valid_date_def)
  show ?thesis using assms(1,2) civil_make_day unfolding zonedDate_def wall by (simp add: utc_day_make)
qed

theorem day_start_is_midnight_witness:
  "zonedDate (\<lambda>_. 25200) (zonedDayStart (\<lambda>_. 25200) 2026 8 1) = \<lparr>year = 2026, month = 8, day = 1\<rparr>"
proof -
  have "valid_date 2026 8 1" by (simp add: valid_date_def days_in_def month_start_def leap_def)
  then show ?thesis using day_start_is_midnight [of 2026 8 1 "\<lambda>_. 25200"] by simp
qed

text \<open>
  Months tile time: the month before \<open>YYYY-MM\<close> exists, ends exactly where \<open>YYYY-MM\<close> starts, and
  both are non-empty, in any zone within a day of UTC.
\<close>

theorem months_tile:
  assumes "1973 \<le> y" "y \<le> 9999" "1 \<le> m" "m \<le> 12" and "\<And>t. \<bar>zone t\<bar> \<le> 86400"
  shows "\<exists>prev a b c. previousMonth (show_int y @ ''-'' @ pad2 m) = Inr prev \<and>
     monthBounds zone prev = Inr (a, b) \<and> monthBounds zone (show_int y @ ''-'' @ pad2 m) = Inr (b, c) \<and>
     a < b \<and> b < c"
proof -
  let ?p = "if m = 1 then (y - 1, 12) else (y, m - 1)"
  obtain py pm where p: "?p = (py, pm)" by (metis surj_pair)
  have r: "1972 \<le> py" "py \<le> 9999" "1 \<le> pm" "pm \<le> 12" "next_month py (int pm) = (y, int m)"
    using p assms by (auto simp: next_month_def split: if_splits)
  have "previousMonth (show_int y @ ''-'' @ pad2 m) = Inr (show_int py @ ''-'' @ pad2 pm)"
    using previousMonth_show [of y m] assms p by (auto split: if_splits)
  then show ?thesis
    using monthBounds_show [of y m zone] monthBounds_show [of py pm zone] r assms
      month_start_positive [of py "int pm" zone] month_start_positive [of y "int m" zone]
    by simp
qed

theorem months_tile_witness:
  "\<exists>prev a b c. previousMonth (show_int 2026 @ ''-'' @ pad2 1) = Inr prev \<and>
     monthBounds (\<lambda>_. 25200) prev = Inr (a, b) \<and> monthBounds (\<lambda>_. 25200) (show_int 2026 @ ''-'' @ pad2 1) = Inr (b, c) \<and>
     a < b \<and> b < c"
  by (rule months_tile) auto

end
