(* ===== verification/Interfaces.thy ===== *)
theory Interfaces
  imports Prelude
begin

text \<open>
  The contracts between components, as locales: the operations a client calls and the laws it may
  use. Each is interpreted on the model's own definitions in the theory of the component that
  provides them.
\<close>

subsection \<open>Interval arithmetic\<close>

text \<open>
  What the availability engine uses of interval arithmetic: an abstract value (the covered
  seconds), and operations that compute with it. Providers: \<open>Intervals\<close>.
\<close>

locale interval_ops =
  fixes pts :: "'i \<Rightarrow> int set"
    and inter :: "'i \<Rightarrow> 'i \<Rightarrow> 'i"
    and clip :: "'i \<Rightarrow> int \<Rightarrow> int \<Rightarrow> 'i"
    and compl :: "'i \<Rightarrow> int \<Rightarrow> int \<Rightarrow> 'i"
    and total :: "'i \<Rightarrow> int"
  assumes finite_pts: "finite (pts x)"
    and pts_inter: "pts (inter x y) = pts x \<inter> pts y"
    and pts_clip: "pts (clip x lo hi) = pts x \<inter> {lo..<hi}"
    and pts_compl: "pts (compl x lo hi) = {lo..<hi} - pts x"
    and total_pts: "total x = int (card (pts x))"
begin

lemmas pts_ops = pts_inter pts_clip pts_compl

lemma total_nonneg: "0 \<le> total x"
  by (simp add: total_pts)

lemma total_mono: "pts x \<subseteq> pts y \<Longrightarrow> total x \<le> total y"
  by (simp add: total_pts card_mono finite_pts)

lemma total_inter_le: "total (inter x y) \<le> total x" "total (inter x y) \<le> total y"
  by (simp_all add: total_mono pts_inter)

lemma total_within: "pts x \<subseteq> {lo..<hi} \<Longrightarrow> lo \<le> hi \<Longrightarrow> total x \<le> hi - lo"
proof -
  assume "pts x \<subseteq> {lo..<hi}" "lo \<le> hi"
  then have "card (pts x) \<le> card {lo..<hi}" by (intro card_mono) auto
  then show ?thesis using \<open>lo \<le> hi\<close> by (simp add: total_pts)
qed

lemma total_disjoint:
  "pts x \<inter> pts y = {} \<Longrightarrow> pts z = pts x \<union> pts y \<Longrightarrow> total z = total x + total y"
  by (simp add: total_pts card_Un_disjoint finite_pts)

text \<open>What is cut out of a window and what is left of it add up to the window.\<close>

lemma total_split: "lo \<le> hi \<Longrightarrow> total (clip x lo hi) + total (compl x lo hi) = hi - lo"
proof -
  assume le: "lo \<le> hi"
  have "card {lo..<hi} = card (pts (clip x lo hi) \<union> pts (compl x lo hi))"
    by (rule arg_cong [where f = card]) (auto simp: pts_ops)
  also have "\<dots> = card (pts (clip x lo hi)) + card (pts (compl x lo hi))"
    by (rule card_Un_disjoint) (auto simp: pts_ops finite_pts)
  finally have "card {lo..<hi} = card (pts (clip x lo hi)) + card (pts (compl x lo hi))" .
  then show ?thesis using le by (simp add: total_pts)
qed

lemma total_part: "total (inter x (clip y lo hi)) + total (inter x (compl y lo hi)) = total (clip x lo hi)"
  by (rule total_disjoint [symmetric]) (auto simp: pts_ops)

end

text \<open>Interval operations that return one normal form per set of seconds.\<close>

locale canonical_intervals = interval_ops +
  fixes nf :: "'i \<Rightarrow> bool"
    and merge :: "'i \<Rightarrow> 'i"
  assumes nf_unique: "nf x \<Longrightarrow> nf y \<Longrightarrow> pts x = pts y \<Longrightarrow> x = y"
    and pts_merge: "pts (merge x) = pts x"
    and nf_merge: "nf (merge x)"
    and nf_inter: "nf (inter x y)"
    and nf_compl: "nf (compl x lo hi)"
begin

lemma merge_idem: "merge (merge x) = merge x"
  by (rule nf_unique) (auto simp: pts_merge nf_merge)

lemma inter_comm: "inter x y = inter y x"
  by (rule nf_unique) (auto simp: pts_inter nf_inter)

lemma inter_assoc: "inter (inter x y) z = inter x (inter y z)"
  by (rule nf_unique) (auto simp: pts_inter nf_inter)

lemma merge_char: "nf y \<and> pts y = pts x \<longleftrightarrow> y = merge x"
  using nf_unique [of y "merge x"] by (auto simp: pts_merge nf_merge)

lemma inter_char: "nf z \<and> pts z = pts x \<inter> pts y \<longleftrightarrow> z = inter x y"
  using nf_unique [of z "inter x y"] by (auto simp: pts_inter nf_inter)

lemma compl_char: "nf z \<and> pts z = {lo..<hi} - pts x \<longleftrightarrow> z = compl x lo hi"
  using nf_unique [of z "compl x lo hi"] by (auto simp: pts_compl nf_compl)

end

subsection \<open>Bounded tables\<close>

text \<open>
  The in-memory tables of the sign-in limiter, the sign-in log and the signed-out tokens: storing
  a key keeps the table within its bound, the stored key can be read back, and every other key
  either keeps its value or has been dropped to make room.
\<close>

locale bounded_table =
  fixes put :: "'k \<Rightarrow> 'v \<Rightarrow> ('k, 'v) table \<Rightarrow> ('k, 'v) table"
    and bound :: nat
  assumes put_wf: "wf_table t \<Longrightarrow> wf_table (put k v t)"
    and put_bound: "length t \<le> bound \<Longrightarrow> length (put k v t) \<le> bound"
    and put_get: "length t \<le> bound \<Longrightarrow> table_get (put k v t) k = Some v"
    and put_other: "wf_table t \<Longrightarrow> k' \<noteq> k \<Longrightarrow>
          table_get (put k v t) k' = None \<or> table_get (put k v t) k' = table_get t k'"
begin

lemma puts_bound: "length t \<le> bound \<Longrightarrow> length (fold (\<lambda>(k, v). put k v) kvs t) \<le> bound"
  by (induction kvs arbitrary: t) (auto simp: put_bound)

lemma puts_wf: "wf_table t \<Longrightarrow> wf_table (fold (\<lambda>(k, v). put k v) kvs t)"
  by (induction kvs arbitrary: t) (auto simp: put_wf)

text \<open>Nothing appears in the table that was never put there.\<close>

lemma put_origin:
  "wf_table t \<Longrightarrow> length t \<le> bound \<Longrightarrow> table_get (put k v t) k' = Some w \<Longrightarrow> (k', w) = (k, v) \<or> table_get t k' = Some w"
  using put_other [of t k' k v] by (cases "k' = k") (auto simp: put_get)

lemma puts_origin:
  "wf_table t \<Longrightarrow> length t \<le> bound \<Longrightarrow> table_get (fold (\<lambda>(k, v). put k v) kvs t) k' = Some w \<Longrightarrow>
   (k', w) \<in> set kvs \<or> table_get t k' = Some w"
proof (induction kvs arbitrary: t)
  case Nil
  then show ?case by simp
next
  case (Cons kv kvs)
  obtain k v where kv: "kv = (k, v)" by (cases kv)
  have "(k', w) \<in> set kvs \<or> table_get (put k v t) k' = Some w"
    using Cons kv by (simp add: put_wf put_bound)
  then show ?case using put_origin [OF Cons.prems(1,2), of k v k' w] kv by auto
qed

end

text \<open>The idioms themselves are providers for every positive bound: "delete, set, drop" and "set, drop".\<close>

lemma reinsert_bounded: "0 < cap \<Longrightarrow> bounded_table (\<lambda>k v t. drop_oldest cap (reinsert k v t)) cap"
proof
  fix t :: "('a, 'b) table" and k k' :: 'a and v :: 'b
  assume cap: "0 < cap"
  show "wf_table t \<Longrightarrow> wf_table (drop_oldest cap (reinsert k v t))"
    by (intro inv_intros)
  show "length t \<le> cap \<Longrightarrow> length (drop_oldest cap (reinsert k v t)) \<le> cap"
    using length_reinsert [of k v t] by (intro length_drop_oldest) simp
  show "length t \<le> cap \<Longrightarrow> table_get (drop_oldest cap (reinsert k v t)) k = Some v"
    using cap by (simp add: table_get_drop_oldest_reinsert)
  show "wf_table t \<Longrightarrow> k' \<noteq> k \<Longrightarrow> table_get (drop_oldest cap (reinsert k v t)) k' = None \<or>
        table_get (drop_oldest cap (reinsert k v t)) k' = table_get t k'"
    using drop_oldest_other [of "reinsert k v t" cap k'] by (simp add: table_simps inv_intros)
qed

lemma set_bounded: "0 < cap \<Longrightarrow> bounded_table (\<lambda>k v t. drop_oldest cap (table_set k v t)) cap"
proof
  fix t :: "('a, 'b) table" and k k' :: 'a and v :: 'b
  assume cap: "0 < cap"
  show "wf_table t \<Longrightarrow> wf_table (drop_oldest cap (table_set k v t))"
    by (intro inv_intros)
  have len: "length (table_set k v t) \<le> Suc (length t)"
    by (induction t) auto
  then show "length t \<le> cap \<Longrightarrow> length (drop_oldest cap (table_set k v t)) \<le> cap"
    by (intro length_drop_oldest) simp
  show "table_get (drop_oldest cap (table_set k v t)) k = Some v" if le: "length t \<le> cap"
  proof (cases "k \<in> set (table_keys t)")
    case True
    then have "length (table_set k v t) = length t" by (induction t) auto
    then show ?thesis using le by (simp add: drop_oldest_def update_conv)
  next
    case False
    then have eq: "table_set k v t = t @ [(k, v)]" by (rule table_set_fresh)
    then show ?thesis using cap le False
      by (cases t) (auto simp: drop_oldest_def map_add_def map_of_eq_None_iff [THEN iffD2])
  qed
  show "wf_table t \<Longrightarrow> k' \<noteq> k \<Longrightarrow> table_get (drop_oldest cap (table_set k v t)) k' = None \<or>
        table_get (drop_oldest cap (table_set k v t)) k' = table_get t k'"
    using drop_oldest_other [of "table_set k v t" cap k'] by (simp add: table_simps inv_intros)
qed

end
