(* ===== verification/CallLimits.thy ===== *)
theory CallLimits
  imports Calendar Interfaces
begin

text \<open>
  Caps on the AI routes per caller (\<open>server/src/clients/limits.ts\<close>): calls a minute in a fixed window
  per key, and tokens a day per caller and in all. Times are milliseconds; \<open>zones\<close> is the zone
  database, \<open>None\<close> for a name it does not know.
\<close>

datatype ai_kind = Chat | Explain

fun kind_text :: "ai_kind \<Rightarrow> string" where
  "kind_text Chat = ''chat''"
| "kind_text Explain = ''explain''"

definition callerOf :: "string option \<Rightarrow> string \<Rightarrow> string" where
  "callerOf sub ip = (case sub of Some s \<Rightarrow> if s \<noteq> [] then ''user:'' @ s else ''ip:'' @ ip | None \<Rightarrow> ''ip:'' @ ip)"

subsection \<open>Calls a minute\<close>

definition WINDOW_MS :: int where "WINDOW_MS = 60000"
definition MAX_KEYS :: nat where "MAX_KEYS = 5000"

record minute_window =
  win_count :: nat
  win_resetAt :: int

type_synonym windows = "(string, minute_window) table"

definition prune :: "int \<Rightarrow> windows \<Rightarrow> windows" where
  "prune now ws = (let live = filter (\<lambda>p. \<not> win_resetAt (snd p) \<le> now) ws in drop (length live - MAX_KEYS) live)"

definition open_window :: "string \<Rightarrow> int \<Rightarrow> windows \<Rightarrow> windows" where
  "open_window key now ws =
     (let ws' = reinsert key \<lparr>win_count = 1, win_resetAt = now + WINDOW_MS\<rparr> ws
      in if length ws' > MAX_KEYS then prune now ws' else ws')"

definition take_call :: "nat \<Rightarrow> string \<Rightarrow> int \<Rightarrow> windows \<Rightarrow> int option \<times> windows" where
  "take_call mx key now ws =
     (case table_get ws key of
        None \<Rightarrow> (None, open_window key now ws)
      | Some w \<Rightarrow>
          (if win_resetAt w \<le> now then (None, open_window key now ws)
           else if win_count w \<ge> mx then (Some (max 1 (ceil_div (win_resetAt w - now) 1000)), ws)
           else (None, table_set key (w\<lparr>win_count := Suc (win_count w)\<rparr>) ws)))"

fun take_calls :: "nat \<Rightarrow> string \<Rightarrow> int list \<Rightarrow> windows \<Rightarrow> int option list \<times> windows" where
  "take_calls mx key [] ws = ([], ws)"
| "take_calls mx key (t # ts) ws =
     (let (r, ws') = take_call mx key t ws; (rs, ws'') = take_calls mx key ts ws' in (r # rs, ws''))"

subsection \<open>Tokens a day\<close>

definition estimatedTokens :: "int \<Rightarrow> int" where
  "estimatedTokens chars = ceil_div (max 0 chars) 4"

record budget_limits =
  perUser :: int
  total :: int

record budget_refusal =
  refusal_message :: string
  retryAfter :: int

text \<open>A date as the key, and the seconds left of the day.\<close>

definition day_in_zone :: "(int \<Rightarrow> int) \<Rightarrow> int \<Rightarrow> string \<times> int" where
  "day_in_zone zone seconds =
     (let d = zonedDate zone seconds
      in (show_int (year d) @ ''-'' @ show_int (month d) @ ''-'' @ show_int (day d),
          max 1 (zonedDayStart zone (year d) (month d) (day d + 1) - seconds)))"

definition dayIn :: "(string \<Rightarrow> (int \<Rightarrow> int) option) \<Rightarrow> string \<Rightarrow> int \<Rightarrow> string \<times> int" where
  "dayIn zones zone nowMs =
     (let seconds = nowMs div 1000 in
      case zones zone of
        Some z \<Rightarrow> day_in_zone z seconds
      | None \<Rightarrow>
          (case zones ''UTC'' of
             Some z \<Rightarrow> day_in_zone z seconds
           | None \<Rightarrow> (show_int (seconds div 86400), 86400 - seconds mod 86400)))"

definition inWords :: "int \<Rightarrow> string" where
  "inWords seconds =
     (if seconds \<ge> 5400 then ''about '' @ show_int (js_round (of_int seconds / 3600)) @ '' hours''
      else (let minutes = max 1 (js_round (of_int seconds / 60))
            in ''about '' @ show_int minutes @ '' minute'' @ (if minutes = 1 then [] else ''s'')))"

definition ALL_CALLERS :: string where "ALL_CALLERS = ''*''"

record daily =
  today_key :: string
  used :: "(string, int) table"

definition used_of :: "string \<Rightarrow> daily \<Rightarrow> int" where
  "used_of caller d = (case table_get (used d) caller of Some n \<Rightarrow> n | None \<Rightarrow> 0)"

definition roll :: "(string \<Rightarrow> (int \<Rightarrow> int) option) \<Rightarrow> string \<Rightarrow> int \<Rightarrow> daily \<Rightarrow> (string \<times> int) \<times> daily" where
  "roll zones zone now d =
     (let t = dayIn zones zone now in (t, if fst t \<noteq> today_key d then \<lparr>today_key = fst t, used = []\<rparr> else d))"

definition budget_message :: "string \<Rightarrow> string \<Rightarrow> int \<Rightarrow> string" where
  "budget_message head zone secs =
     head @ '' It starts again at midnight ('' @ zone @ ''), '' @ inWords secs @ '' from now. The rest of the portal still works.''"

definition refusal :: "(string \<Rightarrow> (int \<Rightarrow> int) option) \<Rightarrow> string \<Rightarrow> budget_limits \<Rightarrow> string \<Rightarrow> int \<Rightarrow> daily \<Rightarrow> budget_refusal option \<times> daily" where
  "refusal zones zone lm caller now d =
     (let (t, d') = roll zones zone now d in
      (if perUser lm > 0 \<and> used_of caller d' \<ge> perUser lm then
         Some \<lparr>refusal_message = budget_message ''You have used your share of AI answers for today.'' zone (snd t), retryAfter = snd t\<rparr>
       else if total lm > 0 \<and> used_of ALL_CALLERS d' \<ge> total lm then
         Some \<lparr>refusal_message = budget_message ''The portal has used all of its AI answers for today.'' zone (snd t), retryAfter = snd t\<rparr>
       else None, d'))"

definition charge :: "string \<Rightarrow> int \<Rightarrow> daily \<Rightarrow> daily" where
  "charge caller tokens d = d\<lparr>used := table_set caller (used_of caller d + tokens) (used d)\<rparr>"

definition record_tokens :: "(string \<Rightarrow> (int \<Rightarrow> int) option) \<Rightarrow> string \<Rightarrow> string \<Rightarrow> int \<Rightarrow> int \<Rightarrow> daily \<Rightarrow> daily" where
  "record_tokens zones zone caller tokens now d =
     (if \<not> tokens > 0 then d else charge ALL_CALLERS tokens (charge caller tokens (snd (roll zones zone now d))))"

definition usedBy :: "(string \<Rightarrow> (int \<Rightarrow> int) option) \<Rightarrow> string \<Rightarrow> string \<Rightarrow> int \<Rightarrow> daily \<Rightarrow> int \<times> daily" where
  "usedBy zones zone caller now d = (let d' = snd (roll zones zone now d) in (used_of caller d', d'))"

subsection \<open>The route guard\<close>

record limit_state =
  chat_windows :: windows
  explain_windows :: windows
  ai_budget :: daily

datatype guard_answer =
    Proceed
  | RateLimited int string
  | OverBudget int string

definition WHAT :: "ai_kind \<Rightarrow> string" where
  "WHAT k = (case k of Chat \<Rightarrow> ''questions to the assistant'' | Explain \<Rightarrow> ''explanations'')"

text \<open>\<open>per_minute\<close> gives the limit of a kind; \<open>hosted\<close> whether the provider is the hosted API.\<close>

definition aiGuard ::
  "(string \<Rightarrow> (int \<Rightarrow> int) option) \<Rightarrow> string \<Rightarrow> (ai_kind \<Rightarrow> nat) \<Rightarrow> budget_limits \<Rightarrow> bool \<Rightarrow> ai_kind \<Rightarrow> string option \<Rightarrow> string
     \<Rightarrow> int \<Rightarrow> limit_state \<Rightarrow> guard_answer \<times> limit_state" where
  "aiGuard zones zone per_minute lm hosted kind sub ip now st =
     (let caller = callerOf sub ip;
          ws = (case kind of Chat \<Rightarrow> chat_windows st | Explain \<Rightarrow> explain_windows st);
          (wait, ws') = take_call (per_minute kind) (kind_text kind @ ''|'' @ caller) now ws;
          st = (case kind of Chat \<Rightarrow> st\<lparr>chat_windows := ws'\<rparr> | Explain \<Rightarrow> st\<lparr>explain_windows := ws'\<rparr>)
      in case wait of
           Some w \<Rightarrow>
             (RateLimited w (''You are asking too quickly: the limit is '' @ show_nat (per_minute kind) @ '' '' @ WHAT kind
                @ '' a minute for each person. Try again in '' @ show_int w @ '' second'' @ (if w = 1 then [] else ''s'') @ ''.''), st)
         | None \<Rightarrow>
             (if \<not> hosted then (Proceed, st)
              else (let (r, b) = refusal zones zone lm caller now (ai_budget st); st = st\<lparr>ai_budget := b\<rparr>
                    in case r of Some x \<Rightarrow> (OverBudget (retryAfter x) (refusal_message x), st) | None \<Rightarrow> (Proceed, st))))"

subsection \<open>The window table\<close>

lemma wf_prune: "wf_table ws \<Longrightarrow> wf_table (prune now ws)"
  by (simp add: prune_def Let_def wf_table_def distinct_map_filter drop_map [symmetric])

lemma length_prune: "length (prune now ws) \<le> MAX_KEYS"
  by (simp add: prune_def Let_def)

text \<open>A window opened last is live and stands last, so pruning keeps it.\<close>

lemma open_window_get: "table_get (open_window key now ws) key = Some \<lparr>win_count = 1, win_resetAt = now + WINDOW_MS\<rparr>"
proof -
  let ?w = "\<lparr>win_count = 1, win_resetAt = now + WINDOW_MS\<rparr>"
  let ?d = "table_delete key ws"
  have r: "reinsert key ?w ws = ?d @ [(key, ?w)]" by (rule reinsert_eq)
  have "table_get (prune now (?d @ [(key, ?w)])) key = Some ?w"
  proof -
    let ?l = "filter (\<lambda>p. \<not> win_resetAt (snd p) \<le> now) ?d"
    have "prune now (?d @ [(key, ?w)]) = drop (Suc (length ?l) - MAX_KEYS) ?l @ [(key, ?w)]"
      by (simp add: prune_def Let_def WINDOW_MS_def MAX_KEYS_def)
    moreover have "key \<notin> fst ` set (drop n ?l)" for n by (auto simp: table_delete_filter dest!: in_set_dropD)
    ultimately show ?thesis by (simp add: map_add_def map_of_eq_None_iff [THEN iffD2])
  qed
  moreover have "table_get (?d @ [(key, ?w)]) key = Some ?w" using table_get_reinsert [of key ?w ws key] unfolding r by simp
  ultimately show ?thesis unfolding open_window_def Let_def r by (simp only: split: if_split) simp
qed

lemma open_window_bound: "length ws \<le> MAX_KEYS \<Longrightarrow> length (open_window key now ws) \<le> MAX_KEYS"
  using length_prune by (auto simp: open_window_def Let_def not_less)

lemma length_table_set_present: "table_get t k = Some v \<Longrightarrow> length (table_set k w t) = length t"
  by (induction t) auto

lemma take_call_bound: "length ws \<le> MAX_KEYS \<Longrightarrow> length (snd (take_call mx key now ws)) \<le> MAX_KEYS"
  by (auto simp: take_call_def open_window_bound length_table_set_present split: option.splits)

lemma take_calls_in_window:
  assumes "table_get ws key = Some \<lparr>win_count = n, win_resetAt = e\<rparr>" "\<forall>t \<in> set ts. t < e"
  shows "fst (take_calls mx key ts ws) =
     map (\<lambda>i. if n + i < mx then None else Some (max 1 (ceil_div (e - ts ! i) 1000))) [0..<length ts]"
  using assms
proof (induction ts arbitrary: ws n)
  case Nil
  then show ?case by simp
next
  case (Cons t ts)
  have upt: "[0..<length (t # ts)] = 0 # map Suc [0..<length ts]" by (simp add: map_Suc_upt upt_conv_Cons del: upt_Suc)
  show ?case
  proof (cases "n < mx")
    case True
    have "take_call mx key t ws = (None, table_set key \<lparr>win_count = Suc n, win_resetAt = e\<rparr> ws)"
      using Cons.prems True by (simp add: take_call_def)
    then show ?thesis using Cons.IH [of "table_set key \<lparr>win_count = Suc n, win_resetAt = e\<rparr> ws" "Suc n"] Cons.prems(2) True
      unfolding upt by (simp add: update_conv case_prod_beta o_def)
  next
    case False
    have "take_call mx key t ws = (Some (max 1 (ceil_div (e - t) 1000)), ws)"
      using Cons.prems False by (simp add: take_call_def)
    then show ?thesis using Cons.IH [OF Cons.prems(1)] Cons.prems(2) False
      unfolding upt by (simp add: case_prod_beta o_def)
  qed
qed

text \<open>
  One fixed minute per key, started by its first call. When a key has no live window, its next call
  passes; of the calls that follow within the minute exactly those up to the \<open>max\<close>-th pass, and each of
  the rest is refused with the whole seconds that are left of the minute, at least one and at most
  sixty. The table of windows keeps its bound of 5,000 keys throughout.
\<close>

theorem minute_limit_is_exact:
  assumes "\<forall>w. table_get ws key = Some w \<longrightarrow> win_resetAt w \<le> now"
    and "\<forall>t \<in> set ts. now \<le> t \<and> t < now + 60000"
    and "length ws \<le> 5000"
  shows "let r = take_calls mx key (now # ts) ws in
     fst r = None # map (\<lambda>i. if Suc i < mx then None else Some (ceil_div (now + 60000 - ts ! i) 1000)) [0..<length ts]
     \<and> (\<forall>w \<in> set (fst r). case w of None \<Rightarrow> True | Some n \<Rightarrow> 1 \<le> n \<and> n \<le> 60)
     \<and> length (snd r) \<le> 5000"
proof -
  let ?ow = "open_window key now ws"
  have first: "take_call mx key now ws = (None, ?ow)"
    using assms(1) by (auto simp: take_call_def split: option.splits)
  have wait: "1 \<le> ceil_div (now + 60000 - t) 1000 \<and> ceil_div (now + 60000 - t) 1000 \<le> 60" if "t \<in> set ts" for t
    using assms(2) that ceil_div_le_iff [of 1000 "now + 60000 - t" 60] ceil_div_le_iff [of 1000 "now + 60000 - t" 0] by force
  have calls: "fst (take_calls mx key (now # ts) ws) =
      None # map (\<lambda>i. if Suc i < mx then None else Some (ceil_div (now + 60000 - ts ! i) 1000)) [0..<length ts]"
    using take_calls_in_window [OF open_window_get, of ts now mx key ws] assms(2) wait
    by (simp add: first case_prod_beta WINDOW_MS_def max_def)
  have "length (snd (take_calls mx key us vs)) \<le> MAX_KEYS" if "length vs \<le> MAX_KEYS" for us vs
    using that by (induction us arbitrary: vs) (simp_all add: case_prod_beta take_call_bound)
  from this [of ws "now # ts"] have "length (snd (take_calls mx key (now # ts) ws)) \<le> 5000"
    using assms(3) by (simp add: MAX_KEYS_def del: take_calls.simps)
  then show ?thesis using calls wait by (auto simp: Let_def)
qed

lemma minute_limit_is_exact_witness:
  "fst (take_calls 2 ''chat|user:a'' (0 # [1000, 59500]) [(''chat|user:a'', \<lparr>win_count = 9, win_resetAt = 0\<rparr>)]) = [None, None, Some 1]"
  using minute_limit_is_exact [of "[(''chat|user:a'', \<lparr>win_count = 9, win_resetAt = 0\<rparr>)]" "''chat|user:a''" 0 "[1000, 59500]" 2]
  by (simp add: Let_def upt_rec ceil_div_def)

subsection \<open>The token budget\<close>

text \<open>The finished calls of a day: caller, tokens, time.\<close>

definition charges :: "(string \<Rightarrow> (int \<Rightarrow> int) option) \<Rightarrow> string \<Rightarrow> (string \<times> int \<times> int) list \<Rightarrow> daily \<Rightarrow> daily" where
  "charges zones zone cs d = fold (\<lambda>(caller, tokens, now). record_tokens zones zone caller tokens now) cs d"

definition tokens_of :: "string \<Rightarrow> (string \<times> int \<times> int) list \<Rightarrow> int" where
  "tokens_of caller cs = sum_list (map (\<lambda>c. max 0 (fst (snd c))) (filter (\<lambda>c. caller = ALL_CALLERS \<or> fst c = caller) cs))"

text \<open>What a caller has used of the day \<open>k\<close>: nothing when the counts are of another day.\<close>

definition used_on :: "string \<Rightarrow> string \<Rightarrow> daily \<Rightarrow> int" where
  "used_on k caller d = (if today_key d = k then used_of caller d else 0)"

lemma roll_used: "fst (dayIn zones zone now) = k \<Longrightarrow> used_of caller (snd (roll zones zone now d)) = used_on k caller d \<and> today_key (snd (roll zones zone now d)) = k"
  by (auto simp: roll_def used_on_def used_of_def Let_def)

lemma used_of_charge: "used_of c (charge caller n d) = used_of c d + (if c = caller then n else 0)"
  by (simp add: used_of_def charge_def table_simps)

lemma used_on_record:
  "fst (dayIn zones zone now) = k \<Longrightarrow> caller \<noteq> ALL_CALLERS \<Longrightarrow>
   used_on k c (record_tokens zones zone caller n now d) = used_on k c d + (if c = ALL_CALLERS \<or> c = caller then max 0 n else 0)"
proof (cases "0 < n")
  case True
  assume k: "fst (dayIn zones zone now) = k" and "caller \<noteq> ALL_CALLERS"
  let ?r = "snd (roll zones zone now d)"
  have "used_on k c (charge ALL_CALLERS n (charge caller n ?r)) = used_of c (charge ALL_CALLERS n (charge caller n ?r))"
    using roll_used [OF k, of c d] by (simp add: used_on_def charge_def)
  then show ?thesis using True roll_used [OF k, of c d] \<open>caller \<noteq> ALL_CALLERS\<close>
    by (simp add: record_tokens_def used_of_charge)
qed (simp add: record_tokens_def)

lemma used_on_charges:
  "\<forall>(caller, n, now) \<in> set cs. caller \<noteq> ALL_CALLERS \<and> fst (dayIn zones zone now) = k \<Longrightarrow>
   used_on k c (charges zones zone cs d) = used_on k c d + tokens_of c cs"
proof (induction cs arbitrary: d)
  case Nil
  then show ?case by (simp add: charges_def tokens_of_def)
next
  case (Cons x cs)
  obtain caller n now where x: "x = (caller, n, now)" by (cases x)
  have "used_on k c (charges zones zone (x # cs) d) = used_on k c (record_tokens zones zone caller n now d) + tokens_of c cs"
    using Cons by (simp add: x charges_def)
  then show ?case using Cons.prems by (auto simp: x used_on_record tokens_of_def)
qed

text \<open>
  The day's token budget is charged exactly and rolls over at the portal's midnight. After any
  finished calls of one calendar day, counted from a state of an earlier day, what a caller has used is
  the sum of the tokens of their own calls, the total (\<open>*\<close>) is the sum over all, and a further call of
  that day is refused exactly when a limit is set (above zero) and reached; the refusal gives the seconds
  left of the day.
\<close>

theorem daily_budget_is_exact:
  assumes "today_key d \<noteq> k" "fst (dayIn zones zone now) = k" "caller \<noteq> ''*''"
    and "\<forall>(who, n, t) \<in> set cs. who \<noteq> ''*'' \<and> fst (dayIn zones zone t) = k"
  shows "let d' = charges zones zone cs d;
             own = sum_list (map (\<lambda>(_, n, _). max 0 n) (filter (\<lambda>(who, _, _). who = caller) cs));
             every_one = sum_list (map (\<lambda>(_, n, _). max 0 n) cs) in
     fst (usedBy zones zone caller now d') = own \<and> fst (usedBy zones zone ''*'' now d') = every_one
     \<and> (case fst (refusal zones zone lm caller now d') of
          None \<Rightarrow> \<not> (0 < perUser lm \<and> perUser lm \<le> own) \<and> \<not> (0 < total lm \<and> total lm \<le> every_one)
        | Some r \<Rightarrow> ((0 < perUser lm \<and> perUser lm \<le> own) \<or> (0 < total lm \<and> total lm \<le> every_one))
                   \<and> retryAfter r = snd (dayIn zones zone now))"
proof -
  have star: "''*'' = ALL_CALLERS" by (simp add: ALL_CALLERS_def)
  have u: "used_of c (snd (roll zones zone now (charges zones zone cs d))) = tokens_of c cs" for c
    using used_on_charges [of cs zones zone k c d] roll_used [OF assms(2), of c] assms by (simp add: star used_on_def [of k c d])
  have own: "tokens_of caller cs = sum_list (map (\<lambda>(_, n, _). max 0 n) (filter (\<lambda>(who, _, _). who = caller) cs))"
    using assms(3) by (simp add: tokens_of_def star case_prod_beta')
  have tot: "tokens_of ALL_CALLERS cs = sum_list (map (\<lambda>(_, n, _). max 0 n) cs)"
    by (simp add: tokens_of_def case_prod_beta')
  have day: "fst (roll zones zone now d') = dayIn zones zone now" for d' by (simp add: roll_def Let_def)
  show ?thesis
    by (simp add: Let_def usedBy_def refusal_def case_prod_beta star u own tot day)
qed

definition utc_zones :: "string \<Rightarrow> (int \<Rightarrow> int) option" where
  "utc_zones z = (if z = ''UTC'' then Some (\<lambda>_. 0) else None)"

lemma daily_budget_is_exact_witness:
  "fst (usedBy utc_zones ''UTC'' ''user:a'' 86400000 (charges utc_zones ''UTC'' [(''user:a'', 30, 86400000), (''ip:b'', 12, 86401000), (''user:a'', 5, 90000000)]
      \<lparr>today_key = ''1970-1-1'', used = [(''*'', 99)]\<rparr>)) = 35"
proof -
  have d: "fst (dayIn utc_zones ''UTC'' 86400000) = ''1970-1-2''" "fst (dayIn utc_zones ''UTC'' 86401000) = ''1970-1-2''"
    "fst (dayIn utc_zones ''UTC'' 90000000) = ''1970-1-2''" by code_simp+
  show ?thesis
    using daily_budget_is_exact [of "\<lparr>today_key = ''1970-1-1'', used = [(''*'', 99)]\<rparr>" "''1970-1-2''" utc_zones "''UTC''" 86400000 "''user:a''"
      "[(''user:a'', 30, 86400000), (''ip:b'', 12, 86401000), (''user:a'', 5, 90000000)]" "\<lparr>perUser = 0, total = 0\<rparr>"]
    by (simp add: d Let_def)
qed

end
