(* ===== verification/Problems.thy ===== *)
theory Problems
  imports JsText
begin

text \<open>
  The shared Zabbix queries (\<open>server/src/domain/queries.ts\<close>): the problem row, which problems count, and
  the list of problems with their hosts attached. \<open>problem.get\<close> and \<open>trigger.get\<close> are parameters.
\<close>

record problem =
  eventid :: string
  objectid :: string
  object_kind :: string
  p_name :: string
  severity :: string
  p_clock :: string
  r_eventid :: "string option"
  r_clock :: "string option"
  acknowledged :: string
  suppressed :: "string option"
  opdata :: "string option"
  p_tags :: "(string \<times> string) list option"
  p_host :: "string option"
  p_hostid :: "string option"
  manualClose :: "bool option"

definition openProblems :: "problem list \<Rightarrow> problem list" where
  "openProblems ps =
     filter (\<lambda>p. (case r_eventid p of None \<Rightarrow> True | Some r \<Rightarrow> r = [] \<or> r = ''0'') \<and> suppressed p \<noteq> Some ''1'') ps"

text \<open>A row of \<open>trigger.get\<close>: its hosts as id and name.\<close>

record trigger_row =
  tr_triggerid :: string
  tr_manual_close :: "string option"
  tr_hosts :: "(string \<times> string) list option"

record trigger_host =
  th_hostid :: string
  th_name :: string
  th_manualClose :: bool

definition note_trigger :: "trigger_row \<Rightarrow> (string, trigger_host) table \<Rightarrow> (string, trigger_host) table" where
  "note_trigger t by_trigger =
     (case tr_hosts t of
        Some ((hostid, name) # _) \<Rightarrow>
          table_set (tr_triggerid t) \<lparr>th_hostid = hostid, th_name = name, th_manualClose = (tr_manual_close t = Some ''1'')\<rparr> by_trigger
      | _ \<Rightarrow> by_trigger)"

definition attach_host :: "(string, trigger_host) table \<Rightarrow> problem \<Rightarrow> problem" where
  "attach_host by_trigger p =
     (case table_get by_trigger (objectid p) of
        Some t \<Rightarrow> p\<lparr>p_host := Some (th_name t), p_hostid := Some (th_hostid t), manualClose := Some (th_manualClose t)\<rparr>
      | None \<Rightarrow> p\<lparr>p_host := Some [], p_hostid := Some [], manualClose := Some False\<rparr>)"

definition getProblems :: "'e + problem list \<Rightarrow> (string list \<Rightarrow> 'e + trigger_row list) \<Rightarrow> 'e + problem list" where
  "getProblems problem_get trigger_get =
     and_then problem_get (\<lambda>problems.
       let triggerIds = js_set (map objectid (filter (\<lambda>p. object_kind p = ''0'') problems)) in
       and_then (if triggerIds = [] then Inr [] else trigger_get triggerIds) (\<lambda>triggers.
         Inr (map (attach_host (fold note_trigger triggers [])) problems)))"

text \<open>A host with what the Sites board and the inventory scorecard need.\<close>

record inventory =
  site_city :: "string option"
  location :: "string option"
  poc_1_name :: "string option"
  poc_1_email :: "string option"
  inv_notes :: "string option"

record host_interface =
  hi_ip :: string
  hi_type :: "string option"
  hi_available :: "string option"

record host_meta_row =
  hm_hostid :: string
  hm_name :: string
  hm_status :: string
  maintenance_status :: "string option"
  hm_description :: "string option"
  hm_interfaces :: "host_interface list option"
  hm_hostgroups :: "(string \<times> string) list option"
  hm_tags :: "(string \<times> string) list option"
  hm_inventory :: "inventory option"

definition SEVERITY_NAMES :: "(string \<times> string) list" where
  "SEVERITY_NAMES = [(''0'', ''Not classified''), (''1'', ''Information''), (''2'', ''Warning''),
     (''3'', ''Average''), (''4'', ''High''), (''5'', ''Disaster'')]"

subsection \<open>Lemmas\<close>

text \<open>The last row of a trigger that names a host is the one that counts.\<close>

definition host_rows :: "string \<Rightarrow> trigger_row list \<Rightarrow> trigger_row list" where
  "host_rows i ts = filter (\<lambda>t. tr_triggerid t = i \<and> (case tr_hosts t of Some (_ # _) \<Rightarrow> True | _ \<Rightarrow> False)) ts"

lemma note_triggers_get:
  "table_get (fold note_trigger ts m) i =
     (case rev (host_rows i ts) of
        [] \<Rightarrow> table_get m i
      | t # _ \<Rightarrow> (case tr_hosts t of Some (h # _) \<Rightarrow>
                   Some \<lparr>th_hostid = fst h, th_name = snd h, th_manualClose = (tr_manual_close t = Some ''1'')\<rparr> | _ \<Rightarrow> None))"
proof (induction ts arbitrary: m)
  case Nil
  then show ?case by (simp add: host_rows_def)
next
  case (Cons t ts)
  show ?case
  proof (cases "rev (host_rows i ts)")
    case (Cons u us)
    then have "rev (host_rows i (t # ts)) = u # us @ (if host_rows i [t] = [] then [] else [t])"
      by (auto simp: host_rows_def)
    then show ?thesis using Cons Cons.IH by simp
  next
    case Nil
    then show ?thesis using Cons.IH
      by (auto simp: host_rows_def note_trigger_def table_simps split: option.splits list.splits)
  qed
qed

lemma openProblems_idem: "openProblems (openProblems ps) = openProblems ps"
  by (simp add: openProblems_def)

subsection \<open>Property\<close>

text \<open>
  The list of problems is complete and each problem carries the host of its trigger. When the reads
  succeed, the answer has the rows of \<open>problem.get\<close> in their order, changed in the three added fields only:
  the host is the first host of the last row \<open>trigger.get\<close> gave for the trigger, empty when there is none;
  and the triggers of all trigger problems are asked for, each once, in one call, and in none when there is
  no such problem.
\<close>

theorem problems_keep_rows_and_get_hosts:
  assumes "getProblems problem_get trigger_get = Inr qs"
  shows "\<exists>ps ids ts. problem_get = Inr ps \<and> distinct ids \<and> set ids = {objectid p |p. p \<in> set ps \<and> object_kind p = ''0''} \<and>
     (if ids = [] then Inr [] else trigger_get ids) = Inr ts \<and> length qs = length ps \<and>
     (\<forall>i < length ps.
        qs ! i = (ps ! i)\<lparr>p_host := p_host (qs ! i), p_hostid := p_hostid (qs ! i), manualClose := manualClose (qs ! i)\<rparr> \<and>
        p_host (qs ! i) =
          Some (case rev (host_rows (objectid (ps ! i)) ts) of [] \<Rightarrow> [] | t # _ \<Rightarrow> (case tr_hosts t of Some (h # _) \<Rightarrow> snd h | _ \<Rightarrow> [])))"
proof -
  from assms obtain ps where ps: "problem_get = Inr ps" by (auto simp: getProblems_def and_then_Inr)
  define ids where "ids = js_set (map objectid (filter (\<lambda>p. object_kind p = ''0'') ps))"
  have "and_then (if ids = [] then Inr [] else trigger_get ids) (\<lambda>ts. Inr (map (attach_host (fold note_trigger ts [])) ps)) = Inr qs"
    using assms unfolding getProblems_def ps ids_def and_then.simps Let_def .
  then obtain ts where ts: "(if ids = [] then Inr [] else trigger_get ids) = Inr ts"
    and qs: "qs = map (attach_host (fold note_trigger ts [])) ps"
    unfolding and_then_Inr by blast
  have ids: "distinct ids" "set ids = {objectid p |p. p \<in> set ps \<and> object_kind p = ''0''}" by (auto simp: ids_def)
  have rows: "q = p\<lparr>p_host := p_host q, p_hostid := p_hostid q, manualClose := manualClose q\<rparr> \<and>
      p_host q = Some (case rev (host_rows (objectid p) ts) of [] \<Rightarrow> [] | t # _ \<Rightarrow> (case tr_hosts t of Some (h # _) \<Rightarrow> snd h | _ \<Rightarrow> []))"
    if "q = attach_host (fold note_trigger ts []) p" for p q
    unfolding that by (auto simp: attach_host_def note_triggers_get intro!: problem.equality split: option.splits list.splits)
  have "length qs = length ps" "\<forall>i < length ps. qs ! i = attach_host (fold note_trigger ts []) (ps ! i)" by (simp_all add: qs)
  then show ?thesis using ps ids ts rows by blast
qed

definition sample_problem :: "string \<Rightarrow> string \<Rightarrow> problem" where
  "sample_problem e t = \<lparr>eventid = e, objectid = t, object_kind = ''0'', p_name = ''link down'', severity = ''4'', p_clock = ''100'',
     r_eventid = Some ''0'', r_clock = None, acknowledged = ''0'', suppressed = Some ''0'', opdata = None, p_tags = None,
     p_host = None, p_hostid = None, manualClose = None\<rparr>"

lemma problems_keep_rows_and_get_hosts_witness:
  "\<exists>ts. map p_host (case getProblems (Inr [sample_problem ''9'' ''7'', sample_problem ''8'' ''6''] :: unit + problem list)
       (\<lambda>_. Inr [\<lparr>tr_triggerid = ''7'', tr_manual_close = Some ''1'', tr_hosts = Some [(''1'', ''INET-A'')]\<rparr>]) of Inr qs \<Rightarrow> qs | Inl _ \<Rightarrow> [])
     = [Some ''INET-A'', Some (case rev (host_rows ''6'' ts) of [] \<Rightarrow> [] | t # _ \<Rightarrow> (case tr_hosts t of Some (h # _) \<Rightarrow> snd h | _ \<Rightarrow> []))]"
proof -
  let ?tg = "\<lambda>_ :: string list. Inr [\<lparr>tr_triggerid = ''7'', tr_manual_close = Some ''1'', tr_hosts = Some [(''1'', ''INET-A'')]\<rparr>] :: unit + trigger_row list"
  let ?ps = "[sample_problem ''9'' ''7'', sample_problem ''8'' ''6'']"
  obtain qs where qs: "getProblems (Inr ?ps) ?tg = Inr qs" and hs: "qs ! 0 = attach_host (fold note_trigger [\<lparr>tr_triggerid = ''7'', tr_manual_close = Some ''1'', tr_hosts = Some [(''1'', ''INET-A'')]\<rparr>] []) (?ps ! 0)"
    by (auto simp: getProblems_def Let_def js_set_def sample_problem_def)
  obtain ts where ts: "length qs = 2" "p_host (qs ! 1) = Some (case rev (host_rows ''6'' ts) of [] \<Rightarrow> [] | t # _ \<Rightarrow> (case tr_hosts t of Some (h # _) \<Rightarrow> snd h | _ \<Rightarrow> []))"
    using problems_keep_rows_and_get_hosts [OF qs] by (auto simp: less_Suc_eq_0_disj numeral_2_eq_2 sample_problem_def)
  have "qs = [qs ! 0, qs ! 1]" using ts(1) by (auto simp: list_eq_iff_nth_eq less_Suc_eq numeral_2_eq_2)
  then have "map p_host qs = [p_host (qs ! 0), p_host (qs ! 1)]" by (metis list.map)
  then show ?thesis using qs ts(2) hs by (auto simp: attach_host_def note_trigger_def sample_problem_def)
qed

end
