(* ===== verification/JsonText.thy ===== *)
theory JsonText
  imports JsText
begin

text \<open>
  \<open>JSON.stringify\<close> on the values the server sends as text itself: strings, flat objects of strings
  (an \<open>undefined\<close> field is left out) and arrays of them, with the proof that such a text determines its
  value. The interface is that of a prefix code: an encoded value can be told from what follows it.
\<close>

subsection \<open>Encoding\<close>

definition hex_digit :: "nat \<Rightarrow> char" where
  "hex_digit d = (if d < 10 then digit_char d else char_of (87 + d))"

definition json_char :: "char \<Rightarrow> string" where
  "json_char c =
     (if c = CHR 0x22 then [CHR 0x5C, CHR 0x22]
      else if c = CHR 0x5C then [CHR 0x5C, CHR 0x5C]
      else if c = CHR 0x08 then [CHR 0x5C, CHR ''b'']
      else if c = CHR 0x0C then [CHR 0x5C, CHR ''f'']
      else if c = CHR 0x0A then [CHR 0x5C, CHR ''n'']
      else if c = CHR 0x0D then [CHR 0x5C, CHR ''r'']
      else if c = CHR 0x09 then [CHR 0x5C, CHR ''t'']
      else if of_char c < (32 :: nat) then
        CHR 0x5C # ''u00'' @ [hex_digit (of_char c div 16), hex_digit (of_char c mod 16)]
      else [c])"

definition json_string :: "string \<Rightarrow> string" where
  "json_string s = CHR 0x22 # concat (map json_char s) @ [CHR 0x22]"

definition json_field :: "string \<times> string \<Rightarrow> string" where
  "json_field kv = json_string (fst kv) @ CHR '':'' # json_string (snd kv)"

definition json_object :: "(string \<times> string) list \<Rightarrow> string" where
  "json_object kvs = CHR ''{'' # join '','' (map json_field kvs) @ ''}''"

definition json_array :: "('a \<Rightarrow> string) \<Rightarrow> 'a list \<Rightarrow> string" where
  "json_array f xs = CHR ''['' # join '','' (map f xs) @ '']''"

subsection \<open>Prefix codes\<close>

locale prefix_code =
  fixes enc :: "'a \<Rightarrow> string"
  assumes enc_inj: "enc x @ r = enc y @ s \<Longrightarrow> x = y \<and> r = s"
begin

lemma enc_eq: "enc x = enc y \<longleftrightarrow> x = y"
  using enc_inj [of x "[]" y "[]"] by auto

lemma enc_Nil: "enc x = [] \<Longrightarrow> y = x"
  using enc_inj [of x "enc y" y "[]"] by auto

lemma join_Cons: "xs \<noteq> [] \<Longrightarrow> join '','' (map enc (x # xs)) = enc x @ CHR '','' # join '','' (map enc xs)"
  by (cases xs) auto

text \<open>What stands after the first element of a list that ends with \<open>t\<close>.\<close>

definition after :: "'a list \<Rightarrow> string \<Rightarrow> string" where
  "after xs t = (if xs = [] then t else CHR '','' # join '','' (map enc xs) @ t)"

lemma join_after: "join '','' (map enc (x # xs)) @ t = enc x @ after xs t"
  by (cases xs) (auto simp: after_def)

text \<open>A list with an end mark that is no separator and that no element starts with.\<close>

lemma join_inj:
  assumes mark: "c \<noteq> CHR '',''" "\<And>x r s. enc x @ r \<noteq> c # s"
  shows "join '','' (map enc xs) @ c # r = join '','' (map enc ys) @ c # s \<Longrightarrow> xs = ys \<and> r = s"
proof (induction xs arbitrary: ys)
  case Nil
  then show ?case using mark(2) by (cases ys) (auto simp: join_after simp del: list.map(2), metis)
next
  case (Cons x xs)
  show ?case
  proof (cases ys)
    case Nil
    then show ?thesis using Cons.prems mark(2) by (auto simp: join_after simp del: list.map(2))
  next
    case ys: (Cons y ys')
    have "enc x @ after xs (c # r) = enc y @ after ys' (c # s)"
      using Cons.prems unfolding ys join_after .
    then have eq: "x = y" "after xs (c # r) = after ys' (c # s)" using enc_inj by blast+
    then show ?thesis using Cons.IH [of ys'] mark(1) ys by (cases xs; cases ys') (auto simp: after_def)
  qed
qed

end

subsection \<open>The codes\<close>

lemma json_char_nonempty: "json_char c \<noteq> []"
  by (simp add: json_char_def)

definition hex_value :: "char \<Rightarrow> nat" where
  "hex_value c = (if is_digit c then digit_val c else of_char c - 87)"

lemma hex_value_digit: "d < 16 \<Longrightarrow> hex_value (hex_digit d) = d"
proof (cases "d < 10")
  case False
  assume "d < 16"
  then have "(of_char (char_of (87 + d) :: char) :: nat) = 87 + d" by simp
  then show ?thesis using False by (simp add: hex_value_def hex_digit_def is_digit_iff)
qed (simp add: hex_value_def hex_digit_def)

text \<open>Reading back one character.\<close>

definition unescape :: "string \<Rightarrow> (char \<times> string) option" where
  "unescape t =
     (case t of
        [] \<Rightarrow> None
      | c # r \<Rightarrow>
          if c \<noteq> CHR 0x5C then Some (c, r)
          else (case r of
              [] \<Rightarrow> None
            | e # r' \<Rightarrow>
                if e = CHR ''u'' then Some (char_of (16 * hex_value (r' ! 2) + hex_value (r' ! 3)), drop 4 r')
                else Some (if e = CHR ''b'' then CHR 0x08 else if e = CHR ''f'' then CHR 0x0C else if e = CHR ''n'' then CHR 0x0A
                           else if e = CHR ''r'' then CHR 0x0D else if e = CHR ''t'' then CHR 0x09 else e, r')))"

lemma unescape_json: "unescape (json_char c @ r) = Some (c, r)"
proof -
  have ctrl: "unescape (CHR 0x5C # ''u00'' @ [hex_digit (of_char c div 16), hex_digit (of_char c mod 16)] @ r) = Some (c, r)"
    if "of_char c < (32::nat)"
  proof -
    have "(of_char c :: nat) div 16 < 16" using that by (simp add: less_mult_imp_div_less)
    then show ?thesis by (simp add: unescape_def hex_value_digit)
  qed
  show ?thesis
  proof (cases "c \<in> {CHR 0x22, CHR 0x5C, CHR 0x08, CHR 0x0C, CHR 0x0A, CHR 0x0D, CHR 0x09}")
    case True
    then consider "c = CHR 0x22" | "c = CHR 0x5C" | "c = CHR 0x08" | "c = CHR 0x0C" | "c = CHR 0x0A" | "c = CHR 0x0D" | "c = CHR 0x09"
      by blast
    then show ?thesis by cases (simp_all add: json_char_def unescape_def)
  next
    case special: False
    show ?thesis
    proof (cases "of_char c < (32::nat)")
      case True
      then have "json_char c = CHR 0x5C # ''u00'' @ [hex_digit (of_char c div 16), hex_digit (of_char c mod 16)]"
        using special unfolding json_char_def by (simp only: insert_iff empty_iff de_Morgan_disj if_False if_True simp_thms)
      then show ?thesis using ctrl [OF True] by (simp only: append_Cons append_assoc append_Nil)
    next
      case False
      then have "json_char c = [c]"
        using special unfolding json_char_def by (simp only: insert_iff empty_iff de_Morgan_disj if_False if_True simp_thms)
      then show ?thesis using special by (simp add: unescape_def)
    qed
  qed
qed

lemma json_char_inj: "json_char c @ r = json_char d @ s \<Longrightarrow> c = d \<and> r = s"
proof -
  assume "json_char c @ r = json_char d @ s"
  then have "unescape (json_char c @ r) = unescape (json_char d @ s)" by (rule arg_cong)
  then have "Some (c, r) = Some (d, s)" unfolding unescape_json .
  then show ?thesis by simp
qed

lemma json_char_no_quote: "json_char c @ r \<noteq> CHR 0x22 # s"
  by (simp add: json_char_def)

lemma json_chars_inj:
  "concat (map json_char x) @ CHR 0x22 # r = concat (map json_char y) @ CHR 0x22 # s \<Longrightarrow> x = y \<and> r = s"
proof (induction x arbitrary: y)
  case Nil
  then show ?case using json_char_no_quote by (cases y) (auto, metis)
next
  case (Cons c x)
  show ?case
  proof (cases y)
    case Nil
    then show ?thesis using Cons.prems json_char_no_quote by auto
  next
    case y: (Cons d y')
    have "json_char c @ concat (map json_char x) @ CHR 0x22 # r = json_char d @ concat (map json_char y') @ CHR 0x22 # s"
      using Cons.prems y by simp
    then have "c = d" "concat (map json_char x) @ CHR 0x22 # r = concat (map json_char y') @ CHR 0x22 # s"
      using json_char_inj by blast+
    then show ?thesis using Cons.IH y by blast
  qed
qed

interpretation str_code: prefix_code json_string
  by unfold_locales (auto simp: json_string_def dest: json_chars_inj)

interpretation field_code: prefix_code json_field
proof
  fix x y r s assume "json_field x @ r = json_field y @ s"
  then have "json_string (fst x) @ CHR '':'' # json_string (snd x) @ r = json_string (fst y) @ CHR '':'' # json_string (snd y) @ s"
    by (simp add: json_field_def)
  then have "fst x = fst y" "json_string (snd x) @ r = json_string (snd y) @ s" using str_code.enc_inj by blast+
  then show "x = y \<and> r = s" using str_code.enc_inj [of "snd x" r "snd y" s] by (auto intro: prod_eqI)
qed

interpretation object_code: prefix_code json_object
proof
  fix x y r s assume "json_object x @ r = json_object y @ s"
  then have "join '','' (map json_field x) @ CHR ''}'' # r = join '','' (map json_field y) @ CHR ''}'' # s"
    by (simp add: json_object_def)
  then show "x = y \<and> r = s" by (rule field_code.join_inj [rotated 2]) (simp_all add: json_field_def json_string_def)
qed

lemma json_objects_inj: "json_array json_object xs = json_array json_object ys \<longleftrightarrow> xs = ys"
  using object_code.join_inj [of "CHR '']''" xs "[]" ys "[]"] by (auto simp: json_array_def json_object_def)

end
