(* ===== verification/LiveStream.thy ===== *)
theory LiveStream
  imports Problems JsonText "HOL-Library.List_Lexorder"
begin

text \<open>
  The live problem stream (\<open>server/src/services/stream.ts\<close>, \<open>routes/stream.ts\<close>): one ticker serves every
  connected screen. The state is the module's variables; the promises in flight are the list \<open>reads\<close>.
  A screen is known by a number (the identity of its response object); \<open>cl_open\<close> says that its output is
  neither ended nor destroyed, and \<open>cl_out\<close> is what has been written to it, a frame with its number.
  \<open>room\<close> is what \<open>write()\<close> answers for each screen. Times are milliseconds.
\<close>

subsection \<open>Pure parts\<close>

definition TICK_MS :: int where "TICK_MS = 5000"
definition MAX_QUIET_MS :: int where "MAX_QUIET_MS = 30000"
definition KEEPALIVE_MS :: int where "KEEPALIVE_MS = 15000"
definition MAX_TIMER_MS :: int where "MAX_TIMER_MS = 2 ^ 31 - 1"

definition event_text :: "string \<Rightarrow> string \<Rightarrow> string" where
  "event_text kind body = ''event: '' @ kind @ CHR 0x0A # ''data: '' @ body @ [CHR 0x0A, CHR 0x0A]"

definition pingFrame :: "int option \<Rightarrow> string" where
  "pingFrame ageMs = event_text ''ping'' (case ageMs of None \<Rightarrow> ''{}''
     | Some a \<Rightarrow> ''{'' @ json_string ''ageMs'' @ CHR '':'' # show_int a @ ''}'')"

definition or_empty :: "string option \<Rightarrow> string" where
  "or_empty s = (case s of None \<Rightarrow> [] | Some t \<Rightarrow> t)"

definition shown :: "problem \<Rightarrow> string list" where
  "shown p = [eventid p, severity p, acknowledged p, or_empty (suppressed p), or_empty (r_eventid p)]"

definition fingerprint :: "problem list \<Rightarrow> string" where
  "fingerprint ps = join ''|'' (js_sort compare (map (\<lambda>p. join '':'' (shown p)) ps))"

definition field :: "string \<Rightarrow> string option \<Rightarrow> (string \<times> string) list" where
  "field k v = (case v of None \<Rightarrow> [] | Some t \<Rightarrow> [(k, t)])"

definition liveProblem :: "problem \<Rightarrow> (string \<times> string) list" where
  "liveProblem p =
     [(''eventid'', eventid p), (''objectid'', objectid p), (''object'', object_kind p), (''name'', p_name p),
      (''severity'', severity p), (''clock'', p_clock p)] @ field ''r_eventid'' (r_eventid p) @
     [(''acknowledged'', acknowledged p)] @ field ''suppressed'' (suppressed p) @ field ''host'' (p_host p) @
     field ''hostid'' (p_hostid p)"

definition frameJson :: "problem list \<Rightarrow> string" where
  "frameJson ps = json_array json_object (map liveProblem ps)"

record sent =
  s_fingerprint :: string
  s_json :: string
  s_at :: int

definition shouldSend :: "sent option \<Rightarrow> string \<Rightarrow> string \<Rightarrow> int \<Rightarrow> bool" where
  "shouldSend last_sent fp json now =
     (case last_sent of
        None \<Rightarrow> True
      | Some l \<Rightarrow> (if s_fingerprint l \<noteq> fp then True else if s_json l = json then False else now + TICK_MS - s_at l > MAX_QUIET_MS))"

subsection \<open>State\<close>

record frame =
  fr_id :: nat
  fr_text :: string

datatype written = Data frame | Ping string

record client =
  cl_owner :: string
  cl_open :: bool
  cl_blocked :: bool
  cl_frameId :: nat
  cl_lastWrite :: int
  cl_out :: "written list"

record pending_read =
  rd_number :: nat
  rd_force :: bool
  rd_ticker :: bool

record live =
  clients :: "(nat, client) table"
  latest :: "frame option"
  lastSent :: "sent option"
  lastReadAt :: "int option"
  frameIds :: nat
  ticker :: bool
  ticking :: bool
  readsStarted :: nat
  readsApplied :: nat
  lastError :: "string option"
  reads :: "pending_read list"

definition live_start :: live where
  "live_start = \<lparr>clients = [], latest = None, lastSent = None, lastReadAt = None, frameIds = 0, ticker = False, ticking = False,
     readsStarted = 0, readsApplied = 0, lastError = None, reads = []\<rparr>"

subsection \<open>Operations\<close>

definition write_out :: "bool \<Rightarrow> written \<Rightarrow> int \<Rightarrow> client \<Rightarrow> client" where
  "write_out room w now c =
     (if \<not> cl_open c then c
      else (let c = c\<lparr>cl_lastWrite := now, cl_out := cl_out c @ [w]\<rparr> in if room then c else c\<lparr>cl_blocked := True\<rparr>))"

definition deliver :: "bool \<Rightarrow> frame \<Rightarrow> int \<Rightarrow> client \<Rightarrow> client" where
  "deliver room f now c = (if cl_blocked c then c else write_out room (Data f) now (c\<lparr>cl_frameId := fr_id f\<rparr>))"

definition map_clients :: "(nat \<Rightarrow> client \<Rightarrow> client) \<Rightarrow> live \<Rightarrow> live" where
  "map_clients f s = s\<lparr>clients := map (\<lambda>p. (fst p, f (fst p) (snd p))) (clients s)\<rparr>"

definition broadcast :: "(nat \<Rightarrow> bool) \<Rightarrow> string \<Rightarrow> int \<Rightarrow> live \<Rightarrow> live" where
  "broadcast room text now s =
     (let f = \<lparr>fr_id = Suc (frameIds s), fr_text = text\<rparr>
      in map_clients (\<lambda>i. deliver (room i) f now) (s\<lparr>frameIds := Suc (frameIds s), latest := Some f\<rparr>))"

text \<open>What a failed read of Zabbix throws; the texts are the errors' own messages.\<close>

datatype read_error = ReadApi string | ReadTimeout string | ReadAuth string | ReadOther

definition SOURCE_DOWN :: string where "SOURCE_DOWN = ''The data source is not answering.''"

definition publicMessage :: "read_error \<Rightarrow> string \<times> string" where
  "publicMessage err =
     (let bug = ''The live stream hit an unexpected error. Tell an administrator.'' in
      case err of ReadApi m \<Rightarrow> (SOURCE_DOWN, m) | ReadTimeout m \<Rightarrow> (SOURCE_DOWN, m) | ReadAuth m \<Rightarrow> (SOURCE_DOWN, m)
                | ReadOther \<Rightarrow> (bug, bug))"

definition problems_text :: "string \<Rightarrow> string" where
  "problems_text json = event_text ''problems'' json"

definition error_text :: "string \<Rightarrow> string" where
  "error_text message = event_text ''error'' (json_object [(''message'', message)])"

definition refresh_begin :: "bool \<Rightarrow> bool \<Rightarrow> live \<Rightarrow> live" where
  "refresh_begin force by_ticker s =
     s\<lparr>readsStarted := Suc (readsStarted s),
       reads := reads s @ [\<lparr>rd_number = Suc (readsStarted s), rd_force = force, rd_ticker = by_ticker\<rparr>]\<rparr>"

definition refresh_apply :: "(nat \<Rightarrow> bool) \<Rightarrow> pending_read \<Rightarrow> read_error + problem list \<Rightarrow> int \<Rightarrow> live \<Rightarrow> live" where
  "refresh_apply room r result now s =
     (if rd_number r < readsApplied s \<or> clients s = [] then s
      else (let s = s\<lparr>readsApplied := rd_number r\<rparr> in
        case result of
          Inl err \<Rightarrow>
            broadcast room (error_text (fst (publicMessage err))) now
              (s\<lparr>lastSent := None, lastReadAt := None, lastError := Some (snd (publicMessage err))\<rparr>)
        | Inr ps \<Rightarrow>
            (let s = s\<lparr>lastError := None, lastReadAt := Some now\<rparr>; fp = fingerprint ps; json = frameJson ps
             in if \<not> rd_force r \<and> \<not> shouldSend (lastSent s) fp json now then s
                else broadcast room (problems_text json) now (s\<lparr>lastSent := Some \<lparr>s_fingerprint = fp, s_json = json, s_at = now\<rparr>\<rparr>))))"

text \<open>The read \<open>r\<close> is over; the ticker's own read also ends \<open>ticking\<close>.\<close>

definition refresh_end :: "(nat \<Rightarrow> bool) \<Rightarrow> pending_read \<Rightarrow> read_error + problem list \<Rightarrow> int \<Rightarrow> live \<Rightarrow> live" where
  "refresh_end room r result now s =
     (let s = refresh_apply room r result now (s\<lparr>reads := filter (\<lambda>q. q \<noteq> r) (reads s)\<rparr>)
      in if rd_ticker r then s\<lparr>ticking := False\<rparr> else s)"

definition tick :: "(nat \<Rightarrow> bool) \<Rightarrow> int \<Rightarrow> live \<Rightarrow> live" where
  "tick room now s =
     (let ping = Ping (pingFrame (case lastReadAt s of None \<Rightarrow> None | Some a \<Rightarrow> Some (max 0 (now - a))));
          s = map_clients (\<lambda>i c. if \<not> cl_blocked c \<and> now - cl_lastWrite c \<ge> KEEPALIVE_MS then write_out (room i) ping now c else c) s
      in if ticking s then s else refresh_begin False True (s\<lparr>ticking := True\<rparr>))"

record stream_limits =
  maxClients :: nat
  maxPerUser :: nat

definition owned :: "string \<Rightarrow> live \<Rightarrow> nat" where
  "owned owner s = length (filter (\<lambda>p. cl_owner (snd p) = owner) (clients s))"

definition refusalFor :: "string \<Rightarrow> stream_limits \<Rightarrow> live \<Rightarrow> string option" where
  "refusalFor owner lm s =
     (if length (clients s) \<ge> maxClients lm then
        Some (''The portal is already streaming to '' @ show_nat (maxClients lm) @
              '' screens. Close one, or ask an admin to raise STREAM_MAX_CLIENTS.'')
      else if owned owner s \<ge> maxPerUser lm then
        Some (''This account already has '' @ show_nat (maxPerUser lm) @ '' live screens open. Close one and try again.'')
      else None)"

definition remove_client :: "nat \<Rightarrow> live \<Rightarrow> live" where
  "remove_client i s =
     (if table_get (clients s) i = None then s
      else (let s = s\<lparr>clients := table_delete i (clients s)\<rparr> in
        if clients s \<noteq> [] \<or> \<not> ticker s then s
        else s\<lparr>ticker := False, latest := None, lastSent := None, lastReadAt := None\<rparr>))"

definition subscribe :: "bool \<Rightarrow> nat \<Rightarrow> string \<Rightarrow> int \<Rightarrow> live \<Rightarrow> live" where
  "subscribe room i owner now s =
     (let c = \<lparr>cl_owner = owner, cl_open = True, cl_blocked = False, cl_frameId = 0, cl_lastWrite = now, cl_out = []\<rparr>;
          s = s\<lparr>clients := clients s @ [(i, c)], ticker := True\<rparr>
      in case latest s of
           Some f \<Rightarrow> map_clients (\<lambda>j d. if j = i then deliver room f now d else d) s
         | None \<Rightarrow> (if ticking s then s else refresh_begin False True (s\<lparr>ticking := True\<rparr>)))"

text \<open>The route: refused over a limit, else subscribed.\<close>

definition open_stream :: "stream_limits \<Rightarrow> bool \<Rightarrow> nat \<Rightarrow> string \<Rightarrow> int \<Rightarrow> live \<Rightarrow> string option \<times> live" where
  "open_stream lm room i owner now s =
     (case refusalFor owner lm s of Some m \<Rightarrow> (Some m, s) | None \<Rightarrow> (None, subscribe room i owner now s))"

text \<open>The buffer of a screen has drained: it catches up with the latest frame.\<close>

definition drained :: "bool \<Rightarrow> nat \<Rightarrow> int \<Rightarrow> live \<Rightarrow> live" where
  "drained room i now s =
     map_clients (\<lambda>j c. if j \<noteq> i then c else
       (let c = c\<lparr>cl_blocked := False\<rparr> in
        case latest s of Some f \<Rightarrow> (if cl_frameId c \<noteq> fr_id f then deliver room f now c else c) | None \<Rightarrow> c)) s"

definition endStreamOf :: "nat \<Rightarrow> live \<Rightarrow> live" where
  "endStreamOf i s = map_clients (\<lambda>j c. if j = i then c\<lparr>cl_open := False\<rparr> else c) s"

definition endStreams :: "live \<Rightarrow> nat \<times> live" where
  "endStreams s = (length (clients s), fold remove_client (table_keys (clients s)) s)"

definition notifyProblemsChanged :: "live \<Rightarrow> live" where
  "notifyProblemsChanged s = (if clients s \<noteq> [] then refresh_begin True False s else s)"

definition ownerOf :: "string option \<Rightarrow> string \<Rightarrow> string" where
  "ownerOf sub ip = (case sub of Some n \<Rightarrow> if n \<noteq> [] then ''user:'' @ n else ''ip:'' @ ip | None \<Rightarrow> ''ip:'' @ ip)"

definition msUntilExpiry :: "int option \<Rightarrow> int \<Rightarrow> int option" where
  "msUntilExpiry expiry now = map_option (\<lambda>e. min (max (e * 1000 - now) 0) MAX_TIMER_MS) expiry"

subsection \<open>Steps\<close>

text \<open>
  Everything that can happen, in any order: a request opens a stream, the ticker fires, a read ends, a
  write-back asks for a forced read, a buffer drains, a connection closes, a token expires, the server
  shuts down.
\<close>

inductive step :: "stream_limits \<Rightarrow> live \<Rightarrow> live \<Rightarrow> bool" for lm where
  open_step: "table_get (clients s) i = None \<Longrightarrow> step lm s (snd (open_stream lm room i owner now s))"
| tick_step: "ticker s \<Longrightarrow> step lm s (tick room now s)"
| read_step: "r \<in> set (reads s) \<Longrightarrow> step lm s (refresh_end room r result now s)"
| notify_step: "step lm s (notifyProblemsChanged s)"
| drain_step: "step lm s (drained room i now s)"
| gone_step: "step lm s (remove_client i s)"
| expire_step: "step lm s (endStreamOf i s)"
| shutdown_step: "step lm s (snd (endStreams s))"

inductive reachable :: "stream_limits \<Rightarrow> live \<Rightarrow> bool" for lm where
  start: "reachable lm live_start"
| more: "reachable lm s \<Longrightarrow> step lm s s' \<Longrightarrow> reachable lm s'"

inductive_cases step_cases: "step lm s s'"

subsection \<open>The invariant\<close>

fun data_frames :: "written list \<Rightarrow> frame list" where
  "data_frames [] = []"
| "data_frames (Data f # ws) = f # data_frames ws"
| "data_frames (Ping p # ws) = data_frames ws"

lemma data_frames_append [simp]: "data_frames (ws @ vs) = data_frames ws @ data_frames vs"
  by (induction ws rule: data_frames.induct) auto

text \<open>The screens and the ticker: the limits hold, the ticker runs exactly while someone listens, an idle module holds nothing.\<close>

definition screens_ok :: "stream_limits \<Rightarrow> live \<Rightarrow> bool" where
  "screens_ok lm s \<longleftrightarrow> wf_table (clients s) \<and> length (clients s) \<le> maxClients lm \<and> (\<forall>who. owned who s \<le> maxPerUser lm) \<and>
     (ticker s \<longleftrightarrow> clients s \<noteq> []) \<and> (clients s = [] \<longrightarrow> latest s = None \<and> lastSent s = None \<and> lastReadAt s = None)"

text \<open>The reads in flight: numbered apart, the ticker has at most one.\<close>

definition reads_ok :: "live \<Rightarrow> bool" where
  "reads_ok s \<longleftrightarrow> distinct (map rd_number (reads s)) \<and> (\<forall>r \<in> set (reads s). rd_number r \<le> readsStarted s) \<and>
     readsApplied s \<le> readsStarted s \<and> length (filter rd_ticker (reads s)) = of_bool (ticking s)"

text \<open>One screen against the latest frame.\<close>

definition client_ok :: "nat \<Rightarrow> frame option \<Rightarrow> client \<Rightarrow> bool" where
  "client_ok n lt c \<longleftrightarrow> cl_frameId c \<le> n \<and> sorted_wrt (<) (map fr_id (data_frames (cl_out c))) \<and>
     (\<forall>f \<in> set (data_frames (cl_out c)). fr_id f \<le> cl_frameId c) \<and>
     (\<forall>f. lt = Some f \<longrightarrow> (\<not> cl_blocked c \<longrightarrow> cl_frameId c = fr_id f) \<and>
        (cl_open c \<longrightarrow> cl_frameId c = fr_id f \<longrightarrow> data_frames (cl_out c) \<noteq> [] \<and> last (data_frames (cl_out c)) = f))"

definition frames_ok :: "live \<Rightarrow> bool" where
  "frames_ok s \<longleftrightarrow> (\<forall>f. latest s = Some f \<longrightarrow> fr_id f = frameIds s \<and> 0 < fr_id f) \<and> (\<forall>p \<in> set (clients s). client_ok (frameIds s) (latest s) (snd p))"

text \<open>The latest frame is the list last sent or, with none, an error.\<close>

definition sent_ok :: "live \<Rightarrow> bool" where
  "sent_ok s \<longleftrightarrow> (case (latest s, lastSent s) of
      (None, l) \<Rightarrow> l = None
    | (Some f, Some l) \<Rightarrow> fr_text f = problems_text (s_json l)
    | (Some f, None) \<Rightarrow> \<exists>m. fr_text f = error_text m)"

subsubsection \<open>Screens\<close>

lemma map_clients_keys [simp]: "map fst (clients (map_clients f s)) = map fst (clients s)"
  by (simp add: map_clients_def o_def)

lemma map_clients_sel [simp]:
  "clients (map_clients f s) = [] \<longleftrightarrow> clients s = []" "length (clients (map_clients f s)) = length (clients s)"
  "latest (map_clients f s) = latest s" "lastSent (map_clients f s) = lastSent s" "lastReadAt (map_clients f s) = lastReadAt s"
  "frameIds (map_clients f s) = frameIds s" "ticker (map_clients f s) = ticker s" "ticking (map_clients f s) = ticking s"
  "readsStarted (map_clients f s) = readsStarted s" "readsApplied (map_clients f s) = readsApplied s" "reads (map_clients f s) = reads s"
  by (simp_all add: map_clients_def)

lemma wf_map_clients [simp]: "wf_table (clients (map_clients f s)) \<longleftrightarrow> wf_table (clients s)"
  by (simp add: wf_table_def)

lemma owned_map_clients: "(\<And>i c. cl_owner (f i c) = cl_owner c) \<Longrightarrow> owned who (map_clients f s) = owned who s"
  by (simp add: owned_def map_clients_def filter_map o_def)

lemma screens_map_clients: "screens_ok lm s \<Longrightarrow> (\<And>i c. cl_owner (f i c) = cl_owner c) \<Longrightarrow> screens_ok lm (map_clients f s)"
  by (simp add: screens_ok_def owned_map_clients)

lemma owner_write [simp]: "cl_owner (write_out room w now c) = cl_owner c"
  by (simp add: write_out_def Let_def)

lemma owner_deliver [simp]: "cl_owner (deliver room f now c) = cl_owner c"
  by (simp add: deliver_def)

lemma screens_ok_update [simp]:
  "screens_ok lm (s\<lparr>ticking := b\<rparr>) = screens_ok lm s" "screens_ok lm (s\<lparr>reads := rs\<rparr>) = screens_ok lm s"
  "screens_ok lm (s\<lparr>readsApplied := n\<rparr>) = screens_ok lm s" "screens_ok lm (s\<lparr>readsStarted := n\<rparr>) = screens_ok lm s"
  "screens_ok lm (s\<lparr>lastError := e\<rparr>) = screens_ok lm s"
  by (simp_all add: screens_ok_def owned_def)

lemma length_filter_conj: "length (filter (\<lambda>x. P x \<and> Q x) xs) \<le> length (filter Q xs)"
  by (induction xs) auto

lemma screens_broadcast:
  assumes "screens_ok lm s" "clients s \<noteq> []"
  shows "screens_ok lm (broadcast room text now s)"
proof -
  have "screens_ok lm (s\<lparr>frameIds := Suc (frameIds s), latest := Some f\<rparr>)" for f
    using assms by (simp add: screens_ok_def owned_def)
  then show ?thesis by (simp add: broadcast_def Let_def screens_map_clients)
qed

lemma screens_refresh_begin: "screens_ok lm (refresh_begin force t s) \<longleftrightarrow> screens_ok lm s"
  by (simp add: refresh_begin_def screens_ok_def owned_def)

lemma screens_refresh_apply: "screens_ok lm s \<Longrightarrow> screens_ok lm (refresh_apply room r result now s)"
proof (cases "rd_number r < readsApplied s \<or> clients s = []")
  case False
  assume ok: "screens_ok lm s"
  have "screens_ok lm (s\<lparr>lastSent := x, lastReadAt := y\<rparr>)" for x y
    using ok False by (simp add: screens_ok_def owned_def)
  then have upd: "screens_ok lm (s\<lparr>readsApplied := n, lastSent := x, lastReadAt := y, lastError := e\<rparr>)"
    "screens_ok lm (s\<lparr>readsApplied := n, lastError := e, lastReadAt := y\<rparr>)"
    "screens_ok lm (s\<lparr>readsApplied := n, lastError := e, lastReadAt := y, lastSent := x\<rparr>)" for n x y e
    using ok False by (simp_all add: screens_ok_def owned_def)
  then show ?thesis using False
    by (auto simp: refresh_apply_def Let_def split: sum.splits intro!: screens_broadcast)
qed (auto simp: refresh_apply_def)

lemma screens_refresh_end: "screens_ok lm s \<Longrightarrow> screens_ok lm (refresh_end room r result now s)"
  by (simp add: refresh_end_def Let_def screens_refresh_apply)

lemma screens_tick: "screens_ok lm s \<Longrightarrow> screens_ok lm (tick room now s)"
  by (simp add: tick_def Let_def screens_refresh_begin screens_map_clients)

lemma screens_open: "screens_ok lm s \<Longrightarrow> table_get (clients s) i = None \<Longrightarrow> screens_ok lm (snd (open_stream lm room i owner now s))"
proof (cases "refusalFor owner lm s")
  case None
  assume ok: "screens_ok lm s" and fresh: "table_get (clients s) i = None"
  have len: "length (clients s) < maxClients lm" "owned owner s < maxPerUser lm"
    using None by (auto simp: refusalFor_def split: if_splits)
  have "screens_ok lm (s\<lparr>clients := clients s @ [(i, c)], ticker := True\<rparr>)" if "cl_owner c = owner" for c
    using ok fresh len that by (auto simp: screens_ok_def wf_table_def owned_def map_of_eq_None_iff)
  then have "screens_ok lm (subscribe room i owner now s)"
    by (auto simp: subscribe_def Let_def screens_refresh_begin split: option.splits intro!: screens_map_clients)
  then show ?thesis by (simp add: open_stream_def None)
qed (simp add: open_stream_def)

lemma screens_remove: "screens_ok lm s \<Longrightarrow> screens_ok lm (remove_client i s)"
proof -
  assume ok: "screens_ok lm s"
  have "length (table_delete i (clients s)) \<le> maxClients lm" using ok by (simp add: screens_ok_def length_table_delete_le)
  moreover have "length (filter (\<lambda>p. cl_owner (snd p) = who) (table_delete i (clients s))) \<le> maxPerUser lm" for who
  proof -
    have "length (filter (\<lambda>p. fst p \<noteq> i \<and> cl_owner (snd p) = who) (clients s)) \<le> owned who s"
      unfolding owned_def by (rule length_filter_conj)
    then show ?thesis using ok by (auto simp: screens_ok_def table_delete_filter intro: order_trans)
  qed
  ultimately show ?thesis using ok
    by (auto simp: remove_client_def Let_def screens_ok_def owned_def wf_table_delete)
qed

lemma screens_removes: "screens_ok lm s \<Longrightarrow> screens_ok lm (fold remove_client is s)"
  by (induction "is" arbitrary: s) (auto simp: screens_remove)

lemma screens_step: "step lm s s' \<Longrightarrow> screens_ok lm s \<Longrightarrow> screens_ok lm s'"
  by (induction rule: step.induct)
     (auto simp: screens_open screens_tick screens_refresh_end screens_remove screens_removes notifyProblemsChanged_def
        screens_refresh_begin drained_def endStreamOf_def endStreams_def Let_def intro!: screens_map_clients split: option.splits)

subsubsection \<open>Reads\<close>

lemma reads_ok_update [simp]:
  "reads_ok (s\<lparr>clients := cs\<rparr>) = reads_ok s" "reads_ok (s\<lparr>ticker := b\<rparr>) = reads_ok s"
  "reads_ok (s\<lparr>latest := x\<rparr>) = reads_ok s" "reads_ok (s\<lparr>lastSent := y\<rparr>) = reads_ok s"
  "reads_ok (s\<lparr>lastReadAt := z\<rparr>) = reads_ok s" "reads_ok (s\<lparr>lastError := e\<rparr>) = reads_ok s"
  "reads_ok (s\<lparr>frameIds := n\<rparr>) = reads_ok s" "reads_ok (map_clients f s) = reads_ok s"
  "reads_ok (broadcast room text now s) = reads_ok s"
  by (simp_all add: reads_ok_def map_clients_def broadcast_def Let_def)

lemma reads_refresh_begin_forced: "reads_ok s \<Longrightarrow> reads_ok (refresh_begin force False s)"
  by (auto simp: reads_ok_def refresh_begin_def)

lemma reads_refresh_begin_tick: "reads_ok s \<Longrightarrow> \<not> ticking s \<Longrightarrow> reads_ok (refresh_begin force True (s\<lparr>ticking := True\<rparr>))"
  by (auto simp: reads_ok_def refresh_begin_def)

lemma reads_refresh_apply:
  "reads_ok s \<Longrightarrow> rd_number r \<le> readsStarted s \<Longrightarrow> reads_ok (refresh_apply room r result now s)"
  by (auto simp: refresh_apply_def Let_def split: sum.splits) (auto simp: reads_ok_def)

lemma refresh_apply_sel [simp]:
  "reads (refresh_apply room r result now s) = reads s" "ticking (refresh_apply room r result now s) = ticking s"
  "readsStarted (refresh_apply room r result now s) = readsStarted s"
  by (auto simp: refresh_apply_def broadcast_def Let_def split: sum.splits)

lemma filter_neq_distinct:
  "distinct xs \<Longrightarrow> r \<in> set xs \<Longrightarrow> length (filter P (filter (\<lambda>q. q \<noteq> r) xs)) + of_bool (P r) = length (filter P xs)"
proof (induction xs)
  case (Cons x xs)
  show ?case
  proof (cases "x = r")
    case True
    then have "filter (\<lambda>q. q \<noteq> r) xs = xs" using Cons.prems(1) by (auto simp: filter_id_conv)
    then show ?thesis using True by simp
  next
    case False
    then show ?thesis using Cons by auto
  qed
qed simp

lemma reads_refresh_end:
  assumes "reads_ok s" "r \<in> set (reads s)"
  shows "reads_ok (refresh_end room r result now s)"
proof -
  let ?s = "s\<lparr>reads := filter (\<lambda>q. q \<noteq> r) (reads s)\<rparr>"
  let ?t = "refresh_apply room r result now ?s"
  have le: "rd_number r \<le> readsStarted s" and dist: "distinct (map rd_number (reads s))" using assms by (auto simp: reads_ok_def)
  have count: "length (filter rd_ticker (filter (\<lambda>q. q \<noteq> r) (reads s))) + of_bool (rd_ticker r) = length (filter rd_ticker (reads s))"
    using dist assms(2) by (intro filter_neq_distinct) (simp_all add: distinct_map)
  have parts: "distinct (map rd_number (filter (\<lambda>q. q \<noteq> r) (reads s)))"
    using dist by (rule distinct_map_filter)
  have applied: "readsApplied ?t \<le> readsStarted s"
    using assms(1) le by (auto simp: refresh_apply_def broadcast_def Let_def reads_ok_def split: sum.splits)
  show ?thesis using assms(1) count parts applied le
    by (auto simp: refresh_end_def Let_def reads_ok_def split: if_splits)
qed

lemma reads_remove: "reads_ok s \<Longrightarrow> reads_ok (remove_client i s)"
  by (simp add: remove_client_def Let_def)

lemma reads_step: "step lm s s' \<Longrightarrow> reads_ok s \<Longrightarrow> reads_ok s'"
proof (induction rule: step.induct)
  case (shutdown_step s)
  have "reads_ok (fold remove_client is s)" for "is" using shutdown_step
    by (induction "is" arbitrary: s) (auto simp: reads_remove)
  then show ?case by (simp add: endStreams_def)
qed (auto simp: open_stream_def subscribe_def tick_def drained_def endStreamOf_def notifyProblemsChanged_def Let_def
       reads_refresh_end reads_remove reads_refresh_begin_forced reads_refresh_begin_tick
       split: option.splits)

subsubsection \<open>Frames\<close>

lemma client_ok_write_ping: "client_ok n lt c \<Longrightarrow> client_ok n lt (write_out room (Ping p) now c)"
  by (auto simp: client_ok_def write_out_def Let_def)

text \<open>A frame newer than all before, or the latest one to a screen that is behind.\<close>

lemma client_ok_deliver:
  assumes "client_ok n lt c" "cl_frameId c < fr_id f" "fr_id f \<le> m" "n \<le> m"
  shows "client_ok m (Some f) (deliver room f now c)"
  using assms by (fastforce simp: client_ok_def deliver_def write_out_def Let_def sorted_wrt_append)

lemma client_ok_None: "client_ok n lt c \<Longrightarrow> client_ok n None c"
  by (simp add: client_ok_def)

lemma frames_map_clients:
  "frames_ok s \<Longrightarrow> (\<And>i c. client_ok (frameIds s) (latest s) c \<Longrightarrow> client_ok (frameIds s) (latest s) (f i c)) \<Longrightarrow> frames_ok (map_clients f s)"
  by (auto simp: frames_ok_def map_clients_def)

lemma frames_ok_update [simp]:
  "frames_ok (s\<lparr>ticking := b\<rparr>) = frames_ok s" "frames_ok (s\<lparr>reads := rs\<rparr>) = frames_ok s"
  "frames_ok (s\<lparr>readsApplied := n\<rparr>) = frames_ok s" "frames_ok (s\<lparr>readsStarted := n\<rparr>) = frames_ok s"
  "frames_ok (s\<lparr>lastError := e\<rparr>) = frames_ok s" "frames_ok (s\<lparr>lastSent := y\<rparr>) = frames_ok s"
  "frames_ok (s\<lparr>lastReadAt := z\<rparr>) = frames_ok s" "frames_ok (refresh_begin a t s) = frames_ok s"
  by (simp_all add: frames_ok_def refresh_begin_def)

lemma frames_broadcast: "frames_ok s \<Longrightarrow> frames_ok (broadcast room text now s)"
  unfolding frames_ok_def broadcast_def Let_def
  by (auto simp: map_clients_def intro!: client_ok_deliver) (auto simp: client_ok_def le_imp_less_Suc)

lemma client_ok_close: "client_ok n lt c \<Longrightarrow> client_ok n lt (c\<lparr>cl_open := False\<rparr>)"
  by (simp add: client_ok_def)

lemma frames_subscribe:
  assumes ok: "frames_ok s" and fresh: "table_get (clients s) i = None"
  shows "frames_ok (subscribe room i owner now s)"
proof -
  let ?c = "\<lparr>cl_owner = owner, cl_open = True, cl_blocked = False, cl_frameId = 0, cl_lastWrite = now, cl_out = []\<rparr>"
  have new: "client_ok n None ?c" for n by (simp add: client_ok_def)
  show ?thesis
  proof (cases "latest s")
    case None
    have "frames_ok (s\<lparr>clients := clients s @ [(i, ?c)], ticker := True\<rparr>)" using ok new None by (auto simp: frames_ok_def)
    then show ?thesis using None by (simp add: subscribe_def Let_def)
  next
    case (Some f)
    have "client_ok (frameIds s) (Some f) (deliver room f now ?c)"
      using new ok Some by (intro client_ok_deliver [of "frameIds s" None]) (auto simp: frames_ok_def)
    moreover have "fst p \<noteq> i" if "p \<in> set (clients s)" for p using fresh that by (auto simp: map_of_eq_None_iff)
    ultimately show ?thesis using ok Some by (auto simp: subscribe_def Let_def frames_ok_def map_clients_def)
  qed
qed

lemma frames_drained:
  assumes ok: "frames_ok s"
  shows "frames_ok (drained room i now s)"
  unfolding drained_def
proof (rule frames_map_clients [OF ok])
  fix j c assume c: "client_ok (frameIds s) (latest s) c"
  show "client_ok (frameIds s) (latest s) (if j \<noteq> i then c else let c = c\<lparr>cl_blocked := False\<rparr> in
      case latest s of Some f \<Rightarrow> if cl_frameId c \<noteq> fr_id f then deliver room f now c else c | None \<Rightarrow> c)"
  proof (cases "latest s")
    case None
    then show ?thesis using c by (simp add: client_ok_def)
  next
    case (Some f)
    have "client_ok (frameIds s) None (c\<lparr>cl_blocked := False\<rparr>)" using c by (simp add: client_ok_def)
    then have "client_ok (frameIds s) (Some f) (deliver room f now (c\<lparr>cl_blocked := False\<rparr>))" if "cl_frameId c \<noteq> fr_id f"
      using that c ok Some by (intro client_ok_deliver [of "frameIds s" None]) (auto simp: frames_ok_def client_ok_def)
    moreover have "client_ok (frameIds s) (Some f) (c\<lparr>cl_blocked := False\<rparr>)" if "cl_frameId c = fr_id f"
      using that c Some by (simp add: client_ok_def)
    ultimately show ?thesis using c Some by (simp add: Let_def)
  qed
qed

lemma frames_remove: "frames_ok s \<Longrightarrow> frames_ok (remove_client i s)"
  by (auto simp: frames_ok_def remove_client_def Let_def table_delete_filter intro: client_ok_None)

lemma frames_step: "step lm s s' \<Longrightarrow> frames_ok s \<Longrightarrow> frames_ok s'"
proof (induction rule: step.induct)
  case (shutdown_step s)
  have "frames_ok (fold remove_client is s)" for "is" using shutdown_step
    by (induction "is" arbitrary: s) (auto simp: frames_remove)
  then show ?case by (simp add: endStreams_def)
qed (auto simp: open_stream_def tick_def endStreamOf_def notifyProblemsChanged_def Let_def refresh_end_def refresh_apply_def
       frames_remove frames_drained frames_subscribe client_ok_write_ping client_ok_close
       intro!: frames_map_clients frames_broadcast split: option.splits sum.splits) 

subsubsection \<open>What was sent last\<close>

lemma sent_ok_update [simp]:
  "sent_ok (s\<lparr>ticker := b\<rparr>) = sent_ok s" "sent_ok (s\<lparr>ticking := b\<rparr>) = sent_ok s" "sent_ok (s\<lparr>reads := rs\<rparr>) = sent_ok s"
  "sent_ok (s\<lparr>readsApplied := n\<rparr>) = sent_ok s" "sent_ok (s\<lparr>readsStarted := n\<rparr>) = sent_ok s" "sent_ok (s\<lparr>clients := cs\<rparr>) = sent_ok s"
  "sent_ok (s\<lparr>lastError := e\<rparr>) = sent_ok s" "sent_ok (s\<lparr>lastReadAt := z\<rparr>) = sent_ok s" "sent_ok (refresh_begin a t s) = sent_ok s"
  "sent_ok (map_clients f s) = sent_ok s"
  by (simp_all add: sent_ok_def refresh_begin_def map_clients_def)

lemma sent_apply: "sent_ok s \<Longrightarrow> sent_ok (refresh_apply room r result now s)"
  by (auto simp: refresh_apply_def Let_def split: sum.splits) (auto simp: sent_ok_def broadcast_def Let_def)

lemma sent_remove: "sent_ok s \<Longrightarrow> sent_ok (remove_client i s)"
  by (auto simp: remove_client_def Let_def) (simp add: sent_ok_def)

lemma sent_step: "step lm s s' \<Longrightarrow> sent_ok s \<Longrightarrow> sent_ok s'"
proof (induction rule: step.induct)
  case (shutdown_step s)
  have "sent_ok (fold remove_client is s)" for "is" using shutdown_step
    by (induction "is" arbitrary: s) (auto simp: sent_remove)
  then show ?case by (simp add: endStreams_def)
qed (auto simp: open_stream_def subscribe_def tick_def drained_def endStreamOf_def notifyProblemsChanged_def refresh_end_def Let_def
       sent_apply sent_remove split: option.splits)

lemma live_invariant: "reachable lm s \<Longrightarrow> screens_ok lm s \<and> reads_ok s \<and> frames_ok s \<and> sent_ok s"
proof (induction rule: reachable.induct)
  case start
  then show ?case by (simp add: live_start_def screens_ok_def owned_def reads_ok_def frames_ok_def sent_ok_def)
next
  case (more s s')
  then show ?case using screens_step reads_step frames_step sent_step by blast
qed

subsection \<open>Comparable texts\<close>

lemma js_sort_compare: "js_sort compare xs = sort xs"
  for xs :: "'a :: linorder list"
proof (rule properties_for_sort [symmetric])
  show "mset (js_sort compare xs) = mset xs" by simp
  have "sorted_wrt (\<lambda>a b. compare a b \<le> 0) (js_sort compare xs)"
    by (rule sorted_js_sort) (use consistent_key [of "\<lambda>x. x"] in simp)
  then show "sorted (js_sort compare xs)"
    by (rule sorted_wrt_mono_rel [rotated]) (auto simp: compare_def split: if_splits)
qed

text \<open>No separator inside a field: Zabbix ids and flags are digits.\<close>

definition plain_fields :: "problem \<Rightarrow> bool" where
  "plain_fields p \<longleftrightarrow> (\<forall>t \<in> set (shown p). CHR '':'' \<notin> set t \<and> CHR ''|'' \<notin> set t)"

lemma shown_not_Nil: "shown p \<noteq> []" "join '':'' (shown p) \<noteq> []"
  by (simp_all add: shown_def)

lemma shown_split: "plain_fields p \<Longrightarrow> split_on (CHR '':'') (join '':'' (shown p)) = shown p"
  by (rule split_join) (auto simp: plain_fields_def shown_not_Nil)

lemma sort_eq_iff: "sort xs = sort ys \<longleftrightarrow> mset xs = mset ys"
proof
  assume "sort xs = sort ys"
  then have "mset (sort xs) = mset (sort ys)" by (rule arg_cong)
  then show "mset xs = mset ys" by simp
next
  assume "mset xs = mset ys"
  then have "sorted_list_of_multiset (mset xs) = sorted_list_of_multiset (mset ys)" by (rule arg_cong)
  then show "sort xs = sort ys" by simp
qed

lemma if_marker: "(if P then z else a) = (if Q then z else b) \<Longrightarrow> a \<noteq> z \<Longrightarrow> b \<noteq> z \<Longrightarrow> (P \<Longrightarrow> a = w) \<Longrightarrow> (Q \<Longrightarrow> b = w) \<Longrightarrow> a = b"
  by (simp split: if_splits)

lemma fingerprint_iff:
  assumes "\<forall>p \<in> set ps \<union> set qs. plain_fields p"
  shows "fingerprint ps = fingerprint qs \<longleftrightarrow> mset (map shown ps) = mset (map shown qs)"
proof -
  let ?k = "\<lambda>ps. map (\<lambda>p. join '':'' (shown p)) ps"
  have bar: "CHR ''|'' \<notin> set (join '':'' (shown p))" if "plain_fields p" for p
    using set_join [of "'':''" "shown p"] that by (auto simp: plain_fields_def)
  have split: "split_on (CHR ''|'') (fingerprint rs) = (if rs = [] then [[]] else sort (?k rs))" if "\<forall>p \<in> set rs. plain_fields p" for rs
  proof (cases "rs = []")
    case False
    then have "sort (?k rs) \<noteq> []" by (metis length_0_conv length_map length_sort)
    moreover have "\<forall>w \<in> set (sort (?k rs)). CHR ''|'' \<notin> set w" using that bar by auto
    ultimately show ?thesis using False by (simp add: fingerprint_def js_sort_compare split_join)
  qed (simp add: fingerprint_def)
  have "fingerprint ps = fingerprint qs \<longleftrightarrow> sort (?k ps) = sort (?k qs)"
  proof
    assume "fingerprint ps = fingerprint qs"
    then have eq: "(if ps = [] then [[]] else sort (?k ps)) = (if qs = [] then [[]] else sort (?k qs))"
      using split [of ps] split [of qs] assms by simp
    have ne: "[] \<notin> set (sort (?k rs))" for rs using shown_not_Nil(2) [symmetric] by auto
    have "sort (?k rs) \<noteq> [[]]" for rs
    proof
      assume h: "sort (?k rs) = [[]]"
      have "[] \<in> set (sort (?k rs))" unfolding h by simp
      then show False using ne [of rs] by contradiction
    qed
    then show "sort (?k ps) = sort (?k qs)" by (intro if_marker [OF eq]) simp_all
  qed (simp add: fingerprint_def js_sort_compare)
  also have "\<dots> \<longleftrightarrow> mset (?k ps) = mset (?k qs)" by (rule sort_eq_iff)
  also have "\<dots> \<longleftrightarrow> mset (map shown ps) = mset (map shown qs)"
  proof
    have again: "map shown rs = map (split_on (CHR '':'')) (?k rs)" if "\<forall>p \<in> set rs. plain_fields p" for rs
      using that by (simp add: shown_split)
    assume "mset (?k ps) = mset (?k qs)"
    then have "image_mset (split_on (CHR '':'')) (mset (?k ps)) = image_mset (split_on (CHR '':'')) (mset (?k qs))" by simp
    then have "mset (map (split_on (CHR '':'')) (?k ps)) = mset (map (split_on (CHR '':'')) (?k qs))" unfolding mset_map .
    then show "mset (map shown ps) = mset (map shown qs)" using again [of ps] again [of qs] assms by (metis UnCI)
  next
    assume "mset (map shown ps) = mset (map shown qs)"
    then have "image_mset (join '':'') (mset (map shown ps)) = image_mset (join '':'') (mset (map shown qs))" by simp
    then show "mset (?k ps) = mset (?k qs)" by (simp flip: mset_map add: o_def)
  qed
  finally show ?thesis .
qed

subsection \<open>Properties\<close>

lemma field_inj: "field k x = field k y \<longleftrightarrow> x = y"
  by (auto simp: field_def split: option.splits)

text \<open>
  The two comparisons of the stream see what they should. For problems whose ids and flags hold no
  separator, two lists have the same fingerprint exactly when they show the same problems in some order,
  judged by event id, severity, acknowledgement, suppression and recovery; and they have the same frame
  text exactly when the fields the Dashboard reads are the same, problem by problem.
\<close>

theorem comparisons_are_exact:
  assumes "\<forall>p \<in> set ps \<union> set qs. plain_fields p"
  shows "(fingerprint ps = fingerprint qs \<longleftrightarrow> mset (map shown ps) = mset (map shown qs)) \<and>
     (frameJson ps = frameJson qs \<longleftrightarrow> map liveProblem ps = map liveProblem qs)"
  using fingerprint_iff [OF assms] json_objects_inj by (simp add: frameJson_def)

lemma comparisons_are_exact_witness:
  "let p = sample_problem ''12'' ''7''; q = sample_problem ''9'' ''7'' in
   fingerprint [p, q] = fingerprint [q, p] \<and> frameJson [p, q] \<noteq> frameJson [q, p]"
proof -
  let ?p = "sample_problem ''12'' ''7''" and ?q = "sample_problem ''9'' ''7''"
  have "\<forall>p \<in> set [?p, ?q] \<union> set [?q, ?p]. plain_fields p"
    by (simp add: plain_fields_def shown_def sample_problem_def or_empty_def)
  from comparisons_are_exact [OF this] show ?thesis
    by (simp add: Let_def liveProblem_def sample_problem_def field_def)
qed

text \<open>
  The stream's books hold whatever happens, in whatever order: in every reachable state there are at
  most \<open>maxClients\<close> screens and at most \<open>maxPerUser\<close> of one owner, the ticker runs exactly while a screen is
  connected, a module without screens keeps no list, and the ticker never has two reads in flight.
\<close>

theorem stream_limits_hold:
  assumes "reachable lm s"
  shows "length (clients s) \<le> maxClients lm \<and> owned who s \<le> maxPerUser lm \<and> (ticker s \<longleftrightarrow> clients s \<noteq> []) \<and>
     (clients s = [] \<longrightarrow> latest s = None \<and> lastSent s = None \<and> lastReadAt s = None) \<and> length (filter rd_ticker (reads s)) \<le> 1"
  using live_invariant [OF assms] by (auto simp: screens_ok_def reads_ok_def)

definition one_screen :: live where
  "one_screen = snd (open_stream \<lparr>maxClients = 1, maxPerUser = 1\<rparr> True 0 ''user:ana'' 0 live_start)"

lemma one_screen_reachable: "reachable \<lparr>maxClients = 1, maxPerUser = 1\<rparr> one_screen"
  unfolding one_screen_def by (rule reachable.more [OF reachable.start open_step]) (simp add: live_start_def)

lemma one_screen_eq:
  "one_screen = live_start\<lparr>clients := [(0, \<lparr>cl_owner = ''user:ana'', cl_open = True, cl_blocked = False, cl_frameId = 0, cl_lastWrite = 0, cl_out = []\<rparr>)],
     ticker := True, ticking := True, readsStarted := 1, reads := [\<lparr>rd_number = 1, rd_force = False, rd_ticker = True\<rparr>]\<rparr>"
  by (simp add: one_screen_def live_start_def open_stream_def refusalFor_def owned_def subscribe_def refresh_begin_def)

lemma stream_limits_hold_witness: "clients one_screen \<noteq> [] \<and> ticker one_screen \<and> owned ''user:ana'' one_screen \<le> 1"
  using stream_limits_hold [OF one_screen_reachable, of "''user:ana''"] by (simp add: one_screen_eq)

text \<open>
  C14. No screen is left behind and none sees the past. In every reachable state the frames written to a
  screen have increasing numbers, and the last one written to a screen that is open and not blocked is the
  latest frame there is, which shows the list last sent or, while Zabbix fails, the error; a blocked screen
  becomes current when its buffer drains.
\<close>

theorem screens_are_current:
  assumes "reachable lm s" "latest s = Some f" "(i, c) \<in> set (clients s)"
  shows "sorted_wrt (<) (map fr_id (data_frames (cl_out c))) \<and>
     (cl_open c \<and> \<not> cl_blocked c \<longrightarrow> data_frames (cl_out c) \<noteq> [] \<and> last (data_frames (cl_out c)) = f) \<and>
     (case lastSent s of Some l \<Rightarrow> fr_text f = problems_text (s_json l) | None \<Rightarrow> \<exists>m. fr_text f = error_text m) \<and>
     (\<exists>d. (i, d) \<in> set (clients (drained True i now s)) \<and> (cl_open d \<longrightarrow> last (data_frames (cl_out d)) = f))"
proof -
  have ok: "frames_ok s" "sent_ok s" and wf: "wf_table (clients s)" using live_invariant [OF assms(1)] by (auto simp: screens_ok_def)
  have c: "client_ok (frameIds s) (Some f) c" using ok assms by (auto simp: frames_ok_def)
  let ?d = "(let e = c\<lparr>cl_blocked := False\<rparr> in if cl_frameId e \<noteq> fr_id f then deliver True f now e else e)"
  have d: "(i, ?d) \<in> set (clients (drained True i now s))"
    using assms by (force simp: drained_def map_clients_def image_iff Let_def)
  have "client_ok (frameIds s) (Some f) ?d"
    using frames_drained [OF ok(1), of True i now] d assms(2) by (fastforce simp: frames_ok_def drained_def)
  moreover have "\<not> cl_blocked ?d" by (simp add: Let_def deliver_def write_out_def)
  ultimately have "cl_open ?d \<longrightarrow> last (data_frames (cl_out ?d)) = f" by (simp add: client_ok_def)
  then show ?thesis using c d ok(2) assms(2) by (auto simp: client_ok_def sent_ok_def split: option.splits)
qed

lemma screens_are_current_witness:
  "\<exists>f c. latest (refresh_end (\<lambda>_. True) \<lparr>rd_number = 1, rd_force = False, rd_ticker = True\<rparr> (Inr []) 7 one_screen) = Some f \<and>
     data_frames (cl_out (c :: client)) = [f] \<and> fr_text f = problems_text (frameJson [])"
proof -
  let ?r = "\<lparr>rd_number = 1, rd_force = False, rd_ticker = True\<rparr>"
  let ?s = "refresh_end (\<lambda>_. True) ?r (Inr []) 7 one_screen"
  have reach: "reachable \<lparr>maxClients = 1, maxPerUser = 1\<rparr> ?s"
    by (rule reachable.more [OF one_screen_reachable read_step]) (simp add: one_screen_eq)
  obtain f c where fc: "latest ?s = Some f" "(0, c) \<in> set (clients ?s)" "data_frames (cl_out c) = [f]" "lastSent ?s \<noteq> None"
      "\<And>l. lastSent ?s = Some l \<Longrightarrow> s_json l = frameJson []"
    by (simp add: one_screen_eq live_start_def refresh_end_def refresh_apply_def shouldSend_def broadcast_def map_clients_def deliver_def write_out_def Let_def)
  then show ?thesis using screens_are_current [OF reach fc(1,2)] by (intro exI [of _ f] exI [of _ c]) (auto split: option.splits)
qed

text \<open>
  C21. What a read that comes back does. One older than a read already applied, or with nobody listening,
  changes nothing. A list that came back reaches every open, unblocked screen as exactly one new frame when
  the read was forced, nothing has been sent, something a screen shows has changed, or only other fields
  have and the list last sent would be over 30 s old at the next tick; otherwise nothing is written to
  anyone. A failure reaches them all as one error frame that quotes nothing Zabbix said.
\<close>

theorem read_reaches_screens:
  assumes "(i, c) \<in> set (clients s)" "cl_open c" "\<not> cl_blocked c"
  shows "let s' = refresh_apply room r result now s;
             f = (\<lambda>body. \<lparr>fr_id = Suc (frameIds s), fr_text = body\<rparr>);
             gets = (\<lambda>body. latest s' = Some (f body) \<and>
               (i, c\<lparr>cl_frameId := Suc (frameIds s), cl_lastWrite := now, cl_out := cl_out c @ [Data (f body)], cl_blocked := \<not> room i\<rparr>) \<in> set (clients s'))
         in if rd_number r < readsApplied s then s' = s
            else case result of
              Inl err \<Rightarrow> lastSent s' = None \<and>
                (gets (error_text ''The data source is not answering.'') \<or> gets (error_text ''The live stream hit an unexpected error. Tell an administrator.''))
            | Inr ps \<Rightarrow>
                (if rd_force r \<or> (case lastSent s of None \<Rightarrow> True | Some l \<Rightarrow> s_fingerprint l \<noteq> fingerprint ps \<or>
                        (s_json l \<noteq> frameJson ps \<and> now + 5000 - s_at l > 30000))
                 then gets (problems_text (frameJson ps)) else clients s' = clients s \<and> latest s' = latest s)"
proof -
  have ne: "clients s \<noteq> []" using assms(1) by auto
  have cast: "latest (broadcast room body now t) = Some \<lparr>fr_id = Suc (frameIds s), fr_text = body\<rparr> \<and>
      (i, c\<lparr>cl_frameId := Suc (frameIds s), cl_lastWrite := now, cl_out := cl_out c @ [Data \<lparr>fr_id = Suc (frameIds s), fr_text = body\<rparr>],
         cl_blocked := \<not> room i\<rparr>) \<in> set (clients (broadcast room body now t))"
    if "clients t = clients s" "frameIds t = frameIds s" for t body
    using assms that by (force simp: broadcast_def map_clients_def deliver_def write_out_def Let_def image_iff)
  have pub: "fst (publicMessage e) = ''The data source is not answering.'' \<or> fst (publicMessage e) = ''The live stream hit an unexpected error. Tell an administrator.''" for e
    by (simp add: publicMessage_def SOURCE_DOWN_def Let_def split: read_error.splits)
  have send: "shouldSend l fp json now \<longleftrightarrow> (case l of None \<Rightarrow> True | Some l \<Rightarrow> s_fingerprint l \<noteq> fp \<or> (s_json l \<noteq> json \<and> now + 5000 - s_at l > 30000))" for l fp json
    by (cases l) (auto simp: shouldSend_def TICK_MS_def MAX_QUIET_MS_def)
  show ?thesis
  proof (cases "rd_number r < readsApplied s")
    case False
    show ?thesis
    proof (cases result)
      case (Inl err)
      have "lastSent (broadcast room body now t) = lastSent t" for body t by (simp add: broadcast_def Let_def)
      then show ?thesis using False ne Inl pub [of err] cast by (auto simp: refresh_apply_def Let_def)
    next
      case (Inr ps)
      then show ?thesis using False ne cast unfolding Let_def by (simp add: refresh_apply_def Let_def send)
    qed
  qed (simp add: refresh_apply_def Let_def)
qed

lemma read_reaches_screens_witness:
  "\<exists>d. (0, d) \<in> set (clients (refresh_apply (\<lambda>_. True) \<lparr>rd_number = 1, rd_force = False, rd_ticker = True\<rparr> (Inr []) 7 one_screen)) \<and>
     cl_out d = [Data \<lparr>fr_id = 1, fr_text = problems_text (frameJson [])\<rparr>]"
  using read_reaches_screens [of 0 "snd (hd (clients one_screen))" one_screen "\<lambda>_. True" "\<lparr>rd_number = 1, rd_force = False, rd_ticker = True\<rparr>" "Inr []" 7]
  by (auto simp: one_screen_eq live_start_def Let_def)



end
