(* ===== verification/Intervals.thy ===== *)
theory Intervals
  imports Interfaces
begin

text \<open>
  Interval arithmetic of the derived SLA (\<open>server/src/sli/intervals.ts\<close>). An interval is a pair of
  whole Unix seconds, the half-open span from its start to its end. \<open>secs\<close> is the abstract value
  of a list of intervals: the set of seconds it covers. Every operation is proved to compute the
  corresponding set operation and to return the one normal form of that set, so the algebraic laws
  the engine relies on are laws of sets.
\<close>

type_synonym interval = "int \<times> int"

subsection \<open>The operations\<close>

text \<open>The body of the loop in \<open>mergeIntervals\<close>: extend the last interval or push a new one.\<close>

definition merge_step :: "interval list \<Rightarrow> interval \<Rightarrow> interval list" where
  "merge_step out iv =
     (if out \<noteq> [] \<and> fst iv \<le> snd (last out)
      then butlast out @ [(fst (last out), max (snd (last out)) (snd iv))]
      else out @ [iv])"

definition mergeIntervals :: "interval list \<Rightarrow> interval list" where
  "mergeIntervals intervals =
     foldl merge_step [] (sort_key fst (filter (\<lambda>iv. snd iv > fst iv) intervals))"

definition mergedSeconds :: "interval list \<Rightarrow> int \<times> int" where
  "mergedSeconds intervals =
     foldl (\<lambda>(total, longest) (s, e). (total + (e - s), max longest (e - s)))
       (0, 0) (mergeIntervals intervals)"

definition totalSeconds :: "interval list \<Rightarrow> int" where
  "totalSeconds intervals = foldl (\<lambda>n (s, e). n + (e - s)) 0 (mergeIntervals intervals)"

text \<open>The two-pointer loop of \<open>intersectIntervals\<close>; advancing an index drops the head.\<close>

fun intersect_loop :: "interval list \<Rightarrow> interval list \<Rightarrow> interval list" where
  "intersect_loop [] y = []"
| "intersect_loop x [] = []"
| "intersect_loop (x # xs) (y # ys) =
     (let s = max (fst x) (fst y); e = min (snd x) (snd y);
          rest = (if snd x < snd y then intersect_loop xs (y # ys) else intersect_loop (x # xs) ys)
      in if e > s then (s, e) # rest else rest)"

definition intersectIntervals :: "interval list \<Rightarrow> interval list \<Rightarrow> interval list" where
  "intersectIntervals a b = intersect_loop (mergeIntervals a) (mergeIntervals b)"

definition clipIntervals :: "interval list \<Rightarrow> int \<Rightarrow> int \<Rightarrow> interval list" where
  "clipIntervals intervals from to =
     filter (\<lambda>iv. snd iv > fst iv) (map (\<lambda>iv. (max (fst iv) from, min (snd iv) to)) intervals)"

definition complement_step :: "interval list \<times> int \<Rightarrow> interval \<Rightarrow> interval list \<times> int" where
  "complement_step st iv =
     (case st of (out, cursor) \<Rightarrow>
        (if fst iv > cursor then out @ [(cursor, fst iv)] else out, max cursor (snd iv)))"

definition complementIntervals :: "interval list \<Rightarrow> int \<Rightarrow> int \<Rightarrow> interval list" where
  "complementIntervals holes from to =
     (case foldl complement_step ([], from) (mergeIntervals (clipIntervals holes from to)) of
        (out, cursor) \<Rightarrow> if cursor < to then out @ [(cursor, to)] else out)"

subsection \<open>Abstract value and normal form\<close>

definition secs :: "interval list \<Rightarrow> int set" where
  "secs ivs = (\<Union>iv \<in> set ivs. {fst iv..<snd iv})"

text \<open>Non-empty intervals, each ending strictly before the next starts.\<close>

definition nform :: "interval list \<Rightarrow> bool" where
  "nform ivs \<longleftrightarrow> sorted_wrt (\<lambda>a b. snd a < fst b) ivs \<and> (\<forall>iv \<in> set ivs. fst iv < snd iv)"

lemma secs_simps [simp]:
  "secs [] = {}" "secs (iv # ivs) = {fst iv..<snd iv} \<union> secs ivs"
  "secs (xs @ ys) = secs xs \<union> secs ys"
  by (auto simp: secs_def)

lemma secs_map: "secs (map f xs) = (\<Union>x \<in> set xs. {fst (f x)..<snd (f x)})"
  by (auto simp: secs_def)

lemma secs_concat: "secs (concat xss) = (\<Union>xs \<in> set xss. secs xs)"
  by (induction xss) auto

lemma norm_Nil [simp]: "nform []" by (simp add: nform_def)

lemma norm_Cons: "nform (iv # ivs) \<longleftrightarrow> fst iv < snd iv \<and> (\<forall>j \<in> set ivs. snd iv < fst j) \<and> nform ivs"
  by (auto simp: nform_def)

lemma norm_append:
  "nform (xs @ ys) \<longleftrightarrow> nform xs \<and> nform ys \<and> (\<forall>i \<in> set xs. \<forall>j \<in> set ys. snd i < fst j)"
  by (auto simp: nform_def sorted_wrt_append)

lemma finite_secs [simp]: "finite (secs ivs)" by (simp add: secs_def)

lemma secs_filter_nonempty: "secs (filter (\<lambda>iv. snd iv > fst iv) ivs) = secs ivs"
  by (induction ivs) auto

lemma secs_set_cong: "set xs = set ys \<Longrightarrow> secs xs = secs ys" by (simp add: secs_def)

lemma secs_after: "\<forall>j \<in> set ivs. a < fst j \<Longrightarrow> x \<in> secs ivs \<Longrightarrow> a < x"
  by (force simp: secs_def)

text \<open>A normal form is determined by the seconds it covers.\<close>

lemma norm_unique: "nform a \<Longrightarrow> nform b \<Longrightarrow> secs a = secs b \<Longrightarrow> a = b"
proof (induction a arbitrary: b)
  case Nil
  then show ?case by (cases b) (auto simp: norm_Cons)
next
  case (Cons x a)
  then obtain y b' where b: "b = y # b'" by (cases b) (auto simp: norm_Cons)
  have x: "fst x < snd x" "\<forall>j \<in> set a. snd x < fst j" "nform a"
    and y: "fst y < snd y" "\<forall>j \<in> set b'. snd y < fst j" "nform b'"
    using Cons.prems b by (auto simp: norm_Cons)
  have eq: "{fst x..<snd x} \<union> secs a = {fst y..<snd y} \<union> secs b'" using Cons.prems b by simp
  have after_x: "\<And>t. t \<in> secs a \<Longrightarrow> snd x < t" and after_y: "\<And>t. t \<in> secs b' \<Longrightarrow> snd y < t"
    using x y by (auto dest: secs_after)
  have mem: "\<And>t. (fst x \<le> t \<and> t < snd x) \<or> t \<in> secs a \<longleftrightarrow> (fst y \<le> t \<and> t < snd y) \<or> t \<in> secs b'"
    using eq by (metis Un_iff atLeastLessThan_iff)
  have s: "fst x = fst y"
    using mem [of "fst x"] mem [of "fst y"] x y after_x [of "fst y"] after_y [of "fst x"] by force
  have e: "snd x = snd y"
    using mem [of "snd x"] mem [of "snd y"] x y s after_x [of "snd x"] after_x [of "snd y"]
      after_y [of "snd y"] after_y [of "snd x"] by force
  have "secs a = secs b'"
  proof (rule set_eqI)
    fix t show "t \<in> secs a \<longleftrightarrow> t \<in> secs b'"
      using mem [of t] after_x [of t] after_y [of t] s e by auto
  qed
  then have "a = b'" using Cons.IH x y by blast
  with s e b show ?case by (simp add: prod_eq_iff)
qed

subsection \<open>Merging\<close>

lemma secs_merge_step:
  assumes "\<forall>j \<in> set out. fst j \<le> fst iv" and "fst iv < snd iv"
  shows "secs (merge_step out iv) = secs out \<union> {fst iv..<snd iv}"
proof (cases "out = []")
  case True
  then show ?thesis by (simp add: merge_step_def)
next
  case False
  then obtain ys l where out: "out = ys @ [l]" by (metis rev_exhaust)
  have "fst l \<le> fst iv" using assms(1) out by simp
  then have "fst iv \<le> snd l \<Longrightarrow> {fst l..<max (snd l) (snd iv)} = {fst l..<snd l} \<union> {fst iv..<snd iv}"
    by (auto simp: max_def)
  then show ?thesis using out by (auto simp: merge_step_def)
qed

lemma norm_merge_step:
  assumes "nform out" and "\<forall>j \<in> set out. fst j \<le> fst iv" and "fst iv < snd iv"
  shows "nform (merge_step out iv)"
proof (cases "out = []")
  case True
  then show ?thesis using assms(3) by (simp add: merge_step_def norm_Cons)
next
  case False
  then obtain ys l where out: "out = ys @ [l]" by (metis rev_exhaust)
  have n: "nform ys" "fst l < snd l" "\<forall>i \<in> set ys. snd i < fst l"
    using assms(1) out by (auto simp: norm_append norm_Cons)
  moreover have "fst l \<le> fst iv" using assms(2) out by simp
  ultimately show ?thesis using assms(3) out
    by (auto simp: merge_step_def norm_append norm_Cons)
qed

lemma fst_merge_step: "j \<in> set (merge_step out iv) \<Longrightarrow> fst j \<in> fst ` set out \<union> {fst iv}"
  by (auto simp: merge_step_def dest: in_set_butlastD split: if_splits)

lemma merge_fold:
  assumes "nform out" "\<forall>j \<in> set out. \<forall>i \<in> set ivs. fst j \<le> fst i"
    "sorted (map fst ivs)" "\<forall>i \<in> set ivs. fst i < snd i"
  shows "nform (foldl merge_step out ivs) \<and> secs (foldl merge_step out ivs) = secs out \<union> secs ivs"
  using assms
proof (induction ivs arbitrary: out)
  case Nil
  then show ?case by simp
next
  case (Cons iv ivs)
  have le: "\<forall>j \<in> set out. fst j \<le> fst iv" and ne: "fst iv < snd iv" using Cons.prems by auto
  have "\<forall>j \<in> set (merge_step out iv). \<forall>i \<in> set ivs. fst j \<le> fst i"
  proof (intro ballI)
    fix j i assume j: "j \<in> set (merge_step out iv)" and i: "i \<in> set ivs"
    from fst_merge_step [OF j] show "fst j \<le> fst i"
      using Cons.prems(2,3) i by auto
  qed
  then have "nform (foldl merge_step (merge_step out iv) ivs)
      \<and> secs (foldl merge_step (merge_step out iv) ivs) = secs (merge_step out iv) \<union> secs ivs"
    using Cons.IH [OF norm_merge_step [OF Cons.prems(1) le ne]] Cons.prems by simp
  then show ?case using secs_merge_step [OF le ne] by auto
qed

lemma mergeIntervals_correct:
  "nform (mergeIntervals ivs) \<and> secs (mergeIntervals ivs) = secs ivs"
proof -
  let ?f = "filter (\<lambda>iv. snd iv > fst iv) ivs"
  have "secs (sort_key fst ?f) = secs ivs"
    using secs_set_cong [of "sort_key fst ?f" ?f] secs_filter_nonempty [of ivs] by simp
  moreover have "nform (foldl merge_step [] (sort_key fst ?f))
      \<and> secs (foldl merge_step [] (sort_key fst ?f)) = secs [] \<union> secs (sort_key fst ?f)"
    by (rule merge_fold) auto
  ultimately show ?thesis by (simp add: mergeIntervals_def)
qed

lemmas norm_merge [simp] = mergeIntervals_correct [THEN conjunct1]
lemmas secs_merge [simp] = mergeIntervals_correct [THEN conjunct2]

lemma merge_norm_id: "nform ivs \<Longrightarrow> mergeIntervals ivs = ivs"
  by (rule norm_unique) auto

subsection \<open>Sums of seconds\<close>

lemma norm_card: "nform ivs \<Longrightarrow> int (card (secs ivs)) = sum_list (map (\<lambda>iv. snd iv - fst iv) ivs)"
proof (induction ivs)
  case Nil
  then show ?case by simp
next
  case (Cons iv ivs)
  have "{fst iv..<snd iv} \<inter> secs ivs = {}"
    using Cons.prems secs_after [of ivs "snd iv"] by (fastforce simp: norm_Cons)
  then have "card (secs (iv # ivs)) = card {fst iv..<snd iv} + card (secs ivs)"
    by (simp add: card_Un_disjoint)
  then show ?case using Cons by (simp add: norm_Cons)
qed

lemma foldl_seconds: "foldl (\<lambda>n (s, e). n + (e - s)) a ivs = a + sum_list (map (\<lambda>iv. snd iv - fst iv) ivs)"
  for a :: int
  by (induction ivs arbitrary: a) (auto simp: algebra_simps split_beta)

lemma totalSeconds_card: "totalSeconds ivs = int (card (secs ivs))"
  using norm_card [OF norm_merge, of ivs] by (simp add: totalSeconds_def foldl_seconds)

lemma totalSeconds_nonneg [simp]: "0 \<le> totalSeconds ivs" by (simp add: totalSeconds_card)

lemma totalSeconds_mono: "secs a \<subseteq> secs b \<Longrightarrow> totalSeconds a \<le> totalSeconds b"
  by (simp add: totalSeconds_card card_mono)

lemma totalSeconds_single [simp]: "totalSeconds [(s, e)] = max 0 (e - s)"
  by (simp add: totalSeconds_card)

lemma mergedSeconds_fold:
  "foldl (\<lambda>(total, longest) (s, e). (total + (e - s), max longest (e - s))) (t, l) ivs =
     (foldl (\<lambda>n (s, e). n + (e - s)) t ivs, foldl (\<lambda>m (s, e). max m (e - s)) l ivs)"
  for t l :: int
  by (induction ivs arbitrary: t l) (auto simp: split_beta)

lemma foldl_longest: "foldl (\<lambda>m (s, e). max m (e - s)) l ivs = Max (insert l ((\<lambda>iv. snd iv - fst iv) ` set ivs))"
  for l :: int
proof (induction ivs arbitrary: l)
  case Nil
  then show ?case by simp
next
  case (Cons iv ivs)
  let ?d = "\<lambda>iv. snd iv - fst iv :: int"
  have "Max (insert (max l (?d iv)) (?d ` set ivs)) = Max (insert l (insert (?d iv) (?d ` set ivs)))"
    by (cases "ivs = []") (simp_all add: max.assoc)
  then show ?case using Cons [of "max l (?d iv)"] by (simp add: split_beta)
qed

subsection \<open>Intersection\<close>

lemma secs_intersect_loop: "nform x \<Longrightarrow> nform y \<Longrightarrow> secs (intersect_loop x y) = secs x \<inter> secs y"
proof (induction x y rule: intersect_loop.induct)
  case (3 x xs y ys)
  have x: "nform xs" "\<And>t. t \<in> secs xs \<Longrightarrow> snd x < t" and y: "nform ys" "\<And>t. t \<in> secs ys \<Longrightarrow> snd y < t"
    using "3.prems" by (auto simp: norm_Cons dest: secs_after)
  let ?h = "{max (fst x) (fst y)..<min (snd x) (snd y)}"
  have "secs (intersect_loop (x # xs) (y # ys)) = ?h \<union>
      (if snd x < snd y then secs xs \<inter> secs (y # ys) else secs (x # xs) \<inter> secs ys)"
    using "3.IH" "3.prems" x(1) y(1) by (auto simp: Let_def)
  also have "\<dots> = secs (x # xs) \<inter> secs (y # ys)"
    using x(2) y(2) by (auto split: if_splits) (metis order.strict_trans order_less_irrefl linorder_not_less)+
  finally show ?case .
qed auto

lemma intersect_loop_mem:
  "j \<in> set (intersect_loop x y) \<Longrightarrow> fst j < snd j \<and> fst j \<in> fst ` set x \<union> fst ` set y"
  by (induction x y rule: intersect_loop.induct) (auto simp: Let_def max_def split: if_splits)

lemma norm_intersect_loop: "nform x \<Longrightarrow> nform y \<Longrightarrow> nform (intersect_loop x y)"
proof (induction x y rule: intersect_loop.induct)
  case (3 x xs y ys)
  have x: "nform xs" "\<And>i. i \<in> set xs \<Longrightarrow> snd x < fst i" and y: "nform ys" "\<And>i. i \<in> set ys \<Longrightarrow> snd y < fst i"
    using "3.prems" by (auto simp: norm_Cons)
  let ?rest = "if snd x < snd y then intersect_loop xs (y # ys) else intersect_loop (x # xs) ys"
  have rest: "nform ?rest" using "3.IH" "3.prems" x(1) y(1) by auto
  have sub: "secs ?rest \<subseteq> (if snd x < snd y then secs xs else secs ys)"
    using secs_intersect_loop [of xs "y # ys"] secs_intersect_loop [of "x # xs" ys] "3.prems" x(1) y(1) by auto
  have after: "min (snd x) (snd y) < fst j" if j: "j \<in> set ?rest" for j
  proof -
    have "fst j < snd j" using rest j by (auto simp: nform_def)
    then have "fst j \<in> secs ?rest" using j by (force simp: secs_def)
    then have "fst j \<in> (if snd x < snd y then secs xs else secs ys)" using sub by blast
    then show ?thesis using x(2) y(2) secs_after [of xs "snd x"] secs_after [of ys "snd y"]
      by (auto split: if_splits)
  qed
  show ?case using rest after by (simp add: Let_def norm_Cons)
qed auto

lemma intersectIntervals_correct:
  "nform (intersectIntervals a b) \<and> secs (intersectIntervals a b) = secs a \<inter> secs b"
  by (simp add: intersectIntervals_def norm_intersect_loop secs_intersect_loop)

lemmas norm_intersect [simp] = intersectIntervals_correct [THEN conjunct1]
lemmas secs_intersect [simp] = intersectIntervals_correct [THEN conjunct2]

subsection \<open>Clipping and complement\<close>

lemma secs_clip [simp]: "secs (clipIntervals ivs from to) = secs ivs \<inter> {from..<to}"
proof -
  have "secs (map (\<lambda>iv. (max (fst iv) from, min (snd iv) to)) ivs) = secs ivs \<inter> {from..<to}"
    by (induction ivs) (simp_all add: Int_Un_distrib2 ivl_disj_int)
  then show ?thesis by (simp add: clipIntervals_def secs_filter_nonempty)
qed

lemma complement_fold:
  assumes "nform out" "\<forall>j \<in> set out. snd j < c" "\<forall>h \<in> set hs. c \<le> fst h" "nform hs"
    "foldl complement_step (out, c) hs = (out', c')"
  shows "nform out' \<and> c \<le> c' \<and> (\<forall>j \<in> set out'. snd j < c') \<and> (\<forall>h \<in> set hs. snd h \<le> c') \<and>
           c' \<in> insert c (snd ` set hs) \<and> secs out' = secs out \<union> ({c..<c'} - secs hs)"
  using assms
proof (induction hs arbitrary: out c)
  case Nil
  then show ?case by simp
next
  case (Cons h hs)
  obtain out1 c1 where step: "complement_step (out, c) h = (out1, c1)" by (metis surj_pair)
  have h: "fst h < snd h" "c \<le> fst h" "\<forall>j \<in> set hs. snd h < fst j" "nform hs"
    using Cons.prems by (auto simp: norm_Cons)
  have c1: "c1 = snd h" and out1: "out1 = (if fst h > c then out @ [(c, fst h)] else out)"
    using step h by (auto simp: complement_step_def)
  have "nform out1" and "\<forall>j \<in> set out1. snd j < c1"
    using Cons.prems h out1 c1 by (auto simp: norm_append norm_Cons)
  moreover have "\<forall>j \<in> set hs. c1 \<le> fst j" using h c1 by force
  moreover have "foldl complement_step (out1, c1) hs = (out', c')" using Cons.prems(5) step by simp
  ultimately have ih: "nform out' \<and> c1 \<le> c' \<and> (\<forall>j \<in> set out'. snd j < c') \<and> (\<forall>h \<in> set hs. snd h \<le> c') \<and>
           c' \<in> insert c1 (snd ` set hs) \<and> secs out' = secs out1 \<union> ({c1..<c'} - secs hs)"
    using Cons.IH h(4) by blast
  have after: "\<And>t. t \<in> secs hs \<Longrightarrow> snd h < t" using h(3) by (auto dest: secs_after)
  have s1: "secs out1 = secs out \<union> {c..<fst h}" using out1 h(2) by auto
  have "{c..<fst h} \<union> ({snd h..<c'} - secs hs) = {c..<c'} - secs (h # hs)"
  proof (rule set_eqI)
    fix t
    show "t \<in> {c..<fst h} \<union> ({snd h..<c'} - secs hs) \<longleftrightarrow> t \<in> {c..<c'} - secs (h # hs)"
      using h ih c1 after [of t] by auto
  qed
  then show ?case using ih h c1 s1 by (simp add: Un_assoc)
qed

lemma complementIntervals_correct:
  "nform (complementIntervals holes from to) \<and>
   secs (complementIntervals holes from to) = {from..<to} - secs holes"
proof -
  let ?hs = "mergeIntervals (clipIntervals holes from to)"
  have in_window: "\<forall>h \<in> set ?hs. from \<le> fst h \<and> snd h \<le> to \<and> fst h < snd h"
  proof
    fix h assume h: "h \<in> set ?hs"
    then have ne: "fst h < snd h" using norm_merge by (auto simp: nform_def)
    then have "{fst h, snd h - 1} \<subseteq> secs ?hs" using h by (force simp: secs_def)
    then show "from \<le> fst h \<and> snd h \<le> to \<and> fst h < snd h" using ne by auto
  qed
  obtain out c where f: "foldl complement_step ([], from) ?hs = (out, c)" by (metis surj_pair)
  have r: "nform out" "from \<le> c" "\<forall>j \<in> set out. snd j < c" "\<forall>h \<in> set ?hs. snd h \<le> c"
    "c \<in> insert from (snd ` set ?hs)" "secs out = {from..<c} - secs ?hs"
    using complement_fold [OF _ _ _ norm_merge f] in_window by auto
  have "secs ?hs \<subseteq> {..<c}" using r(4) by (force simp: secs_def)
  moreover have "c \<le> to \<or> c = from \<and> to < from" using r(5) in_window by auto
  ultimately have "secs (if c < to then out @ [(c, to)] else out) = {from..<to} - secs holes"
    using r(2,6) by auto
  then show ?thesis using r(1,3) f
    by (auto simp: complementIntervals_def norm_append norm_Cons)
qed

lemmas norm_complement [simp] = complementIntervals_correct [THEN conjunct1]
lemmas secs_complement [simp] = complementIntervals_correct [THEN conjunct2]

subsection \<open>The interface to the engine\<close>

interpretation iv: canonical_intervals secs intersectIntervals clipIntervals complementIntervals
    totalSeconds nform mergeIntervals
  by unfold_locales (auto simp: totalSeconds_card norm_unique)

subsection \<open>Properties\<close>

text \<open>
  Merging returns the normal form of the covered seconds, and nothing else is one: a list is
  the result of \<open>mergeIntervals\<close> exactly when its intervals are non-empty, in order, strictly
  apart, and cover the same seconds as the input.
\<close>

theorem merge_is_the_normal_form: "nform ys \<and> secs ys = secs ivs \<longleftrightarrow> ys = mergeIntervals ivs"
  by (rule iv.merge_char)

text \<open>
  The two-pointer loop computes the intersection: its result is the normal form of exactly the
  seconds in both lists, whatever order, overlap or empty intervals the two lists have.
\<close>

theorem intersect_is_intersection:
  "nform zs \<and> secs zs = secs a \<inter> secs b \<longleftrightarrow> zs = intersectIntervals a b"
  by (rule iv.inter_char)

text \<open>
  The complement of \<open>holes\<close> in a window is the normal form of the window's seconds outside
  every hole; with the clipped holes it adds up to the length of the window.
\<close>

theorem complement_is_complement:
  assumes "from \<le> to"
  shows "(nform zs \<and> secs zs = {from..<to} - secs holes \<longleftrightarrow> zs = complementIntervals holes from to)
    \<and> totalSeconds (clipIntervals holes from to) + totalSeconds (complementIntervals holes from to) = to - from"
  using iv.compl_char iv.total_split [OF assms] by blast

theorem complement_is_complement_witness:
  "totalSeconds (clipIntervals [(50, 90), (20, 60)] 0 80) + totalSeconds (complementIntervals [(50, 90), (20, 60)] 0 80) = 80"
  using complement_is_complement [of 0 80 "[]" "[(50, 90), (20, 60)]"] by simp

text \<open>
  No second is counted twice: the total is the number of distinct covered seconds, and
  \<open>mergedSeconds\<close> pairs it with the length of the longest unbroken run (0 for an empty list).
\<close>

theorem seconds_are_counted_once:
  "totalSeconds ivs = int (card (secs ivs)) \<and>
   mergedSeconds ivs = (int (card (secs ivs)), Max (insert 0 ((\<lambda>iv. snd iv - fst iv) ` set (mergeIntervals ivs))))"
  by (simp add: mergedSeconds_def mergedSeconds_fold foldl_longest totalSeconds_card flip: totalSeconds_def)

end
