(* ===== verification/Regex.thy ===== *)
theory Regex
  imports JsText
begin

text \<open>
  The part of ECMAScript's regular expressions the server's patterns use, as the specification
  defines them: a backtracking matcher in continuation style, trying alternatives from the left,
  repetitions greedily (or lazily) and refusing an empty repetition; captures by number. A pattern of
  the source is a value of \<open>rx\<close>, so a definition that uses one reads like the code.
\<close>

subsection \<open>Patterns and matching\<close>

datatype rx =
    Eps
  | Cls "char \<Rightarrow> bool"
  | Seq rx rx
  | Alt rx rx
  | Rep bool rx
  | Cap nat rx
  | Bound
  | Start
  | End

type_synonym captures = "(nat, string) table"
type_synonym cont = "nat \<Rightarrow> captures \<Rightarrow> (nat \<times> captures) option"

definition word_char :: "char \<Rightarrow> bool" where
  "word_char c \<longleftrightarrow> is_digit c \<or> (CHR ''a'' \<le> c \<and> c \<le> CHR ''z'') \<or> (CHR ''A'' \<le> c \<and> c \<le> CHR ''Z'') \<or> c = CHR ''_''"

definition word_at :: "string \<Rightarrow> int \<Rightarrow> bool" where
  "word_at s i \<longleftrightarrow> 0 \<le> i \<and> i < int (length s) \<and> word_char (s ! nat i)"

text \<open>
  A repetition: \<open>f\<close> matches one more, which must consume something. Every round consumes at least one
  character, so as many rounds as there are characters left are enough.
\<close>

fun rep :: "nat \<Rightarrow> bool \<Rightarrow> (nat \<Rightarrow> captures \<Rightarrow> cont \<Rightarrow> (nat \<times> captures) option) \<Rightarrow> nat \<Rightarrow> captures \<Rightarrow> cont \<Rightarrow> (nat \<times> captures) option" where
  "rep 0 g f i c k = k i c"
| "rep (Suc n) g f i c k =
     (if g
      then (case f i c (\<lambda>j d. if j > i then rep n g f j d k else None) of Some r \<Rightarrow> Some r | None \<Rightarrow> k i c)
      else (case k i c of Some r \<Rightarrow> Some r | None \<Rightarrow> f i c (\<lambda>j d. if j > i then rep n g f j d k else None)))"

primrec rx_at :: "rx \<Rightarrow> string \<Rightarrow> nat \<Rightarrow> captures \<Rightarrow> cont \<Rightarrow> (nat \<times> captures) option" where
  "rx_at Eps s i c k = k i c"
| "rx_at (Cls p) s i c k = (if i < length s \<and> p (s ! i) then k (Suc i) c else None)"
| "rx_at (Seq a b) s i c k = rx_at a s i c (\<lambda>j d. rx_at b s j d k)"
| "rx_at (Alt a b) s i c k = (case rx_at a s i c k of Some r \<Rightarrow> Some r | None \<Rightarrow> rx_at b s i c k)"
| "rx_at (Rep g a) s i c k = rep (length s - i) g (rx_at a s) i c k"
| "rx_at (Cap n a) s i c k = rx_at a s i c (\<lambda>j d. k j (table_set n (take (j - i) (drop i s)) d))"
| "rx_at Bound s i c k = (if word_at s (int i - 1) \<noteq> word_at s (int i) then k i c else None)"
| "rx_at Start s i c k = (if i = 0 then k i c else None)"
| "rx_at End s i c k = (if i = length s then k i c else None)"

text \<open>\<open>r.exec(s)\<close>: the leftmost match, as its start, its end and its captures.\<close>

definition rx_exec :: "rx \<Rightarrow> string \<Rightarrow> (nat \<times> nat \<times> captures) option" where
  "rx_exec r s =
     (case filter (\<lambda>p. snd p \<noteq> None) (map (\<lambda>i. (i, rx_at r s i [] (\<lambda>j c. Some (j, c)))) [0..<Suc (length s)]) of
        [] \<Rightarrow> None
      | p # _ \<Rightarrow> (case snd p of None \<Rightarrow> None | Some (j, c) \<Rightarrow> Some (fst p, j, c)))"

definition rx_test :: "rx \<Rightarrow> string \<Rightarrow> bool" where
  "rx_test r s \<longleftrightarrow> rx_exec r s \<noteq> None"

text \<open>The captures of a match, an absent one being empty where the code tests it for truth.\<close>

definition rx_caps :: "rx \<Rightarrow> string \<Rightarrow> captures option" where
  "rx_caps r s = (case rx_exec r s of None \<Rightarrow> None | Some (i, j, c) \<Rightarrow> Some c)"

definition cap :: "captures \<Rightarrow> nat \<Rightarrow> string" where
  "cap c n = (case table_get c n of Some w \<Rightarrow> w | None \<Rightarrow> [])"

subsection \<open>Abbreviations of the pattern syntax\<close>

definition Lit :: "string \<Rightarrow> rx" where
  "Lit w = foldr (\<lambda>c r. Seq (Cls (\<lambda>x. x = c)) r) w Eps"

definition LitI :: "string \<Rightarrow> rx" where
  "LitI w = foldr (\<lambda>c r. Seq (Cls (\<lambda>x. lower_char x = lower_char c)) r) w Eps"

fun Seqs :: "rx list \<Rightarrow> rx" where
  "Seqs [] = Eps"
| "Seqs [r] = r"
| "Seqs (r # rs) = Seq r (Seqs rs)"

fun Alts :: "rx list \<Rightarrow> rx" where
  "Alts [] = Cls (\<lambda>_. False)"
| "Alts [r] = r"
| "Alts (r # rs) = Alt r (Alts rs)"

definition Opt :: "rx \<Rightarrow> rx" where "Opt r = Alt r Eps"
definition Star :: "rx \<Rightarrow> rx" where "Star r = Rep True r"
definition Plus :: "rx \<Rightarrow> rx" where "Plus r = Seq r (Rep True r)"
definition LazyStar :: "rx \<Rightarrow> rx" where "LazyStar r = Rep False r"
definition LazyPlus :: "rx \<Rightarrow> rx" where "LazyPlus r = Seq r (Rep False r)"

fun Times :: "nat \<Rightarrow> rx \<Rightarrow> rx" where
  "Times 0 r = Eps"
| "Times (Suc n) r = Seq r (Times n r)"

definition Digit :: rx where "Digit = Cls is_digit"
definition Space :: rx where "Space = Cls is_space"
definition Spaces :: rx where "Spaces = Star Space"
definition Any :: rx where "Any = Cls (\<lambda>c. c \<noteq> CHR 0x0A \<and> c \<noteq> CHR 0x0D)"
definition OneOf :: "string \<Rightarrow> rx" where "OneOf cs = Cls (\<lambda>c. c \<in> set cs)"
definition NoneOf :: "string \<Rightarrow> rx" where "NoneOf cs = Cls (\<lambda>c. c \<notin> set cs)"

lemmas rx_simps = Lit_def LitI_def Opt_def Star_def Plus_def LazyStar_def LazyPlus_def Digit_def Space_def Spaces_def
  Any_def OneOf_def NoneOf_def

subsection \<open>A match lies inside the text\<close>

definition advances :: "string \<Rightarrow> (nat \<Rightarrow> captures \<Rightarrow> cont \<Rightarrow> (nat \<times> captures) option) \<Rightarrow> bool" where
  "advances s f \<longleftrightarrow> (\<forall>i c k r. i \<le> length s \<longrightarrow> f i c k = Some r \<longrightarrow> (\<exists>j d. i \<le> j \<and> j \<le> length s \<and> k j d = Some r))"

lemma advancesD: "advances s f \<Longrightarrow> i \<le> length s \<Longrightarrow> f i c k = Some r \<Longrightarrow> \<exists>j d. i \<le> j \<and> j \<le> length s \<and> k j d = Some r"
  unfolding advances_def by blast

lemma advances_rep: "advances s f \<Longrightarrow> i \<le> length s \<Longrightarrow> rep n g f i c k = Some r \<Longrightarrow> \<exists>j d. i \<le> j \<and> j \<le> length s \<and> k j d = Some r"
proof (induction n arbitrary: i c)
  case 0
  then show ?case by auto
next
  case (Suc n)
  have more: ?case if m: "f i c (\<lambda>j d. if j > i then rep n g f j d k else None) = Some r"
  proof -
    obtain j d where "i \<le> j" "j \<le> length s" "(if j > i then rep n g f j d k else None) = Some r"
      using advancesD [OF Suc.prems(1,2) m] by blast
    then have "i < j" "rep n g f j d k = Some r" by (auto split: if_splits)
    then show ?thesis using Suc.IH [OF Suc.prems(1) \<open>j \<le> length s\<close>, of d] by (meson less_imp_le order_trans)
  qed
  show ?case using Suc.prems more by (auto split: if_splits option.splits)
qed

lemma rx_at_advances: "advances s (rx_at r s)"
proof (induction r)
  case (Seq a b)
  show ?case unfolding advances_def
  proof (intro allI impI)
    fix i c k r assume i: "i \<le> length s" and m: "rx_at (Seq a b) s i c k = Some r"
    have "rx_at a s i c (\<lambda>j d. rx_at b s j d k) = Some r" using m by simp
    from advancesD [OF Seq.IH(1) i this]
    obtain j d where j: "i \<le> j" "j \<le> length s" "rx_at b s j d k = Some r" by blast
    then show "\<exists>j d. i \<le> j \<and> j \<le> length s \<and> k j d = Some r"
      using advancesD [OF Seq.IH(2) j(2,3)] by (meson order_trans)
  qed
next
  case (Alt a b)
  then show ?case unfolding advances_def by (auto split: option.splits)
next
  case (Rep g a)
  then have "\<exists>j d. i \<le> j \<and> j \<le> length s \<and> k j d = Some r"
    if "i \<le> length s" "rx_at (Rep g a) s i c k = Some r" for i c k r
    using that advances_rep by (metis rx_at.simps(5))
  then show ?case unfolding advances_def by blast
next
  case (Cap n a)
  then show ?case unfolding advances_def by fastforce
next
  case (Cls p)
  then show ?case unfolding advances_def by (auto split: if_splits) (metis Suc_leI le_SucI order_refl)
qed (auto simp: advances_def split: if_splits)

end
