(* ===== verification/Naming.thy ===== *)
theory Naming
  imports Regex
begin

text \<open>
  What a host's name says about it (\<open>server/src/domain/naming.ts\<close>): its site, its kind of device, its
  report category and, for a leg of a WAN path, the path. \<open>naturalCompare\<close> is the collator of
  \<open>Intl\<close>, a parameter \<open>collate\<close> of the definitions that sort by name.
\<close>

record site_ref =
  site_code :: nat
  site_name :: string

definition SITES :: "(nat \<times> string \<times> string list) list" where
  "SITES =
    [(1, ''Jakarta'', [''JAKARTA'', ''JKT'', ''IDX'']),
     (2, ''Surabaya'', [''SURABAYA'', ''SBY'']),
     (3, ''SSB / Sampang'', [''SAMPANG'', ''SSB'', ''SAM'']),
     (4, ''FPSO KAS3 & BD-WHP'', [''FPSO'', ''KAS3'', ''BDW'']),
     (5, ''Pasuruan / GMS'', [''PASURUAN'', ''GMS'', ''PAS'']),
     (6, ''Sumenep'', [''SUMENEP'', ''SUP'', ''STP'']),
     (7, ''Sapudi'', [''SAPUDI'']),
     (8, ''MDA'', [''MDA'']),
     (9, ''MBH'', [''MBH'']),
     (10, ''FPU'', [''FPU'']),
     (11, ''MOPU / MAC'', [''MOPU'', ''MAC'']),
     (12, ''Porong'', [''PORONG'', ''POR'']),
     (13, ''Tanjung Wangi'', [''TJWB'', ''TANJUNG WANGI'']),
     (14, ''TWSB'', [''TWSB''])]"

definition BY_CODE :: "nat \<Rightarrow> (string \<times> string list) option" where
  "BY_CODE = map_of SITES"

definition coded_rx :: rx where
  "coded_rx = Seqs [Start, Spaces, Cap 1 (Seq Digit (Opt Digit)), Lit ''.'']"

definition service_rx :: rx where
  "service_rx = Seqs [Start, Spaces, Cap 1 (Alt (LitI ''INET'') (LitI ''SERVER'')), Spaces, Lit '':'', Spaces,
     Cap 2 (Plus Any), End]"

definition siteFromHostName :: "string \<Rightarrow> site_ref option" where
  "siteFromHostName name =
     (case rx_caps coded_rx name of
        Some c \<Rightarrow>
          (case BY_CODE (digits_val (cap c 1)) of
             Some (n, _) \<Rightarrow> Some \<lparr>site_code = digits_val (cap c 1), site_name = n\<rparr>
           | None \<Rightarrow> None)
      | None \<Rightarrow>
          (case rx_caps service_rx name of
             None \<Rightarrow> None
           | Some c \<Rightarrow>
               (let words = toUpperCase (cap c 2) in
                case find (\<lambda>(code, n, aliases). list_ex (\<lambda>a. rx_test (Seqs [Bound, Lit a, Bound]) words) aliases) SITES of
                  Some (code, n, _) \<Rightarrow> Some \<lparr>site_code = code, site_name = n\<rparr>
                | None \<Rightarrow> None)))"

datatype device_class = Firewall | Switch | AccessPoint | Repeater | WanLink | Web | Server | Other

fun class_key :: "device_class \<Rightarrow> string" where
  "class_key Firewall = ''firewall''"
| "class_key Switch = ''switch''"
| "class_key AccessPoint = ''access-point''"
| "class_key Repeater = ''repeater''"
| "class_key WanLink = ''wan-link''"
| "class_key Web = ''web''"
| "class_key Server = ''server''"
| "class_key Other = ''other''"

fun DEVICE_CLASS_LABELS :: "device_class \<Rightarrow> string" where
  "DEVICE_CLASS_LABELS Firewall = ''Firewalls''"
| "DEVICE_CLASS_LABELS Switch = ''Switches''"
| "DEVICE_CLASS_LABELS AccessPoint = ''Access points''"
| "DEVICE_CLASS_LABELS Repeater = ''Radio repeaters''"
| "DEVICE_CLASS_LABELS WanLink = ''WAN links''"
| "DEVICE_CLASS_LABELS Web = ''Web services''"
| "DEVICE_CLASS_LABELS Server = ''Servers''"
| "DEVICE_CLASS_LABELS Other = ''Other''"

text \<open>\<open>s.includes(t)\<close>.\<close>

definition includes_text :: "string \<Rightarrow> string \<Rightarrow> bool" where
  "includes_text s t \<longleftrightarrow> list_ex (\<lambda>i. startsWith (drop i s) t) [0..<Suc (length s)]"

definition prefix_rx :: "string \<Rightarrow> rx" where
  "prefix_rx w = Seqs [Start, Spaces, Lit w, Spaces, Lit '':'']"

definition ap_rx :: rx where
  "ap_rx = Alts [Lit ''ARUBA'', Lit ''WICTR'', Seqs [Bound, Lit ''WAC'', Bound]]"

definition firewall_rx :: rx where
  "firewall_rx = Alts [Seq (Lit ''FW'') Digit, Seqs [Bound, Lit ''FW'', Bound], Seq Bound (Lit ''FG''), Lit ''FGT'',
     Lit ''FGR'', Lit ''FORTI'']"

definition switch_rx :: rx where
  "switch_rx = Alts [Lit ''SWITCH'', Seqs [Bound, Lit ''SW'', Bound], Seq (Lit ''_CS'') Digit, Seq (Lit ''_IE'') Digit,
     Seq (Lit ''-IE'') Digit, Lit ''ACS'', Lit ''CS2960'', Lit ''MOXA'', Lit ''BRIDGE'']"

definition deviceClass :: "string \<Rightarrow> string option \<Rightarrow> device_class" where
  "deviceClass name templateName =
     (let n = toUpperCase name in
      if rx_test (prefix_rx ''INET'') n then WanLink
      else if rx_test (prefix_rx ''WEB'') n then Web
      else if rx_test (prefix_rx ''SERVER'') n then Server
      else if rx_test (Lit ''REPEATER'') n then Repeater
      else
        (let t = toUpperCase (case templateName of None \<Rightarrow> [] | Some t \<Rightarrow> t) in
         if includes_text t ''FORTIGATE'' then Firewall
         else if includes_text t ''CISCO IOS'' then Switch
         else if rx_test ap_rx n then AccessPoint
         else if rx_test firewall_rx n then Firewall
         else if rx_test switch_rx n then Switch
         else if includes_text t ''GENERIC BY SNMP'' then AccessPoint
         else Other))"

definition CATEGORY_ORDER :: "string list" where
  "CATEGORY_ORDER = [''Cisco IOS by SNMP'', ''ICMP Ping'', ''Generic by SNMP'', ''FortiGate by SNMP'']"

definition categoryLabel :: "string option \<Rightarrow> string" where
  "categoryLabel templateName =
     (case templateName of
        None \<Rightarrow> ''Other''
      | Some w \<Rightarrow>
          (if w = [] then ''Other''
           else (let t = trim w in
                 case find (\<lambda>c. toLowerCase c = toLowerCase t) CATEGORY_ORDER of Some known \<Rightarrow> known | None \<Rightarrow> t)))"

record wan_key =
  wan_path :: string
  wan_leg :: string
  provider :: "string option"

definition wan_rx :: rx where
  "wan_rx = Seqs [Start, Spaces, LitI ''INET'', Spaces, Lit '':'', Spaces, Cap 1 (LazyPlus Any), Plus Space,
     Alt (LitI ''WAN'') (LitI ''INTERNET''), Spaces, Cap 2 (Plus Digit), Bound, Spaces,
     Opt (Seqs [Lit ''('', Cap 3 (Plus Any), Lit '')'']), Spaces, End]"

definition wanPairKey :: "string \<Rightarrow> wan_key option" where
  "wanPairKey name =
     (case rx_caps wan_rx name of
        None \<Rightarrow> None
      | Some c \<Rightarrow> Some \<lparr>wan_path = toUpperCase (trim (cap c 1)), wan_leg = cap c 2,
                       provider = (if cap c 3 \<noteq> [] then Some (trim (cap c 3)) else None)\<rparr>)"

subsection \<open>What the names give\<close>

lemma BY_CODE_listed: "BY_CODE n = Some (w, al) \<Longrightarrow> (n, w, al) \<in> set SITES"
  by (simp add: BY_CODE_def map_of_SomeD)

text \<open>A site found is one of the fourteen, with its own name.\<close>

lemma site_listed:
  assumes "siteFromHostName name = Some s"
  shows "\<exists>al. (site_code s, site_name s, al) \<in> set SITES"
proof (cases "rx_caps coded_rx name")
  case (Some c)
  then show ?thesis using assms BY_CODE_listed by (fastforce simp: siteFromHostName_def split: option.splits)
next
  case None
  then show ?thesis using assms
    by (auto simp: siteFromHostName_def Let_def split: option.splits simp: find_Some_iff simp del: set_conv_nth)
      (metis nth_mem)
qed

lemma site_code_range: "siteFromHostName name = Some s \<Longrightarrow> 1 \<le> site_code s \<and> site_code s \<le> 14"
  using site_listed [of name s] by (auto simp: SITES_def)

lemma class_key_inj: "class_key a = class_key b \<longleftrightarrow> a = b"
  by (cases a; cases b) simp_all

text \<open>Samples of the convention, as the comments of the source give them.\<close>

lemma naming_samples:
  "siteFromHostName ''1.2.1 IDX02CORESWITCH'' = Some \<lparr>site_code = 1, site_name = ''Jakarta''\<rparr>"
  "siteFromHostName ''INET : SAMPANG WAN 1'' = Some \<lparr>site_code = 3, site_name = ''SSB / Sampang''\<rparr>"
  "siteFromHostName ''Zabbix server'' = None"
  "deviceClass ''INET : SAMPANG WAN 1'' None = WanLink"
  "wanPairKey ''INET : SAMPANG WAN 2 (Telkom)'' = Some \<lparr>wan_path = ''SAMPANG'', wan_leg = ''2'', provider = Some ''Telkom''\<rparr>"
  "wanPairKey ''WEB : PORTAL'' = None"
  by code_simp+

end
