(* ===== verification/Replay.thy ===== *)
theory Replay
  imports Intervals Naming
begin

text \<open>
  The pure parts of the SLA engine (\<open>server/src/sli/engine.ts\<close>): replaying a trigger's events into
  outage intervals, the state a trigger was in when the window opened, hours that collected data, and
  the figures of a group of hosts. Percentages are exact rationals.
\<close>

subsection \<open>Outages from events\<close>

record trigger_event =
  ev_clock :: int
  ev_value :: int

text \<open>The loop of \<open>intervalsFor\<close>: the closed intervals, the start of the open one, the count.\<close>

definition replay_step :: "int \<Rightarrow> int \<Rightarrow> interval list \<times> int option \<times> nat \<Rightarrow> trigger_event \<Rightarrow> interval list \<times> int option \<times> nat" where
  "replay_step from endClip st ev =
     (case st of (intervals, start, incidents) \<Rightarrow>
        if ev_clock ev < from \<or> ev_clock ev > endClip then (intervals, start, incidents)
        else if ev_value ev = 1 then
          (case start of
             None \<Rightarrow> (intervals, Some (ev_clock ev), Suc incidents)
           | Some _ \<Rightarrow> (intervals, start, incidents))
        else
          (case start of
             None \<Rightarrow> (intervals, start, incidents)
           | Some s \<Rightarrow> ((if ev_clock ev > s then intervals @ [(s, ev_clock ev)] else intervals), None, incidents)))"

definition intervalsFor :: "trigger_event list \<Rightarrow> bool \<Rightarrow> int \<Rightarrow> int \<Rightarrow> interval list \<times> nat" where
  "intervalsFor events initialProblem from endClip =
     (let (intervals, start, incidents) =
            foldl (replay_step from endClip)
              ([], if initialProblem then Some from else None, if initialProblem then 1 else 0) events
      in (case start of
            Some s \<Rightarrow> (if endClip > s then intervals @ [(s, endClip)] else intervals)
          | None \<Rightarrow> intervals, incidents))"

record trigger_state =
  tr_value :: string
  tr_lastchange :: int

definition initialState :: "trigger_event list \<Rightarrow> trigger_state \<Rightarrow> int \<Rightarrow> int option \<Rightarrow> bool" where
  "initialState eventsInWindow trig end firstLater =
     (if eventsInWindow \<noteq> [] then ev_value (hd eventsInWindow) = 0
      else if tr_lastchange trig < end \<or> firstLater = None then tr_value trig = ''1''
      else firstLater = Some 0)"

subsection \<open>Figures of a group\<close>

datatype data_status = Ok | Partial | NoData

record sli_host =
  h_hostid :: string
  h_name :: string
  h_status :: string
  h_site :: "site_ref option"
  h_category :: string
  h_class :: device_class
  h_triggerids :: "string list"
  h_sli :: "rat option"
  h_downtime :: int
  h_window :: int
  h_covered :: int
  h_maintenance :: int
  h_coverage :: rat
  h_incidents :: nat
  h_longest :: int
  h_dataStatus :: data_status
  h_measured :: bool
  h_meeting :: "bool option"
  h_errorBudget :: "rat option"

record sli_group =
  g_key :: string
  g_name :: string
  g_hosts :: nat
  g_withData :: nat
  g_sli :: "rat option"
  g_downtime :: int
  g_meeting :: "bool option"
  g_belowTarget :: nat

definition mean :: "rat list \<Rightarrow> rat option" where
  "mean xs = (if xs \<noteq> [] then Some (sum_list xs / of_nat (length xs)) else None)"

definition aggregate :: "string \<Rightarrow> string \<Rightarrow> sli_host list \<Rightarrow> rat \<Rightarrow> sli_group" where
  "aggregate key nm hosts target =
     (let withData = filter (\<lambda>h. h_sli h \<noteq> None) hosts;
          sli = mean (map (\<lambda>h. the (h_sli h)) withData)
      in \<lparr>g_key = key, g_name = nm, g_hosts = length hosts, g_withData = length withData, g_sli = sli,
          g_downtime = sum_list (map h_downtime hosts),
          g_meeting = map_option (\<lambda>s. s \<ge> target) sli,
          g_belowTarget = length (filter (\<lambda>h. h_meeting h = Some False) hosts)\<rparr>)"

subsection \<open>What was collected\<close>

definition delay_rx :: rx where
  "delay_rx = Seqs [Start, Spaces, Cap 1 (Plus Digit), Spaces, Cap 2 (Opt (OneOf ''smhdw'')), Spaces, End]"

definition delay_unit :: "string \<Rightarrow> int" where
  "delay_unit u = (if u = ''m'' then 60 else if u = ''h'' then 3600 else if u = ''d'' then 86400
                   else if u = ''w'' then 604800 else 1)"

definition parseDelay :: "string option \<Rightarrow> int" where
  "parseDelay delay =
     (case rx_caps delay_rx (case delay of None \<Rightarrow> [] | Some d \<Rightarrow> d) of
        None \<Rightarrow> 60
      | Some c \<Rightarrow> max 1 (int (digits_val (cap c 1)) * delay_unit (cap c 2)))"

record icmp_item =
  it_itemid :: string
  it_hostid :: string
  it_key :: string
  it_delay :: string
  it_state :: "string option"
  it_lastclock :: "string option"

definition wasMeasured :: "icmp_item list \<Rightarrow> bool \<Rightarrow> bool" where
  "wasMeasured items hostDisabled =
     (if items = [] then True
      else \<not> list_all (\<lambda>i. it_lastclock i = Some ''0'' \<and> (it_state i = Some ''1'' \<or> hostDisabled)) items)"

text \<open>A trend row: the hour it is clocked at and the number of samples. \<open>0.5 * (3600 / delay)\<close> without the fractions.\<close>

definition coveredFromTrends :: "(int \<times> int) list \<Rightarrow> int \<Rightarrow> int \<Rightarrow> int \<Rightarrow> interval list" where
  "coveredFromTrends rows delaySeconds from end =
     (let expected = 3600 / of_int delaySeconds :: rat;
          hours = map (\<lambda>r. (fst r, fst r + 3600)) (filter (\<lambda>r. of_int (snd r) \<ge> 1 / 2 * expected) rows)
      in intersectIntervals hours [(from, end)])"

subsection \<open>Report categories and orders\<close>

definition categoryFor :: "string list \<Rightarrow> string" where
  "categoryFor parentTemplates =
     (let lower = map toLowerCase parentTemplates in
      case find (\<lambda>c. c \<noteq> ''ICMP Ping'' \<and> toLowerCase c \<in> set lower) CATEGORY_ORDER of
        Some device \<Rightarrow> device
      | None \<Rightarrow>
          (if ''icmp ping'' \<in> set lower then ''ICMP Ping''
           else case parentTemplates of
                  p # _ \<Rightarrow> (if p \<noteq> [] then categoryLabel (Some p) else ''Other'')
                | [] \<Rightarrow> ''Other''))"

definition index_of :: "'a list \<Rightarrow> 'a \<Rightarrow> nat option" where
  "index_of xs x = find (\<lambda>i. xs ! i = x) [0..<length xs]"

definition rank :: "string list \<Rightarrow> string \<Rightarrow> nat" where
  "rank order key = (case index_of order key of None \<Rightarrow> length order | Some i \<Rightarrow> i)"

text \<open>\<open>key.replace('site:', '')\<close> takes the first occurrence out; the keys start with it.\<close>

definition siteRank :: "string \<Rightarrow> rat" where
  "siteRank key =
     (let i = find (\<lambda>i. startsWith (drop i key) ''site:'') [0..<Suc (length key)];
          rest = (case i of None \<Rightarrow> key | Some j \<Rightarrow> take j key @ drop (j + 5) key)
      in case js_number rest of Num q \<Rightarrow> q | _ \<Rightarrow> 99)"

subsection \<open>The trigger's state, second by second\<close>

definition in_clip :: "int \<Rightarrow> int \<Rightarrow> trigger_event \<Rightarrow> bool" where
  "in_clip from endClip ev \<longleftrightarrow> from \<le> ev_clock ev \<and> ev_clock ev \<le> endClip"

text \<open>In problem at \<open>t\<close>: what the last event up to \<open>t\<close> says, or the state at the start of the window.\<close>

definition problem_at :: "trigger_event list \<Rightarrow> bool \<Rightarrow> int \<Rightarrow> bool" where
  "problem_at events initial t =
     (let past = filter (\<lambda>e. ev_clock e \<le> t) events in if past = [] then initial else ev_value (last past) = 1)"

definition open_secs :: "int option \<Rightarrow> int set" where
  "open_secs st = (case st of Some s \<Rightarrow> {s..} | None \<Rightarrow> {})"

definition replay_inv :: "int \<Rightarrow> bool \<Rightarrow> int \<Rightarrow> trigger_event list \<Rightarrow> interval list \<times> int option \<times> nat \<Rightarrow> bool" where
  "replay_inv from initial hi evs st =
     (case st of (ivs, start, n) \<Rightarrow>
        {t. from \<le> t \<and> problem_at evs initial t} = secs ivs \<union> open_secs start \<and>
        (\<forall>iv \<in> set ivs. from \<le> fst iv \<and> fst iv < snd iv \<and> snd iv \<le> hi) \<and>
        (\<forall>s. start = Some s \<longrightarrow> from \<le> s \<and> s \<le> hi))"

lemma problem_at_snoc:
  assumes "\<forall>e \<in> set evs. ev_clock e \<le> ev_clock ev"
  shows "problem_at (evs @ [ev]) initial t = (if ev_clock ev \<le> t then ev_value ev = 1 else problem_at evs initial t)"
  using assms by (auto simp: problem_at_def Let_def)

lemma replay_inv_step:
  assumes inv: "replay_inv from initial hi evs st" and le: "\<forall>e \<in> set evs. ev_clock e \<le> ev_clock ev"
    and clip: "in_clip from endClip ev" and up: "hi \<le> ev_clock ev"
  shows "replay_inv from initial (ev_clock ev) (evs @ [ev]) (replay_step from endClip st ev)"
proof -
  obtain ivs start n where st: "st = (ivs, start, n)" by (metis prod_cases3)
  let ?c = "ev_clock ev"
  have fr: "from \<le> ?c" "?c \<le> endClip" using clip by (auto simp: in_clip_def)
  have old: "{t. from \<le> t \<and> problem_at evs initial t} = secs ivs \<union> open_secs start"
    and bnd: "\<forall>iv \<in> set ivs. from \<le> fst iv \<and> fst iv < snd iv \<and> snd iv \<le> ?c"
    and sta: "\<forall>s. start = Some s \<longrightarrow> from \<le> s \<and> s \<le> ?c"
    using inv st up by (fastforce simp: replay_inv_def)+
  have below: "secs ivs \<subseteq> {from..<?c}" using bnd by (fastforce simp: secs_def)
  have new: "{t. from \<le> t \<and> problem_at (evs @ [ev]) initial t} =
      ((secs ivs \<union> open_secs start) \<inter> {..<?c}) \<union> (if ev_value ev = 1 then {?c..} else {})"
    unfolding old [symmetric] problem_at_snoc [OF le] using fr by auto
  show ?thesis
  proof (cases "ev_value ev = 1")
    case True
    then show ?thesis using new below bnd sta fr st
      by (cases start) (auto simp: replay_inv_def replay_step_def open_secs_def)
  next
    case False
    then show ?thesis using new below bnd sta fr st
      by (cases start) (auto simp: replay_inv_def replay_step_def open_secs_def)
  qed
qed

lemma replay_fold:
  assumes "sorted (map ev_clock evs)"
  shows "\<exists>hi. replay_inv from initial hi (filter (in_clip from endClip) evs)
      (foldl (replay_step from endClip) ([], if initial then Some from else None, if initial then 1 else 0) evs) \<and>
      hi \<le> max from endClip \<and>
      (hi \<le> from \<or> (\<exists>e \<in> set evs. hi \<le> ev_clock e))"
  using assms
proof (induction evs rule: rev_induct)
  case Nil
  then show ?case
    by (intro exI [of _ "from"]) (auto simp: replay_inv_def problem_at_def open_secs_def)
next
  case (snoc ev evs)
  have srt: "sorted (map ev_clock evs)" and le: "\<forall>e \<in> set evs. ev_clock e \<le> ev_clock ev"
    using snoc.prems by (auto simp: sorted_append)
  obtain hi where up: "replay_inv from initial hi (filter (in_clip from endClip) evs)
      (foldl (replay_step from endClip) ([], if initial then Some from else None, if initial then 1 else 0) evs)"
      "hi \<le> max from endClip" "hi \<le> from \<or> (\<exists>e \<in> set evs. hi \<le> ev_clock e)"
    using snoc.IH [OF srt] by blast
  show ?case
  proof (cases "in_clip from endClip ev")
    case True
    have "hi \<le> ev_clock ev" using up(3) le True by (auto simp: in_clip_def)
    then have "replay_inv from initial (ev_clock ev) (filter (in_clip from endClip) evs @ [ev])
       (replay_step from endClip (foldl (replay_step from endClip) ([], if initial then Some from else None, if initial then 1 else 0) evs) ev)"
      using replay_inv_step [OF up(1) _ True] le by auto
    moreover have "ev_clock ev \<le> max from endClip" using True by (simp add: in_clip_def)
    ultimately show ?thesis using True by (intro exI [of _ "ev_clock ev"]) simp
  next
    case False
    then have "replay_step from endClip st ev = st" for st
      by (cases st) (auto simp: replay_step_def in_clip_def)
    then show ?thesis using up False le by (intro exI [of _ hi]) (auto intro: order_trans)
  qed
qed

text \<open>Events after the end do not matter before it; events before the start are skipped.\<close>

lemma problem_at_clip:
  "t < endClip \<Longrightarrow> problem_at (filter (in_clip from endClip) evs) initial t =
     problem_at (filter (\<lambda>e. from \<le> ev_clock e) evs) initial t"
  by (auto simp: problem_at_def Let_def in_clip_def intro!: arg_cong [where f = "\<lambda>xs. ev_value (last xs) = 1"] filter_cong)
     (auto simp: filter_empty_conv)

lemma intervalsFor_secs:
  assumes "sorted (map ev_clock evs)"
  shows "secs (fst (intervalsFor evs initial from endClip)) =
     {t. from \<le> t \<and> t < endClip \<and> problem_at (filter (\<lambda>e. from \<le> ev_clock e) evs) initial t}"
proof -
  obtain ivs start n hi where st: "foldl (replay_step from endClip)
      ([], if initial then Some from else None, if initial then 1 else 0) evs = (ivs, start, n)"
    and inv: "replay_inv from initial hi (filter (in_clip from endClip) evs) (ivs, start, n)" and hi: "hi \<le> max from endClip"
    using replay_fold [OF assms, of "from" initial endClip] by (metis prod_cases3)
  have eq: "{t. from \<le> t \<and> problem_at (filter (in_clip from endClip) evs) initial t} = secs ivs \<union> open_secs start"
    and iv: "\<forall>iv \<in> set ivs. from \<le> fst iv \<and> fst iv < snd iv \<and> snd iv \<le> hi"
    and sta: "\<forall>s. start = Some s \<longrightarrow> from \<le> s"
    using inv by (auto simp: replay_inv_def)
  have "secs (fst (intervalsFor evs initial from endClip)) = (secs ivs \<union> open_secs start) \<inter> {..<endClip}"
  proof -
    have "secs ivs \<subseteq> {from..<max from endClip}" using iv hi by (fastforce simp: secs_def)
    moreover have "{from..<max from endClip} \<subseteq> {..<endClip}" by auto
    ultimately have "secs ivs \<subseteq> {..<endClip}" by blast
    then show ?thesis unfolding intervalsFor_def Let_def st
      by (cases start) (auto simp: open_secs_def)
  qed
  also have "\<dots> = {t. from \<le> t \<and> t < endClip \<and> problem_at (filter (in_clip from endClip) evs) initial t}"
    using eq by auto
  finally show ?thesis using problem_at_clip by auto
qed

lemma intervalsFor_within: "sorted (map ev_clock evs) \<Longrightarrow> secs (fst (intervalsFor evs initial from endClip)) \<subseteq> {from..<endClip}"
  by (auto simp: intervalsFor_secs)

subsection \<open>Coverage and groups\<close>

lemma half_expected: "0 < d \<Longrightarrow> of_int n \<ge> 1 / 2 * (3600 / of_int d :: rat) \<longleftrightarrow> 3600 \<le> 2 * n * d"
proof -
  assume d: "0 < d"
  have "of_int n \<ge> 1 / 2 * (3600 / of_int d :: rat) \<longleftrightarrow> 3600 \<le> (of_int n * 2 * of_int d :: rat)"
    using d by (simp add: field_simps)
  also have "\<dots> \<longleftrightarrow> (of_int 3600 :: rat) \<le> of_int (2 * n * d)" by (simp add: mult.commute mult.left_commute)
  also have "\<dots> \<longleftrightarrow> 3600 \<le> 2 * n * d" by (rule of_int_le_iff)
  finally show ?thesis .
qed

lemma coveredFromTrends_secs:
  "0 < d \<Longrightarrow> secs (coveredFromTrends rows d from end) =
     {t. from \<le> t \<and> t < end \<and> (\<exists>r \<in> set rows. fst r \<le> t \<and> t < fst r + 3600 \<and> 3600 \<le> 2 * snd r * d)}"
  unfolding coveredFromTrends_def Let_def secs_intersect secs_map half_expected by (auto, force)

lemma coveredFromTrends_nform [simp]: "nform (coveredFromTrends rows d from end)"
  by (simp add: coveredFromTrends_def)

text \<open>Which rows there are matters, not the order the requests delivered them in.\<close>

lemma coveredFromTrends_order: "0 < d \<Longrightarrow> set rows = set rows' \<Longrightarrow> coveredFromTrends rows d from end = coveredFromTrends rows' d from end"
  by (rule norm_unique) (simp_all add: coveredFromTrends_secs)

lemma parseDelay_positive: "1 \<le> parseDelay d"
  by (auto simp: parseDelay_def split: option.splits)

lemma mean_bounds:
  assumes "mean xs = Some m" "\<forall>x \<in> set xs. lo \<le> x \<and> x \<le> hi"
  shows "lo \<le> m \<and> m \<le> hi"
proof -
  have ne: "xs \<noteq> []" and m: "m = sum_list xs / of_nat (length xs)" using assms(1) by (auto simp: mean_def split: if_splits)
  have "of_nat (length xs) * lo \<le> sum_list xs \<and> sum_list xs \<le> of_nat (length xs) * hi"
    using assms(2) by (induction xs) (auto simp: algebra_simps add_mono)
  then show ?thesis using ne by (simp add: m field_simps)
qed

end
