(* ===== verification/Slices.thy ===== *)
theory Slices
  imports Requests "HOL-Library.Multiset"
begin

text \<open>
  Reading Zabbix's history without silent truncation (\<open>server/src/sli/events.ts\<close>): the window
  halving of \<open>event.get\<close>, the item-by-window slicing of \<open>trend.get\<close>, and the worker pool that runs
  the requests. Zabbix's two methods are parameters. A recursion or loop that need not end for
  every argument has an \<open>option\<close> result, \<open>None\<close> being "does not return".
\<close>

subsection \<open>\<open>fetchEventsSliced\<close>\<close>

partial_function (option) fetchEventsSliced ::
    "(int \<Rightarrow> int \<Rightarrow> nat \<Rightarrow> api_error + 'e list) \<Rightarrow> nat \<Rightarrow> int \<Rightarrow> int \<Rightarrow> int \<Rightarrow> (api_error + 'e list) option" where
  "fetchEventsSliced zbx pageLimit minSlice from to =
     (if to < from then Some (Inr [])
      else case zbx from to pageLimit of
        Inl e \<Rightarrow> Some (Inl e)
      | Inr rows \<Rightarrow>
          (if length rows < pageLimit then Some (Inr rows)
           else if to - from < minSlice then
             Some (Inl (ZabbixApiError (''event.get: more than '' @ show_nat pageLimit @ '' events within ''
               @ show_int (to - from + 1) @ '' s, too dense to report on exactly.'')))
           else
             Option.bind (fetchEventsSliced zbx pageLimit minSlice from ((from + to) div 2)) (\<lambda>first.
               case first of
                 Inl e \<Rightarrow> Some (Inl e)
               | Inr a \<Rightarrow>
                   Option.bind (fetchEventsSliced zbx pageLimit minSlice ((from + to) div 2 + 1) to) (\<lambda>second.
                     case second of
                       Inl e \<Rightarrow> Some (Inl e)
                     | Inr b \<Rightarrow> Some (Inr (a @ b))))))"

text \<open>
  What Zabbix documents of \<open>event.get\<close> with \<open>time_from\<close>, \<open>time_till\<close>, ascending order and a limit,
  for the events it stores: the first \<open>limit\<close> events of the closed window.
\<close>

definition events_in :: "('e \<Rightarrow> int) \<Rightarrow> 'e list \<Rightarrow> int \<Rightarrow> int \<Rightarrow> 'e list" where
  "events_in clock stored from to = filter (\<lambda>e. from \<le> clock e \<and> clock e \<le> to) stored"

definition event_store :: "('e \<Rightarrow> int) \<Rightarrow> 'e list \<Rightarrow> int \<Rightarrow> int \<Rightarrow> nat \<Rightarrow> api_error + 'e list" where
  "event_store clock stored from to limit = Inr (take limit (events_in clock stored from to))"

lemma events_in_split:
  assumes "sorted (map clock stored)" "from \<le> mid + 1" "mid \<le> to"
  shows "events_in clock stored from mid @ events_in clock stored (mid + 1) to = events_in clock stored from to"
  using assms
proof (induction stored)
  case Nil
  then show ?case by (simp add: events_in_def)
next
  case (Cons e stored)
  have later: "\<forall>x \<in> set stored. clock e \<le> clock x" using Cons.prems(1) by simp
  show ?case
  proof (cases "mid + 1 \<le> clock e")
    case True
    then have "events_in clock (e # stored) from mid = []" "events_in clock stored from mid = []"
      using later by (auto simp: events_in_def filter_empty_conv)
    then show ?thesis using Cons True by (auto simp: events_in_def)
  next
    case False
    then show ?thesis using Cons by (auto simp: events_in_def)
  qed
qed

text \<open>
  Two facts by one induction on the length of the window: the recursion returns, with all events of
  the window or with the density error, and the error needs a window too short to halve that
  holds a full page.
\<close>

lemma fetchEventsSliced_spec:
  assumes "sorted (map clock stored)" "1 \<le> minSlice"
  shows "fetchEventsSliced (event_store clock stored) limit minSlice from to = Some (Inr (events_in clock stored from to)) \<or>
    (\<exists>lo hi msg. fetchEventsSliced (event_store clock stored) limit minSlice from to = Some (Inl msg) \<and>
       from \<le> lo \<and> lo \<le> hi \<and> hi \<le> to \<and> hi - lo < minSlice \<and> limit \<le> length (events_in clock stored lo hi))"
proof (induction "nat (to - from)" arbitrary: "from" to rule: less_induct)
  case less
  let ?f = "fetchEventsSliced (event_store clock stored) limit minSlice"
  let ?in = "events_in clock stored"
  show ?case
  proof (cases "to < from \<or> length (?in from to) < limit \<or> to - from < minSlice")
    case True
    note unfold = fetchEventsSliced.simps [of "event_store clock stored" limit minSlice "from" to]
    consider "to < from" | "from \<le> to" "length (?in from to) < limit"
      | "from \<le> to" "limit \<le> length (?in from to)" "to - from < minSlice" using True by linarith
    then show ?thesis
    proof cases
      case 1
      then have "?in from to = []" by (auto simp: events_in_def filter_empty_conv)
      then show ?thesis using 1 unfold by simp
    next
      case 2
      then show ?thesis using unfold by (simp add: event_store_def)
    next
      case 3
      then have "\<exists>msg. ?f from to = Some (Inl msg)" using unfold by (simp add: event_store_def)
      then show ?thesis using 3 by blast
    qed
  next
    case False
    define mid where "mid = (from + to) div 2"
    have mid: "from \<le> mid" "mid < to" using False assms(2) by (auto simp: mid_def)
    have step: "?f from to = Option.bind (?f from mid) (\<lambda>first. case first of Inl e \<Rightarrow> Some (Inl e)
        | Inr a \<Rightarrow> Option.bind (?f (mid + 1) to) (\<lambda>second. case second of Inl e \<Rightarrow> Some (Inl e)
        | Inr b \<Rightarrow> Some (Inr (a @ b))))"
      using False by (subst fetchEventsSliced.simps) (auto simp: event_store_def mid_def not_less)
    have join: "?in from mid @ ?in (mid + 1) to = ?in from to"
      using mid by (intro events_in_split [OF assms(1)]) auto
    have "nat (mid - from) < nat (to - from)" "nat (to - (mid + 1)) < nat (to - from)" using mid by auto
    note ih = less [OF this(1)] less [OF this(2)]
    show ?thesis
    proof (cases "\<exists>msg. ?f from mid = Some (Inl msg)")
      case True
      then show ?thesis using ih(1) mid unfolding step by force
    next
      case f: False
      then have first: "?f from mid = Some (Inr (?in from mid))" using ih(1) by blast
      show ?thesis
      proof (cases "\<exists>msg. ?f (mid + 1) to = Some (Inl msg)")
        case True
        then show ?thesis using ih(2) mid first unfolding step by force
      next
        case False
        then have "?f (mid + 1) to = Some (Inr (?in (mid + 1) to))" using ih(2) by blast
        then show ?thesis using first join unfolding step by simp
      qed
    qed
  qed
qed

subsection \<open>\<open>hourMarks\<close>, \<open>chunk\<close>, \<open>trendSlices\<close>\<close>

definition TREND_MAX_ROWS :: nat where "TREND_MAX_ROWS = 35 * 745"
definition TREND_MIN_ITEMS :: nat where "TREND_MIN_ITEMS = 35"

definition hourMarks :: "int \<Rightarrow> int \<Rightarrow> int" where
  "hourMarks from to = max 0 (to div 3600 - ceil_div from 3600 + 1)"

text \<open>The loop \<open>for (i = 0; i < items.length; i += size)\<close>, which never ends for size 0.\<close>

partial_function (option) chunk_loop :: "'a list \<Rightarrow> nat \<Rightarrow> nat \<Rightarrow> 'a list list option" where
  "chunk_loop items sz i =
     (if i < length items
      then Option.bind (chunk_loop items sz (i + sz)) (\<lambda>rest. Some (take sz (drop i items) # rest))
      else Some [])"

definition chunk :: "'a list \<Rightarrow> nat \<Rightarrow> 'a list list option" where
  "chunk items sz = chunk_loop items sz 0"

partial_function (option) window_loop :: "int \<Rightarrow> int \<Rightarrow> int \<Rightarrow> int \<Rightarrow> (int \<times> int) list option" where
  "window_loop windowHours to start mark =
     (if start \<le> to
      then Option.bind (window_loop windowHours to mark (mark + windowHours * 3600))
             (\<lambda>rest. Some ((start, min to (mark - 1)) # rest))
      else Some [])"

record trend_slice =
  itemids :: "string list"
  slice_from :: int
  slice_to :: int

definition trendSlices :: "string list \<Rightarrow> int \<Rightarrow> int \<Rightarrow> nat \<Rightarrow> trend_slice list option" where
  "trendSlices ids from to maxRows =
     (if ids = [] \<or> to < from then Some []
      else
        let marks = max 1 (hourMarks from to);
            perRequest = min (length ids) (max TREND_MIN_ITEMS (nat (int maxRows div marks)));
            windowHours = max 1 (int maxRows div int perRequest) in
        Option.bind
          (if marks \<le> windowHours then Some [(from, to)]
           else window_loop windowHours to from (ceil_div from 3600 * 3600 + windowHours * 3600))
          (\<lambda>windows. Option.bind (chunk ids perRequest)
             (\<lambda>chunks. Some (concat (map (\<lambda>w. map (\<lambda>c. \<lparr>itemids = c, slice_from = fst w, slice_to = snd w\<rparr>) chunks) windows)))))"

text \<open>The chunks of a list, as the loop produces them when it ends.\<close>

fun chunks_of :: "nat \<Rightarrow> 'a list \<Rightarrow> 'a list list" where
  "chunks_of n [] = []"
| "chunks_of n (x # xs) = (x # take n xs) # chunks_of n (drop n xs)"

lemma chunk_loop_eq: "chunk_loop items (Suc n) i = Some (chunks_of n (drop i items))"
proof (induction "length items - i" arbitrary: i rule: less_induct)
  case less
  show ?case
  proof (cases "i < length items")
    case True
    then obtain x xs where d: "drop i items = x # xs" by (cases "drop i items") auto
    have "chunk_loop items (Suc n) (i + Suc n) = Some (chunks_of n (drop (i + Suc n) items))"
      using True by (intro less) simp
    moreover have "drop (i + Suc n) items = drop n xs" using d by (metis add.commute drop_Suc_Cons drop_drop)
    ultimately show ?thesis using True d by (subst chunk_loop.simps) simp
  next
    case False
    then show ?thesis by (subst chunk_loop.simps) simp
  qed
qed

lemma chunk_eq: "0 < n \<Longrightarrow> chunk items n = Some (chunks_of (n - 1) items)"
  using chunk_loop_eq [of items "n - 1" 0] by (simp add: chunk_def)

lemma chunks_of_props:
  "concat (chunks_of n xs) = xs \<and> (\<forall>c \<in> set (chunks_of n xs). c \<noteq> [] \<and> length c \<le> Suc n)"
  by (induction n xs rule: chunks_of.induct) auto

lemma chunks_of_unique: "distinct xs \<Longrightarrow> x \<in> set xs \<Longrightarrow> length (filter (\<lambda>c. x \<in> set c) (chunks_of n xs)) = 1"
proof (induction n xs rule: chunks_of.induct)
  case (2 n y ys)
  have u: "set ys = set (take n ys) \<union> set (drop n ys)" "set (take n ys) \<inter> set (drop n ys) = {}"
    using "2.prems" by (metis append_take_drop_id set_append, metis append_take_drop_id distinct.simps(2) distinct_append)
  have none: "x \<notin> set (drop n ys) \<Longrightarrow> filter (\<lambda>c. x \<in> set c) (chunks_of n (drop n ys)) = []"
    using chunks_of_props [of n "drop n ys"] by (auto simp: filter_empty_conv) (metis UN_I set_concat)
  show ?case
  proof (cases "x \<in> set (drop n ys)")
    case True
    then have "x \<noteq> y \<and> x \<notin> set (take n ys)" using u "2.prems" by auto
    then show ?thesis using "2.IH" "2.prems" True by simp
  next
    case False
    then have "x = y \<or> x \<in> set (take n ys)" using u "2.prems" by auto
    then show ?thesis using none [OF False] by auto
  qed
qed simp

lemma hourMarks_within: "e < (ceil_div s 3600 + w) * 3600 \<Longrightarrow> 0 \<le> w \<Longrightarrow> hourMarks s e \<le> w"
  using int_le_div_iff [of 3600 "ceil_div s 3600 + w" e] by (auto simp: hourMarks_def)

lemma ceil_div_multiple: "ceil_div (k * 3600) 3600 = k"
  by (simp add: ceil_div_def flip: minus_mult_left)

lemma window_loop_spec:
  assumes "1 \<le> w" "mark = (ceil_div start 3600 + w) * 3600"
  shows "\<exists>ws. window_loop w to start mark = Some ws \<and>
    (\<forall>t. start \<le> t \<and> t \<le> to \<longrightarrow> length (filter (\<lambda>x. fst x \<le> t \<and> t \<le> snd x) ws) = 1) \<and>
    (\<forall>x \<in> set ws. start \<le> fst x \<and> fst x \<le> snd x \<and> snd x \<le> to \<and> hourMarks (fst x) (snd x) \<le> w)"
  using assms
proof (induction "nat (to + 1 - start)" arbitrary: start mark rule: less_induct)
  case less
  note unfold = window_loop.simps [of w to start mark]
  show ?case
  proof (cases "start \<le> to")
    case False
    then show ?thesis using unfold by simp
  next
    case True
    have lt: "start < mark" using less.prems ceil_div_lower [of 3600 start] by (simp add: algebra_simps)
    have mark': "mark + w * 3600 = (ceil_div mark 3600 + w) * 3600"
      unfolding less.prems(2) ceil_div_multiple by (simp add: algebra_simps)
    obtain ws where ws: "window_loop w to mark (mark + w * 3600) = Some ws"
      and one: "\<forall>t. mark \<le> t \<and> t \<le> to \<longrightarrow> length (filter (\<lambda>x. fst x \<le> t \<and> t \<le> snd x) ws) = 1"
      and sub: "\<forall>x \<in> set ws. mark \<le> fst x \<and> fst x \<le> snd x \<and> snd x \<le> to \<and> hourMarks (fst x) (snd x) \<le> w"
      using less.hyps [OF _ less.prems(1) mark'] lt True by auto
    let ?x = "(start, min to (mark - 1))"
    have "hourMarks start (min to (mark - 1)) \<le> w"
      using less.prems by (intro hourMarks_within) auto
    moreover have "length (filter (\<lambda>x. fst x \<le> t \<and> t \<le> snd x) (?x # ws)) = 1" if t: "start \<le> t" "t \<le> to" for t
    proof (cases "mark \<le> t")
      case True
      then show ?thesis using one t by simp
    next
      case False
      then have "filter (\<lambda>x. fst x \<le> t \<and> t \<le> snd x) ws = []" using sub by (auto simp: filter_empty_conv)
      then show ?thesis using False t by simp
    qed
    ultimately show ?thesis using unfold ws sub lt True by (auto simp: min_le_iff_disj)
  qed
qed

definition slice_has :: "string \<Rightarrow> int \<Rightarrow> trend_slice \<Rightarrow> bool" where
  "slice_has i t s \<longleftrightarrow> i \<in> set (itemids s) \<and> slice_from s \<le> t \<and> t \<le> slice_to s"

definition slices_of :: "(int \<times> int) list \<Rightarrow> string list list \<Rightarrow> trend_slice list" where
  "slices_of ws cs = concat (map (\<lambda>w. map (\<lambda>c. \<lparr>itemids = c, slice_from = fst w, slice_to = snd w\<rparr>) cs) ws)"

lemma count_slices: "length (filter (slice_has i t) (slices_of ws cs)) =
  length (filter (\<lambda>x. fst x \<le> t \<and> t \<le> snd x) ws) * length (filter (\<lambda>c. i \<in> set c) cs)"
proof (induction ws)
  case Nil
  then show ?case by (simp add: slices_of_def)
next
  case (Cons w ws)
  have "filter (slice_has i t) (map (\<lambda>c. \<lparr>itemids = c, slice_from = fst w, slice_to = snd w\<rparr>) cs) =
      (if fst w \<le> t \<and> t \<le> snd w then map (\<lambda>c. \<lparr>itemids = c, slice_from = fst w, slice_to = snd w\<rparr>) (filter (\<lambda>c. i \<in> set c) cs) else [])"
    by (auto simp: filter_map o_def slice_has_def)
  then show ?case using Cons by (auto simp: slices_of_def)
qed

lemma trendSlices_spec:
  assumes "ids \<noteq> []" "from \<le> to" "35 \<le> maxRows"
  shows "\<exists>ws n. trendSlices ids from to maxRows = Some (slices_of ws (chunks_of n ids)) \<and>
    (\<forall>t. from \<le> t \<and> t \<le> to \<longrightarrow> length (filter (\<lambda>x. fst x \<le> t \<and> t \<le> snd x) ws) = 1) \<and>
    (\<forall>x \<in> set ws. from \<le> fst x \<and> snd x \<le> to \<and> int (Suc n) * hourMarks (fst x) (snd x) \<le> int maxRows)"
proof -
  define marks where "marks = max 1 (hourMarks from to)"
  define per where "per = min (length ids) (max TREND_MIN_ITEMS (nat (int maxRows div marks)))"
  define w where "w = max 1 (int maxRows div int per)"
  have "int maxRows div marks \<le> int maxRows" using zdiv_mono2 [of "int maxRows" 1 marks] by (simp add: marks_def)
  then have per: "1 \<le> per" "per \<le> maxRows" using assms
    by (cases ids; auto simp: per_def TREND_MIN_ITEMS_def min_def max_def nat_le_iff)+
  have w: "w = int maxRows div int per" "1 \<le> w"
    using per int_le_div_iff [of "int per" 1 "int maxRows"] unfolding w_def by linarith+
  have per_w: "int per * h \<le> int maxRows" if "h \<le> w" for h
    using int_le_div_iff [of "int per" h "int maxRows"] that w per by (simp add: mult.commute)
  obtain ws where ws: "(if marks \<le> w then Some [(from, to)]
        else window_loop w to from (ceil_div from 3600 * 3600 + w * 3600)) = Some ws"
    and one: "\<forall>t. from \<le> t \<and> t \<le> to \<longrightarrow> length (filter (\<lambda>x. fst x \<le> t \<and> t \<le> snd x) ws) = 1"
    and sub: "\<forall>x \<in> set ws. from \<le> fst x \<and> snd x \<le> to \<and> hourMarks (fst x) (snd x) \<le> w"
  proof (cases "marks \<le> w")
    case True
    then show ?thesis using that [of "[(from, to)]"] by (simp add: marks_def)
  next
    case False
    then show ?thesis using that window_loop_spec [OF w(2) refl, of to "from"] by (auto simp: distrib_right)
  qed
  have "trendSlices ids from to maxRows = Some (slices_of ws (chunks_of (per - 1) ids))"
    using assms per ws chunk_eq [of per ids]
    by (cases "marks \<le> w") (auto simp: trendSlices_def Let_def slices_of_def simp flip: marks_def per_def w_def)
  moreover have "int (Suc (per - 1)) = int per" using per by simp
  ultimately show ?thesis using one sub per_w by (intro exI [of _ ws] exI [of _ "per - 1"]) simp
qed

subsection \<open>\<open>mapLimit\<close>: a pool of workers over a shared index\<close>

text \<open>
  Each worker repeats: read and advance the shared \<open>next\<close>, await \<open>fn\<close>, store the result; it stops
  when \<open>next\<close> is past the end. The two halves of a turn are separate steps, since other workers run
  while one awaits; which request finishes first is not determined. A rejected \<open>fn\<close> ends its worker
  and rejects the whole call; the other workers go on.
\<close>

datatype 'err worker = Ready | Busy nat | Stopped | Failed 'err

record ('o, 'err) pool =
  next_index :: nat
  out :: "'o option list"
  workers :: "'err worker list"

definition pool_start :: "'i list \<Rightarrow> nat \<Rightarrow> ('o, 'err) pool" where
  "pool_start items cap =
     \<lparr>next_index = 0, out = replicate (length items) None,
      workers = replicate (max 1 (min cap (length items))) Ready\<rparr>"

inductive pool_step :: "('i \<Rightarrow> nat \<Rightarrow> 'err + 'o) \<Rightarrow> 'i list \<Rightarrow> ('o, 'err) pool \<Rightarrow> ('o, 'err) pool \<Rightarrow> bool"
  for fn :: "'i \<Rightarrow> nat \<Rightarrow> 'err + 'o" and items :: "'i list" where
  take_item: "w < length (workers p) \<Longrightarrow> workers p ! w = Ready \<Longrightarrow> next_index p < length items \<Longrightarrow>
     pool_step fn items p (p\<lparr>next_index := Suc (next_index p), workers := (workers p)[w := Busy (next_index p)]\<rparr>)"
| stop: "w < length (workers p) \<Longrightarrow> workers p ! w = Ready \<Longrightarrow> \<not> next_index p < length items \<Longrightarrow>
     pool_step fn items p (p\<lparr>workers := (workers p)[w := Stopped]\<rparr>)"
| finish: "w < length (workers p) \<Longrightarrow> workers p ! w = Busy i \<Longrightarrow> fn (items ! i) i = Inr r \<Longrightarrow>
     pool_step fn items p (p\<lparr>out := (out p)[i := Some r], workers := (workers p)[w := Ready]\<rparr>)"
| fail: "w < length (workers p) \<Longrightarrow> workers p ! w = Busy i \<Longrightarrow> fn (items ! i) i = Inl e \<Longrightarrow>
     pool_step fn items p (p\<lparr>workers := (workers p)[w := Failed e]\<rparr>)"

inductive pool_reach :: "('i \<Rightarrow> nat \<Rightarrow> 'err + 'o) \<Rightarrow> 'i list \<Rightarrow> nat \<Rightarrow> ('o, 'err) pool \<Rightarrow> bool"
  for fn :: "'i \<Rightarrow> nat \<Rightarrow> 'err + 'o" and items :: "'i list" and cap :: nat where
  pool_init: "pool_reach fn items cap (pool_start items cap)"
| pool_next: "pool_reach fn items cap p \<Longrightarrow> pool_step fn items p q \<Longrightarrow> pool_reach fn items cap q"

inductive_cases pool_stepE: "pool_step fn items p q"

text \<open>
  The invariant: an index below \<open>next\<close> is being worked on, has its result stored, or failed; nothing
  is stored elsewhere, and stored results are the ones \<open>fn\<close> returned for that very item.
\<close>

definition pool_inv :: "('i \<Rightarrow> nat \<Rightarrow> 'err + 'o) \<Rightarrow> 'i list \<Rightarrow> nat \<Rightarrow> ('o, 'err) pool \<Rightarrow> bool" where
  "pool_inv fn items cap p \<longleftrightarrow>
     length (out p) = length items \<and> next_index p \<le> length items \<and>
     length (workers p) = max 1 (min cap (length items)) \<and>
     (\<forall>i r. i < length items \<longrightarrow> out p ! i = Some r \<longrightarrow> i < next_index p \<and> fn (items ! i) i = Inr r) \<and>
     (\<forall>i < next_index p. out p ! i \<noteq> None \<or> Busy i \<in> set (workers p) \<or> (\<exists>e. fn (items ! i) i = Inl e \<and> Failed e \<in> set (workers p))) \<and>
     (\<forall>w i. w < length (workers p) \<longrightarrow> workers p ! w = Busy i \<longrightarrow> i < next_index p \<and> out p ! i = None) \<and>
     (\<forall>v w i. v < length (workers p) \<longrightarrow> w < length (workers p) \<longrightarrow> workers p ! v = Busy i \<longrightarrow> workers p ! w = Busy i \<longrightarrow> v = w) \<and>
     (\<forall>w. w < length (workers p) \<longrightarrow> workers p ! w = Stopped \<longrightarrow> next_index p = length items)"

lemma set_update_keep: "x \<in> set ws \<Longrightarrow> x \<noteq> ws ! w \<Longrightarrow> x \<in> set (ws[w := y])"
  by (metis in_set_conv_nth length_list_update nth_list_update_neq)

lemma accounted_keep:
  assumes acc: "\<forall>i < n. O1 i \<or> Busy i \<in> set ws \<or> (\<exists>e. F i e \<and> Failed e \<in> set ws)" and w: "ws ! w = Ready"
  shows "\<forall>i < n. O1 i \<or> Busy i \<in> set (ws[w := y]) \<or> (\<exists>e. F i e \<and> Failed e \<in> set (ws[w := y]))"
proof (intro allI impI)
  fix i assume i: "i < n"
  have keep: "Busy i \<in> set ws \<Longrightarrow> Busy i \<in> set (ws[w := y])" "\<And>e. Failed e \<in> set ws \<Longrightarrow> Failed e \<in> set (ws[w := y])"
    using w by (simp_all add: set_update_keep)
  then show "O1 i \<or> Busy i \<in> set (ws[w := y]) \<or> (\<exists>e. F i e \<and> Failed e \<in> set (ws[w := y]))"
    using acc i by blast
qed

lemma pool_inv_init: "pool_inv fn items cap (pool_start items cap)"
  by (auto simp: pool_inv_def pool_start_def)

lemma pool_invD:
  assumes "pool_inv fn items cap p"
  shows "length (out p) = length items" and "next_index p \<le> length items"
    and "length (workers p) = max 1 (min cap (length items))"
    and "\<And>i r. i < length items \<Longrightarrow> out p ! i = Some r \<Longrightarrow> i < next_index p \<and> fn (items ! i) i = Inr r"
    and "\<forall>i < next_index p. out p ! i \<noteq> None \<or> Busy i \<in> set (workers p) \<or> (\<exists>e. fn (items ! i) i = Inl e \<and> Failed e \<in> set (workers p))"
    and "\<And>v i. v < length (workers p) \<Longrightarrow> workers p ! v = Busy i \<Longrightarrow> i < next_index p \<and> out p ! i = None"
    and "\<And>u v i. u < length (workers p) \<Longrightarrow> v < length (workers p) \<Longrightarrow> workers p ! u = Busy i \<Longrightarrow> workers p ! v = Busy i \<Longrightarrow> u = v"
    and "\<And>v. v < length (workers p) \<Longrightarrow> workers p ! v = Stopped \<Longrightarrow> next_index p = length items"
  using assms unfolding pool_inv_def by blast+

lemma pool_invI:
  assumes "length (out p) = length items" and "next_index p \<le> length items"
    and "length (workers p) = max 1 (min cap (length items))"
    and "\<And>i r. i < length items \<Longrightarrow> out p ! i = Some r \<Longrightarrow> i < next_index p \<and> fn (items ! i) i = Inr r"
    and "\<forall>i < next_index p. out p ! i \<noteq> None \<or> Busy i \<in> set (workers p) \<or> (\<exists>e. fn (items ! i) i = Inl e \<and> Failed e \<in> set (workers p))"
    and "\<And>v i. v < length (workers p) \<Longrightarrow> workers p ! v = Busy i \<Longrightarrow> i < next_index p \<and> out p ! i = None"
    and "\<And>u v i. u < length (workers p) \<Longrightarrow> v < length (workers p) \<Longrightarrow> workers p ! u = Busy i \<Longrightarrow> workers p ! v = Busy i \<Longrightarrow> u = v"
    and "\<And>v. v < length (workers p) \<Longrightarrow> workers p ! v = Stopped \<Longrightarrow> next_index p = length items"
  shows "pool_inv fn items cap p"
  using assms unfolding pool_inv_def by blast

lemma pool_inv_step: "pool_step fn items p q \<Longrightarrow> pool_inv fn items cap p \<Longrightarrow> pool_inv fn items cap q"
proof (induction rule: pool_step.induct)
  case (take_item w p)
  note inv = pool_invD [OF take_item(4)]
  have none: "out p ! next_index p = None"
    using inv(4) [OF take_item(3)] by (metis less_irrefl not_None_eq)
  note acc = accounted_keep [OF inv(5) take_item(2), of "Busy (next_index p)"]
  let ?q = "p\<lparr>next_index := Suc (next_index p), workers := (workers p)[w := Busy (next_index p)]\<rparr>"
  show ?case
  proof (rule pool_invI)
    show "\<forall>i < next_index ?q. out ?q ! i \<noteq> None \<or> Busy i \<in> set (workers ?q) \<or> (\<exists>e. fn (items ! i) i = Inl e \<and> Failed e \<in> set (workers ?q))"
      using acc take_item(1) by (simp add: less_Suc_eq set_update_memI)
    show "i < next_index ?q \<and> fn (items ! i) i = Inr r" if "i < length items" "out ?q ! i = Some r" for i r
      using inv(4) [of i r] that by simp
    show "i < next_index ?q \<and> out ?q ! i = None" if "v < length (workers ?q)" "workers ?q ! v = Busy i" for v i
      using that inv(6) [of v i] none take_item(1) by (cases "v = w") auto
    show "u = v" if "u < length (workers ?q)" "v < length (workers ?q)" "workers ?q ! u = Busy i" "workers ?q ! v = Busy i" for u v i
      using that inv(7) [of u v i] inv(6) [of u i] inv(6) [of v i] take_item(1)
      by (cases "u = w"; cases "v = w") auto
    show "next_index ?q = length items" if "v < length (workers ?q)" "workers ?q ! v = Stopped" for v
      using that inv(8) [of v] take_item(1,3) by (cases "v = w") auto
  qed (use inv(1,3) take_item(3) in simp_all)
next
  case (stop w p)
  note inv = pool_invD [OF stop(4)]
  note acc = accounted_keep [OF inv(5) stop(2), of Stopped]
  let ?q = "p\<lparr>workers := (workers p)[w := Stopped]\<rparr>"
  show ?case
  proof (rule pool_invI)
    show "i < next_index ?q \<and> out ?q ! i = None" if "v < length (workers ?q)" "workers ?q ! v = Busy i" for v i
      using that inv(6) [of v i] stop(1) by (cases "v = w") auto
    show "u = v" if "u < length (workers ?q)" "v < length (workers ?q)" "workers ?q ! u = Busy i" "workers ?q ! v = Busy i" for u v i
      using that inv(7) [of u v i] stop(1) by (cases "u = w"; cases "v = w") auto
    show "i < next_index ?q \<and> fn (items ! i) i = Inr r" if "i < length items" "out ?q ! i = Some r" for i r
      using inv(4) [of i r] that by simp
    show "\<forall>i < next_index ?q. out ?q ! i \<noteq> None \<or> Busy i \<in> set (workers ?q) \<or> (\<exists>e. fn (items ! i) i = Inl e \<and> Failed e \<in> set (workers ?q))"
      using acc by simp
  qed (use inv(1-3) stop(3) in simp_all)
next
  case (finish w p i r)
  note inv = pool_invD [OF finish(4)]
  have i: "i < next_index p" "i < length items" using inv(2) inv(6) [OF finish(1,2)] by auto
  have acc: "out p ! j \<noteq> None \<or> Busy j \<in> set ((workers p)[w := Ready]) \<or>
      (\<exists>e. fn (items ! j) j = Inl e \<and> Failed e \<in> set ((workers p)[w := Ready]))"
    if "j < next_index p" "j \<noteq> i" for j
    using inv(5) that finish(2) set_update_keep [of "Busy j" "workers p" w Ready]
      set_update_keep [of "Failed _" "workers p" w Ready] by (metis worker.distinct(9) worker.inject(1))
  let ?q = "p\<lparr>out := (out p)[i := Some r], workers := (workers p)[w := Ready]\<rparr>"
  show ?case
  proof (rule pool_invI)
    show "j < next_index ?q \<and> out ?q ! j = None" if "v < length (workers ?q)" "workers ?q ! v = Busy j" for v j
      using that inv(6) [of v j] inv(7) [of v w j] finish(1,2) by (cases "v = w"; cases "i = j") auto
    show "u = v" if "u < length (workers ?q)" "v < length (workers ?q)" "workers ?q ! u = Busy j" "workers ?q ! v = Busy j" for u v j
      using that inv(7) [of u v j] finish(1) by (cases "u = w"; cases "v = w") auto
    show "j < next_index ?q \<and> fn (items ! j) j = Inr r'" if "j < length items" "out ?q ! j = Some r'" for j r'
      using inv(1) inv(4) [of j r'] that i finish(3) by (cases "j = i") auto
    show "\<forall>j < next_index ?q. out ?q ! j \<noteq> None \<or> Busy j \<in> set (workers ?q) \<or> (\<exists>e. fn (items ! j) j = Inl e \<and> Failed e \<in> set (workers ?q))"
      using acc inv(1) i by (auto simp: nth_list_update)
    show "next_index ?q = length items" if "v < length (workers ?q)" "workers ?q ! v = Stopped" for v
      using that inv(8) [of v] finish(1) by (cases "v = w") auto
  qed (use inv(1-3) in simp_all)
next
  case (fail w p i e)
  note inv = pool_invD [OF fail(4)]
  have acc: "out p ! j \<noteq> None \<or> Busy j \<in> set ((workers p)[w := Failed e]) \<or>
      (\<exists>e'. fn (items ! j) j = Inl e' \<and> Failed e' \<in> set ((workers p)[w := Failed e]))"
    if "j < next_index p" for j
    using inv(5) that fail(1-3) set_update_keep [of "Busy j" "workers p" w "Failed e"] set_update_memI [of w "workers p" "Failed e"]
      set_update_keep [of "Failed _" "workers p" w "Failed e"] by (metis worker.distinct(9) worker.inject(1))
  let ?q = "p\<lparr>workers := (workers p)[w := Failed e]\<rparr>"
  show ?case
  proof (rule pool_invI)
    show "i < next_index ?q \<and> out ?q ! i = None" if "v < length (workers ?q)" "workers ?q ! v = Busy i" for v i
      using that inv(6) [of v i] fail(1) by (cases "v = w") auto
    show "u = v" if "u < length (workers ?q)" "v < length (workers ?q)" "workers ?q ! u = Busy i" "workers ?q ! v = Busy i" for u v i
      using that inv(7) [of u v i] fail(1) by (cases "u = w"; cases "v = w") auto
    show "i < next_index ?q \<and> fn (items ! i) i = Inr r" if "i < length items" "out ?q ! i = Some r" for i r
      using inv(4) [of i r] that by simp
    show "\<forall>i < next_index ?q. out ?q ! i \<noteq> None \<or> Busy i \<in> set (workers ?q) \<or> (\<exists>e. fn (items ! i) i = Inl e \<and> Failed e \<in> set (workers ?q))"
      using acc by simp
    show "next_index ?q = length items" if "v < length (workers ?q)" "workers ?q ! v = Stopped" for v
      using that inv(8) [of v] fail(1) by (cases "v = w") auto
  qed (use inv(1-3) in simp_all)
qed

lemma pool_reach_inv: "pool_reach fn items cap p \<Longrightarrow> pool_inv fn items cap p"
  by (induction rule: pool_reach.induct) (auto intro: pool_inv_init pool_inv_step)

text \<open>Every step uses up work, so a run is finite; while a worker is ready or busy, some step is possible.\<close>

fun worker_weight :: "'err worker \<Rightarrow> nat" where
  "worker_weight Ready = 1"
| "worker_weight (Busy i) = 2"
| "worker_weight Stopped = 0"
| "worker_weight (Failed e) = 0"

definition pool_work :: "'i list \<Rightarrow> ('o, 'err) pool \<Rightarrow> nat" where
  "pool_work items p = 2 * (length items - next_index p) + sum_list (map worker_weight (workers p))"

lemma sum_list_worker_update:
  "w < length ws \<Longrightarrow> sum_list (map worker_weight (ws[w := x])) + worker_weight (ws ! w) = sum_list (map worker_weight ws) + worker_weight x"
proof (induction ws arbitrary: w)
  case (Cons a ws)
  then show ?case by (cases w) auto
qed simp

lemma pool_work_decreases: "pool_step fn items p q \<Longrightarrow> pool_work items q < pool_work items p"
proof (induction rule: pool_step.induct)
  case (take_item w p)
  then show ?case using sum_list_worker_update [OF take_item(1), of "Busy (next_index p)"] by (simp add: pool_work_def)
next
  case (stop w p)
  then show ?case using sum_list_worker_update [OF stop(1), of Stopped] by (simp add: pool_work_def)
next
  case (finish w p i r)
  then show ?case using sum_list_worker_update [OF finish(1), of Ready] by (simp add: pool_work_def)
next
  case (fail w p i e)
  then show ?case using sum_list_worker_update [OF fail(1), of "Failed e"] by (simp add: pool_work_def)
qed

lemma pool_progress:
  assumes inv: "pool_inv fn items cap p" and v: "v \<in> set (workers p)" "worker_weight v \<noteq> 0"
  shows "\<exists>q. pool_step fn items p q"
proof -
  obtain w where w: "w < length (workers p)" "workers p ! w = v" using v(1) by (auto simp: in_set_conv_nth)
  show ?thesis
  proof (cases v)
    case Ready
    then show ?thesis using w take_item [of w p items fn] stop [of w p items fn] by blast
  next
    case (Busy i)
    then show ?thesis using w finish [of w p i fn items] fail [of w p i fn items]
      by (cases "fn (items ! i) i") blast+
  qed (use v(2) in auto)
qed

subsection \<open>\<open>fetchTrendsSliced\<close>\<close>

text \<open>
  The requests of all slices, in the order of the slices (\<open>mapLimit\<close> gives the results in input
  order whatever order they arrive in, as proved above). When requests fail the call fails with one of
  their errors: here the one of the first slice.
\<close>

definition fetchTrendsSliced ::
    "(string list \<Rightarrow> int \<Rightarrow> int \<Rightarrow> api_error + 'r list) \<Rightarrow> string list \<Rightarrow> int \<Rightarrow> int \<Rightarrow> nat \<Rightarrow> (api_error + 'r list) option" where
  "fetchTrendsSliced zbx ids from to maxRows =
     Option.bind (trendSlices ids from to maxRows) (\<lambda>slices.
       Some (case all_or_error (map (\<lambda>s. zbx (itemids s) (slice_from s) (slice_to s)) slices) of
               Inl e \<Rightarrow> Inl e | Inr parts \<Rightarrow> Inr (concat parts)))"

text \<open>Zabbix's \<open>trend.get\<close>: the stored rows of the items, clocked inside the closed window.\<close>

definition trend_store :: "('r \<Rightarrow> string) \<Rightarrow> ('r \<Rightarrow> int) \<Rightarrow> 'r list \<Rightarrow> string list \<Rightarrow> int \<Rightarrow> int \<Rightarrow> api_error + 'r list" where
  "trend_store item clock stored ids from to = Inr (filter (\<lambda>r. item r \<in> set ids \<and> from \<le> clock r \<and> clock r \<le> to) stored)"

lemma count_concat_filters:
  "count (mset (concat (map (\<lambda>s. filter (P s) stored) ss))) x = length (filter (\<lambda>s. P s x) ss) * count (mset stored) x"
  by (induction ss) (auto simp: mset_filter)

subsection \<open>Properties\<close>



text \<open>
  The trend requests cover the window exactly and stay within the row budget: slicing returns,
  every item is asked for every second of the window in exactly one request, and no request can
  return more than \<open>maxRows\<close> rows (items times hour marks). So the rows fetched are exactly the
  stored rows of the items in the window, each as often as it is stored.
\<close>

theorem trend_slices_cover_once:
  assumes "distinct ids" "ids \<noteq> []" "from \<le> to" "35 \<le> maxRows"
  shows "\<exists>slices rows. trendSlices ids from to maxRows = Some slices \<and>
    (\<forall>i \<in> set ids. \<forall>t. from \<le> t \<and> t \<le> to \<longrightarrow> length (filter (slice_has i t) slices) = 1) \<and>
    (\<forall>s \<in> set slices. int (length (itemids s)) * hourMarks (slice_from s) (slice_to s) \<le> int maxRows) \<and>
    fetchTrendsSliced (trend_store item clock stored) ids from to maxRows = Some (Inr rows) \<and>
    mset rows = mset (filter (\<lambda>r. item r \<in> set ids \<and> from \<le> clock r \<and> clock r \<le> to) stored)"
proof -
  obtain ws n where sl: "trendSlices ids from to maxRows = Some (slices_of ws (chunks_of n ids))"
    and one: "\<forall>t. from \<le> t \<and> t \<le> to \<longrightarrow> length (filter (\<lambda>x. fst x \<le> t \<and> t \<le> snd x) ws) = 1"
    and sub: "\<forall>x \<in> set ws. from \<le> fst x \<and> snd x \<le> to \<and> int (Suc n) * hourMarks (fst x) (snd x) \<le> int maxRows"
    using trendSlices_spec [OF assms(2-4)] by blast
  let ?slices = "slices_of ws (chunks_of n ids)"
  have inside: "slice_has i t s \<Longrightarrow> s \<in> set ?slices \<Longrightarrow> i \<in> set ids \<and> from \<le> t \<and> t \<le> to" for i t s
  proof -
    assume h: "slice_has i t s" "s \<in> set ?slices"
    then obtain w c where "w \<in> set ws" "c \<in> set (chunks_of n ids)" "i \<in> set c" "fst w \<le> t" "t \<le> snd w"
      by (auto simp: slice_has_def slices_of_def)
    moreover have "set c \<subseteq> set ids" if "c \<in> set (chunks_of n ids)" for c
      using chunks_of_props [of n ids] that by (metis UN_upper set_concat)
    ultimately show ?thesis using sub by fastforce
  qed
  have cover: "length (filter (slice_has i t) ?slices) = 1" if "i \<in> set ids" "from \<le> t" "t \<le> to" for i t
    using one chunks_of_unique [OF assms(1) that(1), of n] that(2,3) by (simp add: count_slices)
  have "int (length (itemids s)) * hourMarks (slice_from s) (slice_to s) \<le> int maxRows" if in_slices: "s \<in> set ?slices" for s
  proof -
    obtain w c where s: "w \<in> set ws" "c \<in> set (chunks_of n ids)" "itemids s = c" "slice_from s = fst w" "slice_to s = snd w"
      using in_slices by (auto simp: slices_of_def)
    then have "int (length c) * hourMarks (fst w) (snd w) \<le> int (Suc n) * hourMarks (fst w) (snd w)"
      using chunks_of_props [of n ids] by (intro mult_right_mono) (auto simp: hourMarks_def)
    then show ?thesis using sub s by (auto intro: order_trans)
  qed
  moreover define rows where "rows = concat (map (\<lambda>s. filter (\<lambda>r. slice_has (item r) (clock r) s) stored) ?slices)"
  have "fetchTrendsSliced (trend_store item clock stored) ids from to maxRows = Some (Inr rows)"
    by (simp add: fetchTrendsSliced_def sl trend_store_def all_or_error_Inr rows_def slice_has_def)
  moreover have "mset rows = mset (filter (\<lambda>r. item r \<in> set ids \<and> from \<le> clock r \<and> clock r \<le> to) stored)"
  proof (rule multiset_eqI)
    fix r
    have "\<not> (item r \<in> set ids \<and> from \<le> clock r \<and> clock r \<le> to) \<Longrightarrow> filter (slice_has (item r) (clock r)) ?slices = []"
      using inside by (auto simp: filter_empty_conv)
    then show "count (mset rows) r = count (mset (filter (\<lambda>r. item r \<in> set ids \<and> from \<le> clock r \<and> clock r \<le> to) stored)) r"
      using cover [of "item r" "clock r"] by (auto simp: rows_def count_concat_filters mset_filter)
  qed
  ultimately show ?thesis using sl cover by blast
qed

theorem trend_slices_cover_once_witness:
  "\<exists>slices rows. trendSlices [''1'', ''2''] 0 7200 35 = Some slices \<and>
    (\<forall>i \<in> set [''1'', ''2'']. \<forall>t. 0 \<le> t \<and> t \<le> 7200 \<longrightarrow> length (filter (slice_has i t) slices) = 1) \<and>
    (\<forall>s \<in> set slices. int (length (itemids s)) * hourMarks (slice_from s) (slice_to s) \<le> int 35) \<and>
    fetchTrendsSliced (trend_store fst snd [(''2'', 3600)]) [''1'', ''2''] 0 7200 35 = Some (Inr rows) \<and>
    mset rows = mset (filter (\<lambda>r. fst r \<in> set [''1'', ''2''] \<and> 0 \<le> snd r \<and> snd r \<le> 7200) [(''2'', 3600)])"
  by (rule trend_slices_cover_once) simp_all

text \<open>
  C24. The worker pool: in every reachable state at most the limit (at least one) of requests runs,
  a run uses up its work, some step is possible while a worker is not at its end, and once all
  workers have stopped the results stand in input order, each the result of its own item,
  whatever order the requests finished in.
\<close>

theorem mapLimit_keeps_input_order:
  assumes "pool_reach fn items cap p"
  shows "length (workers p) \<le> max 1 cap \<and>
    (\<forall>q. pool_step fn items p q \<longrightarrow> pool_work items q < pool_work items p) \<and>
    ((\<exists>v \<in> set (workers p). v = Ready \<or> (\<exists>i. v = Busy i)) \<longrightarrow> (\<exists>q. pool_step fn items p q)) \<and>
    ((\<forall>v \<in> set (workers p). v = Stopped) \<longrightarrow>
       (\<exists>rs. out p = map Some rs \<and> length rs = length items \<and> (\<forall>i < length items. fn (items ! i) i = Inr (rs ! i))))"
proof -
  have inv: "pool_inv fn items cap p" by (rule pool_reach_inv [OF assms])
  note I = pool_invD [OF inv]
  have "\<exists>rs. out p = map Some rs \<and> length rs = length items \<and> (\<forall>i < length items. fn (items ! i) i = Inr (rs ! i))"
    if st: "\<forall>v \<in> set (workers p). v = Stopped"
  proof -
    have "workers p \<noteq> []" using I(3) by auto
    then have "next_index p = length items" using I(8) [of 0] st by (auto simp: set_conv_nth)
    then have "\<forall>i < length items. out p ! i \<noteq> None" using I(5) st by auto
    then have "out p = map Some (map the (out p))" using I(1) by (auto simp: list_eq_iff_nth_eq)
    moreover have "\<forall>i < length items. fn (items ! i) i = Inr (map the (out p) ! i)"
      using I(1,4) \<open>\<forall>i < length items. out p ! i \<noteq> None\<close> by auto
    ultimately show ?thesis using I(1) by (intro exI [of _ "map the (out p)"]) simp
  qed
  moreover have "\<exists>q. pool_step fn items p q" if "\<exists>v \<in> set (workers p). v = Ready \<or> (\<exists>i. v = Busy i)"
    using that pool_progress [OF inv] by fastforce
  ultimately show ?thesis using I(3) pool_work_decreases by auto
qed

theorem mapLimit_keeps_input_order_witness:
  "\<exists>p :: (nat, string) pool. pool_reach (\<lambda>x i. Inr (x * 10)) [7 :: nat] 2 p \<and> (\<forall>v \<in> set (workers p). v = Stopped) \<and>
     (\<exists>rs. out p = map Some rs \<and> length rs = 1)"
proof -
  let ?fn = "\<lambda>x i. Inr (x * 10) :: string + nat"
  define p0 :: "(nat, string) pool" where "p0 = pool_start [7 :: nat] 2"
  define p1 where "p1 = p0\<lparr>next_index := 1, workers := [Busy 0]\<rparr>"
  define p2 where "p2 = p1\<lparr>out := [Some 70], workers := [Ready]\<rparr>"
  define p3 where "p3 = p2\<lparr>workers := [Stopped]\<rparr>"
  have "pool_reach ?fn [7 :: nat] 2 p0" unfolding p0_def by (rule pool_init)
  moreover have "pool_step ?fn [7 :: nat] p0 p1"
    using take_item [of 0 p0 "[7]" ?fn] by (simp add: p0_def p1_def pool_start_def)
  moreover have "pool_step ?fn [7 :: nat] p1 p2"
    using finish [of 0 p1 0 ?fn "[7]" 70] by (simp add: p0_def p1_def p2_def pool_start_def)
  moreover have "pool_step ?fn [7 :: nat] p2 p3"
    using stop [of 0 p2 "[7 :: nat]" ?fn] by (simp add: p0_def p1_def p2_def p3_def pool_start_def)
  ultimately have r: "pool_reach ?fn [7 :: nat] 2 p3" by (blast intro: pool_next)
  moreover have "\<forall>v \<in> set (workers p3). v = Stopped" by (simp add: p3_def)
  ultimately show ?thesis using mapLimit_keeps_input_order [OF r] by fastforce
qed

end
