(* ===== verification/Coverage.thy ===== *)
theory Coverage
  imports Replay Slices Calendar
begin

text \<open>
  What the SLA engine reads from Zabbix (\<open>server/src/sli/engine.ts\<close>): the first event of a trigger after
  the window, the hours in which each host's ICMP was collected and the estate-wide gaps, and the
  web scenarios. The Zabbix methods are parameters. The fields the code reads with \<open>Number\<close> where a row
  arrives (clocks, values and counts, which the API documents as numbers) are numbers of the rows here.
\<close>

subsection \<open>\<open>firstEventsAfter\<close>\<close>

record z_event =
  ze_eventid :: string
  ze_objectid :: string
  ze_clock :: int
  ze_value :: int

definition note_first :: "z_event \<Rightarrow> (string, int) table \<Rightarrow> (string, int) table" where
  "note_first e found = (if table_get found (ze_objectid e) = None then table_set (ze_objectid e) (ze_value e) found else found)"

text \<open>\<open>fetch\<close> is \<open>fetchEventsSliced\<close> for the triggers and the span given.\<close>

fun first_events_loop ::
  "(string list \<Rightarrow> int \<Rightarrow> int \<Rightarrow> api_error + z_event list) \<Rightarrow> int list \<Rightarrow> int \<Rightarrow> string list \<Rightarrow> int
     \<Rightarrow> (string, int) table \<Rightarrow> api_error + (string, int) table" where
  "first_events_loop fetch [] now pending start found = Inr found"
| "first_events_loop fetch (dt # spans) now pending start found =
     (if pending = [] \<or> start > now then Inr found
      else
        (let till = min now (start + dt) in
         and_then (fetch pending start till) (\<lambda>events.
           let found' = fold note_first events found in
           first_events_loop fetch spans now (filter (\<lambda>i. table_get found' i = None) pending) (till + 1) found')))"

definition firstEventsAfter ::
  "(string list \<Rightarrow> int \<Rightarrow> int \<Rightarrow> api_error + z_event list) \<Rightarrow> string list \<Rightarrow> int \<Rightarrow> int \<Rightarrow> api_error + (string, int) table" where
  "firstEventsAfter fetch triggerids end now =
     first_events_loop fetch [7 * 86400, 30 * 86400, 120 * 86400, 400 * 86400] now triggerids end []"

subsection \<open>\<open>icmpCoverage\<close>\<close>

record trend_row =
  tw_itemid :: string
  tw_clock :: int
  tw_num :: int
  tw_min :: rat
  tw_max :: rat

definition pick_item :: "icmp_item \<Rightarrow> (string, icmp_item) table \<Rightarrow> (string, icmp_item) table" where
  "pick_item i itemByHost =
     (case table_get itemByHost (it_hostid i) of
        None \<Rightarrow> table_set (it_hostid i) i itemByHost
      | Some prev \<Rightarrow>
          (if it_key prev \<noteq> ''icmpping'' \<and> it_key i = ''icmpping'' then table_set (it_hostid i) i itemByHost else itemByHost))"

definition hosts_items :: "icmp_item list \<Rightarrow> (string, icmp_item) table" where
  "hosts_items icmpItems =
     (let items = filter (\<lambda>i. it_key i = ''icmpping'' \<or> startsWith (it_key i) ''icmpping['') icmpItems;
          itemByHost = fold pick_item items []
      in fold (\<lambda>i. table_set (it_itemid i) i) (map snd itemByHost) [])"

definition add_row :: "trend_row \<Rightarrow> (string, (int \<times> int) list) table \<Rightarrow> (string, (int \<times> int) list) table" where
  "add_row r rowsByItem = table_set (tw_itemid r) (table_list rowsByItem (tw_itemid r) @ [(tw_clock r, tw_num r)]) rowsByItem"

definition last_hour :: "trend_row list \<Rightarrow> int option" where
  "last_hour rows = (if rows = [] then None else Some (Max (set (map tw_clock rows))))"

definition count_sample :: "string \<times> int \<Rightarrow> (string, (int, int) table) table \<Rightarrow> (string, (int, int) table) table" where
  "count_sample r counts =
     (let perHour = table_list counts (fst r); h = hourFloor (snd r);
          n = (case table_get perHour h of Some n \<Rightarrow> n | None \<Rightarrow> 0)
      in table_set (fst r) (table_set h (n + 1) perHour) counts)"

text \<open>The hours of the tail in which an item collected at least half of what its interval promises.\<close>

definition tail_extra :: "int \<Rightarrow> int \<Rightarrow> int \<Rightarrow> (int, int) table \<Rightarrow> interval list" where
  "tail_extra delay tailFrom end perHour =
     map (\<lambda>(h, n). (max h tailFrom, min (h + 3600) end))
       (filter (\<lambda>(h, n). min (h + 3600) end - max h tailFrom > 0 \<and> 2 * (n * delay) \<ge> min (h + 3600) end - max h tailFrom)
         perHour)"

definition tail_step ::
  "(string, (int, int) table) table \<Rightarrow> int \<Rightarrow> int \<Rightarrow> string \<times> icmp_item \<Rightarrow> (string, interval list) table \<Rightarrow> (string, interval list) table" where
  "tail_step counts tailFrom end row byHost =
     (let item = snd row in
      table_set (it_hostid item)
        (mergeIntervals (table_list byHost (it_hostid item) @
           tail_extra (parseDelay (Some (it_delay item))) tailFrom end (table_list counts (fst row)))) byHost)"

text \<open>The loop over the hours of the window: the hour marks from the start's hour on.\<close>

function hours_from :: "int \<Rightarrow> int \<Rightarrow> int list" where
  "hours_from h end = (if h < end then h # hours_from (h + 3600) end else [])"
  by pat_completeness auto
termination
  by (relation "measure (\<lambda>(h, e). nat (e - h))") auto

declare hours_from.simps [simp del]

definition estate_gaps :: "interval list list \<Rightarrow> int \<Rightarrow> int \<Rightarrow> interval list" where
  "estate_gaps active from end =
     (if active = [] then []
      else
        filter (\<lambda>w. 10 * length (filter (\<lambda>iv. totalSeconds (intersectIntervals iv [w]) > 0) active) < length active)
          (map (\<lambda>h. (max h from, min (h + 3600) end)) (hours_from (hourFloor from) end)))"

text \<open>\<open>trends\<close> is \<open>fetchTrendsSliced\<close>, \<open>history\<close> is \<open>history.get\<close> (item and clock per row).\<close>

definition icmpCoverage ::
  "(string list \<Rightarrow> int \<Rightarrow> int \<Rightarrow> api_error + trend_row list) \<Rightarrow> (string list \<Rightarrow> int \<Rightarrow> int \<Rightarrow> api_error + (string \<times> int) list)
     \<Rightarrow> icmp_item list \<Rightarrow> int \<Rightarrow> int \<Rightarrow> interval list \<Rightarrow> api_error + (string, interval list) table \<times> interval list" where
  "icmpCoverage trends history icmpItems from end outside =
     (let hostByItem = hosts_items icmpItems; ids = table_keys hostByItem in
      and_then (trends ids (hourFloor from) end) (\<lambda>rows.
        let rowsByItem = fold add_row rows [];
            byHost = fold (\<lambda>(i, item). table_set (it_hostid item)
                       (coveredFromTrends (table_list rowsByItem i) (parseDelay (Some (it_delay item))) from end)) hostByItem [];
            tailFrom = (case last_hour rows of Some h \<Rightarrow> h + 3600 | None \<Rightarrow> hourFloor end)
        in and_then
             (if tailFrom < end \<and> end - tailFrom \<le> 6 * 3600 \<and> tailFrom \<ge> from
              then and_then (all_or_error (map (\<lambda>c. history c tailFrom end) (the (chunk ids 35)))) (\<lambda>parts.
                     Inr (fold (tail_step (fold count_sample (concat parts) []) tailFrom end) hostByItem byHost))
              else Inr byHost) (\<lambda>filled.
             let inside = map (\<lambda>(h, iv). (h, intersectIntervals iv outside)) filled;
                 active = filter (\<lambda>iv. iv \<noteq> []) (map snd inside)
             in Inr (inside, intersectIntervals (mergeIntervals (estate_gaps active from end)) outside))))"

subsection \<open>\<open>webScenarios\<close>\<close>

record web_item =
  wi_itemid :: string
  wi_name :: string
  wi_key :: string
  wi_delay :: string

record sli_web =
  w_itemid :: string
  w_name :: string
  w_sli :: "rat option"
  w_downtime :: int
  w_coverage :: rat
  w_dataStatus :: data_status

text \<open>The three lists the loop over an item's trend rows fills: covered, down, mixed.\<close>

definition web_row :: "int \<Rightarrow> int \<Rightarrow> interval list \<times> interval list \<times> int list \<Rightarrow> trend_row \<Rightarrow> interval list \<times> interval list \<times> int list" where
  "web_row delay historyFloor st r =
     (case st of (covered, down, mixed) \<Rightarrow>
        let h = tw_clock r in
        if of_int (tw_num r) < 1 / 2 * (3600 / of_int delay :: rat) then (covered, down, mixed)
        else if tw_max r = 0 then (covered @ [(h, h + 3600)], down, mixed)
        else if tw_min r > 0 then (covered @ [(h, h + 3600)], down @ [(h, h + 3600)], mixed)
        else if h \<ge> historyFloor then (covered, down, mixed @ [h])
        else (covered, down, mixed))"

definition strip_quotes :: "string \<Rightarrow> string" where
  "strip_quotes s =
     (let t = (if s \<noteq> [] \<and> hd s = CHR 0x22 then tl s else s) in
      if t \<noteq> [] \<and> last t = CHR 0x22 then butlast t else t)"

definition web_name :: "web_item \<Rightarrow> string" where
  "web_name item =
     (case rx_caps (Seqs [Lit ''['', Cap 1 (Star Any), Lit '']'', End]) (wi_key item) of
        None \<Rightarrow> wi_name item
      | Some c \<Rightarrow> (let n = strip_quotes (cap c 1) in if n \<noteq> [] then n else wi_name item))"

text \<open>\<open>history\<close> gives the rows (clock, value) of an item in a span.\<close>

definition web_scenario ::
  "(string \<Rightarrow> int \<Rightarrow> int \<Rightarrow> api_error + (int \<times> rat) list) \<Rightarrow> trend_row list \<Rightarrow> int \<Rightarrow> int \<Rightarrow> int \<Rightarrow> int
     \<Rightarrow> interval list \<Rightarrow> rat \<Rightarrow> web_item \<Rightarrow> api_error + sli_web" where
  "web_scenario history trends from end now estateSeconds outside minCoverage item =
     (let delay = parseDelay (Some (wi_delay item));
          (covered, down, mixed) = foldl (web_row delay (now - 31 * 86400)) ([], [], [])
             (filter (\<lambda>t. tw_itemid t = wi_itemid item) trends)
      in and_then
           (if mixed = [] then Inr (0, covered)
            else and_then (history (wi_itemid item) (Min (set mixed)) (Max (set mixed) + 3599)) (\<lambda>hist.
              Inr (foldl (\<lambda>n (clock, v).
                     if list_ex (\<lambda>(s, e). clock \<ge> s \<and> clock < e) outside \<and> hourFloor clock \<in> set mixed \<and> v > 0
                     then n + delay else n) 0 hist,
                   covered @ map (\<lambda>h. (h, h + 3600)) mixed))) (\<lambda>(mixedDown, covered).
           let coveredIv = intersectIntervals covered outside;
               coveredSec = totalSeconds coveredIv;
               downtime = min coveredSec (totalSeconds (intersectIntervals down coveredIv) + mixedDown);
               window = end - from;
               coverage = (if window > 0 then of_int coveredSec / of_int window else 0);
               nodata = coveredSec = 0 \<or> coverage < minCoverage
           in Inr \<lparr>w_itemid = wi_itemid item, w_name = web_name item,
                   w_sli = (if nodata then None else Some (100 * (1 - of_int downtime / of_int coveredSec))),
                   w_downtime = downtime, w_coverage = coverage,
                   w_dataStatus = (if nodata then NoData
                     else if of_int coveredSec < 95 / 100 * (of_int estateSeconds :: rat) then Partial else Ok)\<rparr>))"

definition webScenarios ::
  "api_error + string list \<Rightarrow> (string \<Rightarrow> api_error + web_item list) \<Rightarrow> (string list \<Rightarrow> int \<Rightarrow> int \<Rightarrow> api_error + trend_row list)
     \<Rightarrow> (string \<Rightarrow> int \<Rightarrow> int \<Rightarrow> api_error + (int \<times> rat) list) \<Rightarrow> int \<Rightarrow> int \<Rightarrow> int \<Rightarrow> int \<Rightarrow> interval list \<Rightarrow> rat
     \<Rightarrow> api_error + sli_web list" where
  "webScenarios host_get item_get trends history from end now estateSeconds outside minCoverage =
     and_then host_get (\<lambda>hosts.
       case hosts of
         [] \<Rightarrow> Inr []
       | host # _ \<Rightarrow>
           and_then (item_get host) (\<lambda>items.
             if items = [] then Inr []
             else and_then (trends (map wi_itemid items) (hourFloor from) end) (\<lambda>rows.
               all_or_error (map (web_scenario history rows from end now estateSeconds outside minCoverage) items))))"

subsection \<open>The first later event\<close>

definition first_value :: "z_event list \<Rightarrow> string \<Rightarrow> int \<Rightarrow> int \<Rightarrow> int option" where
  "first_value stored i a b = map_option ze_value (find (\<lambda>e. ze_objectid e = i) (events_in ze_clock stored a b))"

text \<open>What \<open>fetchEventsSliced\<close> returns, by its main property, for the events Zabbix stores.\<close>

definition trigger_events :: "z_event list \<Rightarrow> string list \<Rightarrow> int \<Rightarrow> int \<Rightarrow> z_event list" where
  "trigger_events stored ids a b = filter (\<lambda>e. ze_objectid e \<in> set ids) (events_in ze_clock stored a b)"

lemma find_append: "find P (xs @ ys) = (case find P xs of Some x \<Rightarrow> Some x | None \<Rightarrow> find P ys)"
  by (induction xs) auto

lemma find_filter: "(\<And>x. P x \<Longrightarrow> Q x) \<Longrightarrow> find P (filter Q xs) = find P xs"
  by (induction xs) auto

lemma note_firsts:
  "table_get (fold note_first es found) i =
     (case table_get found i of Some v \<Rightarrow> Some v | None \<Rightarrow> map_option ze_value (find (\<lambda>e. ze_objectid e = i) es))"
  by (induction es arbitrary: found) (auto simp: note_first_def update_conv split: option.splits)

lemma first_value_split:
  assumes "sorted (map ze_clock stored)" "a \<le> m + 1" "m \<le> b"
  shows "first_value stored i a b = (case first_value stored i a m of Some v \<Rightarrow> Some v | None \<Rightarrow> first_value stored i (m + 1) b)"
  using events_in_split [OF assms] by (simp add: first_value_def find_append flip: events_in_split [OF assms] split: option.splits)

lemma first_events_loop_found:
  assumes "sorted (map ze_clock stored)" "\<forall>d \<in> set spans. 0 \<le> d"
    and "now < start + sum_list spans" "\<forall>i \<in> set pending. table_get found i = None"
  shows "\<exists>found'. first_events_loop (\<lambda>ids a b. Inr (trigger_events stored ids a b)) spans now pending start found = Inr found' \<and>
     (\<forall>i \<in> set pending. table_get found' i = first_value stored i start now) \<and>
     (\<forall>i v. table_get found i = Some v \<longrightarrow> table_get found' i = Some v)"
  using assms(2-4)
proof (induction spans arbitrary: pending start found)
  case Nil
  then show ?case by (auto simp: first_value_def events_in_def filter_empty_conv)
next
  case (Cons d spans)
  show ?case
  proof (cases "pending = [] \<or> start > now")
    case True
    then show ?thesis using Cons.prems by (auto simp: first_value_def events_in_def filter_empty_conv)
  next
    case False
    define till where "till = min now (start + d)"
    define f2 where "f2 = fold note_first (trigger_events stored pending start till) found"
    define p2 where "p2 = filter (\<lambda>i. table_get f2 i = None) pending"
    have till: "start \<le> till + 1" "till \<le> now" "now < till + 1 + sum_list spans"
      using False Cons.prems sum_list_nonneg [of spans] by (auto simp: till_def)
    have f2: "table_get f2 i = first_value stored i start till" if "i \<in> set pending" for i
    proof -
      have "find (\<lambda>e. ze_objectid e = i) (filter (\<lambda>e. ze_objectid e \<in> set pending) es) = find (\<lambda>e. ze_objectid e = i) es" for es :: "z_event list"
        by (rule find_filter) (use that in auto)
      then show ?thesis using that Cons.prems(3) by (simp add: f2_def note_firsts trigger_events_def first_value_def)
    qed
    have kept: "table_get f2 i = Some v" if "table_get found i = Some v" for i v
      using that by (simp add: f2_def note_firsts)
    obtain f3 where f3: "first_events_loop (\<lambda>ids a b. Inr (trigger_events stored ids a b)) spans now p2 (till + 1) f2 = Inr f3"
        "\<forall>i \<in> set p2. table_get f3 i = first_value stored i (till + 1) now"
        "\<forall>i v. table_get f2 i = Some v \<longrightarrow> table_get f3 i = Some v"
      using Cons.IH [of "till + 1" p2 f2] Cons.prems(1) till(3) by (auto simp: p2_def)
    have "table_get f3 i = first_value stored i start now" if i: "i \<in> set pending" for i
      using f2 [OF i] f3(2,3) i first_value_split [OF assms(1) till(1,2), of i]
      by (cases "first_value stored i start till") (simp_all add: p2_def)
    then show ?thesis using False f3 kept by (simp add: till_def [symmetric] f2_def [symmetric] p2_def [symmetric])
  qed
qed

subsection \<open>Hours, coverage and gaps\<close>

lemma hourFloor_bounds: "hourFloor t \<le> t" "t < hourFloor t + 3600"
  using pos_mod_bound [of 3600 t] pos_mod_sign [of 3600 t] div_mult_mod_eq [of t 3600] by (auto simp: hourFloor_def)

lemma hourFloor_unique: "3600 dvd h \<Longrightarrow> h \<le> t \<Longrightarrow> t < h + 3600 \<Longrightarrow> hourFloor t = h"
proof -
  assume h: "3600 dvd h" "h \<le> t" "t < h + 3600"
  then obtain k where k: "h = 3600 * k" by auto
  have "t div 3600 = k" using h k by (intro int_div_pos_eq [of t 3600 k "t - h"]) auto
  then show ?thesis by (simp add: hourFloor_def k)
qed

lemma hours_from_mem: "3600 dvd h \<Longrightarrow> x \<in> set (hours_from h e) \<longleftrightarrow> 3600 dvd x \<and> h \<le> x \<and> x < e"
proof (induction h e rule: hours_from.induct)
  case (1 h e)
  show ?case
  proof (cases "h < e")
    case True
    have "3600 dvd x \<Longrightarrow> h \<le> x \<Longrightarrow> x \<noteq> h \<Longrightarrow> h + 3600 \<le> x"
      using "1.prems" by (auto elim!: dvdE)
    then show ?thesis using 1 True by (auto simp: hours_from.simps [of h e])
  next
    case False
    then show ?thesis by (auto simp: hours_from.simps [of h e])
  qed
qed

definition quiet_hour :: "interval list list \<Rightarrow> int \<Rightarrow> int \<Rightarrow> int \<Rightarrow> bool" where
  "quiet_hour active from end t \<longleftrightarrow> active \<noteq> [] \<and>
     10 * length (filter (\<lambda>iv. secs iv \<inter> {max (hourFloor t) from..<min (hourFloor t + 3600) end} \<noteq> {}) active) < length active"

lemma totalSeconds_pos: "0 < totalSeconds iv \<longleftrightarrow> secs iv \<noteq> {}"
  by (simp add: totalSeconds_card card_gt_0_iff)

lemma estate_gaps_secs:
  "secs (estate_gaps active from end) = {t. from \<le> t \<and> t < end \<and> quiet_hour active from end t}"
proof (cases "active = []")
  case True
  then show ?thesis by (simp add: estate_gaps_def quiet_hour_def)
next
  case False
  have dvd: "3600 dvd hourFloor x" for x by (simp add: hourFloor_def)
  let ?w = "\<lambda>h. (max h from, min (h + 3600) end)"
  let ?few = "\<lambda>h. 10 * length (filter (\<lambda>iv. secs iv \<inter> {max h from..<min (h + 3600) end} \<noteq> {}) active) < length active"
  have eq: "estate_gaps active from end = map ?w (filter ?few (hours_from (hourFloor from) end))"
    using False by (simp add: estate_gaps_def filter_map o_def totalSeconds_pos)
  have "t \<in> secs (estate_gaps active from end) \<longleftrightarrow> from \<le> t \<and> t < end \<and> ?few (hourFloor t)" for t
  proof
    assume "t \<in> secs (estate_gaps active from end)"
    then obtain h where "3600 dvd h" "?few h" "max h from \<le> t" "t < min (h + 3600) end"
      unfolding eq secs_map by (auto simp: hours_from_mem dvd)
    then show "from \<le> t \<and> t < end \<and> ?few (hourFloor t)" using hourFloor_unique [of h t] by auto
  next
    assume t: "from \<le> t \<and> t < end \<and> ?few (hourFloor t)"
    have "hourFloor from \<le> hourFloor t" using t by (simp add: hourFloor_def zdiv_mono1)
    then have "hourFloor t \<in> set (filter ?few (hours_from (hourFloor from) end))"
      using t hourFloor_bounds [of t] by (auto simp: hours_from_mem dvd)
    then show "t \<in> secs (estate_gaps active from end)"
      unfolding eq secs_map using t hourFloor_bounds [of t] by (intro UN_I [of "hourFloor t"]) auto
  qed
  then show ?thesis using False by (auto simp: quiet_hour_def)
qed

lemma tail_extra_within: "secs (tail_extra d tf e hs) \<subseteq> {tf..<e}"
  by (auto simp: tail_extra_def secs_def)

definition window_ivs :: "int \<Rightarrow> int \<Rightarrow> (string, interval list) table \<Rightarrow> bool" where
  "window_ivs from end t \<longleftrightarrow> (\<forall>h iv. table_get t h = Some iv \<longrightarrow> secs iv \<subseteq> {from..<end})"

lemma window_ivs_covered:
  "window_ivs from end t \<Longrightarrow> window_ivs from end (fold (\<lambda>(i, item). table_set (it_hostid item)
      (coveredFromTrends (table_list rows i) (parseDelay (Some (it_delay item))) from end)) hs t)"
proof (induction hs arbitrary: t)
  case (Cons x hs)
  have "0 < parseDelay d" for d using parseDelay_positive [of d] by simp
  then have "window_ivs from end (table_set (it_hostid (snd x))
      (coveredFromTrends (table_list rows (fst x)) (parseDelay (Some (it_delay (snd x)))) from end) t)"
    using Cons.prems by (auto simp: window_ivs_def update_conv coveredFromTrends_secs)
  then show ?case using Cons.IH by (cases x) simp
qed simp

lemma window_ivs_tail:
  "from \<le> tf \<Longrightarrow> window_ivs from end t \<Longrightarrow> window_ivs from end (fold (tail_step counts tf end) hs t)"
proof (induction hs arbitrary: t)
  case (Cons x hs)
  have "secs (table_list t h) \<subseteq> {from..<end}" for h
    using Cons.prems(2) by (auto simp: window_ivs_def split: option.splits)
  then have "window_ivs from end (tail_step counts tf end x t)"
    using Cons.prems tail_extra_within by (fastforce simp: window_ivs_def tail_step_def Let_def update_conv)
  then show ?case using Cons by simp
qed simp

lemma icmpCoverage_shape:
  assumes "icmpCoverage trends history items from end outside = Inr (byHost, gaps)"
  shows "\<exists>filled. window_ivs from end filled \<and> byHost = map (\<lambda>(h, iv). (h, intersectIntervals iv outside)) filled \<and>
     gaps = intersectIntervals (mergeIntervals (estate_gaps (filter (\<lambda>iv. iv \<noteq> []) (map snd byHost)) from end)) outside"
proof -
  obtain rows where rows: "trends (table_keys (hosts_items items)) (hourFloor from) end = Inr rows"
    using assms by (auto simp: icmpCoverage_def Let_def and_then_Inr)
  define b where "b = fold (\<lambda>(i, item). table_set (it_hostid item)
     (coveredFromTrends (table_list (fold add_row rows []) i) (parseDelay (Some (it_delay item))) from end)) (hosts_items items) []"
  have b: "window_ivs from end b" unfolding b_def by (rule window_ivs_covered) (simp add: window_ivs_def)
  define tf where "tf = (case last_hour rows of Some h \<Rightarrow> h + 3600 | None \<Rightarrow> hourFloor end)"
  obtain filled where filled: "(if tf < end \<and> end - tf \<le> 6 * 3600 \<and> tf \<ge> from
       then and_then (all_or_error (map (\<lambda>c. history c tf end) (the (chunk (table_keys (hosts_items items)) 35)))) (\<lambda>parts.
              Inr (fold (tail_step (fold count_sample (concat parts) []) tf end) (hosts_items items) b))
       else Inr b) = Inr filled"
    and out: "byHost = map (\<lambda>(h, iv). (h, intersectIntervals iv outside)) filled"
      "gaps = intersectIntervals (mergeIntervals (estate_gaps (filter (\<lambda>iv. iv \<noteq> []) (map snd byHost)) from end)) outside"
    using assms unfolding icmpCoverage_def Let_def rows and_then.simps b_def [symmetric] tf_def [symmetric] and_then_Inr
    by blast
  have "window_ivs from end filled"
    using filled b by (auto simp: and_then_Inr intro!: window_ivs_tail split: if_splits)
  then show ?thesis using out by blast
qed

subsection \<open>Properties\<close>

text \<open>
  C23. For a trigger that changed only after the window: the widening search returns, and what it finds
  for each trigger asked for is the value of its first event between the window's end and now, or
  nothing when it has none, provided the window ended at most 557 days ago (the sum of the four
  spans; the report refuses anything before 400 days).
\<close>

theorem first_later_event:
  assumes "sorted (map ze_clock stored)" "now < end + 557 * 86400"
  shows "\<exists>found. firstEventsAfter (\<lambda>ids a b. Inr (filter (\<lambda>e. ze_objectid e \<in> set ids \<and> a \<le> ze_clock e \<and> ze_clock e \<le> b) stored))
       triggerids end now = Inr found \<and>
     (\<forall>i \<in> set triggerids. table_get found i =
        map_option ze_value (find (\<lambda>e. ze_objectid e = i \<and> end \<le> ze_clock e \<and> ze_clock e \<le> now) stored))"
proof -
  have "(\<lambda>ids a b. Inr (filter (\<lambda>e. ze_objectid e \<in> set ids \<and> a \<le> ze_clock e \<and> ze_clock e \<le> b) stored)) =
      (\<lambda>ids a b. Inr (trigger_events stored ids a b) :: api_error + z_event list)"
    by (simp add: trigger_events_def events_in_def conj_ac)
  moreover have "find P (filter Q xs) = find (\<lambda>x. P x \<and> Q x) xs" for P Q and xs :: "z_event list"
    by (induction xs) auto
  then have "first_value stored i end now =
      map_option ze_value (find (\<lambda>e. ze_objectid e = i \<and> end \<le> ze_clock e \<and> ze_clock e \<le> now) stored)" for i
    by (simp add: first_value_def events_in_def)
  ultimately show ?thesis
    using first_events_loop_found [OF assms(1), of "[7 * 86400, 30 * 86400, 120 * 86400, 400 * 86400]" now "end" triggerids "[]"]
      assms(2)
    by (fastforce simp: firstEventsAfter_def)
qed

definition later :: "z_event list" where
  "later = [\<lparr>ze_eventid = ''1'', ze_objectid = ''t'', ze_clock = 50, ze_value = 0\<rparr>,
            \<lparr>ze_eventid = ''2'', ze_objectid = ''t'', ze_clock = 5000000, ze_value = 1\<rparr>,
            \<lparr>ze_eventid = ''3'', ze_objectid = ''t'', ze_clock = 5000010, ze_value = 0\<rparr>]"

lemma first_later_event_witness:
  "\<exists>found. firstEventsAfter (\<lambda>ids a b. Inr (filter (\<lambda>e. ze_objectid e \<in> set ids \<and> a \<le> ze_clock e \<and> ze_clock e \<le> b) later))
       [''t''] 100 9000000 = Inr found \<and> table_get found ''t'' = Some 1"
  using first_later_event [of later 9000000 100 "[''t'']"] by (auto simp: later_def)

text \<open>
  C22. Measured time and gaps. Whatever Zabbix answers: if coverage can be read at all, every host's
  collected time is a normal form inside the window and outside the declared spans, and a second is
  in the estate's gaps exactly when it is inside the window, outside the declared spans, and in its hour
  fewer than a tenth of the hosts that collected anything in the window collected something.
\<close>

theorem coverage_and_gaps:
  assumes "icmpCoverage trends history items from end outside = Inr (byHost, gaps)"
  shows "(\<forall>h iv. table_get byHost h = Some iv \<longrightarrow> nform iv \<and> secs iv \<subseteq> {from..<end} \<inter> secs outside) \<and> nform gaps \<and>
    (let collecting = filter (\<lambda>iv. iv \<noteq> []) (map snd byHost) in
     \<forall>t. t \<in> secs gaps \<longleftrightarrow> from \<le> t \<and> t < end \<and> t \<in> secs outside \<and> collecting \<noteq> [] \<and>
       10 * length (filter (\<lambda>iv. secs iv \<inter> {max (hourFloor t) from..<min (hourFloor t + 3600) end} \<noteq> {}) collecting)
         < length collecting)"
proof -
  obtain filled where f: "window_ivs from end filled" "byHost = map (\<lambda>(h, iv). (h, intersectIntervals iv outside)) filled"
     "gaps = intersectIntervals (mergeIntervals (estate_gaps (filter (\<lambda>iv. iv \<noteq> []) (map snd byHost)) from end)) outside"
    using icmpCoverage_shape [OF assms] by blast
  have get: "table_get byHost h = map_option (\<lambda>iv. intersectIntervals iv outside) (table_get filled h)" for h
    by (simp add: f(2) map_of_map)
  have "nform iv \<and> secs iv \<subseteq> {from..<end} \<inter> secs outside" if "table_get byHost h = Some iv" for h iv
    using that f(1) unfolding get window_ivs_def by fastforce
  then show ?thesis by (auto simp: Let_def f(3) estate_gaps_secs quiet_hour_def)
qed

lemma coverage_and_gaps_witness:
  "\<exists>byHost gaps. icmpCoverage (\<lambda>ids a b. Inr [\<lparr>tw_itemid = ''1'', tw_clock = 3600, tw_num = 60, tw_min = 1, tw_max = 1\<rparr>])
       (\<lambda>ids a b. Inr []) [\<lparr>it_itemid = ''1'', it_hostid = ''7'', it_key = ''icmpping'', it_delay = ''60'', it_state = None, it_lastclock = None\<rparr>]
       0 7200 [(0, 7200)] = Inr (byHost, gaps) \<and> nform gaps"
proof -
  have "\<exists>byHost gaps. icmpCoverage (\<lambda>ids a b. Inr [\<lparr>tw_itemid = ''1'', tw_clock = 3600, tw_num = 60, tw_min = 1, tw_max = 1\<rparr>])
       (\<lambda>ids a b. Inr []) [\<lparr>it_itemid = ''1'', it_hostid = ''7'', it_key = ''icmpping'', it_delay = ''60'', it_state = None, it_lastclock = None\<rparr>]
       0 7200 [(0, 7200)] = Inr (byHost, gaps)"
    by (auto simp: icmpCoverage_def Let_def last_hour_def split: sum.splits)
  then show ?thesis using coverage_and_gaps by blast
qed

end
