(* ===== verification/Maintenance.thy ===== *)
theory Maintenance
  imports Intervals Calendar
begin

text \<open>
  Zabbix maintenance periods as concrete windows (\<open>server/src/sli/maintenance.ts\<close>): which days a
  recurring period starts on, the windows of one maintenance inside a range, and the windows of
  every host. The two Zabbix calls are parameters. The search for occurrences looks at a bounded
  range of days; the main lemma shows that no occurrence outside it reaches the range.
\<close>

subsection \<open>Rows\<close>

record timeperiod =
  timeperiod_type :: string
  every :: "string option"
  month_mask :: "string option"
  dayofweek :: "string option"
  month_day :: "string option"
  start_time :: "string option"
  period :: "string option"
  start_date :: "string option"

text \<open>Absent lists are empty; hosts and groups by their ids.\<close>

record maintenance =
  active_since :: string
  active_till :: string
  timeperiods :: "timeperiod list"
  m_hosts :: "string list"
  m_groups :: "string list"

subsection \<open>Occurrences\<close>

definition startsOn :: "timeperiod \<Rightarrow> int \<Rightarrow> int \<Rightarrow> bool" where
  "startsOn tp n sinceDay =
     (let d = dateOf n;
          ev = max 1 (if num0 (every tp) = 0 then 1 else num0 (every tp));
          dow = num0 (dayofweek tp)
      in if timeperiod_type tp = ''2'' then n \<ge> sinceDay \<and> (n - sinceDay) mod ev = 0
         else if timeperiod_type tp = ''3'' then
           (if \<not> bit dow (nat (mondayIndex (weekday d))) then False
            else (let sinceMonday = sinceDay - mondayIndex (weekday (dateOf sinceDay))
                  in n \<ge> sinceMonday \<and> ((n - sinceMonday) div 7) mod ev = 0))
         else if timeperiod_type tp = ''4'' then
           (if \<not> bit (num0 (month_mask tp)) (nat (month d - 1)) then False
            else if num0 (month_day tp) > 0 then day d = num0 (month_day tp)
            else if \<not> bit dow (nat (mondayIndex (weekday d))) then False
            else if num0 (every tp) = 5 then day d + 7 > daysInMonth (year d) (month d)
            else ceil_div (day d) 7 = num0 (every tp))
         else False)"

text \<open>The body of the loop over the periods: what one of them adds to \<open>out\<close>.\<close>

definition period_windows :: "(int \<Rightarrow> int) \<Rightarrow> int \<Rightarrow> int \<Rightarrow> int \<Rightarrow> timeperiod \<Rightarrow> interval list" where
  "period_windows zone lo hi sinceDay tp =
     (let len = num0 (period tp) in
      if len \<le> 0 then []
      else if timeperiod_type tp = ''0'' then
        (let start = num0 (start_date tp) in [(start, start + len)])
      else
        (let first = dayNumber (zonedDate zone (lo - len)); last_day = dayNumber (zonedDate zone hi) in
         map (\<lambda>n. let d = dateOf n;
                      start = zonedDayStart zone (year d) (month d) (day d) + num0 (start_time tp)
                  in (start, start + len))
           (filter (\<lambda>n. startsOn tp n sinceDay) [first..last_day])))"

definition maintenanceWindows :: "(int \<Rightarrow> int) \<Rightarrow> maintenance \<Rightarrow> int \<Rightarrow> int \<Rightarrow> interval list" where
  "maintenanceWindows zone m from to =
     (let since = num0 (Some (active_since m)); till = num0 (Some (active_till m));
          lo = max from since; hi = min to till in
      if hi \<le> lo then []
      else mergeIntervals (clipIntervals
             (concat (map (period_windows zone lo hi (dayNumber (zonedDate zone since))) (timeperiods m))) lo hi))"

subsection \<open>Hosts\<close>

definition add_windows :: "interval list \<Rightarrow> string \<Rightarrow> (string, interval list) table \<Rightarrow> (string, interval list) table" where
  "add_windows ws hostid byHost = table_set hostid (mergeIntervals (table_list byHost hostid @ ws)) byHost"

definition add_maintenance ::
  "(int \<Rightarrow> int) \<Rightarrow> int \<Rightarrow> int \<Rightarrow> (string, string list) table \<Rightarrow> maintenance
     \<Rightarrow> (string, interval list) table \<Rightarrow> (string, interval list) table" where
  "add_maintenance zone from to hostsByGroup m byHost =
     (let ws = maintenanceWindows zone m from to in
      if ws = [] then byHost
      else fold (add_windows ws) (js_set (m_hosts m @ concat (map (table_list hostsByGroup) (m_groups m)))) byHost)"

text \<open>
  \<open>all\<close> is the answer of \<open>maintenance.get\<close>, \<open>group_get\<close> the function \<open>hostgroup.get\<close> (a group and its hosts
  per row). The second component counts the calls of \<open>onCall\<close>.
\<close>

definition maintenanceByHost ::
  "(int \<Rightarrow> int) \<Rightarrow> api_error + maintenance list \<Rightarrow> (string list \<Rightarrow> api_error + (string \<times> string list) list)
     \<Rightarrow> int \<Rightarrow> int \<Rightarrow> (api_error + (string, interval list) table) \<times> nat" where
  "maintenanceByHost zone maintenance_get group_get from to =
     (case maintenance_get of
        Inl e \<Rightarrow> (Inl e, 1)
      | Inr all_rows \<Rightarrow>
         (let relevant = filter (\<lambda>m. num_above (active_till m) from \<and> num_below (active_since m) to) all_rows;
              groupids = js_set (concat (map m_groups relevant))
          in if groupids = [] then (Inr (fold (add_maintenance zone from to []) relevant []), 1)
             else (case group_get groupids of
                     Inl e \<Rightarrow> (Inl e, 2)
                   | Inr groups \<Rightarrow>
                      (let hostsByGroup = fold (\<lambda>(g, hs). table_set g hs) groups []
                       in (Inr (fold (add_maintenance zone from to hostsByGroup) relevant []), 2)))))"

subsection \<open>No occurrence is missed\<close>

text \<open>
  In a zone of constant offset (the default, Asia/Jakarta, has none but that) the schedule can be
  said without a search: day \<open>n\<close> starts at \<open>86400 n - off\<close>.
\<close>

definition scheduled :: "int \<Rightarrow> int \<Rightarrow> timeperiod \<Rightarrow> int set" where
  "scheduled off sinceDay tp =
     (if timeperiod_type tp = ''0'' then {num0 (start_date tp)..<num0 (start_date tp) + num0 (period tp)}
      else (\<Union>n \<in> {n. startsOn tp n sinceDay}.
              {86400 * n - off + num0 (start_time tp)..<86400 * n - off + num0 (start_time tp) + num0 (period tp)}))"

definition period_ok :: "int \<Rightarrow> timeperiod \<Rightarrow> bool" where
  "period_ok lo tp \<longleftrightarrow> 0 \<le> num0 (start_time tp) \<and> num0 (start_time tp) < 86400 \<and> num0 (period tp) \<le> lo - 802 * 86400"

lemma zoned_day:
  assumes "\<bar>off\<bar> \<le> 86400" "86400 \<le> t"
  shows "dayNumber (zonedDate (\<lambda>_. off) t) = (t + off) div 86400"
proof -
  have "0 \<le> (t + off) div 86400" using assms by (intro pos_imp_zdiv_nonneg_iff [THEN iffD2]) auto
  then have "1970 \<le> year (civil ((t + off) div 86400))" by (intro year_civil_ge) (simp add: day_from_year_def)
  then show ?thesis using make_day_civil [of "(t + off) div 86400"] by (simp add: dayNumber_def zonedDate_def utc_day_make)
qed

lemma day_start_fixed:
  assumes "\<bar>off\<bar> \<le> 86400" "800 \<le> n"
  shows "zonedDayStart (\<lambda>_. off) (year (dateOf n)) (month (dateOf n)) (day (dateOf n)) = 86400 * n - off"
proof -
  have "1972 \<le> year (civil n)" using assms(2) by (intro year_civil_ge) (simp add: day_from_year_def)
  moreover have "1 \<le> month (civil n)" "month (civil n) \<le> 12" "1 \<le> day (civil n)"
    using civil_valid [of n] by (simp_all add: valid_date_def)
  ultimately show ?thesis
    using zonedDayStart_eq [of "year (civil n)" "month (civil n)" "day (civil n)" "\<lambda>_. off"] make_day_civil [of n] assms(1)
    by (simp add: dateOf_def zdate.defs utc_day_make)
qed

lemma period_windows_secs:
  assumes off: "\<bar>off\<bar> \<le> 86400" and ok: "period_ok lo tp" and lo: "900 * 86400 \<le> lo" "lo < hi"
  shows "secs (period_windows (\<lambda>_. off) lo hi sinceDay tp) \<inter> {lo..<hi} = scheduled off sinceDay tp \<inter> {lo..<hi}"
proof (cases "num0 (period tp) \<le> 0 \<or> timeperiod_type tp = ''0''")
  case True
  then show ?thesis by (auto simp: period_windows_def scheduled_def Let_def)
next
  case False
  define len where "len = num0 (period tp)"
  define st where "st = num0 (start_time tp)"
  have pos: "0 < len" using False by (simp add: len_def)
  have len: "len \<le> lo - 802 * 86400" and st: "0 \<le> st" "st < 86400" using ok by (auto simp: period_ok_def len_def st_def)
  have first: "dayNumber (zonedDate (\<lambda>_. off) (lo - len)) = (lo - len + off) div 86400"
    and fin: "dayNumber (zonedDate (\<lambda>_. off) hi) = (hi + off) div 86400"
    using zoned_day [OF off, of "lo - len"] zoned_day [OF off, of hi] len lo by auto
  have low: "800 \<le> (lo - len + off) div 86400"
    using len off by (subst int_le_div_iff) auto
  define days where "days = filter (\<lambda>n. startsOn tp n sinceDay) [(lo - len + off) div 86400..(hi + off) div 86400]"
  have mem: "n \<in> set days \<longleftrightarrow> startsOn tp n sinceDay \<and> (lo - len + off) div 86400 \<le> n \<and> n \<le> (hi + off) div 86400" for n
    by (auto simp: days_def)
  have eq: "period_windows (\<lambda>_. off) lo hi sinceDay tp = map (\<lambda>n. (86400 * n - off + st, 86400 * n - off + st + len)) days"
    using False first fin low day_start_fixed [OF off]
    by (auto simp: period_windows_def Let_def days_def simp flip: len_def st_def)
  have reach: "(lo - len + off) div 86400 \<le> n \<and> n \<le> (hi + off) div 86400"
    if "86400 * n - off + st < hi" "lo < 86400 * n - off + st + len" for n
  proof
    show "n \<le> (hi + off) div 86400" using that(1) st by (subst int_le_div_iff) auto
    have "\<not> n + 1 \<le> (lo - len + off) div 86400" using that(2) st by (subst int_le_div_iff) auto
    then show "(lo - len + off) div 86400 \<le> n" by simp
  qed
  have "x \<in> secs (period_windows (\<lambda>_. off) lo hi sinceDay tp) \<longleftrightarrow> x \<in> scheduled off sinceDay tp" if x: "lo \<le> x" "x < hi" for x
  proof -
    have "n \<in> set days \<longleftrightarrow> startsOn tp n sinceDay" if "86400 * n - off + st \<le> x" "x < 86400 * n - off + st + len" for n
      using that x mem [of n] reach [of n] by auto
    then show ?thesis using False by (auto simp: eq secs_map scheduled_def simp flip: len_def st_def)
  qed
  then show ?thesis by auto
qed

lemma windows_secs:
  assumes "\<bar>off\<bar> \<le> 86400" "900 * 86400 \<le> from"
    and "\<forall>tp \<in> set (timeperiods m). period_ok from tp"
  shows "secs (maintenanceWindows (\<lambda>_. off) m from to) =
     {max from (num0 (Some (active_since m)))..<min to (num0 (Some (active_till m)))} \<inter>
     (\<Union>tp \<in> set (timeperiods m). scheduled off (dayNumber (zonedDate (\<lambda>_. off) (num0 (Some (active_since m))))) tp)"
proof -
  define lo hi where "lo = max from (num0 (Some (active_since m)))" and "hi = min to (num0 (Some (active_till m)))"
  define sd where "sd = dayNumber (zonedDate (\<lambda>_. off) (num0 (Some (active_since m))))"
  show ?thesis
  proof (cases "hi \<le> lo")
    case True
    then show ?thesis by (simp add: maintenanceWindows_def Let_def lo_def hi_def)
  next
    case False
    have "secs (period_windows (\<lambda>_. off) lo hi sd tp) \<inter> {lo..<hi} = scheduled off sd tp \<inter> {lo..<hi}"
      if "tp \<in> set (timeperiods m)" for tp
      using that assms False by (intro period_windows_secs) (auto simp: lo_def period_ok_def)
    then have "(\<Union>tp \<in> set (timeperiods m). secs (period_windows (\<lambda>_. off) lo hi sd tp) \<inter> {lo..<hi}) =
          (\<Union>tp \<in> set (timeperiods m). scheduled off sd tp \<inter> {lo..<hi})" by simp
    then have "secs (mergeIntervals (clipIntervals (concat (map (period_windows (\<lambda>_. off) lo hi sd) (timeperiods m))) lo hi))
        = {lo..<hi} \<inter> (\<Union>tp \<in> set (timeperiods m). scheduled off sd tp)"
      by (simp add: secs_concat) blast
    moreover have "maintenanceWindows (\<lambda>_. off) m from to =
        mergeIntervals (clipIntervals (concat (map (period_windows (\<lambda>_. off) lo hi sd) (timeperiods m))) lo hi)"
      unfolding maintenanceWindows_def Let_def lo_def [symmetric] hi_def [symmetric] sd_def [symmetric] using False by simp
    ultimately show ?thesis unfolding lo_def hi_def sd_def by simp
  qed
qed

lemma windows_nform [simp]: "nform (maintenanceWindows zone m from to)"
  by (simp add: maintenanceWindows_def Let_def)

text \<open>Wherever the zone, the windows stay inside the range and the maintenance's own span.\<close>

lemma windows_within:
  "secs (maintenanceWindows zone m from to) \<subseteq>
     {max from (num0 (Some (active_since m)))..<min to (num0 (Some (active_till m)))}"
  by (auto simp: maintenanceWindows_def Let_def)

subsection \<open>What the hosts get\<close>

definition numeric :: "string \<Rightarrow> bool" where
  "numeric s \<longleftrightarrow> (\<exists>q. js_number s = Num q)"

lemma irrelevant_empty:
  assumes "numeric (active_since m)" "numeric (active_till m)"
    and "\<not> (num_above (active_till m) from \<and> num_below (active_since m) to)"
  shows "maintenanceWindows zone m from to = []"
proof -
  obtain a b where ab: "js_number (active_since m) = Num a" "js_number (active_till m) = Num b"
    using assms(1,2) by (auto simp: numeric_def)
  have "b \<le> of_int from \<or> of_int to \<le> a" using assms(3) ab by (auto simp: num_above_def num_below_def)
  then have "\<lfloor>b\<rfloor> \<le> from \<or> to \<le> \<lfloor>a\<rfloor>" by (auto simp: le_floor_iff floor_le_iff)
  then show ?thesis by (auto simp: maintenanceWindows_def Let_def num0_def ab)
qed

lemma add_windows_secs:
  "secs (table_list (fold (add_windows ws) ids t) h) = secs (table_list t h) \<union> (if h \<in> set ids then secs ws else {})"
proof (induction ids arbitrary: t)
  case Nil
  then show ?case by simp
next
  case (Cons x ids)
  have "secs (table_list (add_windows ws x t) h) = secs (table_list t h) \<union> (if h = x then secs ws else {})"
    by (simp add: add_windows_def update_conv)
  then show ?case using Cons by auto
qed

lemma add_windows_nform:
  "nform (table_list t h) \<Longrightarrow> nform (table_list (fold (add_windows ws) ids t) h)"
  by (induction ids arbitrary: t) (auto simp: add_windows_def update_conv)

definition member_of :: "(string, string list) table \<Rightarrow> string \<Rightarrow> maintenance \<Rightarrow> bool" where
  "member_of groups h m \<longleftrightarrow> h \<in> set (m_hosts m) \<or> (\<exists>g \<in> set (m_groups m). h \<in> set (table_list groups g))"

lemma add_maintenance_secs:
  "secs (table_list (add_maintenance zone from to groups m t) h) =
     secs (table_list t h) \<union> (if member_of groups h m then secs (maintenanceWindows zone m from to) else {})"
  by (auto simp: add_maintenance_def Let_def add_windows_secs member_of_def)

lemma add_maintenances_secs:
  "secs (table_list (fold (add_maintenance zone from to groups) ms t) h) =
     secs (table_list t h) \<union> (\<Union>m \<in> {m \<in> set ms. member_of groups h m}. secs (maintenanceWindows zone m from to))"
proof (induction ms arbitrary: t)
  case Nil
  then show ?case by simp
next
  case (Cons m ms)
  have "{x \<in> set (m # ms). member_of groups h x} =
      (if member_of groups h m then {m} else {}) \<union> {x \<in> set ms. member_of groups h x}" by auto
  then show ?case using Cons [of "add_maintenance zone from to groups m t"] by (simp add: add_maintenance_secs Un_assoc)
qed

lemma add_maintenances_nform:
  "nform (table_list t h) \<Longrightarrow> nform (table_list (fold (add_maintenance zone from to groups) ms t) h)"
  by (induction ms arbitrary: t) (auto simp: add_maintenance_def Let_def intro: add_windows_nform)

lemma fold_table_set:
  "distinct (map fst kvs) \<Longrightarrow> table_get (fold (\<lambda>(k, v). table_set k v) kvs t) k =
     (case table_get kvs k of Some v \<Rightarrow> Some v | None \<Rightarrow> table_get t k)"
proof (induction kvs arbitrary: t)
  case Nil
  then show ?case by simp
next
  case (Cons p kvs)
  have "table_get kvs (fst p) = None" using Cons.prems by (simp add: map_of_eq_None_iff)
  then show ?case using Cons by (cases p; cases "table_get kvs k") (auto simp: update_conv)
qed

lemma distinct_filter_fst: "distinct (map fst kvs) \<Longrightarrow> distinct (map fst (filter P kvs))"
  by (induction kvs) auto

lemma map_of_filter_fst: "table_get (filter (\<lambda>r. fst r \<in> S) kvs) k = (if k \<in> S then table_get kvs k else None)"
  by (induction kvs) auto

subsection \<open>Properties\<close>


definition nightly :: maintenance where
  "nightly = \<lparr>active_since = ''100000000'', active_till = ''200000000'',
     timeperiods = [\<lparr>timeperiod_type = ''2'', every = Some ''1'', month_mask = None, dayofweek = None,
       month_day = None, start_time = Some ''3600'', period = Some ''7200'', start_date = None\<rparr>],
     m_hosts = [''10084''], m_groups = [''4'']\<rparr>"


text \<open>
  What a host is out of measurement for: with the two Zabbix calls answering, a host gets, as one
  normal form, the windows of exactly those maintenances that name it or one of its groups; leaving
  out the maintenances that do not overlap the range loses nothing; at most two calls are made, and
  groups are only asked for when a maintenance names one.
\<close>

theorem maintenance_of_each_host:
  assumes "\<forall>ids. group_get ids = Inr (filter (\<lambda>r. fst r \<in> set ids) groups)" "distinct (map fst groups)"
    and "\<forall>m \<in> set rows. numeric (active_since m) \<and> numeric (active_till m)"
  shows "\<exists>byHost calls. maintenanceByHost zone (Inr rows) group_get from to = (Inr byHost, calls) \<and> calls \<le> 2 \<and>
     (\<forall>h. nform (table_list byHost h) \<and> secs (table_list byHost h) =
        (\<Union>m \<in> {m \<in> set rows. h \<in> set (m_hosts m) \<or> (\<exists>g \<in> set (m_groups m). h \<in> set (table_list groups g))}.
           secs (maintenanceWindows zone m from to)))"
proof -
  define rel where "rel = filter (\<lambda>m. num_above (active_till m) from \<and> num_below (active_since m) to) rows"
  define ids where "ids = js_set (concat (map m_groups rel))"
  define tbl where "tbl = (if ids = [] then [] else fold (\<lambda>(g, hs). table_set g hs) (filter (\<lambda>r. fst r \<in> set ids) groups) [])"
  define byHost where "byHost = fold (add_maintenance zone from to tbl) rel []"
  have out: "\<exists>calls. maintenanceByHost zone (Inr rows) group_get from to = (Inr byHost, calls) \<and> calls \<le> 2"
    using assms(1) by (simp add: maintenanceByHost_def Let_def rel_def [symmetric] ids_def [symmetric] byHost_def tbl_def)
  have tbl: "table_list tbl g = table_list groups g" if "g \<in> set ids" for g
    using that assms(2) by (cases "table_get groups g") (auto simp: tbl_def fold_table_set distinct_filter_fst map_of_filter_fst)
  have member: "member_of tbl h m \<longleftrightarrow> member_of groups h m" if "m \<in> set rel" for h m
  proof -
    have "\<forall>g \<in> set (m_groups m). table_list tbl g = table_list groups g" using that tbl by (auto simp: ids_def)
    then show ?thesis by (simp add: member_of_def)
  qed
  have empty: "maintenanceWindows zone m from to = []" if "m \<in> set rows" "m \<notin> set rel" for m
    using that assms(3) irrelevant_empty by (auto simp: rel_def)
  have "secs (table_list byHost h) =
        (\<Union>m \<in> {m \<in> set rows. member_of groups h m}. secs (maintenanceWindows zone m from to))" for h
  proof -
    have "secs (table_list byHost h) = (\<Union>m \<in> {m \<in> set rel. member_of tbl h m}. secs (maintenanceWindows zone m from to))"
      by (simp add: byHost_def add_maintenances_secs)
    also have "{m \<in> set rel. member_of tbl h m} = {m \<in> set rel. member_of groups h m}" using member by auto
    also have "(\<Union>m \<in> {m \<in> set rel. member_of groups h m}. secs (maintenanceWindows zone m from to)) =
        (\<Union>m \<in> {m \<in> set rows. member_of groups h m}. secs (maintenanceWindows zone m from to))"
    proof (rule antisym)
      have "set rel \<subseteq> set rows" by (auto simp: rel_def)
      then show "(\<Union>m \<in> {m \<in> set rel. member_of groups h m}. secs (maintenanceWindows zone m from to)) \<subseteq>
        (\<Union>m \<in> {m \<in> set rows. member_of groups h m}. secs (maintenanceWindows zone m from to))" by blast
      show "(\<Union>m \<in> {m \<in> set rows. member_of groups h m}. secs (maintenanceWindows zone m from to)) \<subseteq>
        (\<Union>m \<in> {m \<in> set rel. member_of groups h m}. secs (maintenanceWindows zone m from to))"
        using empty by fastforce
    qed
    finally show ?thesis .
  qed
  moreover have "nform (table_list byHost h)" for h by (simp add: byHost_def add_maintenances_nform)
  ultimately show ?thesis using out unfolding member_of_def by blast
qed

lemma maintenance_of_each_host_witness:
  "\<exists>byHost calls. maintenanceByHost (\<lambda>_. 25200) (Inr [nightly])
       (\<lambda>ids. Inr (filter (\<lambda>r. fst r \<in> set ids) [(''4'', [''7''])])) 150000000 150086400 = (Inr byHost, calls) \<and> calls \<le> 2 \<and>
     secs (table_list byHost ''7'') = secs (maintenanceWindows (\<lambda>_. 25200) nightly 150000000 150086400)"
proof -
  have "numeric (active_since nightly)" "numeric (active_till nightly)"
    by (simp_all add: numeric_def nightly_def js_number_def trim_def is_space_def parse_decimal_def parse_unsigned_def
      parse_mantissa_def is_digit_def less_eq_char_def digits_val_def digit_val_def to_jsnum_def inf_bound_def)
  then obtain byHost calls where b: "maintenanceByHost (\<lambda>_. 25200) (Inr [nightly])
       (\<lambda>ids. Inr (filter (\<lambda>r. fst r \<in> set ids) [(''4'', [''7''])])) 150000000 150086400 = (Inr byHost, calls)" "calls \<le> 2"
     "\<And>h. secs (table_list byHost h) = (\<Union>m \<in> {m \<in> set [nightly]. h \<in> set (m_hosts m) \<or>
          (\<exists>g \<in> set (m_groups m). h \<in> set (table_list [(''4'', [''7''])] g))}.
           secs (maintenanceWindows (\<lambda>_. 25200) m 150000000 150086400))"
    using maintenance_of_each_host [of "\<lambda>ids. Inr (filter (\<lambda>r. fst r \<in> set ids) [(''4'', [''7''])])"
        "[(''4'', [''7''])]" "[nightly]" "\<lambda>_. 25200" 150000000 150086400]
    by auto
  moreover have "{m \<in> set [nightly]. ''7'' \<in> set (m_hosts m) \<or>
          (\<exists>g \<in> set (m_groups m). ''7'' \<in> set (table_list [(''4'', [''7''])] g))} = {nightly}"
    by (auto simp: nightly_def)
  ultimately show ?thesis by (intro exI [of _ byHost] exI [of _ calls]) (simp only: b(1,3), simp)
qed

end
