(* ===== verification/Report.thy ===== *)
theory Report
  imports Coverage Maintenance
begin

text \<open>
  The derived SLA report (\<open>computeSli\<close> and \<open>buildWanPaths\<close> in \<open>server/src/sli/engine.ts\<close>): the figures of a
  host in both profiles, the groups, the WAN paths and the report around them. The Zabbix methods and
  the settings are parameters; the counters of the report's \<open>stats\<close> are left out. Where several reads
  run at once and more than one fails, the error of the first one named is taken.
\<close>

datatype profile = HcmlReport | Availability

record sla_config =
  cf_target :: rat
  cf_zone :: "int \<Rightarrow> int"
  cf_timezone :: string
  cf_reportTriggers :: "string list"
  cf_availabilityTriggers :: "string list"
  cf_minCoverage :: rat
  cf_noDataWindows :: "interval list"

record z_trigger =
  zt_triggerid :: string
  zt_state :: trigger_state
  zt_hosts :: "(string \<times> string \<times> string) list"

text \<open>What the report reads: one field per request, with the arguments that vary.\<close>

record sla_reads =
  trigger_get :: "string list \<Rightarrow> api_error + z_trigger list"
  parents_get :: "string list \<Rightarrow> api_error + (string \<times> string list) list"
  icmp_get :: "string list \<Rightarrow> api_error + icmp_item list"
  events_get :: "string list \<Rightarrow> int \<Rightarrow> int \<Rightarrow> api_error + z_event list"
  maintenance_get :: "api_error + maintenance list"
  hostgroup_get :: "string list \<Rightarrow> api_error + (string \<times> string list) list"
  trends_get :: "string list \<Rightarrow> int \<Rightarrow> int \<Rightarrow> api_error + trend_row list"
  history_get :: "string list \<Rightarrow> int \<Rightarrow> int \<Rightarrow> api_error + (string \<times> int) list"
  web_host_get :: "api_error + string list"
  web_item_get :: "string \<Rightarrow> api_error + web_item list"
  web_history_get :: "string \<Rightarrow> int \<Rightarrow> int \<Rightarrow> api_error + (int \<times> rat) list"

subsection \<open>The figures of one host\<close>

record host_meta =
  hm_name :: string
  hm_status :: string
  hm_triggers :: "z_trigger list"

definition add_trigger :: "z_trigger \<Rightarrow> (string, host_meta) table \<Rightarrow> (string, host_meta) table" where
  "add_trigger t hostMeta =
     (case zt_hosts t of
        [] \<Rightarrow> hostMeta
      | (hostid, nm, status) # _ \<Rightarrow>
          (let row = (case table_get hostMeta hostid of Some r \<Rightarrow> r | None \<Rightarrow> \<lparr>hm_name = nm, hm_status = status, hm_triggers = []\<rparr>)
           in table_set hostid (row\<lparr>hm_triggers := hm_triggers row @ [t]\<rparr>) hostMeta))"

definition add_event :: "z_event \<Rightarrow> (string, trigger_event list) table \<Rightarrow> (string, trigger_event list) table" where
  "add_event e byTrigger =
     table_set (ze_objectid e) (table_list byTrigger (ze_objectid e) @ [\<lparr>ev_clock = ze_clock e, ev_value = ze_value e\<rparr>]) byTrigger"

definition add_icmp :: "icmp_item \<Rightarrow> (string, icmp_item list) table \<Rightarrow> (string, icmp_item list) table" where
  "add_icmp i byHost = table_set (it_hostid i) (table_list byHost (it_hostid i) @ [i]) byHost"

text \<open>The values of \<open>computeSli\<close> that its loop over the hosts reads.\<close>

record sli_ctx =
  strict :: bool
  c_from :: int
  c_end :: int
  c_endClip :: int
  outsideDeclared :: "interval list"
  eventsByTrigger :: "(string, trigger_event list) table"
  later_values :: "(string, int) table"
  coverage_of :: "(string, interval list) table"
  maintenance_of :: "(string, interval list) table"
  categoryByHost :: "(string, string) table"
  icmpByHost :: "(string, icmp_item list) table"
  estateSeconds :: int
  c_target :: rat
  c_minCoverage :: rat

definition trigger_outages :: "sli_ctx \<Rightarrow> z_trigger \<Rightarrow> interval list \<times> nat" where
  "trigger_outages c t =
     (let evs = table_list (eventsByTrigger c) (zt_triggerid t);
          initial = initialState evs (zt_state t) (c_end c) (table_get (later_values c) (zt_triggerid t))
      in intervalsFor evs initial (c_from c) (c_endClip c))"

definition host_figures :: "sli_ctx \<Rightarrow> string \<times> host_meta \<Rightarrow> sli_host \<times> interval list \<times> interval list" where
  "host_figures c entry =
     (let (hostid, meta) = entry;
          window = c_end c - c_from c;
          replayed = map (trigger_outages c) (hm_triggers meta);
          merged = mergeIntervals (concat (map fst replayed));
          incidents = sum_list (map snd replayed);
          category = (case table_get (categoryByHost c) hostid of Some k \<Rightarrow> k | None \<Rightarrow> ''Other'');
          planned = clipIntervals (table_list (maintenance_of c) hostid) (c_from c) (c_end c);
          plannedSec = totalSeconds planned;
          outsidePlanned = complementIntervals planned (c_from c) (c_end c);
          measurable = window - plannedSec;
          covered = (if strict c then intersectIntervals (table_list (coverage_of c) hostid) outsidePlanned else outsidePlanned);
          down = intersectIntervals (intersectIntervals merged covered) (outsideDeclared c);
          downtime = totalSeconds down;
          coveredSec = totalSeconds covered;
          cov = (if measurable > 0 then of_int coveredSec / of_int measurable else 0);
          nodata = strict c \<and> (coveredSec = 0 \<or> cov < c_minCoverage c);
          denominator = (if strict c then coveredSec else measurable);
          sli = (if nodata \<or> denominator \<le> 0 then None else Some (max 0 (100 * (1 - of_int downtime / of_int denominator))))
      in (\<lparr>h_hostid = hostid, h_name = hm_name meta, h_status = hm_status meta, h_site = siteFromHostName (hm_name meta),
           h_category = category, h_class = deviceClass (hm_name meta) (Some category),
           h_triggerids = map zt_triggerid (hm_triggers meta), h_sli = sli, h_downtime = downtime, h_window = window,
           h_covered = coveredSec, h_maintenance = plannedSec, h_coverage = cov, h_incidents = incidents,
           h_longest = foldl (\<lambda>m (s, e). max m (e - s)) 0 down,
           h_dataStatus = (if nodata then NoData
             else if strict c \<and> of_int coveredSec < 95 / 100 * (of_int (max 0 (estateSeconds c - plannedSec)) :: rat)
             then Partial else Ok),
           h_measured = wasMeasured (table_list (icmpByHost c) hostid) (hm_status meta = ''1''),
           h_meeting = map_option (\<lambda>s. s \<ge> c_target c) sli,
           h_errorBudget = map_option (\<lambda>s. (1 - c_target c / 100) * of_int denominator - of_int downtime) sli\<rparr>,
          down, covered))"

subsection \<open>WAN paths\<close>

record path_leg =
  l_hostid :: string
  l_name :: string
  l_leg :: string
  l_sli :: "rat option"
  l_dataStatus :: data_status

record sli_path =
  p_key :: string
  p_name :: string
  p_site :: "site_ref option"
  p_legs :: "path_leg list"
  p_sli :: "rat option"
  p_downtime :: int
  p_coverage :: rat
  p_dataStatus :: data_status

definition add_leg :: "sli_host \<Rightarrow> (string, (sli_host \<times> string) list) table \<Rightarrow> (string, (sli_host \<times> string) list) table" where
  "add_leg h byPath =
     (case wanPairKey (h_name h) of
        None \<Rightarrow> byPath
      | Some key \<Rightarrow> table_set (wan_path key) (table_list byPath (wan_path key) @ [(h, wan_leg key)]) byPath)"

text \<open>The intersection over the legs; \<open>legs[0]\<close> exists, a path being made by its first leg.\<close>

definition legs_common :: "(string, interval list) table \<Rightarrow> sli_host list \<Rightarrow> interval list" where
  "legs_common t legs =
     foldl (\<lambda>iv leg. intersectIntervals iv (table_list t (h_hostid leg))) (table_list t (h_hostid (hd legs))) (tl legs)"

definition wan_path_row ::
  "(string \<Rightarrow> string \<Rightarrow> int) \<Rightarrow> (string, interval list) table \<Rightarrow> (string, interval list) table \<Rightarrow> int \<Rightarrow> bool \<Rightarrow> int
     \<Rightarrow> string \<times> (sli_host \<times> string) list \<Rightarrow> sli_path" where
  "wan_path_row collate downByHost coveredByHost window strct estate entry =
     (let (path, rows) = entry; legs = map fst rows;
          nodata = list_ex (\<lambda>l. h_dataStatus l = NoData) legs;
          coveredSec = (if strct then totalSeconds (legs_common coveredByHost legs) else window);
          downtime = totalSeconds (legs_common downByHost legs)
      in \<lparr>p_key = ''wan:'' @ path, p_name = path, p_site = h_site (hd legs),
          p_legs = js_sort (\<lambda>a b. collate (l_leg a) (l_leg b))
            (map (\<lambda>(l, leg). \<lparr>l_hostid = h_hostid l, l_name = h_name l, l_leg = leg, l_sli = h_sli l,
                              l_dataStatus = h_dataStatus l\<rparr>) rows),
          p_sli = (if nodata \<or> coveredSec \<le> 0 then None else Some (max 0 (100 * (1 - of_int downtime / of_int coveredSec)))),
          p_downtime = downtime,
          p_coverage = (if window > 0 then min 1 (of_int coveredSec / of_int window) else 0),
          p_dataStatus = (if nodata then NoData
            else if strct \<and> of_int coveredSec < 95 / 100 * (of_int estate :: rat) then Partial else Ok)\<rparr>)"

definition buildWanPaths ::
  "(string \<Rightarrow> string \<Rightarrow> int) \<Rightarrow> sli_host list \<Rightarrow> (string, interval list) table \<Rightarrow> (string, interval list) table \<Rightarrow> int
     \<Rightarrow> bool \<Rightarrow> int \<Rightarrow> sli_path list" where
  "buildWanPaths collate hosts downByHost coveredByHost window strct estate =
     js_sort (\<lambda>a b. collate (p_name a) (p_name b))
       (map (wan_path_row collate downByHost coveredByHost window strct estate) (fold add_leg hosts []))"

subsection \<open>Groups\<close>

definition add_bucket :: "(sli_host \<Rightarrow> string) \<Rightarrow> (string \<Rightarrow> sli_host \<Rightarrow> string) \<Rightarrow> sli_host
    \<Rightarrow> (string, string \<times> sli_host list) table \<Rightarrow> (string, string \<times> sli_host list) table" where
  "add_bucket keyOf nameOf h buckets =
     (let k = keyOf h; b = (case table_get buckets k of Some b \<Rightarrow> b | None \<Rightarrow> (nameOf k h, []))
      in table_set k (fst b, snd b @ [h]) buckets)"

definition group_hosts :: "(sli_host \<Rightarrow> string) \<Rightarrow> (string \<Rightarrow> sli_host \<Rightarrow> string) \<Rightarrow> rat \<Rightarrow> sli_host list \<Rightarrow> sli_group list" where
  "group_hosts keyOf nameOf target hosts =
     map (\<lambda>(k, nm, hs). aggregate k nm hs target) (fold (add_bucket keyOf nameOf) hosts [])"

definition middle_dot :: string where "middle_dot = [CHR '' '', CHR 0xB7, CHR '' '']"

definition site_key :: "sli_host \<Rightarrow> string" where
  "site_key h = (case h_site h of Some s \<Rightarrow> ''site:'' @ show_nat (site_code s) | None \<Rightarrow> ''site:unassigned'')"

definition site_label :: "sli_host \<Rightarrow> string" where
  "site_label h = (case h_site h of Some s \<Rightarrow> show_nat (site_code s) @ middle_dot @ site_name s | None \<Rightarrow> ''Unassigned'')"

definition order_hosts :: "(string \<Rightarrow> string \<Rightarrow> int) \<Rightarrow> sli_host \<Rightarrow> sli_host \<Rightarrow> int" where
  "order_hosts collate a b =
     or_else (compare (h_sli a = None) (h_sli b = None))
       (or_else (compare (case h_sli a of Some s \<Rightarrow> s | None \<Rightarrow> 0) (case h_sli b of Some s \<Rightarrow> s | None \<Rightarrow> 0))
         (collate (h_name a) (h_name b)))"

subsection \<open>The report\<close>

record sli_report =
  r_label :: string
  r_profile :: profile
  r_month :: "string option"
  r_from :: int
  r_to :: int
  r_end :: int
  r_closed :: bool
  r_timezone :: string
  r_target :: rat
  r_triggers :: "string list"
  r_excludes :: bool
  r_overall :: sli_group
  r_categories :: "sli_group list"
  r_sites :: "sli_group list"
  r_classes :: "sli_group list"
  r_hosts :: "sli_host list"
  r_wanPaths :: "sli_path list"
  r_web :: "sli_web list"
  r_gaps :: "interval list"
  r_noDataWindows :: "interval list"
  r_generatedAt :: int

definition DERIVED_LABEL :: string where "DERIVED_LABEL = ''Derived from ICMP availability triggers''"

text \<open>The window asked for: a month, or a from and a to; then the three refusals.\<close>

definition sli_window :: "sla_config \<Rightarrow> int \<Rightarrow> string option \<Rightarrow> int option \<Rightarrow> int option \<Rightarrow> api_error + int \<times> int" where
  "sli_window cfg now mon reqFrom reqTo =
     and_then
       (case (case mon of Some m \<Rightarrow> (if m = [] then None else Some m) | None \<Rightarrow> None) of
          Some m \<Rightarrow> (case monthBounds (cf_zone cfg) m of Inl e \<Rightarrow> Inl e | Inr (a, b) \<Rightarrow> Inr (Some a, Some b))
        | None \<Rightarrow> Inr (reqFrom, reqTo))
       (\<lambda>bounds. case bounds of
          (Some a, Some b) \<Rightarrow>
            (if a \<ge> b then Inl (BadRequestError ''A month (YYYY-MM) or a from/to window is required.'')
             else if a > now then Inl (BadRequestError ''That period has not started yet.'')
             else if a < now - 400 * 86400 then
               Inl (BadRequestError ''Zabbix keeps events for about a year; pick a later period.'')
             else Inr (a, b))
        | _ \<Rightarrow> Inl (BadRequestError ''A month (YYYY-MM) or a from/to window is required.''))"

definition sli_context ::
  "sla_config \<Rightarrow> bool \<Rightarrow> int \<Rightarrow> int \<Rightarrow> int \<Rightarrow> interval list \<Rightarrow> z_event list \<Rightarrow> (string, int) table
     \<Rightarrow> (string, interval list) table \<times> interval list \<Rightarrow> (string, interval list) table \<Rightarrow> (string \<times> string list) list
     \<Rightarrow> icmp_item list \<Rightarrow> sli_ctx" where
  "sli_context cfg strct from end endClip declared events firstLater coverage planned parents items =
     \<lparr>strict = strct, c_from = from, c_end = end, c_endClip = endClip,
      outsideDeclared = complementIntervals declared from end,
      eventsByTrigger = fold add_event events [], later_values = firstLater,
      coverage_of = fst coverage, maintenance_of = planned,
      categoryByHost = fold (\<lambda>(h, ts). table_set h (categoryFor ts)) parents [],
      icmpByHost = fold add_icmp items [],
      estateSeconds = max 0 ((end - from) - (totalSeconds (snd coverage) + (if strct then totalSeconds declared else 0))),
      c_target = cf_target cfg, c_minCoverage = cf_minCoverage cfg\<rparr>"

definition assemble ::
  "sla_config \<Rightarrow> (string \<Rightarrow> string \<Rightarrow> int) \<Rightarrow> sli_ctx \<Rightarrow> (string, host_meta) table \<Rightarrow> sli_web list \<Rightarrow> interval list
     \<Rightarrow> interval list \<Rightarrow> profile \<Rightarrow> string option \<Rightarrow> int \<Rightarrow> int \<Rightarrow> sli_report" where
  "assemble cfg collate c hostMeta web gaps declared prof mon to now =
     (let rows = map (host_figures c) hostMeta;
          downByHost = map (\<lambda>(h, d, cv). (h_hostid h, d)) rows;
          coveredByHost = map (\<lambda>(h, d, cv). (h_hostid h, cv)) rows;
          hosts = js_sort (order_hosts collate) (map fst rows);
          target = cf_target cfg
      in \<lparr>r_label = DERIVED_LABEL, r_profile = prof, r_month = mon, r_from = c_from c, r_to = to, r_end = c_end c,
          r_closed = to \<le> now, r_timezone = cf_timezone cfg, r_target = target,
          r_triggers = (if strict c then cf_availabilityTriggers cfg else cf_reportTriggers cfg),
          r_excludes = strict c,
          r_overall = aggregate ''overall'' ''HCML estate'' hosts target,
          r_categories = js_sort (\<lambda>a b. or_else (int (rank CATEGORY_ORDER (g_key a)) - int (rank CATEGORY_ORDER (g_key b)))
                                    (collate (g_name a) (g_name b)))
             (group_hosts h_category (\<lambda>k h. k) target hosts),
          r_sites = js_sort (\<lambda>a b. compare (siteRank (g_key a)) (siteRank (g_key b)))
             (group_hosts site_key (\<lambda>k h. site_label h) target hosts),
          r_classes = js_sort (\<lambda>a b. collate (g_name a) (g_name b))
             (group_hosts (\<lambda>h. class_key (h_class h)) (\<lambda>k h. DEVICE_CLASS_LABELS (h_class h)) target hosts),
          r_hosts = hosts,
          r_wanPaths = buildWanPaths collate hosts downByHost coveredByHost (c_end c - c_from c) (strict c) (estateSeconds c),
          r_web = web, r_gaps = gaps, r_noDataWindows = declared, r_generatedAt = now\<rparr>)"

definition computeSli ::
  "sla_config \<Rightarrow> (string \<Rightarrow> string \<Rightarrow> int) \<Rightarrow> sla_reads \<Rightarrow> int \<Rightarrow> profile \<Rightarrow> string option \<Rightarrow> int option \<Rightarrow> int option
     \<Rightarrow> api_error + sli_report" where
  "computeSli cfg collate z now prof mon reqFrom reqTo =
     and_then (sli_window cfg now mon reqFrom reqTo) (\<lambda>(from, to).
     (let strct = (prof = Availability);
          end = min to now;
          closed = (to \<le> now);
          declared = mergeIntervals (clipIntervals (cf_noDataWindows cfg) from end);
          endClip = (if \<not> strct \<and> closed then to - 1 else end)
      in
     and_then (trigger_get z (if strct then cf_availabilityTriggers cfg else cf_reportTriggers cfg)) (\<lambda>triggers.
     (let hostMeta = fold add_trigger triggers []; hostids = table_keys hostMeta in
     and_then (if hostids \<noteq> [] then parents_get z hostids else Inr []) (\<lambda>parents.
     and_then (if hostids \<noteq> [] then icmp_get z hostids else Inr []) (\<lambda>items.
     and_then (if triggers \<noteq> [] then events_get z (map zt_triggerid triggers) from (end - 1) else Inr []) (\<lambda>events.
     and_then (fst (maintenanceByHost (cf_zone cfg) (maintenance_get z) (hostgroup_get z) from end)) (\<lambda>planned.
     (let quiet = map zt_triggerid (filter (\<lambda>t. table_get (fold add_event events []) (zt_triggerid t) = None \<and>
                                              tr_lastchange (zt_state t) \<ge> end) triggers) in
     and_then (if quiet \<noteq> [] then firstEventsAfter (events_get z) quiet end now else Inr []) (\<lambda>firstLater.
     and_then (if strct then icmpCoverage (trends_get z) (history_get z) items from end (complementIntervals declared from end)
               else Inr ([], [])) (\<lambda>coverage.
     (let c = sli_context cfg strct from end endClip declared events firstLater coverage planned parents items in
     and_then (if strct then webScenarios (web_host_get z) (web_item_get z) (trends_get z) (web_history_get z) from end now
                 (estateSeconds c) (outsideDeclared c) (cf_minCoverage cfg)
               else Inr []) (\<lambda>web.
     Inr (assemble cfg collate c hostMeta web (snd coverage) declared prof mon to now))))))))))))))"

subsection \<open>The figures of a host, as sets of seconds\<close>

definition in_problem :: "sli_ctx \<Rightarrow> z_trigger \<Rightarrow> int \<Rightarrow> bool" where
  "in_problem c tr t \<longleftrightarrow>
     (let evs = table_list (eventsByTrigger c) (zt_triggerid tr)
      in problem_at (filter (\<lambda>e. c_from c \<le> ev_clock e) evs)
           (initialState evs (zt_state tr) (c_end c) (table_get (later_values c) (zt_triggerid tr))) t)"

definition events_sorted :: "sli_ctx \<Rightarrow> bool" where
  "events_sorted c \<longleftrightarrow> (\<forall>k. sorted (map ev_clock (table_list (eventsByTrigger c) k)))"

definition planned_secs :: "sli_ctx \<Rightarrow> string \<Rightarrow> int set" where
  "planned_secs c hostid = secs (table_list (maintenance_of c) hostid) \<inter> {c_from c..<c_end c}"

definition covered_secs :: "sli_ctx \<Rightarrow> string \<Rightarrow> int set" where
  "covered_secs c hostid =
     ({c_from c..<c_end c} - planned_secs c hostid) \<inter> (if strict c then secs (table_list (coverage_of c) hostid) else UNIV)"

definition down_secs :: "sli_ctx \<Rightarrow> string \<times> host_meta \<Rightarrow> int set" where
  "down_secs c entry =
     {t \<in> covered_secs c (fst entry). t < c_endClip c \<and> t \<in> secs (outsideDeclared c) \<and>
        (\<exists>tr \<in> set (hm_triggers (snd entry)). in_problem c tr t)}"

lemma replayed_secs:
  "events_sorted c \<Longrightarrow> secs (fst (trigger_outages c tr)) = {t. c_from c \<le> t \<and> t < c_endClip c \<and> in_problem c tr t}"
  by (simp add: trigger_outages_def Let_def intervalsFor_secs events_sorted_def in_problem_def)

lemma host_covered:
  "secs (snd (snd (host_figures c entry))) = covered_secs c (fst entry) \<and>
   h_covered (fst (host_figures c entry)) = int (card (covered_secs c (fst entry))) \<and>
   h_maintenance (fst (host_figures c entry)) = int (card (planned_secs c (fst entry)))"
proof -
  have "secs (snd (snd (host_figures c entry))) = covered_secs c (fst entry)"
    by (cases entry) (auto simp: host_figures_def Let_def covered_secs_def planned_secs_def)
  moreover have "h_covered (fst (host_figures c entry)) = totalSeconds (snd (snd (host_figures c entry)))"
    by (cases entry) (simp add: host_figures_def Let_def)
  moreover have "h_maintenance (fst (host_figures c entry)) = int (card (planned_secs c (fst entry)))"
    by (cases entry) (simp add: host_figures_def Let_def planned_secs_def totalSeconds_card)
  ultimately show ?thesis by (simp add: totalSeconds_card)
qed

lemma host_down:
  assumes "events_sorted c"
  shows "secs (fst (snd (host_figures c entry))) = down_secs c entry"
proof -
  obtain hostid meta where e: "entry = (hostid, meta)" by (cases entry)
  have "secs (concat (map fst (map (trigger_outages c) (hm_triggers meta)))) =
      {t. c_from c \<le> t \<and> t < c_endClip c \<and> (\<exists>tr \<in> set (hm_triggers meta). in_problem c tr t)}"
    using replayed_secs [OF assms] by (auto simp: secs_concat)
  moreover have "fst (snd (host_figures c entry)) =
      intersectIntervals (intersectIntervals (mergeIntervals (concat (map fst (map (trigger_outages c) (hm_triggers meta)))))
        (snd (snd (host_figures c entry)))) (outsideDeclared c)"
    by (simp add: host_figures_def Let_def e)
  ultimately show ?thesis using host_covered [of c entry]
    by (auto simp: down_secs_def e covered_secs_def)
qed

lemma host_down_total: "h_downtime (fst (host_figures c entry)) = totalSeconds (fst (snd (host_figures c entry)))"
  by (cases entry) (simp add: host_figures_def Let_def)

lemma host_down_within: "secs (fst (snd (host_figures c entry))) \<subseteq> secs (snd (snd (host_figures c entry)))"
  by (cases entry) (auto simp: host_figures_def Let_def)

lemma host_covered_window:
  assumes "c_from c \<le> c_end c"
  shows "h_covered (fst (host_figures c entry)) \<le> (c_end c - c_from c) - h_maintenance (fst (host_figures c entry)) \<and>
    (\<not> strict c \<longrightarrow> h_covered (fst (host_figures c entry)) = (c_end c - c_from c) - h_maintenance (fst (host_figures c entry)))"
proof -
  let ?w = "{c_from c..<c_end c}" and ?p = "planned_secs c (fst entry)"
  have "card (?w - ?p) = card ?w - card ?p" by (rule card_Diff_subset) (auto simp: planned_secs_def)
  moreover have "card ?p \<le> card ?w" by (rule card_mono) (auto simp: planned_secs_def)
  ultimately have rest: "int (card (?w - ?p)) = (c_end c - c_from c) - int (card ?p)" using assms by simp
  have "card (covered_secs c (fst entry)) \<le> card (?w - ?p)" by (rule card_mono) (auto simp: covered_secs_def)
  moreover have "\<not> strict c \<Longrightarrow> covered_secs c (fst entry) = ?w - ?p" by (simp add: covered_secs_def)
  ultimately show ?thesis using host_covered [of c entry] rest by simp
qed

lemma host_down_le: "0 \<le> h_downtime (fst (host_figures c entry))" "h_downtime (fst (host_figures c entry)) \<le> h_covered (fst (host_figures c entry))"
proof -
  show "0 \<le> h_downtime (fst (host_figures c entry))" by (simp add: host_down_total iv.total_nonneg)
  have "totalSeconds (fst (snd (host_figures c entry))) \<le> totalSeconds (snd (snd (host_figures c entry)))"
    by (rule iv.total_mono) (rule host_down_within)
  then show "h_downtime (fst (host_figures c entry)) \<le> h_covered (fst (host_figures c entry))"
    using host_covered [of c entry] by (simp add: host_down_total totalSeconds_card)
qed

text \<open>The percentage is the share of the measured seconds that are not down; \<open>Math.max(0, ...)\<close> never bites.\<close>

definition share_ok :: "rat option \<Rightarrow> int \<Rightarrow> int \<Rightarrow> bool" where
  "share_ok sli downtime covered \<longleftrightarrow>
     (\<forall>s. sli = Some s \<longrightarrow> 0 < covered \<and> s = 100 * (1 - of_int downtime / of_int covered) \<and> 0 \<le> s \<and> s \<le> 100)"

lemma share_okI: "0 \<le> d \<Longrightarrow> d \<le> n \<Longrightarrow> 0 < n \<Longrightarrow> share_ok (Some (max 0 (100 * (1 - of_int d / of_int n)))) d n"
proof -
  assume d: "0 \<le> d" "d \<le> n" "0 < n"
  define q where "q = (of_int d / of_int n :: rat)"
  have "0 \<le> q" "q \<le> 1" using d by (simp_all add: q_def divide_le_eq)
  then show ?thesis using d(3) by (simp add: share_ok_def flip: q_def)
qed

lemma share_ok_None [simp]: "share_ok None d n"
  by (simp add: share_ok_def)

lemma host_share:
  assumes "c_from c \<le> c_end c"
  shows "share_ok (h_sli (fst (host_figures c entry))) (h_downtime (fst (host_figures c entry))) (h_covered (fst (host_figures c entry)))"
proof -
  obtain hostid meta where e: "entry = (hostid, meta)" by (cases entry)
  define n where "n = (if strict c then h_covered (fst (host_figures c entry))
     else (c_end c - c_from c) - h_maintenance (fst (host_figures c entry)))"
  have n: "n = h_covered (fst (host_figures c entry))" using host_covered_window [OF assms, of entry] by (simp add: n_def)
  have "h_sli (fst (host_figures c entry)) = None \<or>
     (0 < n \<and> h_sli (fst (host_figures c entry)) = Some (max 0 (100 * (1 - of_int (h_downtime (fst (host_figures c entry))) / of_int n))))"
    unfolding n_def by (simp add: host_figures_def Let_def e)
  then show ?thesis using share_okI [of _ n] host_down_le [of c entry] n by auto
qed

subsection \<open>Groups share the hosts out\<close>

definition bucket_hosts :: "(string, string \<times> sli_host list) table \<Rightarrow> sli_host list" where
  "bucket_hosts t = concat (map (\<lambda>p. snd (snd p)) t)"

lemma bucket_set_present:
  "table_get t k = Some (n, xs) \<Longrightarrow> mset (bucket_hosts (table_set k (n', xs @ [h]) t)) = add_mset h (mset (bucket_hosts t))"
  by (induction t) (auto simp: bucket_hosts_def)

lemma bucket_add: "mset (bucket_hosts (add_bucket keyOf nameOf h t)) = add_mset h (mset (bucket_hosts t))"
proof (cases "table_get t (keyOf h)")
  case None
  then have "keyOf h \<notin> set (table_keys t)" by (simp add: map_of_eq_None_iff)
  then have "table_set (keyOf h) (nameOf (keyOf h) h, [h]) t = t @ [(keyOf h, nameOf (keyOf h) h, [h])]" by (rule table_set_fresh)
  then show ?thesis using None by (simp add: add_bucket_def Let_def bucket_hosts_def)
next
  case (Some b)
  then show ?thesis using bucket_set_present [of t "keyOf h" "fst b" "snd b"] by (simp add: add_bucket_def Let_def)
qed

lemma buckets_partition: "mset (bucket_hosts (fold (add_bucket keyOf nameOf) hosts t)) = mset (bucket_hosts t) + mset hosts"
  by (induction hosts arbitrary: t) (simp_all add: bucket_add)

definition keyed :: "(sli_host \<Rightarrow> string) \<Rightarrow> (string, string \<times> sli_host list) table \<Rightarrow> bool" where
  "keyed keyOf t \<longleftrightarrow> wf_table t \<and> (\<forall>k n hs. (k, n, hs) \<in> set t \<longrightarrow> hs \<noteq> [] \<and> (\<forall>h \<in> set hs. keyOf h = k))"

lemma set_table_set: "p \<in> set (table_set k v t) \<Longrightarrow> p = (k, v) \<or> p \<in> set t"
  by (induction t) (auto split: if_splits)

lemma keyed_add:
  assumes "keyed keyOf t"
  shows "keyed keyOf (add_bucket keyOf nameOf h t)"
proof -
  have "\<forall>x \<in> set (case table_get t (keyOf h) of Some b \<Rightarrow> snd b | None \<Rightarrow> []). keyOf x = keyOf h"
  proof (cases "table_get t (keyOf h)")
    case (Some b)
    then have "(keyOf h, fst b, snd b) \<in> set t" by (simp add: table_get_in_set)
    then have "\<forall>x \<in> set (snd b). keyOf x = keyOf h" using assms unfolding keyed_def by blast
    then show ?thesis using Some by simp
  qed simp
  then show ?thesis using assms
    by (auto simp: keyed_def add_bucket_def Let_def wf_table_set dest!: set_table_set split: option.splits) blast+
qed

lemma keyed_buckets: "keyed keyOf t \<Longrightarrow> keyed keyOf (fold (add_bucket keyOf nameOf) hosts t)"
  by (induction hosts arbitrary: t) (simp_all add: keyed_add)

lemma sum_concat_map: "sum_list (map f (concat xss)) = sum_list (map (\<lambda>xs. sum_list (map f xs)) xss)"
  for f :: "'a \<Rightarrow> int"
  by (induction xss) auto

lemma sum_mset_cong: "mset xs = mset ys \<Longrightarrow> sum_list (map f xs) = sum_list (map f ys)" for f :: "'a \<Rightarrow> int"
  by (metis mset_map sum_mset_sum_list)

definition groups_ok :: "sli_host list \<Rightarrow> sli_group list \<Rightarrow> bool" where
  "groups_ok hosts gs \<longleftrightarrow> distinct (map g_key gs) \<and> sum_list (map g_hosts gs) = length hosts \<and>
     sum_list (map g_downtime gs) = sum_list (map h_downtime hosts) \<and>
     (\<forall>g \<in> set gs. 0 < g_hosts g \<and> g_withData g \<le> g_hosts g)"

lemma aggregate_simps [simp]: "g_key (aggregate k n hs t) = k" "g_hosts (aggregate k n hs t) = length hs"
  "g_downtime (aggregate k n hs t) = sum_list (map h_downtime hs)"
  "g_withData (aggregate k n hs t) = length (filter (\<lambda>h. h_sli h \<noteq> None) hs)"
  by (simp_all add: aggregate_def Let_def)

lemma group_hosts_ok: "groups_ok hosts (group_hosts keyOf nameOf target hosts)"
proof -
  define b where "b = fold (add_bucket keyOf nameOf) hosts []"
  have part: "mset (bucket_hosts b) = mset hosts" using buckets_partition [of keyOf nameOf hosts "[]"] by (simp add: b_def bucket_hosts_def)
  have key: "keyed keyOf b" unfolding b_def by (rule keyed_buckets) (simp add: keyed_def)
  have gs: "group_hosts keyOf nameOf target hosts = map (\<lambda>(k, nm, hs). aggregate k nm hs target) b"
    by (simp add: group_hosts_def b_def)
  have "sum_list (map g_hosts (group_hosts keyOf nameOf target hosts)) = length (bucket_hosts b)"
    by (simp add: gs bucket_hosts_def length_concat o_def case_prod_beta)
  also have "\<dots> = length hosts" using part by (metis size_mset)
  finally have n: "sum_list (map g_hosts (group_hosts keyOf nameOf target hosts)) = length hosts" .
  have "sum_list (map g_downtime (group_hosts keyOf nameOf target hosts)) = sum_list (map h_downtime (bucket_hosts b))"
    by (simp add: gs bucket_hosts_def sum_concat_map o_def case_prod_beta)
  also have "\<dots> = sum_list (map h_downtime hosts)" using part by (rule sum_mset_cong)
  finally have d: "sum_list (map g_downtime (group_hosts keyOf nameOf target hosts)) = sum_list (map h_downtime hosts)" .
  have "map g_key (group_hosts keyOf nameOf target hosts) = table_keys b"
    by (simp add: gs o_def case_prod_beta)
  then have "distinct (map g_key (group_hosts keyOf nameOf target hosts))"
    using key by (simp add: keyed_def wf_table_def)
  moreover have "\<forall>g \<in> set (group_hosts keyOf nameOf target hosts). 0 < g_hosts g \<and> g_withData g \<le> g_hosts g"
    using key unfolding gs by (auto simp: keyed_def)
  ultimately show ?thesis using n d by (simp add: groups_ok_def)
qed

lemma groups_ok_sort: "groups_ok hosts gs \<Longrightarrow> groups_ok hosts (js_sort cmp gs)"
  by (simp add: groups_ok_def)

subsection \<open>The report\<close>

lemma sli_window_ok: "sli_window cfg now mon a b = Inr (from, to) \<Longrightarrow> from < to \<and> from \<le> now \<and> now - 400 * 86400 \<le> from"
  by (auto simp: sli_window_def and_then_Inr split: option.splits prod.splits if_splits sum.splits)

lemma computeSli_shape:
  assumes "computeSli cfg collate z now prof mon reqFrom reqTo = Inr r"
  shows "\<exists>c hostMeta web gaps declared to. r = assemble cfg collate c hostMeta web gaps declared prof mon to now \<and>
     c_from c \<le> c_end c \<and> c_from c < to \<and> c_end c = min to now \<and> (strict c \<longleftrightarrow> prof = Availability)"
proof -
  obtain a to where w: "sli_window cfg now mon reqFrom reqTo = Inr (a, to)"
    using assms by (auto simp: computeSli_def and_then_Inr)
  obtain hostMeta events firstLater coverage planned parents items web where
    "r = assemble cfg collate (sli_context cfg (prof = Availability) a (min to now)
          (if \<not> (prof = Availability) \<and> to \<le> now then to - 1 else min to now)
          (mergeIntervals (clipIntervals (cf_noDataWindows cfg) a (min to now))) events firstLater coverage planned parents items)
        hostMeta web (snd coverage) (mergeIntervals (clipIntervals (cf_noDataWindows cfg) a (min to now))) prof mon to now"
    using assms unfolding computeSli_def w and_then.simps prod.case Let_def and_then_Inr by fastforce
  then show ?thesis using sli_window_ok [OF w]
    by (intro exI conjI) (assumption, simp_all add: sli_context_def)
qed

definition host_ok :: "int \<Rightarrow> bool \<Rightarrow> sli_host \<Rightarrow> bool" where
  "host_ok window strct h \<longleftrightarrow>
     h_window h = window \<and> 0 \<le> h_downtime h \<and> h_downtime h \<le> h_covered h \<and> 0 \<le> h_maintenance h \<and>
     h_covered h \<le> window - h_maintenance h \<and> (\<not> strct \<longrightarrow> h_covered h = window - h_maintenance h) \<and>
     share_ok (h_sli h) (h_downtime h) (h_covered h)"

lemma host_figures_ok: "c_from c \<le> c_end c \<Longrightarrow> host_ok (c_end c - c_from c) (strict c) (fst (host_figures c entry))"
proof -
  assume le: "c_from c \<le> c_end c"
  have "h_window (fst (host_figures c entry)) = c_end c - c_from c"
    by (cases entry) (simp add: host_figures_def Let_def)
  moreover have "0 \<le> h_maintenance (fst (host_figures c entry))" using host_covered [of c entry] by simp
  ultimately show ?thesis
    using host_down_le [of c entry] host_covered_window [OF le, of entry] host_share [OF le, of entry]
    by (simp add: host_ok_def)
qed

lemma aggregate_share:
  assumes "\<forall>h \<in> set hs. host_ok w st h" "g_sli (aggregate k n hs t) = Some s"
  shows "0 \<le> s \<and> s \<le> 100"
proof (rule mean_bounds)
  show "mean (map (\<lambda>h. the (h_sli h)) (filter (\<lambda>h. h_sli h \<noteq> None) hs)) = Some s"
    using assms(2) by (simp add: aggregate_def Let_def)
  show "\<forall>x \<in> set (map (\<lambda>h. the (h_sli h)) (filter (\<lambda>h. h_sli h \<noteq> None) hs)). 0 \<le> x \<and> x \<le> 100"
    using assms(1) by (auto simp: host_ok_def share_ok_def)
qed

lemma order_hosts_consistent: "consistent collate \<Longrightarrow> consistent (order_hosts collate)"
proof -
  assume "consistent collate"
  then have c: "consistent (\<lambda>a b. collate (h_name a) (h_name b))" unfolding consistent_def by blast
  show ?thesis
    using consistent_or_else [OF consistent_or_else [OF c, of "\<lambda>h. case h_sli h of Some s \<Rightarrow> s | None \<Rightarrow> 0"], of "\<lambda>h. h_sli h = None"]
    by (simp add: order_hosts_def [abs_def])
qed

text \<open>Worst first, the hosts without a figure last.\<close>

definition worst_first :: "sli_host list \<Rightarrow> bool" where
  "worst_first hs \<longleftrightarrow> sorted_wrt (\<lambda>a b. h_sli b = None \<or> (\<exists>x y. h_sli a = Some x \<and> h_sli b = Some y \<and> x \<le> y)) hs"

lemma worst_first_sorted: "consistent collate \<Longrightarrow> worst_first (js_sort (order_hosts collate) hs)"
  unfolding worst_first_def
  by (rule sorted_wrt_mono_rel [OF _ sorted_js_sort [OF order_hosts_consistent]])
     (auto simp: order_hosts_def or_else_signs split: option.splits)

lemma secs_legs_common:
  "rows \<noteq> [] \<Longrightarrow> secs (legs_common t rows) = (\<Inter>l \<in> set rows. secs (table_list t (h_hostid l)))"
proof -
  assume "rows \<noteq> []"
  then obtain l ls where r: "rows = l # ls" by (cases rows) auto
  have "secs (foldl (\<lambda>iv leg. intersectIntervals iv (table_list t (h_hostid leg))) iv ls) =
      secs iv \<inter> (\<Inter>l \<in> set ls. secs (table_list t (h_hostid l)))" for iv
    by (induction ls arbitrary: iv) auto
  then show ?thesis by (simp add: r legs_common_def)
qed

subsection \<open>Properties\<close>

text \<open>
  C1. The downtime of a host counts exactly the right seconds. With each trigger's events in clock order,
  it is the number of seconds of the measured window in which at least one of the host's triggers is
  in problem (by its last event so far, or by the state it had when the window opened), that are
  outside planned maintenance and outside the declared spans and, in the strict profile, inside the
  hours in which the host's ICMP was collected. A second in problem on two triggers counts once.
\<close>

theorem host_downtime_exact:
  assumes "\<forall>k. sorted (map ev_clock (table_list (eventsByTrigger c) k))"
  shows "h_downtime (fst (host_figures c (hostid, meta))) = int (card {t.
      c_from c \<le> t \<and> t < c_end c \<and> t < c_endClip c \<and>
      t \<notin> secs (table_list (maintenance_of c) hostid) \<and> t \<in> secs (outsideDeclared c) \<and>
      (strict c \<longrightarrow> t \<in> secs (table_list (coverage_of c) hostid)) \<and>
      (\<exists>tr \<in> set (hm_triggers meta). in_problem c tr t)})"
proof -
  have "down_secs c (hostid, meta) = {t. c_from c \<le> t \<and> t < c_end c \<and> t < c_endClip c \<and>
      t \<notin> secs (table_list (maintenance_of c) hostid) \<and> t \<in> secs (outsideDeclared c) \<and>
      (strict c \<longrightarrow> t \<in> secs (table_list (coverage_of c) hostid)) \<and>
      (\<exists>tr \<in> set (hm_triggers meta). in_problem c tr t)}"
    by (auto simp: down_secs_def covered_secs_def planned_secs_def)
  then show ?thesis
    using host_down [of c "(hostid, meta)"] assms by (simp add: host_down_total totalSeconds_card events_sorted_def)
qed

definition sample_ctx :: sli_ctx where
  "sample_ctx = \<lparr>strict = False, c_from = 0, c_end = 100, c_endClip = 100, outsideDeclared = [(0, 100)],
     eventsByTrigger = [(''t'', [\<lparr>ev_clock = 10, ev_value = 1\<rparr>, \<lparr>ev_clock = 30, ev_value = 0\<rparr>])], later_values = [],
     coverage_of = [], maintenance_of = [(''h'', [(20, 25)])], categoryByHost = [], icmpByHost = [], estateSeconds = 100,
     c_target = 99, c_minCoverage = 1 / 2\<rparr>"

definition sample_meta :: host_meta where
  "sample_meta = \<lparr>hm_name = ''x'', hm_status = ''0'',
     hm_triggers = [\<lparr>zt_triggerid = ''t'', zt_state = \<lparr>tr_value = ''0'', tr_lastchange = 30\<rparr>, zt_hosts = []\<rparr>]\<rparr>"

lemma host_downtime_exact_witness:
  "h_downtime (fst (host_figures sample_ctx (''h'', sample_meta))) = 15"
proof -
  have "{t. c_from sample_ctx \<le> t \<and> t < c_end sample_ctx \<and> t < c_endClip sample_ctx \<and>
      t \<notin> secs (table_list (maintenance_of sample_ctx) ''h'') \<and> t \<in> secs (outsideDeclared sample_ctx) \<and>
      (strict sample_ctx \<longrightarrow> t \<in> secs (table_list (coverage_of sample_ctx) ''h'')) \<and>
      (\<exists>tr \<in> set (hm_triggers sample_meta). in_problem sample_ctx tr t)} = {10..<20} \<union> {25..<30}"
    by (auto simp: sample_ctx_def sample_meta_def in_problem_def problem_at_def initialState_def Let_def split: if_splits)
  moreover have "card ({10..<20} \<union> {25..<30::int}) = 15" by (subst card_Un_disjoint) auto
  ultimately show ?thesis
    using host_downtime_exact [of sample_ctx "''h''" sample_meta] by (simp add: sample_ctx_def)
qed

text \<open>
  C11. The figures of a report are consistent, whatever Zabbix answers. For every host the downtime is
  at most the covered time and that at most the window less its maintenance (and equal to it in HCML's
  profile); a percentage is exactly \<open>100 (1 - downtime / covered)\<close> and between 0 and 100, so the
  clamp in the code never acts. The overall figure lies between 0 and 100, the three groupings each
  share out all hosts and all downtime with distinct keys and no empty group, and with a collator
  that orders consistently the hosts stand worst first, those without a figure last.
\<close>

theorem report_figures_consistent:
  assumes "computeSli cfg collate z now prof mon reqFrom reqTo = Inr r" "consistent collate"
  shows "(\<forall>h \<in> set (r_hosts r). host_ok (r_end r - r_from r) (prof = Availability) h) \<and>
    (\<forall>s. g_sli (r_overall r) = Some s \<longrightarrow> 0 \<le> s \<and> s \<le> 100) \<and>
    groups_ok (r_hosts r) (r_categories r) \<and> groups_ok (r_hosts r) (r_sites r) \<and> groups_ok (r_hosts r) (r_classes r) \<and>
    worst_first (r_hosts r) \<and> r_from r < r_to r \<and> r_end r = min (r_to r) now \<and> r_from r \<le> r_end r"
proof -
  obtain c hostMeta web gaps declared to where r: "r = assemble cfg collate c hostMeta web gaps declared prof mon to now"
    and c: "c_from c \<le> c_end c" "c_from c < to" "c_end c = min to now" "strict c \<longleftrightarrow> prof = Availability"
    using computeSli_shape [OF assms(1)] by blast
  define rows where "rows = map (host_figures c) hostMeta"
  have hosts: "r_hosts r = js_sort (order_hosts collate) (map fst rows)"
    by (simp add: r assemble_def Let_def rows_def)
  have ok: "\<forall>h \<in> set (r_hosts r). host_ok (c_end c - c_from c) (strict c) h"
    using host_figures_ok [OF c(1)] by (auto simp: hosts rows_def)
  have "r_overall r = aggregate ''overall'' ''HCML estate'' (r_hosts r) (cf_target cfg)"
    by (simp add: r assemble_def Let_def)
  then have "\<forall>s. g_sli (r_overall r) = Some s \<longrightarrow> 0 \<le> s \<and> s \<le> 100" using aggregate_share [OF ok] by auto
  moreover have "groups_ok (r_hosts r) (r_categories r) \<and> groups_ok (r_hosts r) (r_sites r) \<and> groups_ok (r_hosts r) (r_classes r)"
    by (simp add: r assemble_def Let_def groups_ok_sort group_hosts_ok)
  moreover have "r_end r = c_end c" "r_from r = c_from c" "r_to r = to" by (simp_all add: r assemble_def Let_def)
  ultimately show ?thesis using ok c worst_first_sorted [OF assms(2)] by (simp add: hosts)
qed

definition quiet_reads :: sla_reads where
  "quiet_reads = \<lparr>trigger_get = \<lambda>_. Inr [\<lparr>zt_triggerid = ''t'', zt_state = \<lparr>tr_value = ''0'', tr_lastchange = 0\<rparr>, zt_hosts = [(''h'', ''x'', ''0'')]\<rparr>],
     parents_get = \<lambda>_. Inr [], icmp_get = \<lambda>_. Inr [], events_get = \<lambda>_ _ _. Inr [], maintenance_get = Inr [],
     hostgroup_get = \<lambda>_. Inr [], trends_get = \<lambda>_ _ _. Inr [], history_get = \<lambda>_ _ _. Inr [], web_host_get = Inr [],
     web_item_get = \<lambda>_. Inr [], web_history_get = \<lambda>_ _ _. Inr []\<rparr>"

definition plain_config :: sla_config where
  "plain_config = \<lparr>cf_target = 99, cf_zone = \<lambda>_. 25200, cf_timezone = ''Asia/Jakarta'', cf_reportTriggers = [''High ICMP ping loss''],
     cf_availabilityTriggers = [''Unavailable by ICMP ping''], cf_minCoverage = 1 / 2, cf_noDataWindows = []\<rparr>"

lemma report_figures_consistent_witness:
  "\<exists>r. computeSli plain_config (\<lambda>a b. 0) quiet_reads 2000 HcmlReport None (Some 0) (Some 1000) = Inr r \<and>
     worst_first (r_hosts r) \<and> groups_ok (r_hosts r) (r_sites r)"
proof -
  have "\<exists>r. computeSli plain_config (\<lambda>a b. 0) quiet_reads 2000 HcmlReport None (Some 0) (Some 1000) = Inr r"
    by (simp add: computeSli_def sli_window_def quiet_reads_def plain_config_def Let_def add_trigger_def maintenanceByHost_def js_set_def)
  then show ?thesis using report_figures_consistent [OF _ , of plain_config "\<lambda>a b. 0"] by (fastforce simp: consistent_def)
qed

text \<open>
  A redundant WAN path is down only while every leg is: its downtime is the number of seconds in
  which all its legs are down, so never more than that of any leg, and its covered time in the
  strict profile likewise the seconds in which all legs are measured.
\<close>

theorem wan_path_needs_all_legs:
  assumes "rows \<noteq> []"
  shows "p_downtime (wan_path_row collate down covered window strct estate (path, rows)) =
      int (card (\<Inter>l \<in> set rows. secs (table_list down (h_hostid (fst l))))) \<and>
    (\<forall>l \<in> set rows. p_downtime (wan_path_row collate down covered window strct estate (path, rows))
        \<le> totalSeconds (table_list down (h_hostid (fst l)))) \<and>
    length (p_legs (wan_path_row collate down covered window strct estate (path, rows))) = length rows"
proof -
  define row where "row = wan_path_row collate down covered window strct estate (path, rows)"
  have d: "p_downtime row = totalSeconds (legs_common down (map fst rows))"
    by (simp add: row_def wan_path_row_def Let_def)
  have s: "secs (legs_common down (map fst rows)) = (\<Inter>l \<in> set rows. secs (table_list down (h_hostid (fst l))))"
    using assms by (simp add: secs_legs_common)
  have "totalSeconds (legs_common down (map fst rows)) \<le> totalSeconds (table_list down (h_hostid (fst l)))"
    if "l \<in> set rows" for l
    by (rule iv.total_mono) (use s that in auto)
  moreover have "length (p_legs row) = length rows" by (simp add: row_def wan_path_row_def Let_def)
  ultimately show ?thesis using s by (simp add: d totalSeconds_card flip: row_def)
qed

definition sample_leg :: "string \<Rightarrow> sli_host" where
  "sample_leg hostid = fst (host_figures sample_ctx (hostid, sample_meta))"

lemma wan_path_needs_all_legs_witness:
  "p_downtime (wan_path_row (\<lambda>a b. 0) [(''1'', [(0, 10)]), (''2'', [(5, 20)])] [] 100 False 100
      (''A'', [(sample_leg ''1'', ''1''), (sample_leg ''2'', ''2'')])) = 5"
proof -
  have "h_hostid (sample_leg i) = i" for i by (simp add: sample_leg_def host_figures_def Let_def)
  moreover have "{0..<10} \<inter> {5..<20} = {5..<10::int}" by auto
  ultimately show ?thesis
    using wan_path_needs_all_legs [of "[(sample_leg ''1'', ''1''), (sample_leg ''2'', ''2'')]" "\<lambda>a b. 0"
        "[(''1'', [(0, 10)]), (''2'', [(5, 20)])]" "[]" 100 False 100 "''A''"]
    by simp
qed

end
