(* ===== verification/ServiceTree.thy ===== *)
theory ServiceTree
  imports JsText
begin

text \<open>
  The service tree (\<open>server/src/services/services.ts\<close>): Zabbix's services, which form a graph, unfolded into a
  tree with the worst status and the number of distinct services below each node. \<open>service.get\<close>,
  \<open>sla.get\<close> and \<open>sla.getsli\<close> are parameters, and so is \<open>localeCompare\<close>, as \<open>collate\<close>. Statuses and sort orders
  are whole numbers in decimal text.
\<close>

subsection \<open>Data\<close>

record problem_event =
  pe_eventid :: string
  pe_name :: string
  pe_severity :: string

record service =
  sv_serviceid :: string
  sv_name :: string
  sv_status :: string
  sv_algorithm :: string
  sv_sortorder :: string
  sv_description :: "string option"
  sv_parents :: "string list option"
  sv_children :: "string list option"
  sv_tags :: "(string \<times> string) list option"
  sv_problem_events :: "problem_event list option"

record service_sla =
  sla_slaid :: string
  sla_name :: string
  sla_slo :: rat
  sla_sli :: rat
  sla_errorBudget :: rat
  sla_meeting :: bool

record node_info =
  nd_serviceid :: string
  nd_name :: string
  nd_status :: int
  nd_algorithm :: string
  nd_description :: "string option"
  nd_tags :: "(string \<times> string) list"
  nd_problems :: "problem_event list"
  nd_sla :: "service_sla option"
  nd_worst :: int
  nd_descendants :: nat

datatype 'i tree_node = Node (info: 'i) (kids: "'i tree_node list")

record services_response =
  sr_tree :: "node_info tree_node list"
  sr_total :: nat
  sr_degraded :: nat
  sr_worst :: int

definition MAX_DEPTH :: nat where "MAX_DEPTH = 12"

subsection \<open>The SLA of each service\<close>

record sla_row =
  sl_slaid :: string
  sl_name :: string
  sl_slo :: string

text \<open>One answer of \<open>sla.getsli\<close> for the current period: the ids, as text, and the figures beside them, absent where the row is short.\<close>

record sli_answer =
  an_serviceids :: "string list"
  an_row :: "(rat \<times> rat) list"

definition slo_number :: "string \<Rightarrow> rat" where
  "slo_number s = (case js_number s of Num q \<Rightarrow> q | _ \<Rightarrow> 0)"

definition add_sla :: "sla_row \<Rightarrow> sli_answer \<Rightarrow> nat \<Rightarrow> (string, service_sla) table \<Rightarrow> (string, service_sla) table" where
  "add_sla sla answer i out =
     (let serviceid = an_serviceids answer ! i in
      if table_get out serviceid \<noteq> None then out
      else (let slo = slo_number (sl_slo sla);
                (achieved, budget) = (if i < length (an_row answer) then an_row answer ! i else (0, 0))
            in table_set serviceid \<lparr>sla_slaid = sl_slaid sla, sla_name = sl_name sla, sla_slo = slo, sla_sli = achieved,
                                     sla_errorBudget = budget, sla_meeting = (achieved \<ge> slo)\<rparr> out))"

definition add_answer :: "sla_row \<times> sli_answer \<Rightarrow> (string, service_sla) table \<Rightarrow> (string, service_sla) table" where
  "add_answer p out = fold (add_sla (fst p) (snd p)) [0..<length (an_serviceids (snd p))] out"

fun all_of :: "('e + 'a) list \<Rightarrow> 'e + 'a list" where
  "all_of [] = Inr []"
| "all_of (r # rs) = and_then r (\<lambda>x. and_then (all_of rs) (\<lambda>xs. Inr (x # xs)))"

definition slaByService :: "'e + sla_row list \<Rightarrow> (string \<Rightarrow> 'e + sli_answer) \<Rightarrow> 'e + (string, service_sla) table" where
  "slaByService sla_get sla_getsli =
     and_then sla_get (\<lambda>slas.
     and_then (all_of (map (\<lambda>s. sla_getsli (sl_slaid s)) slas)) (\<lambda>slis.
       Inr (fold add_answer (zip slas slis) [])))"

subsection \<open>The tree\<close>

definition status_of :: "service \<Rightarrow> int" where
  "status_of s = num0 (Some (sv_status s))"

definition service_order :: "(string \<Rightarrow> string \<Rightarrow> int) \<Rightarrow> service \<Rightarrow> service \<Rightarrow> int" where
  "service_order collate a b =
     or_else (compare (num0 (Some (sv_sortorder a))) (num0 (Some (sv_sortorder b)))) (collate (sv_name a) (sv_name b))"

definition leaf_info :: "(string, service_sla) table \<Rightarrow> service \<Rightarrow> node_info" where
  "leaf_info slas s =
     \<lparr>nd_serviceid = sv_serviceid s, nd_name = sv_name s, nd_status = status_of s, nd_algorithm = sv_algorithm s,
      nd_description = (case sv_description s of Some d \<Rightarrow> if d = [] then None else Some d | None \<Rightarrow> None),
      nd_tags = or_nil (sv_tags s), nd_problems = or_nil (sv_problem_events s), nd_sla = table_get slas (sv_serviceid s),
      nd_worst = status_of s, nd_descendants = 0\<rparr>"

text \<open>The children to descend into: known services that are not on the path already.\<close>

definition kids_of :: "(string \<Rightarrow> string \<Rightarrow> int) \<Rightarrow> (string, service) table \<Rightarrow> string list \<Rightarrow> service \<Rightarrow> service list" where
  "kids_of collate byId nextPath s =
     js_sort (service_order collate)
       (filter (\<lambda>c. sv_serviceid c \<notin> set nextPath) (List.map_filter (table_get byId) (or_nil (sv_children s))))"

text \<open>\<open>left\<close> is \<open>MAX_DEPTH - depth\<close>. The second result is the list of the distinct ids below the node.\<close>

fun build_node ::
  "(string \<Rightarrow> string \<Rightarrow> int) \<Rightarrow> (string, service_sla) table \<Rightarrow> (string, service) table \<Rightarrow> nat \<Rightarrow> string list \<Rightarrow> service
     \<Rightarrow> node_info tree_node \<times> string list" where
  "build_node collate slas byId 0 path s = (Node (leaf_info slas s) [], [])"
| "build_node collate slas byId (Suc left) path s =
     (let nextPath = path @ [sv_serviceid s];
          built = map (build_node collate slas byId left nextPath) (kids_of collate byId nextPath s);
          below = js_set (concat (map (\<lambda>(child, ids). nd_serviceid (info child) # ids) built));
          worst = foldl (\<lambda>w (child, ids). max w (nd_worst (info child))) (status_of s) built
      in (Node ((leaf_info slas s)\<lparr>nd_worst := worst, nd_descendants := length below\<rparr>) (map fst built), below))"

definition service_index :: "service list \<Rightarrow> (string, service) table" where
  "service_index services = fold (\<lambda>s. table_set (sv_serviceid s) s) services []"

definition getServiceTree ::
  "(string \<Rightarrow> string \<Rightarrow> int) \<Rightarrow> 'e + service list \<Rightarrow> 'e + sla_row list \<Rightarrow> (string \<Rightarrow> 'e + sli_answer) \<Rightarrow> 'e + services_response" where
  "getServiceTree collate service_get sla_get sla_getsli =
     and_then service_get (\<lambda>services.
     and_then (slaByService sla_get sla_getsli) (\<lambda>slas.
       (let roots = js_sort (service_order collate) (filter (\<lambda>s. or_nil (sv_parents s) = []) services)
        in Inr \<lparr>sr_tree = map (\<lambda>r. fst (build_node collate slas (service_index services) MAX_DEPTH [] r)) roots,
                sr_total = length services,
                sr_degraded = length (filter (\<lambda>s. status_of s \<ge> 0) services),
                sr_worst = foldl (\<lambda>w s. max w (status_of s)) (-1) services\<rparr>)))"

subsection \<open>What holds of a tree\<close>

text \<open>All nodes of a subtree, the top one first; and the ids strictly below it.\<close>

fun nodes :: "'i tree_node \<Rightarrow> 'i tree_node list" where
  "nodes (Node i cs) = Node i cs # concat (map nodes cs)"

definition below_nodes :: "'i tree_node \<Rightarrow> 'i tree_node list" where
  "below_nodes n = concat (map nodes (kids n))"

fun height :: "'i tree_node \<Rightarrow> nat" where
  "height (Node i cs) = (if cs = [] then 0 else Suc (Max (set (map height cs))))"

definition counted :: "('a node_info_scheme) tree_node \<Rightarrow> bool" where
  "counted n \<longleftrightarrow> nd_worst (info n) = Max (set (map (\<lambda>m. nd_status (info m)) (nodes n))) \<and>
     nd_descendants (info n) = card (set (map (\<lambda>m. nd_serviceid (info m)) (below_nodes n)))"

text \<open>No service stands below itself.\<close>

fun loop_free :: "('a node_info_scheme) tree_node \<Rightarrow> bool" where
  "loop_free (Node i cs) \<longleftrightarrow> (\<forall>c \<in> set cs. nd_serviceid i \<notin> set (map (\<lambda>m. nd_serviceid (info m)) (nodes c)) \<and> loop_free c)"

lemma loop_free_kids:
  "loop_free n \<longleftrightarrow> (\<forall>c \<in> set (kids n). nd_serviceid (info n) \<notin> set (map (\<lambda>m. nd_serviceid (info m)) (nodes c)) \<and> loop_free c)"
  by (cases n) simp

lemma nodes_top: "nodes n = n # below_nodes n"
  by (cases n) (simp add: below_nodes_def)

lemma nodes_kids: "kids n = cs \<Longrightarrow> nodes n = n # concat (map nodes cs)"
  by (cases n) simp

lemma in_nodes_self: "n \<in> set (nodes n)"
  by (simp add: nodes_top)

lemma foldl_max: "foldl (\<lambda>w p. max w (f p)) (a::int) ps = Max (set (a # map f ps))"
proof (induction ps arbitrary: a)
  case (Cons p ps)
  have "Max (insert (max a (f p)) A) = Max (insert a (insert (f p) A))" if "finite A" for A
    using that by (cases "A = {}") (simp_all add: max.assoc)
  then show ?case using Cons by simp
qed simp

lemma length_js_set: "length (js_set xs) = card (set xs)"
  using distinct_card [OF distinct_js_set, of xs] by simp

text \<open>The worst of a node from the worsts of its children.\<close>

lemma Max_nodes:
  assumes "\<And>c. c \<in> set cs \<Longrightarrow> nd_worst (info c) = Max (set (map (\<lambda>m. nd_status (info m)) (nodes c)))"
  shows "Max (set (a # map (\<lambda>c. nd_worst (info c)) cs)) = Max (set (a # map (\<lambda>m. nd_status (info m)) (concat (map nodes cs))))"
  using assms
proof (induction cs)
  case (Cons c cs)
  let ?S = "\<lambda>n. set (map (\<lambda>m. nd_status (info m)) (nodes n))"
  let ?R = "set (map (\<lambda>m. nd_status (info m)) (concat (map nodes cs)))"
  have ih: "Max (insert a (set (map (\<lambda>c. nd_worst (info c)) cs))) = Max (insert a ?R)" using Cons by simp
  have ne: "?S c \<noteq> {}" "finite (?S c)" "finite ?R" by (simp_all add: nodes_top)
  have "Max (insert a (insert (nd_worst (info c)) (set (map (\<lambda>c. nd_worst (info c)) cs)))) = max (Max (?S c)) (Max (insert a ?R))"
    using Cons.prems [of c] ih by (simp add: insert_commute [of a] Max_insert)
  also have "\<dots> = Max (?S c \<union> insert a ?R)" using ne by (intro Max_Un [symmetric]) auto
  also have "?S c \<union> insert a ?R = insert a (?S c \<union> ?R)" by auto
  finally show ?case by simp
qed simp


subsection \<open>What the builder keeps\<close>

lemma build_node_info:
  "nd_serviceid (info (fst (build_node collate slas byId left path s))) = sv_serviceid s"
  "nd_status (info (fst (build_node collate slas byId left path s))) = status_of s"
  by (cases left; simp add: leaf_info_def Let_def)+

lemma build_node_height: "height (fst (build_node collate slas byId left path s)) \<le> left"
proof (induction left arbitrary: path s)
  case (Suc left)
  then show ?case by (auto simp: Let_def)
qed simp

lemma build_node_ids:
  "set (snd (build_node collate slas byId left path s)) =
     set (map (\<lambda>m. nd_serviceid (info m)) (below_nodes (fst (build_node collate slas byId left path s))))"
proof (induction left arbitrary: path s)
  case (Suc left)
  have top: "set (map (\<lambda>m. nd_serviceid (info m)) (nodes n)) = insert (nd_serviceid (info n)) (set (map (\<lambda>m. nd_serviceid (info m)) (below_nodes n)))"
    for n :: "node_info tree_node" by (simp add: nodes_top)
  have sub: "(\<lambda>m. nd_serviceid (info m)) ` set (nodes (fst (build_node collate slas byId left p k))) =
      insert (nd_serviceid (info (fst (build_node collate slas byId left p k)))) (set (snd (build_node collate slas byId left p k)))" for p k
    unfolding top [unfolded set_map] Suc.IH set_map ..
  show ?case by (simp add: Let_def below_nodes_def split_def image_UN sub)
qed (simp add: below_nodes_def)

lemma build_node_counted:
  "\<forall>n \<in> set (nodes (fst (build_node collate slas byId left path s))). counted n"
proof (induction left arbitrary: path s)
  case 0
  then show ?case by (simp add: counted_def leaf_info_def below_nodes_def)
next
  case (Suc left)
  define cs where "cs = map fst (map (build_node collate slas byId left (path @ [sv_serviceid s])) (kids_of collate byId (path @ [sv_serviceid s]) s))"
  have sub: "\<forall>c \<in> set cs. \<forall>n \<in> set (nodes c). counted n" using Suc by (auto simp: cs_def)
  let ?n = "fst (build_node collate slas byId (Suc left) path s)"
  have kids: "kids ?n = cs" by (simp add: Let_def cs_def)
  have "nd_worst (info ?n) = foldl (\<lambda>w p. max w (nd_worst (info (fst p)))) (status_of s)
      (map (build_node collate slas byId left (path @ [sv_serviceid s])) (kids_of collate byId (path @ [sv_serviceid s]) s))"
    by (simp add: Let_def split_def)
  also have "\<dots> = Max (set (status_of s # map (\<lambda>c. nd_worst (info c)) cs))"
    unfolding foldl_max by (simp add: cs_def image_image)
  also have "\<dots> = Max (set (status_of s # map (\<lambda>m. nd_status (info m)) (concat (map nodes cs))))"
    by (rule Max_nodes) (use sub in_nodes_self in \<open>auto simp: counted_def\<close>)
  also have "set (status_of s # map (\<lambda>m. nd_status (info m)) (concat (map nodes cs))) = set (map (\<lambda>m. nd_status (info m)) (nodes ?n))"
    unfolding nodes_kids [OF kids] list.map build_node_info ..
  finally have worst: "nd_worst (info ?n) = Max (set (map (\<lambda>m. nd_status (info m)) (nodes ?n)))" .
  have "nd_descendants (info ?n) = length (snd (build_node collate slas byId (Suc left) path s))"
    by (simp add: Let_def)
  also have "\<dots> = card (set (snd (build_node collate slas byId (Suc left) path s)))"
    by (simp add: Let_def length_js_set)
  finally have "counted ?n" unfolding counted_def build_node_ids using worst by blast
  then show ?case using sub unfolding nodes_kids [OF kids] by auto
qed

lemma build_node_path:
  "sv_serviceid s \<notin> set path \<Longrightarrow>
     (\<forall>m \<in> set (nodes (fst (build_node collate slas byId left path s))). nd_serviceid (info m) \<notin> set path) \<and>
     loop_free (fst (build_node collate slas byId left path s))"
proof (induction left arbitrary: path s)
  case (Suc left)
  let ?next = "path @ [sv_serviceid s]"
  have sub: "(\<forall>m \<in> set (nodes (fst (build_node collate slas byId left ?next k))). nd_serviceid (info m) \<notin> set ?next) \<and>
      loop_free (fst (build_node collate slas byId left ?next k))" if "k \<in> set (kids_of collate byId ?next s)" for k
    using that by (intro Suc.IH) (auto simp: kids_of_def)
  have free: "nd_serviceid (info m) \<noteq> sv_serviceid s" "nd_serviceid (info m) \<notin> set path"
    if "k \<in> set (kids_of collate byId ?next s)" "m \<in> set (nodes (fst (build_node collate slas byId left ?next k)))" for k m
    using sub [OF that(1)] that(2) by auto
  let ?n = "fst (build_node collate slas byId (Suc left) path s)"
  have ks: "kids ?n = map (\<lambda>k. fst (build_node collate slas byId left ?next k)) (kids_of collate byId ?next s)"
    by (simp add: Let_def o_def)
  have "\<forall>m \<in> set (nodes ?n). nd_serviceid (info m) \<notin> set path"
    unfolding nodes_kids [OF ks] using free(2) Suc.prems by (auto simp del: build_node.simps simp: build_node_info)
  moreover have "loop_free ?n"
  proof (rule loop_free_kids [THEN iffD2], intro ballI conjI)
    fix c assume "c \<in> set (kids ?n)"
    then obtain k where k: "k \<in> set (kids_of collate byId ?next s)" "c = fst (build_node collate slas byId left ?next k)"
      unfolding ks by auto
    show "loop_free c" using sub [OF k(1)] k(2) by blast
    show "nd_serviceid (info ?n) \<notin> set (map (\<lambda>m. nd_serviceid (info m)) (nodes c))"
      unfolding build_node_info using free(1) [OF k(1)] k(2) by force
  qed
  ultimately show ?case ..
qed (simp add: leaf_info_def)

text \<open>
  C29. The unfolded tree is finite and its figures are right, whatever graph Zabbix sends, cycles and shared
  services included. In every tree of the answer no branch is longer than twelve steps and no service
  stands below itself; and each node's \<open>worst\<close> is the highest status of its subtree, itself included, and
  its \<open>descendants\<close> the number of different services below it.
\<close>

theorem service_tree_is_sound:
  assumes "getServiceTree collate service_get sla_get sla_getsli = Inr r" "t \<in> set (sr_tree r)"
  shows "height t \<le> 12 \<and> loop_free t \<and>
     (\<forall>n \<in> set (nodes t). nd_worst (info n) = Max (set (map (\<lambda>m. nd_status (info m)) (nodes n))) \<and>
        nd_descendants (info n) = card (set (map (\<lambda>m. nd_serviceid (info m)) (below_nodes n))))"
proof -
  obtain slas byId s where t: "t = fst (build_node collate slas byId MAX_DEPTH [] s)"
    using assms by (auto simp: getServiceTree_def and_then_Inr Let_def)
  show ?thesis
    using build_node_height [of collate slas byId MAX_DEPTH "[]" s] build_node_path [of s "[]" collate slas byId MAX_DEPTH]
      build_node_counted [of collate slas byId MAX_DEPTH "[]" s]
    by (simp add: t MAX_DEPTH_def counted_def)
qed

definition sample_service :: "string \<Rightarrow> string \<Rightarrow> string list \<Rightarrow> string list \<Rightarrow> service" where
  "sample_service i st ps cs =
     \<lparr>sv_serviceid = i, sv_name = i, sv_status = st, sv_algorithm = ''1'', sv_sortorder = ''0'', sv_description = None,
      sv_parents = Some ps, sv_children = Some cs, sv_tags = None, sv_problem_events = None\<rparr>"

lemma service_tree_is_sound_witness:
  "\<exists>r t. getServiceTree (\<lambda>a b. 0) (Inr [sample_service ''1'' ''-1'' [] [''2''], sample_service ''2'' ''4'' [''1''] [''2'', ''1'']] :: unit + service list)
       (Inr []) (\<lambda>_. Inl ()) = Inr r \<and> sr_tree r = [t] \<and> loop_free t \<and> height t \<le> 12"
proof -
  let ?sg = "Inr [sample_service ''1'' ''-1'' [] [''2''], sample_service ''2'' ''4'' [''1''] [''2'', ''1'']] :: unit + service list"
  obtain r where r: "getServiceTree (\<lambda>a b. 0) ?sg (Inr []) (\<lambda>_. Inl ()) = Inr r" and one: "length (sr_tree r) = 1"
    by (simp add: getServiceTree_def slaByService_def Let_def sample_service_def or_nil_def)
  then obtain t where t: "sr_tree r = [t]" by (cases "sr_tree r") auto
  then show ?thesis using r service_tree_is_sound [OF r, of t] by auto
qed

end
