(* ===== verification/DerivedTree.thy ===== *)
theory DerivedTree
  imports Report ServiceTree Problems
begin

text \<open>
  The service tree built from the estate itself (\<open>server/src/sli/tree.ts\<close>) out of the monthly report of
  \<open>Report\<close> and the open problems: business services, sites split by device class with the WAN legs under
  their paths, and what has no site. \<open>num_text\<close> is the text of a number in a template, \<open>collate\<close> is
  \<open>naturalCompare\<close>.
\<close>

subsection \<open>Nodes\<close>

datatype derived_kind = KRoot | KBusiness | KSite | KClass | KWanPath | KHost | KWeb

record derived_info = node_info +
  dn_kind :: derived_kind
  dn_hostid :: "string option"
  dn_dataStatus :: data_status
  dn_coverage :: "rat option"

type_synonym derived = "derived_info tree_node"

definition update_info :: "('i \<Rightarrow> 'i) \<Rightarrow> 'i tree_node \<Rightarrow> 'i tree_node" where
  "update_info f n = Node (f (info n)) (kids n)"

definition severity_of :: "string \<Rightarrow> int" where
  "severity_of s = num0 (Some s)"

definition slaFor :: "(rat \<Rightarrow> string) \<Rightarrow> rat option \<Rightarrow> rat option \<Rightarrow> rat \<Rightarrow> service_sla option" where
  "slaFor num_text sli errorBudget target =
     (case sli of
        None \<Rightarrow> None
      | Some v \<Rightarrow> Some \<lparr>sla_slaid = ''derived'', sla_name = ''Monthly '' @ num_text target @ ''%'', sla_slo = target, sla_sli = v,
                        sla_errorBudget = (case errorBudget of Some b \<Rightarrow> b | None \<Rightarrow> 0), sla_meeting = (v \<ge> target)\<rparr>)"

definition groupStatus :: "sli_host list \<Rightarrow> data_status" where
  "groupStatus hosts =
     (if hosts = [] \<or> list_all (\<lambda>h. h_dataStatus h = NoData) hosts then NoData
      else if list_ex (\<lambda>h. h_dataStatus h \<noteq> Ok) hosts then Partial else Ok)"

definition budget_sum :: "sli_host list \<Rightarrow> rat option" where
  "budget_sum hosts =
     (if list_ex (\<lambda>h. h_errorBudget h \<noteq> None) hosts
      then Some (sum_list (map (\<lambda>h. case h_errorBudget h of Some b \<Rightarrow> b | None \<Rightarrow> 0) hosts)) else None)"

text \<open>\<open>finish\<close>: the worst status, the number of different services below, and the children's problems when the node has none.\<close>

definition finish :: "derived_info \<Rightarrow> derived list \<Rightarrow> derived" where
  "finish i cs =
     Node (i\<lparr>nd_worst := foldl (\<lambda>w c. max w (nd_worst (info c))) (nd_status i) cs,
             nd_descendants := length (js_set (map (\<lambda>m. nd_serviceid (info m)) (concat (map nodes cs)))),
             nd_problems := (if nd_problems i \<noteq> [] then nd_problems i
               else take 5 (js_sort (\<lambda>a b. severity_of (pe_severity b) - severity_of (pe_severity a))
                              (concat (map (\<lambda>c. nd_problems (info c)) cs))))\<rparr>) cs"

definition plain_node :: "string \<Rightarrow> string \<Rightarrow> derived_kind \<Rightarrow> service_sla option \<Rightarrow> data_status \<Rightarrow> rat option \<Rightarrow> derived_info" where
  "plain_node i nm k sla ds cov =
     \<lparr>nd_serviceid = i, nd_name = nm, nd_status = -1, nd_algorithm = ''derived'', nd_description = None, nd_tags = [], nd_problems = [],
      nd_sla = sla, nd_worst = -1, nd_descendants = 0, dn_kind = k, dn_hostid = None, dn_dataStatus = ds, dn_coverage = cov\<rparr>"

definition note_problem :: "problem \<Rightarrow> (string, problem list) table \<Rightarrow> (string, problem list) table" where
  "note_problem p t =
     (case p_hostid p of
        None \<Rightarrow> t
      | Some h \<Rightarrow> (if h = [] then t else table_set h (table_list t h @ [p]) t))"

definition hostNode :: "(rat \<Rightarrow> string) \<Rightarrow> rat \<Rightarrow> problem list \<Rightarrow> sli_host \<Rightarrow> derived" where
  "hostNode num_text target problems h =
     (let open = js_sort (\<lambda>a b. severity_of (severity b) - severity_of (severity a)) (table_list (fold note_problem problems []) (h_hostid h))
      in finish ((plain_node (''derived:host:'' @ h_hostid h) (h_name h) KHost (slaFor num_text (h_sli h) (h_errorBudget h) target)
                    (h_dataStatus h) (Some (h_coverage h)))
                 \<lparr>dn_hostid := Some (h_hostid h),
                  nd_status := (case open of [] \<Rightarrow> -1 | p # _ \<Rightarrow> severity_of (severity p)),
                  nd_problems := map (\<lambda>p. \<lparr>pe_eventid = eventid p, pe_name = problem.p_name p, pe_severity = severity p\<rparr>) (take 5 open)\<rparr>) [])"

definition groupNode ::
  "(rat \<Rightarrow> string) \<Rightarrow> rat \<Rightarrow> string \<Rightarrow> string \<Rightarrow> derived_kind \<Rightarrow> sli_host list \<Rightarrow> derived list \<Rightarrow> sli_group option \<Rightarrow> derived" where
  "groupNode num_text target i nm k hosts children grp =
     (let g = (case grp of Some g \<Rightarrow> g | None \<Rightarrow> aggregate i nm hosts target);
          measured = filter (\<lambda>h. h_sli h \<noteq> None) hosts
      in finish (plain_node i nm k (slaFor num_text (g_sli g) (budget_sum measured) target) (groupStatus hosts)
                  (mean (map h_coverage measured))) children)"

subsection \<open>The parts of the tree\<close>

definition isBusiness :: "sli_host \<Rightarrow> bool" where
  "isBusiness h \<longleftrightarrow> h_class h = Web \<or> h_class h = Server"

definition by_name :: "(string \<Rightarrow> string \<Rightarrow> int) \<Rightarrow> sli_host list \<Rightarrow> sli_host list" where
  "by_name collate hs = js_sort (\<lambda>a b. collate (h_name a) (h_name b)) hs"

definition webNode :: "(rat \<Rightarrow> string) \<Rightarrow> rat \<Rightarrow> sli_web \<Rightarrow> derived" where
  "webNode num_text target w =
     finish (plain_node (''derived:web:'' @ w_itemid w) (''Web check: '' @ w_name w) KWeb (slaFor num_text (w_sli w) None target)
       (w_dataStatus w) (Some (w_coverage w))) []"

definition businessNode :: "(rat \<Rightarrow> string) \<Rightarrow> (string \<Rightarrow> string \<Rightarrow> int) \<Rightarrow> sli_report \<Rightarrow> problem list \<Rightarrow> derived" where
  "businessNode num_text collate r problems =
     (let target = r_target r; bhosts = by_name collate (filter isBusiness (r_hosts r));
          node = groupNode num_text target ''derived:business'' ''Business services'' KBusiness bhosts
                   (map (webNode num_text target) (r_web r) @ map (hostNode num_text target problems) bhosts) None;
          figures = List.map_filter (\<lambda>v. v) (map w_sli (r_web r) @ map h_sli bhosts)
      in if figures = [] then node
         else update_info (\<lambda>i. i\<lparr>nd_sla := slaFor num_text (mean figures) None target,
                dn_dataStatus := (if list_ex (\<lambda>w. w_dataStatus w = Ok) (r_web r) then Ok else Partial)\<rparr>) node)"

definition add_to :: "'k \<Rightarrow> 'a \<Rightarrow> ('k, 'a list) table \<Rightarrow> ('k, 'a list) table" where
  "add_to k x t = table_set k (table_list t k @ [x]) t"

text \<open>The split of the hosts: those without a site, and those of each site.\<close>

definition split_host :: "sli_host \<Rightarrow> sli_host list \<times> (nat, sli_host list) table \<Rightarrow> sli_host list \<times> (nat, sli_host list) table" where
  "split_host h acc =
     (if isBusiness h then acc
      else case h_site h of None \<Rightarrow> (fst acc @ [h], snd acc) | Some s \<Rightarrow> (fst acc, add_to (site_code s) h (snd acc)))"

definition pathNode ::
  "(rat \<Rightarrow> string) \<Rightarrow> (string \<Rightarrow> string \<Rightarrow> int) \<Rightarrow> rat \<Rightarrow> problem list \<Rightarrow> sli_host list \<Rightarrow> sli_path \<Rightarrow> derived" where
  "pathNode num_text collate target problems members p =
     (let legs = by_name collate (filter (\<lambda>m. list_ex (\<lambda>l. l_hostid l = h_hostid m) (p_legs p)) members)
      in update_info (\<lambda>i. i\<lparr>nd_sla := slaFor num_text (p_sli p) None target, dn_dataStatus := p_dataStatus p, dn_coverage := Some (p_coverage p)\<rparr>)
           (groupNode num_text target (''derived:wan:'' @ sli_path.p_name p) (''WAN path: '' @ sli_path.p_name p) KWanPath legs
              (map (hostNode num_text target problems) legs) None))"

definition classNode ::
  "(rat \<Rightarrow> string) \<Rightarrow> (string \<Rightarrow> string \<Rightarrow> int) \<Rightarrow> sli_report \<Rightarrow> problem list \<Rightarrow> nat \<Rightarrow> device_class \<times> sli_host list \<Rightarrow> derived" where
  "classNode num_text collate r problems code cm =
     (let (cls, members) = cm; target = r_target r;
          i = ''derived:site:'' @ show_nat code @ '':'' @ class_key cls; label = DEVICE_CLASS_LABELS cls
      in if cls \<noteq> WanLink then
           groupNode num_text target i label KClass members (map (hostNode num_text target problems) (by_name collate members)) None
         else
           (let paths = map (pathNode num_text collate target problems members)
                  (filter (\<lambda>p. map_option site_code (sli_path.p_site p) = Some code) (r_wanPaths r));
                inPath = concat (map (\<lambda>p. map l_hostid (p_legs p)) (r_wanPaths r));
                loose = map (hostNode num_text target problems) (by_name collate (filter (\<lambda>m. h_hostid m \<notin> set inPath) members))
            in groupNode num_text target i label KClass members (paths @ loose) None))"

definition class_order :: "(string \<Rightarrow> string \<Rightarrow> int) \<Rightarrow> device_class \<Rightarrow> device_class \<Rightarrow> int" where
  "class_order collate a b = (if a = WanLink then -1 else if b = WanLink then 1 else collate (class_key a) (class_key b))"

definition siteNode ::
  "(rat \<Rightarrow> string) \<Rightarrow> (string \<Rightarrow> string \<Rightarrow> int) \<Rightarrow> sli_report \<Rightarrow> problem list \<Rightarrow> nat \<times> sli_host list \<Rightarrow> derived" where
  "siteNode num_text collate r problems ch =
     (let (code, hosts) = ch;
          classes = fold (\<lambda>h. add_to (h_class h) h) hosts [];
          classNodes = map (classNode num_text collate r problems code) (js_sort (\<lambda>a b. class_order collate (fst a) (fst b)) classes);
          nm = (case hosts of h # _ \<Rightarrow> (case h_site h of Some s \<Rightarrow> site_name s | None \<Rightarrow> []) | [] \<Rightarrow> [])
      in groupNode num_text (r_target r) (''derived:site:'' @ show_nat code) (show_nat code @ middle_dot @ nm) KSite hosts classNodes
           (find (\<lambda>s. g_key s = ''site:'' @ show_nat code) (r_sites r)))"

definition siteNodes :: "(rat \<Rightarrow> string) \<Rightarrow> (string \<Rightarrow> string \<Rightarrow> int) \<Rightarrow> sli_report \<Rightarrow> problem list \<Rightarrow> derived list" where
  "siteNodes num_text collate r problems =
     (let (unassigned, bySite) = fold split_host (r_hosts r) ([], [])
      in map (siteNode num_text collate r problems) (js_sort (\<lambda>a b. compare (fst a) (fst b)) bySite) @
         (if unassigned = [] then []
          else [groupNode num_text (r_target r) ''derived:unassigned'' ''Unassigned'' KSite unassigned
                  (map (hostNode num_text (r_target r) problems) (by_name collate unassigned)) None]))"

record derived_response =
  dr_tree :: "derived list"
  dr_total :: nat
  dr_degraded :: nat
  dr_worst :: int
  dr_label :: string
  dr_month :: string
  dr_profile :: profile
  dr_target :: rat
  dr_closed :: bool
  dr_gaps :: "interval list"
  dr_noDataWindows :: "interval list"

definition buildDerivedTree ::
  "(rat \<Rightarrow> string) \<Rightarrow> (string \<Rightarrow> string \<Rightarrow> int) \<Rightarrow> sli_report \<Rightarrow> problem list \<Rightarrow> string \<Rightarrow> derived_response" where
  "buildDerivedTree num_text collate r problems mon =
     (let business = businessNode num_text collate r problems; sites = siteNodes num_text collate r problems;
          children = (if filter isBusiness (r_hosts r) \<noteq> [] \<or> r_web r \<noteq> [] then business # sites else sites);
          root = groupNode num_text (r_target r) ''derived:estate'' ''HCML estate'' KRoot (r_hosts r) children (Some (r_overall r))
      in \<lparr>dr_tree = [root], dr_total = length (nodes root), dr_degraded = length (filter (\<lambda>n. nd_status (info n) \<ge> 0) (nodes root)),
          dr_worst = nd_worst (info root), dr_label = r_label r, dr_month = mon, dr_profile = r_profile r, dr_target = r_target r,
          dr_closed = r_closed r, dr_gaps = r_gaps r, dr_noDataWindows = r_noDataWindows r\<rparr>)"

definition getDerivedServices ::
  "(rat \<Rightarrow> string) \<Rightarrow> (string \<Rightarrow> string \<Rightarrow> int) \<Rightarrow> api_error + sli_report \<Rightarrow> api_error + problem list \<Rightarrow> string \<Rightarrow> api_error + derived_response" where
  "getDerivedServices num_text collate monthlySli problems mon =
     and_then monthlySli (\<lambda>r. and_then problems (\<lambda>ps. Inr (buildDerivedTree num_text collate r (openProblems ps) mon)))"

subsection \<open>Figures\<close>

definition all_counted :: "('a node_info_scheme) tree_node \<Rightarrow> bool" where
  "all_counted n \<longleftrightarrow> (\<forall>m \<in> set (nodes n). counted m)"

lemma kids_finish [simp]: "kids (finish i cs) = cs"
  by (simp add: finish_def)

lemma info_finish [simp]:
  "nd_status (info (finish i cs)) = nd_status i" "nd_serviceid (info (finish i cs)) = nd_serviceid i"
  by (simp_all add: finish_def)

lemma all_counted_finish:
  assumes "\<forall>c \<in> set cs. all_counted c"
  shows "all_counted (finish i cs)"
proof -
  let ?n = "finish i cs"
  have nodes: "nodes ?n = ?n # concat (map nodes cs)" by (rule nodes_kids) simp
  have "nd_worst (info ?n) = Max (set (nd_status i # map (\<lambda>c. nd_worst (info c)) cs))"
    by (simp only: finish_def foldl_max tree_node.sel node_info.select_convs node_info.update_convs) simp
  also have "\<dots> = Max (set (nd_status i # map (\<lambda>m. nd_status (info m)) (concat (map nodes cs))))"
    by (rule Max_nodes) (use assms in_nodes_self in \<open>auto simp: all_counted_def counted_def\<close>)
  finally have worst: "nd_worst (info ?n) = Max (set (map (\<lambda>m. nd_status (info m)) (nodes ?n)))"
    unfolding nodes by simp
  have "nd_descendants (info ?n) = card (set (map (\<lambda>m. nd_serviceid (info m)) (below_nodes ?n)))"
    unfolding below_nodes_def kids_finish by (simp add: finish_def length_js_set)
  then show ?thesis using worst assms unfolding all_counted_def nodes by (auto simp: counted_def nodes)
qed

lemma all_counted_update:
  assumes "all_counted n" "nd_worst (f (info n)) = nd_worst (info n)" "nd_descendants (f (info n)) = nd_descendants (info n)"
    "nd_status (f (info n)) = nd_status (info n)"
  shows "all_counted (update_info f n)"
proof -
  have nodes: "nodes (update_info f n) = update_info f n # concat (map nodes (kids n))"
    by (rule nodes_kids) (simp add: update_info_def)
  have "counted n" "\<forall>c \<in> set (kids n). all_counted c" using assms(1) nodes_kids [of n "kids n"] by (auto simp: all_counted_def)
  then show ?thesis using assms(2-4) nodes_kids [of n "kids n"]
    unfolding all_counted_def nodes by (auto simp: counted_def nodes below_nodes_def) (auto simp: update_info_def)
qed

lemma counted_groupNode: "\<forall>c \<in> set cs. all_counted c \<Longrightarrow> all_counted (groupNode num_text target i nm k hosts cs g)"
  by (simp add: groupNode_def Let_def all_counted_finish)

lemma counted_hostNode: "all_counted (hostNode num_text target problems h)"
  by (simp add: hostNode_def Let_def all_counted_finish)

lemma counted_webNode: "all_counted (webNode num_text target w)"
  by (simp add: webNode_def all_counted_finish)

lemma counted_pathNode: "all_counted (pathNode num_text collate target problems members p)"
  unfolding pathNode_def Let_def by (intro all_counted_update counted_groupNode) (auto simp: counted_hostNode)

lemma counted_classNode: "all_counted (classNode num_text collate r problems code cm)"
  unfolding classNode_def Let_def split_def
  by (auto intro!: counted_groupNode simp: counted_hostNode counted_pathNode)

lemma counted_siteNode: "all_counted (siteNode num_text collate r problems ch)"
  unfolding siteNode_def Let_def split_def by (auto intro!: counted_groupNode simp: counted_classNode)

lemma counted_siteNodes: "\<forall>c \<in> set (siteNodes num_text collate r problems). all_counted c"
  by (auto simp: siteNodes_def Let_def split_def counted_siteNode counted_hostNode intro!: counted_groupNode split: if_splits)

lemma counted_businessNode: "all_counted (businessNode num_text collate r problems)"
proof -
  have "all_counted (groupNode num_text (r_target r) i nm k bhosts (map (webNode num_text (r_target r)) ws @ map (hostNode num_text (r_target r) problems) bhosts) None)"
    for i nm k bhosts ws by (intro counted_groupNode) (auto simp: counted_webNode counted_hostNode)
  then show ?thesis unfolding businessNode_def Let_def by (auto intro!: all_counted_update)
qed

subsection \<open>Where the hosts are\<close>

lemma kids_groupNode [simp]: "kids (groupNode num_text target i nm k hosts cs g) = cs"
  by (simp add: groupNode_def Let_def)

lemma kids_update [simp]: "kids (update_info f n) = kids n"
  by (simp add: update_info_def)

lemma in_nodes_kid: "c \<in> set (kids n) \<Longrightarrow> x \<in> set (nodes c) \<Longrightarrow> x \<in> set (nodes n)"
  using nodes_kids [of n "kids n"] by auto

lemma kid_in_nodes: "c \<in> set (kids n) \<Longrightarrow> c \<in> set (nodes n)"
  using in_nodes_kid in_nodes_self by blast

lemma set_by_name [simp]: "set (by_name collate hs) = set hs"
  by (simp add: by_name_def)

lemma add_to_get:
  "table_get (fold (\<lambda>h. add_to (key h) h) hs t) k =
     (if filter (\<lambda>h. key h = k) hs = [] then table_get t k else Some (table_list t k @ filter (\<lambda>h. key h = k) hs))"
  by (induction hs arbitrary: t) (auto simp: add_to_def table_simps)

text \<open>Every host stands in the list of its key.\<close>

lemma add_to_entry: "h \<in> set hs \<Longrightarrow> (key h, filter (\<lambda>x. key x = key h) hs) \<in> set (fold (\<lambda>h. add_to (key h) h) hs [])"
  by (rule table_get_in_set) (auto simp: add_to_get filter_empty_conv)

definition site_of_host :: "sli_host \<Rightarrow> nat" where
  "site_of_host h = (case h_site h of Some s \<Rightarrow> site_code s | None \<Rightarrow> 0)"

lemma split_hosts:
  "fold split_host hs (u, t) =
     (u @ filter (\<lambda>h. \<not> isBusiness h \<and> h_site h = None) hs,
      fold (\<lambda>h. add_to (site_of_host h) h) (filter (\<lambda>h. \<not> isBusiness h \<and> h_site h \<noteq> None) hs) t)"
  by (induction hs arbitrary: u t) (auto simp: split_host_def site_of_host_def split: option.splits)

lemma host_in_class:
  assumes "h \<in> set members" "h_class h = cls" "h_site h = Some s" "site_code s = code"
    and paths: "\<forall>p \<in> set (r_wanPaths r). h_hostid h \<in> l_hostid ` set (p_legs p) \<longrightarrow> map_option site_code (sli_path.p_site p) = Some code"
  shows "hostNode num_text (r_target r) problems h \<in> set (nodes (classNode num_text collate r problems code (cls, members)))"
proof (cases "cls = WanLink")
  case False
  then show ?thesis using assms(1) by (intro kid_in_nodes) (simp add: classNode_def Let_def)
next
  case True
  show ?thesis
  proof (cases "\<exists>p \<in> set (r_wanPaths r). h_hostid h \<in> l_hostid ` set (p_legs p)")
    case leg: True
    then obtain p where p: "p \<in> set (r_wanPaths r)" "h_hostid h \<in> l_hostid ` set (p_legs p)" by blast
    then have code: "map_option site_code (sli_path.p_site p) = Some code" using paths by blast
    have "hostNode num_text (r_target r) problems h \<in> set (nodes (pathNode num_text collate (r_target r) problems members p))"
      using p(2) assms(1) by (intro kid_in_nodes) (force simp: pathNode_def Let_def list_ex_iff)
    then show ?thesis
      by (rule in_nodes_kid [rotated]) (use True p(1) code in \<open>auto simp: classNode_def Let_def\<close>)
  next
    case False
    then have "h_hostid h \<notin> set (concat (map (\<lambda>p. map l_hostid (p_legs p)) (r_wanPaths r)))" by force
    then show ?thesis using True assms(1) by (intro kid_in_nodes) (simp add: classNode_def Let_def)
  qed
qed

lemma host_in_site:
  assumes "h \<in> set hosts" "h_site h = Some s" "site_code s = code"
    and "\<forall>p \<in> set (r_wanPaths r). h_hostid h \<in> l_hostid ` set (p_legs p) \<longrightarrow> map_option site_code (sli_path.p_site p) = Some code"
  shows "hostNode num_text (r_target r) problems h \<in> set (nodes (siteNode num_text collate r problems (code, hosts)))"
proof (rule in_nodes_kid)
  let ?cm = "(h_class h, filter (\<lambda>x. h_class x = h_class h) hosts)"
  show "classNode num_text collate r problems code ?cm \<in> set (kids (siteNode num_text collate r problems (code, hosts)))"
    using add_to_entry [of h hosts h_class] assms(1) by (auto simp: siteNode_def Let_def)
  show "hostNode num_text (r_target r) problems h \<in> set (nodes (classNode num_text collate r problems code ?cm))"
    using assms by (intro host_in_class) auto
qed

lemma host_in_sites:
  assumes "h \<in> set (r_hosts r)" "\<not> isBusiness h"
    and "\<forall>p \<in> set (r_wanPaths r). h_hostid h \<in> l_hostid ` set (p_legs p) \<longrightarrow> map_option site_code (sli_path.p_site p) = map_option site_code (h_site h)"
  shows "\<exists>c \<in> set (siteNodes num_text collate r problems). hostNode num_text (r_target r) problems h \<in> set (nodes c)"
proof (cases "h_site h")
  case None
  then have "h \<in> set (fst (fold split_host (r_hosts r) ([], [])))" using assms by (simp add: split_hosts)
  then show ?thesis
    by (intro bexI [of _ "groupNode num_text (r_target r) ''derived:unassigned'' ''Unassigned'' KSite (fst (fold split_host (r_hosts r) ([], [])))
          (map (hostNode num_text (r_target r) problems) (by_name collate (fst (fold split_host (r_hosts r) ([], []))))) None"])
       (auto simp: siteNodes_def Let_def split_def intro: kid_in_nodes)
next
  case (Some s)
  let ?hs = "filter (\<lambda>h. \<not> isBusiness h \<and> h_site h \<noteq> None) (r_hosts r)"
  let ?ch = "(site_of_host h, filter (\<lambda>x. site_of_host x = site_of_host h) ?hs)"
  have h: "h \<in> set ?hs" "site_of_host h = site_code s" using assms Some by (auto simp: site_of_host_def)
  have "?ch \<in> set (snd (fold split_host (r_hosts r) ([], [])))"
    unfolding split_hosts snd_conv by (rule add_to_entry [OF h(1), of site_of_host])
  then have "siteNode num_text collate r problems ?ch \<in> set (siteNodes num_text collate r problems)"
    by (simp add: siteNodes_def Let_def split_def)
  moreover have "hostNode num_text (r_target r) problems h \<in> set (nodes (siteNode num_text collate r problems ?ch))"
    using h assms(3) Some by (intro host_in_site [of h _ s]) auto
  ultimately show ?thesis by blast
qed

lemma host_in_business:
  assumes "h \<in> set (r_hosts r)" "isBusiness h"
  shows "hostNode num_text (r_target r) problems h \<in> set (nodes (businessNode num_text collate r problems))"
  by (rule kid_in_nodes) (use assms in \<open>simp add: businessNode_def Let_def\<close>)

subsection \<open>Properties\<close>

text \<open>
  C30. The derived tree's counts are right. There is one root; at every node \<open>worst\<close> is the highest status
  of its subtree and \<open>descendants\<close> the number of different services below it; the answer's total is the
  number of nodes, its degraded count that of the nodes with a problem of their own, its worst the highest
  status anywhere.
\<close>

theorem derived_tree_counts:
  "\<exists>root. dr_tree (buildDerivedTree num_text collate r problems mon) = [root] \<and>
     dr_total (buildDerivedTree num_text collate r problems mon) = length (nodes root) \<and>
     dr_degraded (buildDerivedTree num_text collate r problems mon) = length (filter (\<lambda>n. 0 \<le> nd_status (info n)) (nodes root)) \<and>
     dr_worst (buildDerivedTree num_text collate r problems mon) = Max (set (map (\<lambda>n. nd_status (info n)) (nodes root))) \<and>
     list_all (\<lambda>n. nd_worst (info n) = Max (set (map (\<lambda>m. nd_status (info m)) (nodes n))) \<and>
        nd_descendants (info n) = card (set (map (\<lambda>m. nd_serviceid (info m)) (below_nodes n)))) (nodes root)"
proof -
  let ?cs = "if filter isBusiness (r_hosts r) \<noteq> [] \<or> r_web r \<noteq> [] then businessNode num_text collate r problems # siteNodes num_text collate r problems
      else siteNodes num_text collate r problems"
  define root where "root = groupNode num_text (r_target r) ''derived:estate'' ''HCML estate'' KRoot (r_hosts r) ?cs (Some (r_overall r))"
  have "all_counted root" unfolding root_def by (rule counted_groupNode) (simp add: counted_businessNode counted_siteNodes)
  then have ok: "\<forall>n \<in> set (nodes root). counted n" "counted root" using in_nodes_self by (auto simp: all_counted_def)
  have "buildDerivedTree num_text collate r problems mon =
      \<lparr>dr_tree = [root], dr_total = length (nodes root), dr_degraded = length (filter (\<lambda>n. nd_status (info n) \<ge> 0) (nodes root)),
       dr_worst = nd_worst (info root), dr_label = r_label r, dr_month = mon, dr_profile = r_profile r, dr_target = r_target r,
       dr_closed = r_closed r, dr_gaps = r_gaps r, dr_noDataWindows = r_noDataWindows r\<rparr>"
    unfolding buildDerivedTree_def Let_def root_def ..
  then show ?thesis using ok by (intro exI [of _ root]) (simp add: counted_def list_all_iff)
qed

text \<open>
  Nothing of the estate is missing: every host of the report has its node in the tree, with its live
  status, provided the WAN paths it is a leg of belong to its own site, as they do when the names of the
  legs of a path agree on the site.
\<close>

theorem every_host_is_in_the_tree:
  assumes "h \<in> set (r_hosts r)"
    and "\<forall>p \<in> set (r_wanPaths r). h_hostid h \<in> l_hostid ` set (p_legs p) \<longrightarrow> map_option site_code (sli_path.p_site p) = map_option site_code (h_site h)"
  shows "\<exists>root. dr_tree (buildDerivedTree num_text collate r problems mon) = [root] \<and>
     hostNode num_text (r_target r) problems h \<in> set (nodes root)"
proof -
  let ?b = "businessNode num_text collate r problems" and ?ss = "siteNodes num_text collate r problems"
  let ?cs = "if filter isBusiness (r_hosts r) \<noteq> [] \<or> r_web r \<noteq> [] then ?b # ?ss else ?ss"
  have "\<exists>c \<in> set ?cs. hostNode num_text (r_target r) problems h \<in> set (nodes c)"
  proof (cases "isBusiness h")
    case True
    then have "?b \<in> set ?cs" using assms(1) by (auto simp: filter_empty_conv)
    then show ?thesis using host_in_business [OF assms(1) True] by blast
  next
    case False
    then show ?thesis using host_in_sites [OF assms(1) False assms(2)] by auto
  qed
  then show ?thesis by (auto simp: buildDerivedTree_def Let_def intro: in_nodes_kid [rotated])
qed

definition sample_host :: "string \<Rightarrow> string \<Rightarrow> device_class \<Rightarrow> site_ref option \<Rightarrow> sli_host" where
  "sample_host i nm cls site =
     \<lparr>h_hostid = i, h_name = nm, h_status = ''0'', h_site = site, h_category = ''ICMP Ping'', h_class = cls, h_triggerids = [],
      h_sli = Some 99, h_downtime = 36, h_window = 3600, h_covered = 3600, h_maintenance = 0, h_coverage = 1, h_incidents = 1,
      h_longest = 36, h_dataStatus = Ok, h_measured = True, h_meeting = Some True, h_errorBudget = Some 0\<rparr>"

definition sample_report :: "sli_host list \<Rightarrow> sli_report" where
  "sample_report hosts =
     \<lparr>r_label = DERIVED_LABEL, r_profile = Availability, r_month = None, r_from = 0, r_to = 3600, r_end = 3600, r_closed = True,
      r_timezone = ''UTC'', r_target = 99, r_triggers = [], r_excludes = True, r_overall = aggregate ''overall'' ''HCML estate'' hosts 99,
      r_categories = [], r_sites = [], r_classes = [], r_hosts = hosts, r_wanPaths = [], r_web = [], r_gaps = [], r_noDataWindows = [],
      r_generatedAt = 3600\<rparr>"

lemma every_host_is_in_the_tree_witness:
  "\<exists>root. dr_tree (buildDerivedTree (\<lambda>_. ''99'') (\<lambda>a b. 0) (sample_report [sample_host ''7'' ''SW 1'' Switch (Some \<lparr>site_code = 1, site_name = ''Jakarta''\<rparr>)]) [] ''2026-01'') = [root] \<and>
     hostNode (\<lambda>_. ''99'') 99 [] (sample_host ''7'' ''SW 1'' Switch (Some \<lparr>site_code = 1, site_name = ''Jakarta''\<rparr>)) \<in> set (nodes root)"
  using every_host_is_in_the_tree [of "sample_host ''7'' ''SW 1'' Switch (Some \<lparr>site_code = 1, site_name = ''Jakarta''\<rparr>)"
      "sample_report [sample_host ''7'' ''SW 1'' Switch (Some \<lparr>site_code = 1, site_name = ''Jakarta''\<rparr>)]" "\<lambda>_. ''99''" "\<lambda>a b. 0" "[]" "''2026-01''"]
  by (simp add: sample_report_def)

text \<open>
  With no web check configured the business group reads \<open>partial\<close> even when every business host has full
  data: the status is taken from the web checks alone once there is any figure.
\<close>

lemma business_without_web_checks_is_partial:
  "dn_dataStatus (info (businessNode num_text collate (sample_report [sample_host ''7'' ''WEB : x'' Web None]) problems)) = Partial \<and>
   groupStatus [sample_host ''7'' ''WEB : x'' Web None] = Ok"
  by (simp add: businessNode_def Let_def sample_report_def sample_host_def isBusiness_def by_name_def js_sort_def update_info_def
      map_filter_simps groupStatus_def)

end
