(* ===== verification/Settings.thy ===== *)
theory Settings
  imports Calendar
begin

text \<open>
  The settings of the server (\<open>server/src/core/config.ts\<close>): how each environment variable is read, the
  \<open>config\<close> object they make, and \<open>assertConfig\<close>, which refuses to start on some values and warns
  about others. The environment is a partial function from names to texts. Outside the model, and a
  parameter of it: which texts \<open>new URL\<close> takes, and what \<open>Date.parse\<close> makes of a text that is not in
  the ISO format (the language leaves that to the engine).
\<close>

type_synonym environment = "string \<Rightarrow> string option"

definition or_default :: "string option \<Rightarrow> string \<Rightarrow> string" where
  "or_default v d = (case v of Some s \<Rightarrow> (if s \<noteq> [] then s else d) | None \<Rightarrow> d)"

definition or_empty :: "string option \<Rightarrow> string" where
  "or_empty v = (case v of Some s \<Rightarrow> s | None \<Rightarrow> [])"

subsection \<open>Sign-in\<close>

definition DEFAULT_JWT_SECRET :: string where "DEFAULT_JWT_SECRET = ''dev-insecure-secret-change-me''"

definition KNOWN_JWT_SECRETS :: "string list" where
  "KNOWN_JWT_SECRETS = [DEFAULT_JWT_SECRET, ''change-me-to-a-long-random-string'']"

definition MIN_JWT_SECRET_BYTES :: nat where "MIN_JWT_SECRET_BYTES = 32"

definition SESSION_HOURS_DEFAULT :: rat where "SESSION_HOURS_DEFAULT = 12"
definition SESSION_HOURS_MIN :: rat where "SESSION_HOURS_MIN = 2"
definition SESSION_HOURS_MAX :: rat where "SESSION_HOURS_MAX = 24"

text \<open>\<open>/^[A-Za-z0-9._-]{1,32}$/\<close> and \<open>/^[!#$%&'*+\-.^_`|~0-9A-Za-z]+$/\<close>.\<close>

definition is_letter :: "char \<Rightarrow> bool" where
  "is_letter c \<longleftrightarrow> (CHR ''A'' \<le> c \<and> c \<le> CHR ''Z'') \<or> (CHR ''a'' \<le> c \<and> c \<le> CHR ''z'')"

definition SESSION_EPOCH_PATTERN :: "string \<Rightarrow> bool" where
  "SESSION_EPOCH_PATTERN s \<longleftrightarrow> 1 \<le> length s \<and> length s \<le> 32
     \<and> list_all (\<lambda>c. is_letter c \<or> is_digit c \<or> c \<in> set ''._-'') s"

definition COOKIE_NAME :: "string \<Rightarrow> bool" where
  "COOKIE_NAME s \<longleftrightarrow> s \<noteq> []
     \<and> list_all (\<lambda>c. is_letter c \<or> is_digit c \<or> c \<in> set ''!#$%&*+-.^_|~'' \<or> c = CHR 0x27 \<or> c = CHR 0x60) s"

text \<open>\<open>/^\d+(\.\d+)?$/\<close>: digits, and a point with more digits.\<close>

definition plain_number :: "string \<Rightarrow> bool" where
  "plain_number s =
     (let ip = takeWhile is_digit s; rest = drop (length ip) s in
      ip \<noteq> [] \<and> (case rest of [] \<Rightarrow> True | c # fp \<Rightarrow> c = CHR ''.'' \<and> fp \<noteq> [] \<and> all_digits fp))"

definition validSessionHours :: "string option \<Rightarrow> rat option" where
  "validSessionHours raw =
     (let t = trim (or_empty raw) in
      if \<not> plain_number t then None
      else case js_number t of
        Num h \<Rightarrow> (if SESSION_HOURS_MIN \<le> h \<and> h \<le> SESSION_HOURS_MAX then Some h else None)
      | _ \<Rightarrow> None)"

definition AUTH_ON_VALUES :: "string list" where "AUTH_ON_VALUES = [''true'', ''1'', ''yes'']"
definition AUTH_OFF_VALUES :: "string list" where "AUTH_OFF_VALUES = [''false'', ''0'', ''no'']"

definition parseAuthEnabled :: "string option \<Rightarrow> bool option" where
  "parseAuthEnabled raw =
     (let v = toLowerCase (trim (or_empty raw)) in
      if v = [] \<or> v \<in> set AUTH_ON_VALUES then Some True
      else if v \<in> set AUTH_OFF_VALUES then Some False else None)"

subsection \<open>Numbers, lists and choices\<close>

definition envNum :: "environment \<Rightarrow> string \<Rightarrow> rat \<Rightarrow> rat" where
  "envNum env name fallback =
     (case map_option trim (env name) of
        None \<Rightarrow> fallback
      | Some raw \<Rightarrow> (if raw = [] then fallback
          else case js_number raw of Num q \<Rightarrow> q | _ \<Rightarrow> fallback))"

text \<open>\<open>Math.max(lo, Math.floor(envNum(...)))\<close>, the form of every limit.\<close>

definition floor_at_least :: "int \<Rightarrow> rat \<Rightarrow> int" where
  "floor_at_least lo q = max lo \<lfloor>q\<rfloor>"

definition csv :: "string \<Rightarrow> string list" where
  "csv raw = filter (\<lambda>s. s \<noteq> []) (map trim (split_on CHR '','' raw))"

datatype ai_provider = Anthropic | OpenAiCompatible

definition toAiProvider :: "string \<Rightarrow> ai_provider" where
  "toAiProvider raw = (if raw = ''openai-compatible'' then OpenAiCompatible else Anthropic)"

definition AI_PROVIDERS :: "string list" where
  "AI_PROVIDERS = [''anthropic'', ''openai-compatible'']"

datatype ollama_native = OllamaAuto | OllamaTrue | OllamaFalse

definition toOllamaNative :: "string option \<Rightarrow> ollama_native" where
  "toOllamaNative raw =
     (case map_option (\<lambda>s. toLowerCase (trim s)) raw of
        None \<Rightarrow> OllamaAuto
      | Some v \<Rightarrow> (if v = ''true'' then OllamaTrue else if v = ''false'' then OllamaFalse else OllamaAuto))"

datatype sli_profile_name = ProfileAvailability | ProfileHcmlReport

definition toSliProfile :: "string option \<Rightarrow> sli_profile_name option" where
  "toSliProfile raw =
     (if or_empty raw = ''availability'' then Some ProfileAvailability
      else if or_empty raw = ''hcml-report'' then Some ProfileHcmlReport else None)"

text \<open>\<open>None\<close> is \<open>false\<close>: no proxy is trusted.\<close>

definition trustProxyHops :: "string option \<Rightarrow> jsnum option" where
  "trustProxyHops raw =
     (let v = toLowerCase (trim (or_empty raw)) in
      if v = ''true'' then Some (Num 1)
      else if v \<noteq> [] \<and> all_digits v \<and> hd v \<noteq> CHR ''0'' then Some (js_number v) else None)"

text \<open>Whether the proxy at distance \<open>hop\<close> from the server is trusted.\<close>

definition trustProxyOption :: "jsnum option \<Rightarrow> (string \<Rightarrow> nat \<Rightarrow> bool) option" where
  "trustProxyOption hops = map_option (\<lambda>h addr hop.
     (case h of Num q \<Rightarrow> of_nat hop < q | PosInf \<Rightarrow> True | _ \<Rightarrow> False)) hops"

definition isPlaceholderKey :: "string option \<Rightarrow> bool" where
  "isPlaceholderKey v \<longleftrightarrow> startsWith (toLowerCase (trim (or_empty v))) ''your_''"

text \<open>The variables that may hold the key of the model, in the order they are tried.\<close>

definition aiKeys :: "environment \<Rightarrow> (string \<times> string option) list" where
  "aiKeys env =
     [(''AI_API_KEY'', env ''AI_API_KEY'')] @
     (if toAiProvider (or_default (env ''AI_PROVIDER'') ''anthropic'') = Anthropic
      then [(''ANTHROPIC_API_KEY'', env ''ANTHROPIC_API_KEY'')] else [])"

definition aiKeyPlaceholders :: "environment \<Rightarrow> string list" where
  "aiKeyPlaceholders env = map fst (filter (\<lambda>p. isPlaceholderKey (snd p)) (aiKeys env))"

definition aiApiKey :: "environment \<Rightarrow> string" where
  "aiApiKey env = or_empty (find (\<lambda>v. v \<noteq> [] \<and> \<not> isPlaceholderKey (Some v)) (map (\<lambda>p. or_empty (snd p)) (aiKeys env)))"

subsection \<open>\<open>Date.parse\<close>\<close>

text \<open>
  The ISO date-time format of the language: \<open>YYYY-MM-DDTHH:mm\<close>, optional seconds and fraction, and the zone. The
  result is in seconds; the language counts whole milliseconds, further digits are cut.
\<close>

definition digits_at :: "nat \<Rightarrow> string \<Rightarrow> nat option" where
  "digits_at n s = (if length s = n \<and> all_digits s then Some (digits_val s) else None)"

definition iso_zone :: "string \<Rightarrow> int option" where
  "iso_zone z =
     (if z = ''Z'' then Some 0
      else if length z = 6 \<and> z ! 3 = CHR '':'' \<and> z ! 0 \<in> {CHR ''+'', CHR ''-''} then
        (case (digits_at 2 (take 2 (drop 1 z)), digits_at 2 (drop 4 z)) of
           (Some h, Some m) \<Rightarrow> (if h \<le> 23 \<and> m \<le> 59
              then Some ((if z ! 0 = CHR ''-'' then -1 else 1) * (int h * 3600 + int m * 60)) else None)
         | _ \<Rightarrow> None)
      else None)"

text \<open>What follows the minutes: seconds and milliseconds, or nothing.\<close>

definition iso_seconds :: "string \<Rightarrow> rat option" where
  "iso_seconds s =
     (if s = [] then Some 0
      else if length s \<ge> 3 \<and> s ! 0 = CHR '':'' then
        (case digits_at 2 (take 2 (drop 1 s)) of
           None \<Rightarrow> None
         | Some sec \<Rightarrow>
            (if sec > 59 then None
             else let frac = drop 3 s in
              if frac = [] then Some (of_nat sec)
              else if hd frac = CHR ''.'' \<and> tl frac \<noteq> [] \<and> all_digits (tl frac)
              then Some (of_nat sec + of_nat (digits_val (take 3 (tl frac @ ''00''))) / 1000)
              else None))
      else None)"

definition iso_parse :: "string \<Rightarrow> rat option" where
  "iso_parse s =
     (let zl = (if s \<noteq> [] \<and> last s = CHR ''Z'' then 1 else 6); body = take (length s - zl) s; z = drop (length s - zl) s in
      if length body \<ge> 16 \<and> body ! 4 = CHR ''-'' \<and> body ! 7 = CHR ''-'' \<and> body ! 10 = CHR ''T'' \<and> body ! 13 = CHR '':'' then
        (case (digits_at 4 (take 4 body), digits_at 2 (take 2 (drop 5 body)), digits_at 2 (take 2 (drop 8 body)),
               digits_at 2 (take 2 (drop 11 body)), digits_at 2 (take 2 (drop 14 body)), iso_seconds (drop 16 body), iso_zone z) of
           (Some y, Some mo, Some d, Some h, Some mi, Some sec, Some off) \<Rightarrow>
             (if valid_date (int y) (int mo) (int d) \<and> h \<le> 23 \<and> mi \<le> 59
              then Some (of_int (make_day (int y) (int mo - 1) (int d) * 86400 + int h * 3600 + int mi * 60 - off) + sec)
              else None)
         | _ \<Rightarrow> None)
      else None)"

definition date_parse :: "(string \<Rightarrow> rat option) \<Rightarrow> string \<Rightarrow> rat option" where
  "date_parse other s = (case iso_parse s of Some q \<Rightarrow> Some q | None \<Rightarrow> other s)"

subsection \<open>\<open>parseNoDataWindows\<close>\<close>

text \<open>\<open>/(Z|[+-]\d{2}:\d{2})$/\<close>.\<close>

definition zoned :: "string \<Rightarrow> bool" where
  "zoned s \<longleftrightarrow>
     (s \<noteq> [] \<and> last s = CHR ''Z'') \<or>
     (length s \<ge> 6 \<and> (let z = drop (length s - 6) s in
        z ! 0 \<in> {CHR ''+'', CHR ''-''} \<and> is_digit (z ! 1) \<and> is_digit (z ! 2) \<and> z ! 3 = CHR '':''
        \<and> is_digit (z ! 4) \<and> is_digit (z ! 5)))"

definition parse_span :: "(string \<Rightarrow> rat option) \<Rightarrow> string \<Rightarrow> (int \<times> int) option" where
  "parse_span other part =
     (case map trim (split_on CHR ''/'' (trim part)) of
        [a, b] \<Rightarrow>
          (if zoned a \<and> zoned b then
            (case (date_parse other a, date_parse other b) of
               (Some x, Some y) \<Rightarrow> (if x \<ge> y then None else Some (\<lfloor>x\<rfloor>, \<lceil>y\<rceil>))
             | _ \<Rightarrow> None)
           else None)
      | _ \<Rightarrow> None)"

fun parse_spans :: "(string \<Rightarrow> rat option) \<Rightarrow> string list \<Rightarrow> (int \<times> int) list option" where
  "parse_spans other [] = Some []"
| "parse_spans other (p # ps) =
     (case parse_span other p of
        None \<Rightarrow> None
      | Some iv \<Rightarrow> map_option (\<lambda>ivs. iv # ivs) (parse_spans other ps))"

definition parseNoDataWindows :: "(string \<Rightarrow> rat option) \<Rightarrow> string option \<Rightarrow> (int \<times> int) list option" where
  "parseNoDataWindows other raw =
     (let t = trim (or_empty raw) in
      if t = [] then Some []
      else map_option (js_sort (\<lambda>a b. compare (fst a) (fst b))) (parse_spans other (split_on CHR '','' t)))"

subsection \<open>\<open>config\<close>\<close>

record stream_settings =
  maxClients :: int
  maxPerUser :: int

record sla_settings =
  sla_target :: rat
  sla_timezone :: string
  defaultProfile :: sli_profile_name
  reportTriggers :: "string list"
  availabilityTriggers :: "string list"
  minCoverage :: rat
  maxParallel :: rat
  noDataWindows :: "(int \<times> int) list"

record auth_settings =
  auth_enabled :: bool
  jwtSecret :: string
  portal_user :: string
  portal_pass :: string
  sessionCookie :: string
  session_hours :: rat
  session_epoch :: string
  allowWriteWithoutAuth :: bool

record ai_limits =
  chatPerMinute :: int
  explainPerMinute :: int
  maxConcurrent :: int
  dailyTokensPerUser :: int
  dailyTokensTotal :: int

record ai_settings =
  ai_backend :: ai_provider
  ai_enabled :: bool
  ai_external :: bool
  ai_apiKey :: string
  ai_baseUrl :: string
  ai_model :: string
  ai_timeoutMs :: rat
  ai_maxRetries :: rat
  ai_keepAlive :: string
  ollamaNative :: ollama_native
  numCtx :: rat
  temperature :: rat
  topP :: rat
  limits :: ai_limits

record config =
  zbxUrl :: string
  zbxTimeoutMs :: rat
  zbxToken :: string
  zbxWriteToken :: string
  listen_port :: rat
  listen_host :: string
  webOrigin :: string
  trustProxy :: "jsnum option"
  rateLimitPerMinute :: rat
  stream :: stream_settings
  netGroupIds :: "string list"
  site_tag :: string
  site_groupPrefix :: string
  ownerTag :: string
  criticalityTag :: string
  namePattern :: string
  meters_dashboard :: string
  lossWarn :: rat
  lossCrit :: rat
  noise_shortSeconds :: rat
  noise_minCount :: rat
  availabilityMinSeverity :: rat
  sla :: sla_settings
  auth :: auth_settings
  ai :: ai_settings

definition stream_of :: "environment \<Rightarrow> stream_settings" where
  "stream_of env =
     \<lparr>maxClients = floor_at_least 1 (envNum env ''STREAM_MAX_CLIENTS'' 100),
      maxPerUser = floor_at_least 1 (envNum env ''STREAM_MAX_PER_USER'' 5)\<rparr>"

definition sla_of :: "(string \<Rightarrow> rat option) \<Rightarrow> environment \<Rightarrow> sla_settings" where
  "sla_of other env =
     \<lparr>sla_target = envNum env ''SLO_TARGET'' 99,
      sla_timezone = or_default (env ''SLA_TIMEZONE'') ''Asia/Jakarta'',
      defaultProfile = (case toSliProfile (env ''SLI_PROFILE'') of Some p \<Rightarrow> p | None \<Rightarrow> ProfileAvailability),
      reportTriggers = csv (or_default (env ''SLI_REPORT_TRIGGERS'') ''High ICMP ping loss''),
      availabilityTriggers = csv (or_default (env ''SLI_AVAILABILITY_TRIGGERS'')
        ''Unavailable by ICMP ping,High ICMP ping loss''),
      minCoverage = envNum env ''SLI_MIN_COVERAGE'' (1 / 2),
      maxParallel = envNum env ''SLI_ZBX_PARALLEL'' 4,
      noDataWindows = (case parseNoDataWindows other (env ''SLA_NO_DATA_WINDOWS'') of Some w \<Rightarrow> w | None \<Rightarrow> [])\<rparr>"

definition auth_of :: "environment \<Rightarrow> auth_settings" where
  "auth_of env =
     \<lparr>auth_enabled = (case parseAuthEnabled (env ''AUTH_ENABLED'') of Some b \<Rightarrow> b | None \<Rightarrow> True),
      jwtSecret = or_default (env ''JWT_SECRET'') DEFAULT_JWT_SECRET,
      portal_user = (case env ''PORTAL_USER'' of Some s \<Rightarrow> s | None \<Rightarrow> ''admin''),
      portal_pass = (case env ''PORTAL_PASS'' of Some s \<Rightarrow> s | None \<Rightarrow> ''admin''),
      sessionCookie = or_default (env ''SESSION_COOKIE'') ''hcml_session'',
      session_hours = (case validSessionHours (env ''SESSION_HOURS'') of Some h \<Rightarrow> h | None \<Rightarrow> SESSION_HOURS_DEFAULT),
      session_epoch = or_default (Some (trim (or_empty (env ''SESSION_EPOCH'')))) ''1'',
      allowWriteWithoutAuth = (toLowerCase (trim (or_empty (env ''ALLOW_WRITE_WITHOUT_AUTH''))) = ''true'')\<rparr>"

definition ai_limits_of :: "environment \<Rightarrow> ai_limits" where
  "ai_limits_of env =
     \<lparr>chatPerMinute = floor_at_least 1 (envNum env ''AI_CHAT_PER_MINUTE'' 10),
      explainPerMinute = floor_at_least 1 (envNum env ''AI_EXPLAIN_PER_MINUTE'' 10),
      maxConcurrent = floor_at_least 1 (envNum env ''AI_MAX_CONCURRENT'' 4),
      dailyTokensPerUser = floor_at_least 0 (envNum env ''AI_DAILY_TOKENS_PER_USER'' 500000),
      dailyTokensTotal = floor_at_least 0 (envNum env ''AI_DAILY_TOKENS_TOTAL'' 2000000)\<rparr>"

definition ai_of :: "environment \<Rightarrow> ai_settings" where
  "ai_of env =
     (let provider = toAiProvider (or_default (env ''AI_PROVIDER'') ''anthropic'');
          url = or_empty (env ''AI_BASE_URL'') in
      \<lparr>ai_backend = provider,
       ai_enabled = (if provider = Anthropic then aiApiKey env \<noteq> [] else url \<noteq> []),
       ai_external = (provider = Anthropic),
       ai_apiKey = aiApiKey env,
       ai_baseUrl = url,
       ai_model = or_default (env ''AI_MODEL'') (if provider = Anthropic then ''claude-sonnet-4-6'' else ''qwen3:8b''),
       ai_timeoutMs = envNum env ''AI_TIMEOUT_MS'' (if provider = Anthropic then 30000 else 120000),
       ai_maxRetries = envNum env ''AI_MAX_RETRIES'' 1,
       ai_keepAlive = or_default (env ''AI_KEEP_ALIVE'') ''30m'',
       ollamaNative = toOllamaNative (env ''AI_OLLAMA_NATIVE''),
       numCtx = envNum env ''AI_NUM_CTX'' 8192,
       temperature = envNum env ''AI_TEMPERATURE'' (7 / 10),
       topP = envNum env ''AI_TOP_P'' (8 / 10),
       limits = ai_limits_of env\<rparr>)"

definition config_of :: "(string \<Rightarrow> rat option) \<Rightarrow> environment \<Rightarrow> config" where
  "config_of other env =
     \<lparr>zbxUrl = or_default (env ''ZBX_URL'') ''http://localhost:8080/api_jsonrpc.php'',
      zbxTimeoutMs = envNum env ''ZABBIX_TIMEOUT_MS'' 10000,
      zbxToken = or_default (env ''ZABBIX_API_TOKEN'') (or_empty (env ''ZBX_TOKEN'')),
      zbxWriteToken = or_empty (env ''ZABBIX_WRITE_TOKEN''),
      listen_port = envNum env ''PORT'' 4000,
      listen_host = or_default (env ''HOST'') ''0.0.0.0'',
      webOrigin = or_default (env ''WEB_ORIGIN'') ''http://localhost:5173'',
      trustProxy = trustProxyHops (env ''TRUST_PROXY''),
      rateLimitPerMinute = envNum env ''RATE_LIMIT_PER_MINUTE'' 300,
      stream = stream_of env,
      netGroupIds = csv (or_empty (env ''NET_GROUP_IDS'')),
      site_tag = or_default (env ''SITE_TAG'') ''site'',
      site_groupPrefix = or_empty (env ''SITE_GROUP_PREFIX''),
      ownerTag = or_default (env ''OWNER_TAG'') ''owner'',
      criticalityTag = or_default (env ''CRITICALITY_TAG'') ''criticality'',
      namePattern = or_empty (env ''HOST_NAME_PATTERN''),
      meters_dashboard = or_default (map_option trim (env ''INTERNET_METERS_DASHBOARD'')) ''Global view'',
      lossWarn = envNum env ''LINK_LOSS_WARN'' 2,
      lossCrit = envNum env ''LINK_LOSS_CRIT'' 10,
      noise_shortSeconds = envNum env ''NOISE_SHORT_SECONDS'' 300,
      noise_minCount = envNum env ''NOISE_MIN_COUNT'' 5,
      availabilityMinSeverity = envNum env ''AVAILABILITY_MIN_SEVERITY'' 2,
      sla = sla_of other env,
      auth = auth_of env,
      ai = ai_of env\<rparr>"

subsection \<open>\<open>assertConfig\<close>\<close>

text \<open>
  The first setting that stops the start, with the sentence of its error. \<open>env\<close> is read again for the settings
  whose unreadable value \<open>config\<close> replaces by a default.
\<close>

definition quoted :: "string \<Rightarrow> string" where
  "quoted s = CHR 0x22 # s @ [CHR 0x22]"

definition utf8_length :: "string \<Rightarrow> nat" where
  "utf8_length s = sum_list (map (\<lambda>c. if c \<le> CHR 0x7F then 1 else 2) s)"

definition auth_enabled_error :: "environment \<Rightarrow> string option" where
  "auth_enabled_error env =
     (if parseAuthEnabled (env ''AUTH_ENABLED'') = None then
        Some (''AUTH_ENABLED='' @ quoted (or_empty (env ''AUTH_ENABLED'')) @ '' is not a value the portal knows. '' @
          ''Use true, 1 or yes to turn sign-in on, false, 0 or no to turn it off, or leave it unset or empty to keep it on.'')
      else None)"

definition jwt_secret_error :: "auth_settings \<Rightarrow> string option" where
  "jwt_secret_error a =
     (if auth_enabled a \<and> jwtSecret a \<in> set KNOWN_JWT_SECRETS then
        Some (''AUTH_ENABLED=true but JWT_SECRET is a value published in this repo. '' @
          ''Anyone with the repo could forge an admin token. Set one from `openssl rand -hex 32`.'')
      else if auth_enabled a \<and> utf8_length (jwtSecret a) < MIN_JWT_SECRET_BYTES then
        Some (''AUTH_ENABLED=true but JWT_SECRET is shorter than '' @ show_nat MIN_JWT_SECRET_BYTES @ '' bytes, '' @
          ''short enough to guess offline from one token. Set one from `openssl rand -hex 32`.'')
      else None)"

definition cookie_error :: "auth_settings \<Rightarrow> string option" where
  "cookie_error a =
     (if COOKIE_NAME (sessionCookie a) then None
      else Some (''SESSION_COOKIE '' @ quoted (sessionCookie a) @ '' is not a valid cookie name. '' @
        ''Use letters, digits, '' @ quoted ''_'' @ '' or '' @ quoted ''-'' @ '', for example hcml_session.''))"

definition session_hours_error :: "environment \<Rightarrow> string option" where
  "session_hours_error env =
     (let hours = trim (or_empty (env ''SESSION_HOURS'')) in
      if hours \<noteq> [] \<and> validSessionHours (Some hours) = None then
        Some (''SESSION_HOURS='' @ quoted hours @ '' is not a length of session the portal can use. '' @
          ''Use a number of hours from 2 to 24 (an open portal renews an hour before the end), '' @
          ''or leave it unset for 12.'')
      else None)"

definition session_epoch_error :: "auth_settings \<Rightarrow> string option" where
  "session_epoch_error a =
     (if SESSION_EPOCH_PATTERN (session_epoch a) then None
      else Some (''SESSION_EPOCH '' @ quoted (session_epoch a) @ '' is not a label the portal can put in a token. '' @
        ''Use up to 32 letters, digits, '' @ quoted ''.'' @ '' '' @ quoted ''_'' @ '' or '' @ quoted ''-'' @ '', for example 2.''))"

definition no_data_error :: "(string \<Rightarrow> rat option) \<Rightarrow> environment \<Rightarrow> string option" where
  "no_data_error other env =
     (if parseNoDataWindows other (env ''SLA_NO_DATA_WINDOWS'') = None then
        Some (''SLA_NO_DATA_WINDOWS='' @ quoted (or_empty (env ''SLA_NO_DATA_WINDOWS''))
          @ '' cannot be read. Write each span as start/end in ISO time ''
          @ ''with its zone, comma-separated, for example 2026-10-26T16:10+07:00/2026-10-26T21:03+07:00.'')
      else None)"

definition startup_error :: "(string \<Rightarrow> rat option) \<Rightarrow> environment \<Rightarrow> string option" where
  "startup_error other env =
     (let a = auth (config_of other env) in
      first_error [auth_enabled_error env, jwt_secret_error a, cookie_error a, session_hours_error env,
        session_epoch_error a, no_data_error other env])"

definition warn_if :: "bool \<Rightarrow> string \<Rightarrow> string list" where
  "warn_if b w = (if b then [w] else [])"

definition zabbix_warnings :: "(string \<Rightarrow> bool) \<Rightarrow> environment \<Rightarrow> config \<Rightarrow> string list" where
  "zabbix_warnings url_ok env c =
     warn_if (\<not> url_ok (zbxUrl c)) (''ZBX_URL is not a valid URL ('' @ quoted (zbxUrl c) @ ''): every Zabbix call will fail.'') @
     warn_if (zbxToken c = []) ''ZABBIX_API_TOKEN is not set: Zabbix calls will fail until you set it in server/.env'' @
     warn_if (or_empty (env ''ZABBIX_API_TOKEN'') = [] \<and> or_empty (env ''ZBX_TOKEN'') \<noteq> [])
       ''ZBX_TOKEN is deprecated. Rename it to ZABBIX_API_TOKEN in server/.env.''"

definition auth_warnings :: "config \<Rightarrow> string list" where
  "auth_warnings c =
     warn_if (\<not> auth_enabled (auth c)) ''AUTH_ENABLED=false: the portal is UNAUTHENTICATED. Never do this outside local dev.'' @
     warn_if (\<not> auth_enabled (auth c) \<and> listen_host c = ''0.0.0.0'')
       (''AUTH_ENABLED=false and HOST=0.0.0.0: every data endpoint is reachable from the network ''
         @ ''with no login. Set HOST=127.0.0.1 in server/.env for local dev.'') @
     (if zbxWriteToken c = [] then
        [''ZABBIX_WRITE_TOKEN is not set: acknowledge/close is disabled (portal stays read-only).'']
      else warn_if (\<not> auth_enabled (auth c))
        (if allowWriteWithoutAuth (auth c) then
           ''ALLOW_WRITE_WITHOUT_AUTH=true: with sign-in off, anyone who reaches this server can acknowledge and close problems.''
         else ''ZABBIX_WRITE_TOKEN is set but AUTH_ENABLED=false: acknowledge/close is refused. ''
           @ ''For local dev only, set ALLOW_WRITE_WITHOUT_AUTH=true to allow it.''))"

definition ai_warnings :: "environment \<Rightarrow> config \<Rightarrow> string list" where
  "ai_warnings env c =
     (let raw = or_empty (env ''AI_PROVIDER'') in
      warn_if (raw \<noteq> [] \<and> raw \<notin> set AI_PROVIDERS)
        (''AI_PROVIDER='' @ quoted raw @ '' is not a known backend: expected ''
          @ join '' or '' AI_PROVIDERS @ ''. Falling back to '' @ quoted ''anthropic'' @ ''.'')) @
     warn_if (aiKeyPlaceholders env \<noteq> [])
       (''Ignoring '' @ join '' and '' (aiKeyPlaceholders env) @ '': the value is still the placeholder from .env.example. ''
         @ ''Set a real key, or leave it empty.'') @
     warn_if (\<not> ai_enabled (ai c))
       (if ai_backend (ai c) = Anthropic
        then ''ANTHROPIC_API_KEY is not set: /api/explain/* will return 503 and the UI hides '' @ quoted ''Explain'' @ ''.''
        else ''AI_BASE_URL is not set: /api/explain/* will return 503 and the UI hides '' @ quoted ''Explain'' @ ''. ''
          @ ''Point it at your local model, e.g. http://localhost:11434/v1'')"

text \<open>\<open>Inl\<close> is the error thrown, \<open>Inr\<close> the warnings in the order they are given.\<close>

definition assertConfig :: "(string \<Rightarrow> bool) \<Rightarrow> (string \<Rightarrow> rat option) \<Rightarrow> environment \<Rightarrow> string + string list" where
  "assertConfig url_ok other env =
     (let c = config_of other env in
      case startup_error other env of
        Some msg \<Rightarrow> Inl msg
      | None \<Rightarrow> Inr (zabbix_warnings url_ok env c @ auth_warnings c @ ai_warnings env c))"

subsection \<open>Lemmas\<close>

lemma trim_idem [simp]: "trim (trim s) = trim s"
proof -
  define t where "t = dropWhile is_space s"
  define u where "u = rev (dropWhile is_space (rev t))"
  obtain v where v: "t = u @ v" unfolding u_def
    by (metis rev_append rev_rev_ident takeWhile_dropWhile_id)
  have "dropWhile is_space u = u"
  proof (cases u)
    case (Cons c r)
    then have "c = hd t" "t \<noteq> []" using v by auto
    then have "\<not> is_space c" using hd_dropWhile [of is_space s] by (auto simp: t_def)
    then show ?thesis using Cons by simp
  qed simp
  then have "trim u = u" by (simp add: trim_def u_def)
  then show ?thesis by (simp add: trim_def t_def u_def)
qed

lemma csv_entries: "x \<in> set (csv raw) \<Longrightarrow> x \<noteq> [] \<and> trim x = x"
  by (auto simp: csv_def)

lemma or_default_nonempty: "d \<noteq> [] \<Longrightarrow> or_default v d \<noteq> []"
  by (auto simp: or_default_def split: option.splits)

lemma validSessionHours_bounds: "validSessionHours raw = Some h \<Longrightarrow> 2 \<le> h \<and> h \<le> 24"
  by (auto simp: validSessionHours_def Let_def SESSION_HOURS_MIN_def SESSION_HOURS_MAX_def split: if_splits jsnum.splits)

lemma parse_span_order: "parse_span other p = Some (a, b) \<Longrightarrow> a < b"
proof -
  assume "parse_span other p = Some (a, b)"
  then have "\<exists>x y :: rat. \<not> y \<le> x \<and> a = \<lfloor>x\<rfloor> \<and> b = \<lceil>y\<rceil>"
    by (auto simp: parse_span_def split: list.splits option.splits if_splits)
  then obtain x y :: rat where "x < y" "a = \<lfloor>x\<rfloor>" "b = \<lceil>y\<rceil>" by (auto simp: not_le)
  then show "a < b" by (simp add: floor_less_iff less_ceiling_iff) linarith
qed

lemma parse_spans_order: "parse_spans other ps = Some ws \<Longrightarrow> (a, b) \<in> set ws \<Longrightarrow> a < b"
proof (induction ps arbitrary: ws)
  case (Cons p ps)
  then show ?case by (auto split: option.splits dest: parse_span_order)
qed simp

lemma parseNoDataWindows_sound:
  assumes "parseNoDataWindows other raw = Some ws"
  shows "sorted (map fst ws) \<and> (\<forall>(a, b) \<in> set ws. a < b)"
proof -
  have "sorted_wrt (\<lambda>a b. compare (fst a) (fst b) \<le> 0) (js_sort (\<lambda>a b. compare (fst a) (fst b)) xs)" for xs :: "(int \<times> int) list"
    by (rule sorted_js_sort [OF consistent_key])
  moreover have "compare (fst a) (fst b) \<le> 0 \<longleftrightarrow> fst a \<le> fst b" for a b :: "int \<times> int"
    by (auto simp: compare_def)
  ultimately have "sorted (map fst (js_sort (\<lambda>a b. compare (fst a) (fst b)) xs))" for xs :: "(int \<times> int) list"
    by (simp add: sorted_map)
  then show ?thesis using assms parse_spans_order
    by (auto simp: parseNoDataWindows_def Let_def split: if_splits)
qed

lemma first_digit_positive: "all_digits v \<Longrightarrow> v \<noteq> [] \<Longrightarrow> hd v \<noteq> CHR ''0'' \<Longrightarrow> 1 \<le> digits_val v"
proof (induction v rule: rev_induct)
  case (snoc c v)
  show ?case
  proof (cases "v = []")
    case True
    then have c: "is_digit c" "c \<noteq> CHR ''0''" using snoc.prems by auto
    have "char_of (48::nat) = CHR ''0''" by code_simp
    have "digit_val c \<noteq> 0"
    proof
      assume "digit_val c = 0"
      then show False using \<open>char_of (48::nat) = CHR ''0''\<close> digit_char_val [OF c(1)] c(2) by (simp add: digit_char_def)
    qed
    then show ?thesis using True by (simp add: digits_val_def)
  next
    case False
    then show ?thesis using snoc by simp
  qed
qed simp

lemma trustProxyHops_bounds: "trustProxyHops raw = Some h \<Longrightarrow> h = PosInf \<or> (\<exists>n. 1 \<le> n \<and> h = Num (of_nat n))"
  using first_digit_positive
  by (force simp: trustProxyHops_def Let_def js_number_digits to_jsnum_def split: if_splits)

lemma aiApiKey_not_placeholder: "aiApiKey env \<noteq> [] \<Longrightarrow> \<not> isPlaceholderKey (Some (aiApiKey env))"
proof (cases "find (\<lambda>v. v \<noteq> [] \<and> \<not> isPlaceholderKey (Some v)) (map (\<lambda>p. or_empty (snd p)) (aiKeys env))")
  case (Some v)
  then have "aiApiKey env = v" by (simp add: aiApiKey_def or_empty_def)
  then show ?thesis using Some by (auto simp: find_Some_iff)
qed (simp add: aiApiKey_def or_empty_def)

lemma or_empty_simps [simp]: "or_empty None = []" "or_empty (Some s) = s"
  by (simp_all add: or_empty_def)

lemma aiApiKey_local:
  "toAiProvider (or_default (env ''AI_PROVIDER'') ''anthropic'') \<noteq> Anthropic \<Longrightarrow>
   aiApiKey (env(''ANTHROPIC_API_KEY'' := k)) = aiApiKey env"
  by (simp add: aiApiKey_def aiKeys_def)

lemma startup_error_None:
  "startup_error other env = None \<longleftrightarrow>
     auth_enabled_error env = None \<and> jwt_secret_error (auth_of env) = None \<and> cookie_error (auth_of env) = None
     \<and> session_hours_error env = None \<and> session_epoch_error (auth_of env) = None \<and> no_data_error other env = None"
  by (simp add: startup_error_def first_error_None config_of_def Let_def)

subsection \<open>Properties\<close>

text \<open>
  Whatever the environment holds, the settings are well formed: every limit is at least one (a budget at least
  zero), a session lasts 2 to 24 hours, the texts that must name something are not empty, the entries of a list are
  not empty and carry no outer blanks, the declared spans are in order and not empty, at least one proxy is
  trusted when any is, the key of the model is never the placeholder of the example file.
\<close>

definition wf_stream :: "stream_settings \<Rightarrow> bool" where
  "wf_stream s \<longleftrightarrow> 1 \<le> maxClients s \<and> 1 \<le> maxPerUser s"

definition wf_texts :: "string list \<Rightarrow> bool" where
  "wf_texts ts \<longleftrightarrow> list_all (\<lambda>t. t \<noteq> [] \<and> trim t = t) ts"

definition wf_sla :: "sla_settings \<Rightarrow> bool" where
  "wf_sla s \<longleftrightarrow> sla_timezone s \<noteq> [] \<and> wf_texts (reportTriggers s) \<and> wf_texts (availabilityTriggers s)
     \<and> sorted (map fst (noDataWindows s)) \<and> list_all (\<lambda>(a, b). a < b) (noDataWindows s)"

definition wf_auth :: "auth_settings \<Rightarrow> bool" where
  "wf_auth a \<longleftrightarrow> jwtSecret a \<noteq> [] \<and> sessionCookie a \<noteq> [] \<and> session_epoch a \<noteq> []
     \<and> 2 \<le> session_hours a \<and> session_hours a \<le> 24"

definition wf_ai :: "ai_settings \<Rightarrow> bool" where
  "wf_ai a \<longleftrightarrow> ai_external a = (ai_backend a = Anthropic)
     \<and> ai_enabled a = ((if ai_backend a = Anthropic then ai_apiKey a else ai_baseUrl a) \<noteq> [])
     \<and> (ai_apiKey a = [] \<or> \<not> isPlaceholderKey (Some (ai_apiKey a)))
     \<and> ai_model a \<noteq> [] \<and> ai_keepAlive a \<noteq> []
     \<and> 1 \<le> chatPerMinute (limits a) \<and> 1 \<le> explainPerMinute (limits a) \<and> 1 \<le> maxConcurrent (limits a)
     \<and> 0 \<le> dailyTokensPerUser (limits a) \<and> 0 \<le> dailyTokensTotal (limits a)"

definition wf_config :: "config \<Rightarrow> bool" where
  "wf_config c \<longleftrightarrow> zbxUrl c \<noteq> [] \<and> listen_host c \<noteq> [] \<and> webOrigin c \<noteq> [] \<and> site_tag c \<noteq> [] \<and> ownerTag c \<noteq> []
     \<and> criticalityTag c \<noteq> [] \<and> meters_dashboard c \<noteq> [] \<and> wf_texts (netGroupIds c)
     \<and> (case trustProxy c of Some (Num q) \<Rightarrow> 1 \<le> q | Some h \<Rightarrow> h = PosInf | None \<Rightarrow> True)
     \<and> wf_stream (stream c) \<and> wf_sla (sla c) \<and> wf_auth (auth c) \<and> wf_ai (ai c)"

lemma wf_texts_csv: "wf_texts (csv raw)"
  by (auto simp: wf_texts_def list_all_iff dest: csv_entries)

lemma wf_sla_of: "wf_sla (sla_of other env)"
  using parseNoDataWindows_sound [of other "env ''SLA_NO_DATA_WINDOWS''"]
  by (auto simp: wf_sla_def sla_of_def wf_texts_csv list_all_iff or_default_nonempty split: option.split)

lemma wf_auth_of: "wf_auth (auth_of env)"
  using validSessionHours_bounds [of "env ''SESSION_HOURS''"]
  by (auto simp: wf_auth_def auth_of_def SESSION_HOURS_DEFAULT_def DEFAULT_JWT_SECRET_def or_default_nonempty split: option.split)

lemma wf_ai_of: "wf_ai (ai_of env)"
  using aiApiKey_not_placeholder [of env]
  by (auto simp: wf_ai_def ai_of_def ai_limits_of_def floor_at_least_def Let_def or_default_nonempty)

text \<open>
  C32. The settings are well formed for every environment, and the portal is open exactly when the environment
  says so in one of the three words for it: a typo never opens it.
\<close>

theorem settings_are_typed:
  "wf_config (config_of other env) \<and>
   (auth_enabled (auth (config_of other env)) \<longleftrightarrow>
      toLowerCase (trim (or_empty (env ''AUTH_ENABLED''))) \<notin> {''false'', ''0'', ''no''})"
proof
  have "case trustProxyHops (env ''TRUST_PROXY'') of Some (Num q) \<Rightarrow> 1 \<le> q | Some h \<Rightarrow> h = PosInf | None \<Rightarrow> True"
    using trustProxyHops_bounds [of "env ''TRUST_PROXY''"] by (auto split: option.split jsnum.split)
  then show "wf_config (config_of other env)"
    by (simp add: wf_config_def config_of_def or_default_nonempty wf_texts_csv wf_sla_of wf_auth_of wf_ai_of
        wf_stream_def stream_of_def floor_at_least_def)
  show "auth_enabled (auth (config_of other env)) \<longleftrightarrow>
      toLowerCase (trim (or_empty (env ''AUTH_ENABLED''))) \<notin> {''false'', ''0'', ''no''}"
    by (auto simp: config_of_def auth_of_def parseAuthEnabled_def AUTH_ON_VALUES_def AUTH_OFF_VALUES_def Let_def)
qed


text \<open>
  The key of the hosted model is never sent to another server: with a local model the settings do not depend on
  \<open>ANTHROPIC_API_KEY\<close> at all, and with the hosted one \<open>AI_BASE_URL\<close> does not decide whether it is on.
\<close>

lemma hosted_key_stays_home:
  "(if toAiProvider (or_default (env ''AI_PROVIDER'') ''anthropic'') = Anthropic
    then ai_enabled (ai_of (env(''AI_BASE_URL'' := url))) = ai_enabled (ai_of env)
    else ai_of (env(''ANTHROPIC_API_KEY'' := k)) = ai_of env)"
  using aiApiKey_local [of env k]
  by (simp add: ai_of_def ai_limits_of_def envNum_def aiApiKey_def aiKeys_def Let_def)

end
