(* ===== verification/Incidents.thy ===== *)
theory Incidents
  imports Slices Calendar
begin

text \<open>
  Problem occurrences over a window (\<open>server/src/services/incidents.ts\<close>): what the availability and the
  alert-noise report read from Zabbix, and how problem and recovery events become incidents clipped to the
  window. The Zabbix methods are parameters (\<open>incident_source\<close>). As in \<open>Coverage\<close>, the fields the code reads with
  \<open>Number\<close> (clocks, severities, priorities) are numbers of the rows.
\<close>

subsection \<open>Windows\<close>

definition severitiesAtLeast :: "int \<Rightarrow> int list" where
  "severitiesAtLeast lo = filter (\<lambda>s. min (max lo 0) 5 \<le> s) [0, 1, 2, 3, 4, 5]"

type_synonym report_window = "int \<times> int"

text \<open>\<open>now\<close> is the clock in whole seconds.\<close>

definition lastDays :: "int \<Rightarrow> int \<Rightarrow> report_window" where
  "lastDays now days = (now - days * 86400, now)"

definition monthWindow :: "(int \<Rightarrow> int) \<Rightarrow> int \<Rightarrow> string \<Rightarrow> api_error + report_window" where
  "monthWindow zone now mon =
     and_then (monthBounds zone mon) (\<lambda>(from, to).
       if from \<ge> now then Inl (BadRequestError ''That period has not started yet.'')
       else if from < now - 400 * 86400 then
         Inl (BadRequestError ''Zabbix keeps events for about a year; pick a later period.'')
       else Inr (from, min to now))"

definition OPEN_AT_START_LOOKBACK :: int where "OPEN_AT_START_LOOKBACK = 31 * 86400"
definition LONG_OUTAGE_LOOKUPS :: nat where "LONG_OUTAGE_LOOKUPS = 200"

subsection \<open>Rows and requests\<close>

record problem_event =
  pe_eventid :: string
  pe_objectid :: string
  pe_clock :: int
  pe_severity :: int
  pe_acknowledged :: "string option"
  pe_r_eventid :: "string option"
  pe_name :: "string option"
  pe_hosts :: "(string \<times> string) list option"

record recovery_event =
  re_eventid :: string
  re_objectid :: string
  re_clock :: int

text \<open>
  The requests: the sliced reads of problem and recovery events of a span, the unresolved problems up to a second,
  problems by event id, the last problems of a trigger up to a second, triggers with their priority, and
  recoveries by event id with their clock. A severity list is passed where the request carries one.
\<close>

record incident_source =
  problems_in :: "int list \<Rightarrow> int \<Rightarrow> int \<Rightarrow> api_error + problem_event list"
  recoveries_in :: "int \<Rightarrow> int \<Rightarrow> api_error + recovery_event list"
  open_problems :: "int list \<Rightarrow> int \<Rightarrow> api_error + string list"
  problems_by_id :: "int list \<Rightarrow> string list \<Rightarrow> api_error + problem_event list"
  last_problem :: "int list \<Rightarrow> string \<Rightarrow> int \<Rightarrow> api_error + problem_event list"
  priorities :: "string list \<Rightarrow> api_error + (string \<times> int) list"
  clocks_by_id :: "string list \<Rightarrow> api_error + (string \<times> int) list"

text \<open>\<open>(await mapLimit(chunk(ids, 2_000), n, f)).flat()\<close>.\<close>

definition in_batches :: "(string list \<Rightarrow> api_error + 'a list) \<Rightarrow> string list \<Rightarrow> api_error + 'a list" where
  "in_batches f ids = and_then (all_or_error (map f (the (chunk ids 2000)))) (\<lambda>parts. Inr (concat parts))"

definition stillOpenBefore :: "incident_source \<Rightarrow> int \<Rightarrow> int \<Rightarrow> api_error + problem_event list" where
  "stillOpenBefore src until minSeverity =
     and_then (open_problems src (severitiesAtLeast minSeverity) until) (\<lambda>ids.
       in_batches (problems_by_id src (severitiesAtLeast minSeverity)) ids)"

text \<open>A recovery id that says the problem was resolved: \<open>p.r_eventid && p.r_eventid !== '0'\<close>.\<close>

definition resolved_by :: "problem_event \<Rightarrow> string option" where
  "resolved_by p = (case pe_r_eventid p of Some r \<Rightarrow> (if r \<noteq> [] \<and> r \<noteq> ''0'' then Some r else None) | None \<Rightarrow> None)"

definition first_of_trigger :: "recovery_event list \<Rightarrow> (string, recovery_event) table" where
  "first_of_trigger rs = fold (\<lambda>r t. if table_get t (re_objectid r) = None then table_set (re_objectid r) r t else t) rs []"

definition endedInWindow ::
  "incident_source \<Rightarrow> recovery_event list \<Rightarrow> string list \<Rightarrow> int \<Rightarrow> int \<Rightarrow> api_error + problem_event list \<times> bool" where
  "endedInWindow src recoveries explained lookFrom minSeverity =
     (let unexplained = filter (\<lambda>r. re_eventid r \<notin> set explained) (map snd (first_of_trigger recoveries)) in
      and_then (in_batches (priorities src) (map re_objectid unexplained)) (\<lambda>rows.
        let priority = fold (\<lambda>(i, p). table_set i p) rows [];
            wanted = filter (\<lambda>r. (case table_get priority (re_objectid r) of Some p \<Rightarrow> p | None \<Rightarrow> -1) \<ge> minSeverity) unexplained;
            asked = take LONG_OUTAGE_LOOKUPS wanted in
        and_then (all_or_error (map (\<lambda>r.
            and_then (last_problem src (severitiesAtLeast minSeverity) (re_objectid r) (lookFrom - 1)) (\<lambda>found.
              Inr (case found of
                     [] \<Rightarrow> None
                   | latest # _ \<Rightarrow> (if pe_r_eventid latest = Some (re_eventid r) then Some latest else None)))) asked)) (\<lambda>found.
          Inr (List.map_filter (\<lambda>p. p) found, length asked < length wanted))))"

subsection \<open>\<open>fetchIncidents\<close>\<close>

record incident =
  in_eventid :: string
  in_objectid :: string
  in_host :: string
  in_hostid :: string
  in_name :: string
  in_severity :: int
  in_start :: int
  in_began :: int
  in_end :: int
  in_resolved :: bool
  in_acknowledged :: bool

text \<open>One turn of the last loop: \<open>None\<close> is a \<open>continue\<close>.\<close>

definition incident_of :: "int \<Rightarrow> int \<Rightarrow> (string, int) table \<Rightarrow> problem_event \<Rightarrow> incident option" where
  "incident_of from to recoveryClock p =
     (case pe_hosts p of
        Some ((hid, hname) # _) \<Rightarrow>
          (let start = max (pe_clock p) from;
               resolved = (resolved_by p \<noteq> None);
               rec = (case resolved_by p of Some r \<Rightarrow> table_get recoveryClock r | None \<Rightarrow> None);
               end = min (case rec of Some c \<Rightarrow> c | None \<Rightarrow> to) to in
           if pe_clock p < from \<and> resolved \<and> rec = None then None
           else if end \<le> start then None
           else Some \<lparr>in_eventid = pe_eventid p, in_objectid = pe_objectid p, in_host = hname, in_hostid = hid,
             in_name = (case pe_name p of Some n \<Rightarrow> n | None \<Rightarrow> []), in_severity = pe_severity p, in_start = start,
             in_began = pe_clock p, in_end = end, in_resolved = resolved,
             in_acknowledged = (pe_acknowledged p = Some ''1'')\<rparr>)
      | _ \<Rightarrow> None)"

definition by_eventid :: "problem_event list \<Rightarrow> (string, problem_event) table \<Rightarrow> (string, problem_event) table" where
  "by_eventid = fold (\<lambda>p. table_set (pe_eventid p) p)"

record incident_read =
  ir_incidents :: "incident list"
  ir_from :: int
  ir_to :: int
  ir_truncated :: bool

definition fetchIncidents :: "incident_source \<Rightarrow> report_window \<Rightarrow> int \<Rightarrow> api_error + incident_read" where
  "fetchIncidents src win minSeverity =
     (let (from, to) = win; severities = severitiesAtLeast minSeverity; lookFrom = from - OPEN_AT_START_LOOKBACK in
      and_then (problems_in src severities from to) (\<lambda>inWindow.
      and_then (problems_in src severities lookFrom (from - 1)) (\<lambda>before.
      and_then (stillOpenBefore src (lookFrom - 1) minSeverity) (\<lambda>older.
      and_then (recoveries_in src from to) (\<lambda>recoveries.
        let events = by_eventid (older @ before @ inWindow) [];
            explained = List.map_filter resolved_by (map snd events) in
        and_then (endedInWindow src recoveries explained lookFrom minSeverity) (\<lambda>(ended, partial).
          let qualifying = filter (\<lambda>p. minSeverity \<le> pe_severity p) (map snd (by_eventid ended events));
              known = fold (\<lambda>r. table_set (re_eventid r) (re_clock r)) recoveries [];
              recoveryIds = filter (\<lambda>i. table_get known i = None) (List.map_filter resolved_by qualifying) in
          and_then (in_batches (clocks_by_id src) recoveryIds) (\<lambda>rows.
            let recoveryClock = fold (\<lambda>(i, c). table_set i c) rows known in
            Inr \<lparr>ir_incidents = List.map_filter (incident_of from to recoveryClock) qualifying,
                 ir_from = from, ir_to = to, ir_truncated = partial\<rparr>)))))))"

subsection \<open>What Zabbix stores\<close>

text \<open>
  A history and the answers Zabbix documents for it. The sliced reads return the events of the closed span in
  clock order (the main property of \<open>fetchEventsSliced\<close>).
\<close>

record zabbix_history =
  zh_problems :: "problem_event list"
  zh_recoveries :: "recovery_event list"
  zh_priorities :: "(string \<times> int) list"

definition problems_where :: "zabbix_history \<Rightarrow> int list \<Rightarrow> (problem_event \<Rightarrow> bool) \<Rightarrow> problem_event list" where
  "problems_where db sev P = filter (\<lambda>p. pe_severity p \<in> set sev \<and> P p) (zh_problems db)"

definition zabbix_of :: "zabbix_history \<Rightarrow> incident_source" where
  "zabbix_of db =
     \<lparr>problems_in = (\<lambda>sev a b. Inr (problems_where db sev (\<lambda>p. a \<le> pe_clock p \<and> pe_clock p \<le> b))),
      recoveries_in = (\<lambda>a b. Inr (filter (\<lambda>v. a \<le> re_clock v \<and> re_clock v \<le> b) (zh_recoveries db))),
      open_problems = (\<lambda>sev until. Inr (map pe_eventid (problems_where db sev (\<lambda>p. pe_clock p \<le> until \<and> resolved_by p = None)))),
      problems_by_id = (\<lambda>sev ids. Inr (problems_where db sev (\<lambda>p. pe_eventid p \<in> set ids))),
      last_problem = (\<lambda>sev trigger until. Inr (take 1 (rev (problems_where db sev (\<lambda>p. pe_objectid p = trigger \<and> pe_clock p \<le> until))))),
      priorities = (\<lambda>ids. Inr (filter (\<lambda>t. fst t \<in> set ids) (zh_priorities db))),
      clocks_by_id = (\<lambda>ids. Inr (map (\<lambda>v. (re_eventid v, re_clock v)) (filter (\<lambda>v. re_eventid v \<in> set ids) (zh_recoveries db))))\<rparr>"

text \<open>The recovery that ended a problem.\<close>

definition closes :: "zabbix_history \<Rightarrow> recovery_event \<Rightarrow> problem_event \<Rightarrow> bool" where
  "closes db v p \<longleftrightarrow> v \<in> set (zh_recoveries db) \<and> resolved_by p = Some (re_eventid v)"

text \<open>
  What the code relies on: events in clock order with their own ids, a recovery kept with its problem, on the same trigger, and
  not before it; triggers listed with the severity of their events; and, per trigger, one problem at a time (no
  second problem begins, and no other recovery falls, while one is open).
\<close>

definition one_at_a_time :: "zabbix_history \<Rightarrow> bool" where
  "one_at_a_time db \<longleftrightarrow> (\<forall>p \<in> set (zh_problems db). \<forall>v \<in> set (zh_recoveries db). closes db v p \<longrightarrow>
     (\<forall>q \<in> set (zh_problems db). pe_objectid q = pe_objectid p \<and> q \<noteq> p \<longrightarrow>
        (re_clock v \<le> pe_clock q \<or> pe_clock q < pe_clock p) \<and> resolved_by q \<noteq> resolved_by p) \<and>
     (\<forall>w \<in> set (zh_recoveries db). re_objectid w = pe_objectid p \<and> w \<noteq> v \<longrightarrow> re_clock w \<le> pe_clock p \<or> re_clock v < re_clock w))"

definition wf_history :: "zabbix_history \<Rightarrow> bool" where
  "wf_history db \<longleftrightarrow>
     sorted (map pe_clock (zh_problems db)) \<and> sorted (map re_clock (zh_recoveries db)) \<and>
     distinct (map pe_eventid (zh_problems db)) \<and> distinct (map re_eventid (zh_recoveries db)) \<and>
     (\<forall>p \<in> set (zh_problems db). resolved_by p \<noteq> None \<longrightarrow>
        (\<exists>v \<in> set (zh_recoveries db). closes db v p \<and> re_objectid v = pe_objectid p \<and> pe_clock p \<le> re_clock v)) \<and>
     (\<forall>p \<in> set (zh_problems db). pe_severity p \<in> {0..5} \<and> (\<forall>t \<in> set (zh_priorities db). fst t = pe_objectid p \<longrightarrow> snd t = pe_severity p)
        \<and> (pe_objectid p, pe_severity p) \<in> set (zh_priorities db)) \<and>
     one_at_a_time db"

text \<open>When a problem ended: its recovery, or \<open>to\<close> when it is still open.\<close>

definition ended_at :: "zabbix_history \<Rightarrow> int \<Rightarrow> problem_event \<Rightarrow> int" where
  "ended_at db to p = (case find (\<lambda>v. resolved_by p = Some (re_eventid v)) (zh_recoveries db) of
     Some v \<Rightarrow> re_clock v | None \<Rightarrow> to)"

subsection \<open>Lemmas\<close>

lemma in_severities: "0 \<le> lo \<Longrightarrow> lo \<le> 5 \<Longrightarrow> x \<in> {0..5} \<Longrightarrow> x \<in> set (severitiesAtLeast lo) \<longleftrightarrow> lo \<le> x"
proof -
  assume lo: "0 \<le> lo" "lo \<le> 5" and "x \<in> {0..5}"
  then have "x = 0 \<or> x = 1 \<or> x = 2 \<or> x = 3 \<or> x = 4 \<or> x = 5" by auto
  then show ?thesis using lo by (auto simp: severitiesAtLeast_def)
qed

lemma in_batches_rows:
  assumes "\<And>ids. f ids = Inr (map h (filter (\<lambda>x. k x \<in> set ids) rows))"
  shows "\<exists>out. in_batches f ids = Inr out \<and> set out = h ` {x \<in> set rows. k x \<in> set ids}"
proof -
  let ?cs = "chunks_of 1999 ids"
  have c: "chunk ids 2000 = Some ?cs" using chunk_eq [of 2000 ids] by simp
  have f: "f = (\<lambda>ids. Inr (map h (filter (\<lambda>x. k x \<in> set ids) rows)))" using assms by (rule ext)
  have "in_batches f ids = Inr (concat (map (\<lambda>c. map h (filter (\<lambda>x. k x \<in> set c) rows)) ?cs))"
    unfolding f by (simp add: in_batches_def c all_or_error_Inr)
  moreover have "set ids = \<Union> (set ` set ?cs)" using chunks_of_props [of 1999 ids] by (metis set_concat)
  then have "set (concat (map (\<lambda>c. map h (filter (\<lambda>x. k x \<in> set c) rows)) ?cs)) = h ` {x \<in> set rows. k x \<in> set ids}"
    by auto
  ultimately show ?thesis by blast
qed

definition by_id :: "(string, problem_event) table \<Rightarrow> bool" where
  "by_id t \<longleftrightarrow> wf_table t \<and> (\<forall>(k, p) \<in> set t. k = pe_eventid p)"

lemma by_id_values: "by_id t \<Longrightarrow> p \<in> set (map snd t) \<longleftrightarrow> table_get t (pe_eventid p) = Some p"
  using wf_table_values [of t pe_eventid p] by (auto simp: by_id_def)

lemma by_id_set: "by_id t \<Longrightarrow> by_id (table_set (pe_eventid p) p t)"
proof -
  assume t: "by_id t"
  have "k = pe_eventid q" if "(k, q) \<in> set (table_set (pe_eventid p) p t)" for k q
  proof -
    have "table_get (table_set (pe_eventid p) p t) k = Some q"
      using that t by (simp add: by_id_def wf_table_get wf_table_set)
    then show ?thesis using t by (auto simp: table_simps by_id_def split: if_splits dest: table_get_in_set)
  qed
  then show ?thesis using t by (auto simp: by_id_def wf_table_set)
qed

lemma by_eventid_spec:
  assumes "by_id t" "inj_on pe_eventid (set ps \<union> set (map snd t))"
  shows "by_id (by_eventid ps t) \<and> set (map snd (by_eventid ps t)) = set ps \<union> set (map snd t)"
  using assms
proof (induction ps arbitrary: t)
  case Nil
  then show ?case by (simp add: by_eventid_def)
next
  case (Cons p ps)
  let ?t = "table_set (pe_eventid p) p t"
  have t: "by_id ?t" using Cons.prems(1) by (rule by_id_set)
  have "q \<in> set (map snd ?t) \<longleftrightarrow> q = p \<or> q \<in> set (map snd t)" for q
  proof (cases "pe_eventid q = pe_eventid p")
    case True
    have "q = p" if "q \<in> set (map snd t)"
      using that True Cons.prems(2) unfolding inj_on_def by (metis UnCI list.set_intros(1))
    then show ?thesis using True unfolding by_id_values [OF t] by (auto simp: table_simps)
  next
    case False
    then show ?thesis unfolding by_id_values [OF t] by_id_values [OF Cons.prems(1)] by (auto simp: table_simps)
  qed
  then have vals: "set (map snd ?t) = insert p (set (map snd t))" by blast
  have "inj_on pe_eventid (set ps \<union> set (map snd ?t))"
    unfolding vals by (rule inj_on_subset [OF Cons.prems(2)]) auto
  from Cons.IH [OF t this] show ?case unfolding vals by (auto simp: by_eventid_def)
qed

lemma by_id_distinct: "by_id t \<Longrightarrow> distinct (map pe_eventid (map snd t))"
proof -
  assume t: "by_id t"
  have "distinct (map fst t)" using t by (simp add: by_id_def wf_table_def)
  moreover have "map (pe_eventid \<circ> snd) t = map fst t" using t unfolding by_id_def by (intro map_cong) auto
  ultimately show ?thesis by (simp only: map_map)
qed

lemma first_of_trigger_get: "table_get (first_of_trigger rs) i = find (\<lambda>r. re_objectid r = i) rs"
proof -
  have "table_get (fold (\<lambda>r t. if table_get t (re_objectid r) = None then table_set (re_objectid r) r t else t) rs t) i
      = (case table_get t i of None \<Rightarrow> find (\<lambda>r. re_objectid r = i) rs | Some r \<Rightarrow> Some r)" for t
    by (induction rs arbitrary: t) (auto simp: table_simps split: option.splits)
  then show ?thesis by (simp add: first_of_trigger_def)
qed

lemma first_of_trigger_wf: "wf_table (first_of_trigger rs) \<and> (\<forall>(k, r) \<in> set (first_of_trigger rs). k = re_objectid r)"
proof -
  have "wf_table t \<Longrightarrow> wf_table (fold (\<lambda>r t. if table_get t (re_objectid r) = None then table_set (re_objectid r) r t else t) rs t)" for t
    by (induction rs arbitrary: t) (auto simp: wf_table_set)
  then have wf: "wf_table (first_of_trigger rs)" by (simp add: first_of_trigger_def)
  moreover have "k = re_objectid r" if "(k, r) \<in> set (first_of_trigger rs)" for k r
    using wf_table_get [OF wf that] by (auto simp: first_of_trigger_get find_Some_iff)
  ultimately show ?thesis by auto
qed

lemma first_of_trigger_mem:
  "r \<in> set (map snd (first_of_trigger rs)) \<longleftrightarrow> find (\<lambda>x. re_objectid x = re_objectid r) rs = Some r"
  using wf_table_values [of "first_of_trigger rs" re_objectid r] first_of_trigger_wf [of rs]
  by (auto simp: first_of_trigger_get)

subsection \<open>The reads of a stored history\<close>

lemma history_facts:
  assumes "wf_history db"
  shows "inj_on pe_eventid (set (zh_problems db))" "inj_on re_eventid (set (zh_recoveries db))"
  using assms by (simp_all add: wf_history_def distinct_map)

lemma in_problems_where:
  "wf_history db \<Longrightarrow> 0 \<le> lo \<Longrightarrow> lo \<le> 5 \<Longrightarrow>
   set (problems_where db (severitiesAtLeast lo) P) = {p \<in> set (zh_problems db). lo \<le> pe_severity p \<and> P p}"
  using in_severities [of lo] by (auto simp: problems_where_def wf_history_def)

lemma stillOpenBefore_spec:
  assumes "wf_history db" "0 \<le> lo" "lo \<le> 5"
  shows "\<exists>older. stillOpenBefore (zabbix_of db) until lo = Inr older \<and>
    set older = {p \<in> set (zh_problems db). lo \<le> pe_severity p \<and> pe_clock p \<le> until \<and> resolved_by p = None}"
proof -
  define sev where "sev = severitiesAtLeast lo"
  let ?ids = "map pe_eventid (problems_where db sev (\<lambda>p. pe_clock p \<le> until \<and> resolved_by p = None))"
  have "problems_by_id (zabbix_of db) sev ids = Inr (map (\<lambda>p. p) (filter (\<lambda>p. pe_eventid p \<in> set ids) (problems_where db sev (\<lambda>_. True))))" for ids
    by (simp add: zabbix_of_def problems_where_def conj_ac)
  from in_batches_rows [OF this, of ?ids] obtain older where
    o1: "in_batches (problems_by_id (zabbix_of db) sev) ?ids = Inr older" and
    o2: "set older = {p \<in> set (problems_where db sev (\<lambda>_. True)). pe_eventid p \<in> set ?ids}"
    by auto
  have "set older = {p \<in> set (zh_problems db). lo \<le> pe_severity p \<and> pe_clock p \<le> until \<and> resolved_by p = None}"
    unfolding o2 set_map sev_def in_problems_where [OF assms]
    using history_facts(1) [OF assms(1)] by (auto simp: inj_on_def)
  moreover have "stillOpenBefore (zabbix_of db) until lo = Inr older"
    using o1 by (simp add: stillOpenBefore_def zabbix_of_def sev_def)
  ultimately show ?thesis by blast
qed

text \<open>The problem a recovery ended, as the lookup of one trigger finds it.\<close>

definition ended_by :: "zabbix_history \<Rightarrow> int \<Rightarrow> int \<Rightarrow> recovery_event \<Rightarrow> problem_event option" where
  "ended_by db lo lookFrom v =
     (case take 1 (rev (problems_where db (severitiesAtLeast lo) (\<lambda>p. pe_objectid p = re_objectid v \<and> pe_clock p \<le> lookFrom - 1))) of
        [] \<Rightarrow> None
      | latest # _ \<Rightarrow> (if pe_r_eventid latest = Some (re_eventid v) then Some latest else None))"

lemma ended_by_sound:
  "wf_history db \<Longrightarrow> 0 \<le> lo \<Longrightarrow> lo \<le> 5 \<Longrightarrow> ended_by db lo lookFrom v = Some p \<Longrightarrow>
   p \<in> set (zh_problems db) \<and> lo \<le> pe_severity p \<and> pe_clock p < lookFrom"
proof -
  assume a: "wf_history db" "0 \<le> lo" "lo \<le> 5" and "ended_by db lo lookFrom v = Some p"
  then have "p \<in> set (take 1 (rev (problems_where db (severitiesAtLeast lo) (\<lambda>p. pe_objectid p = re_objectid v \<and> pe_clock p \<le> lookFrom - 1))))"
    by (auto simp: ended_by_def split: list.splits if_splits)
  from in_set_takeD [OF this] show ?thesis using in_problems_where [OF a] by auto
qed

lemma resolved_by_r: "resolved_by p = Some r \<Longrightarrow> pe_r_eventid p = Some r"
  by (auto simp: resolved_by_def split: option.splits if_splits)

lemma wf_history_closes:
  assumes "wf_history db" "p \<in> set (zh_problems db)" "closes db v p"
  shows "re_objectid v = pe_objectid p \<and> pe_clock p \<le> re_clock v \<and> ended_at db to p = re_clock v"
proof -
  have "resolved_by p \<noteq> None" using assms(3) by (simp add: closes_def)
  then obtain w where w: "closes db w p" "re_objectid w = pe_objectid p" "pe_clock p \<le> re_clock w"
    using assms by (auto simp: wf_history_def)
  have "w = v" using w(1) assms(3) history_facts(2) [OF assms(1)] by (auto simp: closes_def inj_on_def)
  moreover have "find (\<lambda>v. resolved_by p = Some (re_eventid v)) (zh_recoveries db) = Some v"
  proof -
    obtain u where u: "find (\<lambda>v. resolved_by p = Some (re_eventid v)) (zh_recoveries db) = Some u"
      using assms(3) by (cases "find (\<lambda>v. resolved_by p = Some (re_eventid v)) (zh_recoveries db)") (auto simp: closes_def find_None_iff)
    then have "u \<in> set (zh_recoveries db)" "resolved_by p = Some (re_eventid u)" by (auto simp: find_Some_iff)
    then have "u = v" using assms(3) history_facts(2) [OF assms(1)] by (auto simp: closes_def inj_on_def)
    then show ?thesis using u by simp
  qed
  ultimately show ?thesis using w by (simp add: ended_at_def)
qed

lemma ended_by_complete:
  assumes "wf_history db" "0 \<le> lo" "lo \<le> 5" "p \<in> set (zh_problems db)" "lo \<le> pe_severity p" "pe_clock p < lookFrom"
    and "closes db v p" "lookFrom \<le> re_clock v"
  shows "ended_by db lo lookFrom v = Some p"
proof -
  have v: "re_objectid v = pe_objectid p" "v \<in> set (zh_recoveries db)" "resolved_by p = Some (re_eventid v)"
    using wf_history_closes [OF assms(1,4,7)] assms(7) by (auto simp: closes_def)
  let ?F = "problems_where db (severitiesAtLeast lo) (\<lambda>p. pe_objectid p = re_objectid v \<and> pe_clock p \<le> lookFrom - 1)"
  have F: "set ?F = {q \<in> set (zh_problems db). lo \<le> pe_severity q \<and> pe_objectid q = re_objectid v \<and> pe_clock q \<le> lookFrom - 1}"
    using in_problems_where [OF assms(1-3)] by auto
  have "sorted (map pe_clock ?F)"
    using assms(1) by (simp add: problems_where_def wf_history_def sorted_filter)
  moreover have "p \<in> set ?F" using assms v F by auto
  moreover have "pe_clock q < pe_clock p" if "q \<in> set ?F" "q \<noteq> p" for q
  proof -
    have "re_clock v \<le> pe_clock q \<or> pe_clock q < pe_clock p"
      using assms(1,4,7) v that F unfolding wf_history_def one_at_a_time_def by auto
    then show ?thesis using that F assms(8) by auto
  qed
  ultimately have "take 1 (rev ?F) = [p]" by (rule take_last_sorted)
  then show ?thesis by (simp add: ended_by_def resolved_by_r [OF v(3)])
qed

text \<open>
  \<open>endedInWindow\<close> finds only older problems at or above the floor, and, unless it ran out of lookups, every one that ended
  in the window and that no event in \<open>read\<close> is.
\<close>

lemma endedInWindow_spec:
  fixes seen :: "problem_event list" and "from" to :: int
  assumes wf: "wf_history db" and lo: "0 \<le> lo" "lo \<le> 5" and seen: "set seen \<subseteq> set (zh_problems db)"
    and look: "lookFrom \<le> from"
  defines "recoveries \<equiv> filter (\<lambda>v. from \<le> re_clock v \<and> re_clock v \<le> to) (zh_recoveries db)"
  shows "\<exists>ended partial. endedInWindow (zabbix_of db) recoveries (List.map_filter resolved_by seen) lookFrom lo = Inr (ended, partial) \<and>
    (\<forall>p \<in> set ended. p \<in> set (zh_problems db) \<and> lo \<le> pe_severity p \<and> pe_clock p < lookFrom) \<and>
    (\<not> partial \<longrightarrow> (\<forall>p v. p \<in> set (zh_problems db) \<and> lo \<le> pe_severity p \<and> pe_clock p < lookFrom \<and> p \<notin> set seen \<and>
        closes db v p \<and> from \<le> re_clock v \<and> re_clock v \<le> to \<longrightarrow> p \<in> set ended))"
proof -
  define explained where "explained = List.map_filter resolved_by seen"
  define U where "U = filter (\<lambda>r. re_eventid r \<notin> set explained) (map snd (first_of_trigger recoveries))"
  have "priorities (zabbix_of db) ids = Inr (map (\<lambda>t. t) (filter (\<lambda>t. fst t \<in> set ids) (zh_priorities db)))" for ids
    by (simp add: zabbix_of_def)
  from in_batches_rows [OF this, of "map re_objectid U"] obtain rows where
    r1: "in_batches (priorities (zabbix_of db)) (map re_objectid U) = Inr rows" and
    r2: "set rows = {t \<in> set (zh_priorities db). fst t \<in> set (map re_objectid U)}" by auto
  define priority where "priority = fold (\<lambda>(i, p). table_set i p) rows []"
  define wanted where "wanted = filter (\<lambda>r. (case table_get priority (re_objectid r) of Some p \<Rightarrow> p | None \<Rightarrow> -1) \<ge> lo) U"
  define asked where "asked = take LONG_OUTAGE_LOOKUPS wanted"
  have run: "endedInWindow (zabbix_of db) recoveries explained lookFrom lo =
      Inr (List.map_filter (\<lambda>p. p) (map (ended_by db lo lookFrom) asked), length asked < length wanted)"
  proof -
    have "(\<lambda>r. and_then (last_problem (zabbix_of db) (severitiesAtLeast lo) (re_objectid r) (lookFrom - 1)) (\<lambda>found.
        Inr (case found of [] \<Rightarrow> None | latest # _ \<Rightarrow> (if pe_r_eventid latest = Some (re_eventid r) then Some latest else None)) :: api_error + problem_event option))
      = (\<lambda>r. Inr (ended_by db lo lookFrom r))" by (rule ext) (simp add: zabbix_of_def ended_by_def)
    then show ?thesis
      by (simp add: endedInWindow_def Let_def all_or_error_Inr flip: U_def) (simp add: r1 all_or_error_Inr asked_def flip: priority_def wanted_def)
  qed
  have sound: "p \<in> set (zh_problems db) \<and> lo \<le> pe_severity p \<and> pe_clock p < lookFrom"
    if "p \<in> set (List.map_filter (\<lambda>p. p) (map (ended_by db lo lookFrom) asked))" for p
    using that ended_by_sound [OF wf lo] by (auto simp: map_filter_def)
  have complete: "p \<in> set (List.map_filter (\<lambda>p. p) (map (ended_by db lo lookFrom) asked))"
    if all: "\<not> length asked < length wanted" and p: "p \<in> set (zh_problems db)" "lo \<le> pe_severity p" "pe_clock p < lookFrom" "p \<notin> set seen"
      and v: "closes db v p" "from \<le> re_clock v" "re_clock v \<le> to" for p v
  proof -
    note alone = wf [unfolded wf_history_def one_at_a_time_def]
    have obj: "re_objectid v = pe_objectid p" "v \<in> set (zh_recoveries db)" "resolved_by p = Some (re_eventid v)"
      using wf_history_closes [OF wf p(1) v(1)] v(1) by (auto simp: closes_def)
    have "find (\<lambda>x. re_objectid x = re_objectid v) recoveries = Some v"
    proof (rule find_first_sorted [where c = re_clock])
      show "sorted (map re_clock recoveries)" using wf by (simp add: recoveries_def wf_history_def sorted_filter)
      show "v \<in> set recoveries" using obj v by (simp add: recoveries_def)
      show "re_clock v < re_clock w" if "w \<in> set recoveries" "re_objectid w = re_objectid v" "w \<noteq> v" for w
      proof -
        have "re_clock w \<le> pe_clock p \<or> re_clock v < re_clock w"
          using alone p(1) v(1) that obj by (auto simp: recoveries_def)
        then show ?thesis using that p(3) look by (auto simp: recoveries_def)
      qed
    qed simp
    moreover have "re_eventid v \<notin> set explained"
    proof
      assume "re_eventid v \<in> set explained"
      then obtain q where q: "q \<in> set seen" "resolved_by q = Some (re_eventid v)"
        by (auto simp: explained_def map_filter_def)
      then have qp: "q \<in> set (zh_problems db)" "q \<noteq> p" "closes db v q" using seen p(4) obj(2) by (auto simp: closes_def)
      then have "pe_objectid q = pe_objectid p" using wf_history_closes [OF wf qp(1,3)] obj(1) by simp
      then show False using alone p(1) v(1) qp obj(2,3) q(2) by auto
    qed
    ultimately have U: "v \<in> set U" unfolding U_def set_filter first_of_trigger_mem by simp
    have "table_get priority (re_objectid v) = Some (pe_severity p)"
      unfolding priority_def split_def
    proof (rule table_get_fold_set [where x = "(pe_objectid p, pe_severity p)"])
      have "re_objectid v \<in> set (map re_objectid U)" using U by simp
      then show "(pe_objectid p, pe_severity p) \<in> set rows" using alone p(1) obj(1) unfolding r2 by auto
      show "snd y = pe_severity p" if "y \<in> set rows" "fst y = re_objectid v" for y
        using alone p(1) that obj(1) by (auto simp: r2)
    qed (simp add: obj)
    then have "v \<in> set wanted" using U p(2) by (simp add: wanted_def)
    moreover have "asked = wanted" using all by (simp add: asked_def)
    ultimately have "v \<in> set asked" by simp
    moreover have "ended_by db lo lookFrom v = Some p"
      using ended_by_complete [OF wf lo p(1-3) v(1)] v(2) look by simp
    ultimately show ?thesis by (force simp: map_filter_def)
  qed
  from run sound complete show ?thesis unfolding explained_def by blast
qed

lemma incident_of_stored:
  assumes "resolved_by p = None \<Longrightarrow> ended_at db to p = to"
    and "\<And>r. resolved_by p = Some r \<Longrightarrow> table_get rc r = Some (ended_at db to p)"
  shows "incident_of from to rc p =
    (case pe_hosts p of
       Some ((hid, hname) # _) \<Rightarrow>
         (if min (ended_at db to p) to \<le> max (pe_clock p) from then None
          else Some \<lparr>in_eventid = pe_eventid p, in_objectid = pe_objectid p, in_host = hname, in_hostid = hid,
            in_name = (case pe_name p of Some n \<Rightarrow> n | None \<Rightarrow> []), in_severity = pe_severity p,
            in_start = max (pe_clock p) from, in_began = pe_clock p, in_end = min (ended_at db to p) to,
            in_resolved = (resolved_by p \<noteq> None), in_acknowledged = (pe_acknowledged p = Some ''1'')\<rparr>)
     | _ \<Rightarrow> None)"
  using assms by (cases "resolved_by p") (simp_all add: incident_of_def Let_def split: option.split list.split prod.split)

lemma incident_of_eventid: "incident_of from to rc p = Some i \<Longrightarrow> in_eventid i = pe_eventid p"
  by (auto simp: incident_of_def Let_def split: option.splits list.splits prod.splits if_splits)

text \<open>The clock of every recovery a read problem names is known: from the window's recoveries, or asked for by id.\<close>

lemma recovery_clock_known:
  fixes "from" to :: int
  assumes wf: "wf_history db" and Q: "set Q \<subseteq> set (zh_problems db)"
  defines "known \<equiv> fold (\<lambda>r. table_set (re_eventid r) (re_clock r)) (filter (\<lambda>v. from \<le> re_clock v \<and> re_clock v \<le> to) (zh_recoveries db)) []"
  shows "\<exists>rows. in_batches (clocks_by_id (zabbix_of db)) (filter (\<lambda>i. table_get known i = None) (List.map_filter resolved_by Q)) = Inr rows \<and>
    (\<forall>p \<in> set Q. \<forall>r. resolved_by p = Some r \<longrightarrow> table_get (fold (\<lambda>(i, c). table_set i c) rows known) r = Some (ended_at db to' p))"
proof -
  let ?ids = "filter (\<lambda>i. table_get known i = None) (List.map_filter resolved_by Q)"
  have "clocks_by_id (zabbix_of db) ids = Inr (map (\<lambda>v. (re_eventid v, re_clock v)) (filter (\<lambda>v. re_eventid v \<in> set ids) (zh_recoveries db)))" for ids
    by (simp add: zabbix_of_def)
  from in_batches_rows [OF this, of ?ids] obtain rows where
    r1: "in_batches (clocks_by_id (zabbix_of db)) ?ids = Inr rows" and
    r2: "set rows = (\<lambda>v. (re_eventid v, re_clock v)) ` {v \<in> set (zh_recoveries db). re_eventid v \<in> set ?ids}" by blast
  have "table_get (fold (\<lambda>(i, c). table_set i c) rows known) r = Some (ended_at db to' p)"
    if p: "p \<in> set Q" "resolved_by p = Some r" for p r
  proof -
    have "p \<in> set (zh_problems db)" using p Q by auto
    then obtain v where v: "closes db v p" using wf p(2) by (auto simp: wf_history_def)
    then have vr: "re_eventid v = r" "v \<in> set (zh_recoveries db)" "ended_at db to' p = re_clock v"
      using p(2) wf_history_closes [OF wf \<open>p \<in> set (zh_problems db)\<close> v] by (auto simp: closes_def)
    have only: "w \<in> set (zh_recoveries db) \<Longrightarrow> re_eventid w = r \<Longrightarrow> w = v" for w
      using history_facts(2) [OF wf] vr by (auto simp: inj_on_def)
    have rmem: "r \<in> set (List.map_filter resolved_by Q)" using p by (force simp: map_filter_def)
    show ?thesis
    proof (cases "table_get known r")
      case None
      then have mem: "(r, re_clock v) \<in> set rows" using vr rmem by (auto simp: r2)
      show ?thesis unfolding split_def vr(3)
      proof (rule table_get_fold_set [OF mem])
        show "snd y = re_clock v" if "y \<in> set rows" "fst y = r" for y using that only by (auto simp: r2)
      qed simp
    next
      case (Some c)
      have "r \<notin> fst ` set rows" using Some by (auto simp: r2)
      then have "table_get (fold (\<lambda>(i, c). table_set i c) rows known) r = Some c"
        using Some unfolding split_def by (simp add: table_get_fold_other)
      moreover have "v \<in> set (filter (\<lambda>v. from \<le> re_clock v \<and> re_clock v \<le> to) (zh_recoveries db))"
      proof -
        have "r \<in> re_eventid ` set (filter (\<lambda>v. from \<le> re_clock v \<and> re_clock v \<le> to) (zh_recoveries db))"
        proof (rule ccontr)
          assume "\<not> ?thesis"
          then have "table_get known r = table_get [] r" unfolding known_def by (rule table_get_fold_other)
          then show False using Some by simp
        qed
        then obtain w where w: "w \<in> set (filter (\<lambda>v. from \<le> re_clock v \<and> re_clock v \<le> to) (zh_recoveries db))" "re_eventid w = r"
          by blast
        then have "w = v" using only [of w] by simp
        then show ?thesis using w by simp
      qed
      then have "table_get known r = Some (re_clock v)"
        unfolding known_def
      proof (rule table_get_fold_set)
        fix y assume y: "y \<in> set (filter (\<lambda>v. from \<le> re_clock v \<and> re_clock v \<le> to) (zh_recoveries db))" "re_eventid y = r"
        then show "re_clock y = re_clock v" using only [of y] by simp
      qed (rule vr)
      ultimately show ?thesis using Some vr by simp
    qed
  qed
  then show ?thesis using r1 by blast
qed

subsection \<open>Properties\<close>

text \<open>
  What an incident of the report says of a stored problem: its span is the time the problem was open, clipped to
  the window, and not empty.
\<close>

definition incident_from :: "zabbix_history \<Rightarrow> report_window \<Rightarrow> problem_event \<Rightarrow> incident \<Rightarrow> bool" where
  "incident_from db win p i \<longleftrightarrow>
     in_eventid i = pe_eventid p \<and> in_objectid i = pe_objectid p \<and> in_severity i = pe_severity p \<and>
     in_start i = max (pe_clock p) (fst win) \<and> in_began i = pe_clock p \<and>
     in_end i = min (ended_at db (snd win) p) (snd win) \<and> in_start i < in_end i \<and> (in_resolved i \<longleftrightarrow> resolved_by p \<noteq> None)"

definition out_of_reach :: "zabbix_history \<Rightarrow> report_window \<Rightarrow> problem_event \<Rightarrow> bool" where
  "out_of_reach db win p \<longleftrightarrow>
     resolved_by p \<noteq> None \<and> pe_clock p < fst win - OPEN_AT_START_LOOKBACK \<and> snd win < ended_at db (snd win) p"

text \<open>The problems read, and with them the clocks of their recoveries.\<close>

lemma fetched_problems:
  assumes wf: "wf_history db" and lo: "0 \<le> lo" "lo \<le> 5" and le: "from \<le> to"
  shows "\<exists>qualifying clocks partial.
    fetchIncidents (zabbix_of db) (from, to) lo = Inr \<lparr>ir_incidents = List.map_filter (incident_of from to clocks) qualifying,
      ir_from = from, ir_to = to, ir_truncated = partial\<rparr> \<and>
    (\<forall>p \<in> set qualifying. p \<in> set (zh_problems db) \<and> lo \<le> pe_severity p) \<and> distinct (map pe_eventid qualifying) \<and>
    (\<forall>p \<in> set qualifying. \<forall>r. resolved_by p = Some r \<longrightarrow> table_get clocks r = Some (ended_at db to p)) \<and>
    (\<not> partial \<longrightarrow> (\<forall>p \<in> set (zh_problems db). lo \<le> pe_severity p \<and> max (pe_clock p) from < min (ended_at db to p) to \<and>
       \<not> out_of_reach db (from, to) p \<longrightarrow> p \<in> set qualifying))"
proof -
  define lookFrom where "lookFrom = from - OPEN_AT_START_LOOKBACK"
  have look: "lookFrom \<le> from" by (simp add: lookFrom_def OPEN_AT_START_LOOKBACK_def)
  define P where "P = set (zh_problems db)"
  define sev where "sev = severitiesAtLeast lo"
  define inWindow where "inWindow = problems_where db sev (\<lambda>p. from \<le> pe_clock p \<and> pe_clock p \<le> to)"
  define before where "before = problems_where db sev (\<lambda>p. lookFrom \<le> pe_clock p \<and> pe_clock p \<le> from - 1)"
  define recoveries where "recoveries = filter (\<lambda>v. from \<le> re_clock v \<and> re_clock v \<le> to) (zh_recoveries db)"
  obtain older where older: "stillOpenBefore (zabbix_of db) (lookFrom - 1) lo = Inr older"
    "set older = {p \<in> P. lo \<le> pe_severity p \<and> pe_clock p \<le> lookFrom - 1 \<and> resolved_by p = None}"
    using stillOpenBefore_spec [OF wf lo] unfolding P_def by blast
  have inj: "inj_on pe_eventid P" using history_facts(1) [OF wf] by (simp add: P_def)
  define events where "events = by_eventid (older @ before @ inWindow) []"
  have "set before = {p \<in> P. lo \<le> pe_severity p \<and> lookFrom \<le> pe_clock p \<and> pe_clock p \<le> from - 1}"
    "set inWindow = {p \<in> P. lo \<le> pe_severity p \<and> from \<le> pe_clock p \<and> pe_clock p \<le> to}"
    unfolding before_def inWindow_def sev_def P_def by (simp_all add: in_problems_where [OF wf lo])
  then have sets: "set (older @ before @ inWindow) =
      {p \<in> P. lo \<le> pe_severity p \<and> pe_clock p \<le> to \<and> (resolved_by p = None \<or> lookFrom \<le> pe_clock p)}"
    using older(2) le look by auto
  have read: "by_id events" "set (map snd events) = set (older @ before @ inWindow)"
    using by_eventid_spec [of "[]" "older @ before @ inWindow"] inj_on_subset [OF inj, of "set (older @ before @ inWindow)"] sets
    by (auto simp: events_def by_id_def)
  have sub: "set (map snd events) \<subseteq> set (zh_problems db)" unfolding read(2) sets by (auto simp: P_def)
  obtain ended partial where e: "endedInWindow (zabbix_of db) recoveries (List.map_filter resolved_by (map snd events)) lookFrom lo = Inr (ended, partial)"
    and e_sound: "\<forall>p \<in> set ended. p \<in> P \<and> lo \<le> pe_severity p \<and> pe_clock p < lookFrom"
    and e_all: "\<not> partial \<longrightarrow> (\<forall>p v. p \<in> P \<and> lo \<le> pe_severity p \<and> pe_clock p < lookFrom \<and> p \<notin> set (map snd events) \<and>
        closes db v p \<and> from \<le> re_clock v \<and> re_clock v \<le> to \<longrightarrow> p \<in> set ended)"
    using endedInWindow_spec [OF wf lo sub look, of to] unfolding recoveries_def P_def by blast
  define qualifying where "qualifying = filter (\<lambda>p. lo \<le> pe_severity p) (map snd (by_eventid ended events))"
  have all_sub: "set ended \<union> set (map snd events) \<subseteq> P" using e_sound sub by (auto simp: P_def)
  have q: "by_id (by_eventid ended events)" "set (map snd (by_eventid ended events)) = set ended \<union> set (map snd events)"
    using by_eventid_spec [OF read(1) inj_on_subset [OF inj all_sub]] by auto
  have qs: "set qualifying = set ended \<union> set (map snd events)"
    unfolding qualifying_def set_filter q(2) read(2) sets using e_sound by auto
  have qsub: "set qualifying \<subseteq> set (zh_problems db)" using qs all_sub by (simp add: P_def)
  define known where "known = fold (\<lambda>r. table_set (re_eventid r) (re_clock r)) recoveries []"
  obtain rows where rows: "in_batches (clocks_by_id (zabbix_of db)) (filter (\<lambda>i. table_get known i = None) (List.map_filter resolved_by qualifying)) = Inr rows"
    and rc: "\<forall>p \<in> set qualifying. \<forall>r. resolved_by p = Some r \<longrightarrow> table_get (fold (\<lambda>(i, c). table_set i c) rows known) r = Some (ended_at db to p)"
    using recovery_clock_known [OF wf qsub, of "from" to to] unfolding known_def recoveries_def by blast
  have reads: "problems_in (zabbix_of db) sev from to = Inr inWindow" "problems_in (zabbix_of db) sev lookFrom (from - 1) = Inr before"
      "recoveries_in (zabbix_of db) from to = Inr recoveries"
    by (simp_all add: zabbix_of_def inWindow_def before_def recoveries_def)
  have run: "fetchIncidents (zabbix_of db) (from, to) lo = Inr \<lparr>ir_incidents =
      List.map_filter (incident_of from to (fold (\<lambda>(i, c). table_set i c) rows known)) qualifying, ir_from = from, ir_to = to, ir_truncated = partial\<rparr>"
    by (simp add: fetchIncidents_def Let_def older(1) e rows reads flip: sev_def lookFrom_def events_def qualifying_def known_def)
  have complete: "p \<in> set qualifying"
    if all: "\<not> partial" and p: "p \<in> P" "lo \<le> pe_severity p" "max (pe_clock p) from < min (ended_at db to p) to" "\<not> out_of_reach db (from, to) p" for p
  proof (cases "resolved_by p = None \<or> lookFrom \<le> pe_clock p")
    case True
    then have "p \<in> set (map snd events)" unfolding read(2) sets using p by auto
    then show ?thesis unfolding qs by simp
  next
    case False
    then obtain v where v: "closes db v p" using wf p(1) by (auto simp: wf_history_def P_def)
    then have "ended_at db to p = re_clock v" using wf_history_closes [OF wf _ v] p(1) by (simp add: P_def)
    then have "from \<le> re_clock v" "re_clock v \<le> to" using p(3,4) False by (auto simp: out_of_reach_def lookFrom_def)
    moreover have "p \<notin> set (map snd events)" unfolding read(2) sets using False by simp
    ultimately have "p \<in> set ended" using e_all all p(1,2) False v by auto
    then show ?thesis unfolding qs by simp
  qed
  have "distinct (map pe_eventid qualifying)"
    using by_id_distinct [OF q(1)] unfolding qualifying_def by (rule distinct_map_filter)
  moreover have "\<forall>p \<in> set qualifying. p \<in> set (zh_problems db) \<and> lo \<le> pe_severity p"
    using qsub by (auto simp: qualifying_def)
  ultimately show ?thesis using run rc complete unfolding P_def by blast
qed

lemma ended_at_unresolved: "resolved_by p = None \<Longrightarrow> ended_at db to p = to"
proof -
  assume "resolved_by p = None"
  then have "find (\<lambda>v. resolved_by p = Some (re_eventid v)) (zh_recoveries db) = None" by (simp add: find_None_iff)
  then show ?thesis by (simp add: ended_at_def)
qed

lemma incident_is_from:
  assumes "\<And>r. resolved_by p = Some r \<Longrightarrow> table_get clocks r = Some (ended_at db to p)"
  shows "incident_of from to clocks p = Some i \<Longrightarrow> incident_from db (from, to) p i"
  using incident_of_stored [OF ended_at_unresolved assms, of "from"]
  by (auto simp: incident_from_def split: option.splits list.splits prod.splits if_splits)

lemma incident_exists:
  assumes "\<And>r. resolved_by p = Some r \<Longrightarrow> table_get clocks r = Some (ended_at db to p)"
    and "pe_hosts p = Some (h # hs)" "max (pe_clock p) from < min (ended_at db to p) to"
  shows "incident_of from to clocks p \<noteq> None"
  using incident_of_stored [OF ended_at_unresolved assms(1), of "from"] assms(2,3) by (cases h) simp

text \<open>
  C2. The incidents of a window are exact. Each is a stored problem at or above the floor with the true clipped
  span, none is listed twice, and, unless the report says \<open>truncated\<close>, every problem at or above the floor that was
  open in the window is listed, with the one documented exception: a problem that began more than 31 days before
  the window and was resolved after its end.
\<close>

theorem incidents_are_exact:
  assumes wf: "wf_history db" and lo: "0 \<le> lo" "lo \<le> 5" and le: "from \<le> to"
  shows "\<exists>r. fetchIncidents (zabbix_of db) (from, to) lo = Inr r \<and> ir_from r = from \<and> ir_to r = to \<and>
    distinct (map in_eventid (ir_incidents r)) \<and>
    (\<forall>i \<in> set (ir_incidents r). \<exists>p \<in> set (zh_problems db). lo \<le> pe_severity p \<and> incident_from db (from, to) p i) \<and>
    (\<not> ir_truncated r \<longrightarrow>
      (\<forall>p \<in> set (zh_problems db). lo \<le> pe_severity p \<and> (\<exists>h hs. pe_hosts p = Some (h # hs)) \<and>
          max (pe_clock p) from < min (ended_at db to p) to \<and> \<not> out_of_reach db (from, to) p \<longrightarrow>
        (\<exists>i \<in> set (ir_incidents r). incident_from db (from, to) p i)))"
proof -
  obtain qualifying clocks partial where
    run: "fetchIncidents (zabbix_of db) (from, to) lo = Inr \<lparr>ir_incidents = List.map_filter (incident_of from to clocks) qualifying,
      ir_from = from, ir_to = to, ir_truncated = partial\<rparr>" and
    q: "\<forall>p \<in> set qualifying. p \<in> set (zh_problems db) \<and> lo \<le> pe_severity p" "distinct (map pe_eventid qualifying)" and
    clocks: "\<forall>p \<in> set qualifying. \<forall>r. resolved_by p = Some r \<longrightarrow> table_get clocks r = Some (ended_at db to p)" and
    complete: "\<not> partial \<longrightarrow> (\<forall>p \<in> set (zh_problems db). lo \<le> pe_severity p \<and> max (pe_clock p) from < min (ended_at db to p) to \<and>
       \<not> out_of_reach db (from, to) p \<longrightarrow> p \<in> set qualifying)"
    using fetched_problems [OF assms] by blast
  let ?incs = "List.map_filter (incident_of from to clocks) qualifying"
  have sound: "\<exists>p \<in> set (zh_problems db). lo \<le> pe_severity p \<and> incident_from db (from, to) p i" if i: "i \<in> set ?incs" for i
  proof -
    obtain p where "p \<in> set qualifying" "incident_of from to clocks p = Some i"
      using i by (auto simp: map_filter_def)
    then show ?thesis using incident_is_from clocks q(1) by blast
  qed
  have listed: "\<exists>i \<in> set ?incs. incident_from db (from, to) p i"
    if p: "p \<in> set qualifying" "pe_hosts p = Some (h # hs)" "max (pe_clock p) from < min (ended_at db to p) to" for p h hs
  proof -
    have c: "\<And>r. resolved_by p = Some r \<Longrightarrow> table_get clocks r = Some (ended_at db to p)" using clocks p(1) by blast
    obtain i where i: "incident_of from to clocks p = Some i" using incident_exists [OF c p(2,3)] by blast
    then have "i \<in> set ?incs" using p(1) by (force simp: map_filter_def)
    then show ?thesis using incident_is_from [OF c i] by blast
  qed
  have "distinct (map in_eventid ?incs)" 
    by (rule distinct_map_filter_key [where k = pe_eventid, OF _ q(2)]) (rule incident_of_eventid)
  with sound listed complete show ?thesis unfolding run by auto
qed

text \<open>A problem older than the look-back that ended in the window, one still open, and one below the floor.\<close>

definition sample_history :: zabbix_history where
  "sample_history =
     (let ev = (\<lambda>i t c s r. \<lparr>pe_eventid = i, pe_objectid = t, pe_clock = c, pe_severity = s, pe_acknowledged = None,
        pe_r_eventid = r, pe_name = None, pe_hosts = Some [(''10'', ''router'')]\<rparr>) in
      \<lparr>zh_problems = [ev ''1'' ''7'' 100 4 (Some ''3''), ev ''2'' ''8'' 9000000 1 None, ev ''4'' ''7'' 9000500 4 None],
       zh_recoveries = [\<lparr>re_eventid = ''3'', re_objectid = ''7'', re_clock = 9000100\<rparr>],
       zh_priorities = [(''7'', 4), (''8'', 1)]\<rparr>)"

theorem incidents_are_exact_witness:
  "\<exists>r. fetchIncidents (zabbix_of sample_history) (9000000, 9001000) 2 = Inr r \<and>
     (ir_truncated r \<or> (\<exists>i \<in> set (ir_incidents r). in_eventid i = ''1'' \<and> in_start i = 9000000 \<and> in_end i = 9000100))"
proof -
  have wf: "wf_history sample_history"
    by (simp add: wf_history_def one_at_a_time_def sample_history_def closes_def resolved_by_def)
  have e: "ended_at sample_history 9001000 (hd (zh_problems sample_history)) = 9000100"
    by (simp add: ended_at_def sample_history_def resolved_by_def)
  obtain r where r: "fetchIncidents (zabbix_of sample_history) (9000000, 9001000) 2 = Inr r"
    "\<not> ir_truncated r \<longrightarrow> (\<forall>p \<in> set (zh_problems sample_history). 2 \<le> pe_severity p \<and> (\<exists>h hs. pe_hosts p = Some (h # hs)) \<and>
          max (pe_clock p) 9000000 < min (ended_at sample_history 9001000 p) 9001000 \<and> \<not> out_of_reach sample_history (9000000, 9001000) p \<longrightarrow>
        (\<exists>i \<in> set (ir_incidents r). incident_from sample_history (9000000, 9001000) p i))"
    using incidents_are_exact [OF wf, of 2 9000000 9001000] by auto
  let ?p = "hd (zh_problems sample_history)"
  have p: "?p \<in> set (zh_problems sample_history)" "2 \<le> pe_severity ?p" "\<exists>h hs. pe_hosts ?p = Some (h # hs)"
    "pe_clock ?p = 100" "pe_eventid ?p = ''1''"
    by (simp_all add: sample_history_def)
  have "\<not> out_of_reach sample_history (9000000, 9001000) ?p" by (simp add: out_of_reach_def e)
  then have "ir_truncated r \<or> (\<exists>i \<in> set (ir_incidents r). incident_from sample_history (9000000, 9001000) ?p i)"
    using r(2) p e by auto
  then show ?thesis using r(1) p e by (auto simp: incident_from_def)
qed

end
