(* ===== verification/Availability.thy ===== *)
theory Availability
  imports Incidents Report
begin

text \<open>
  The availability report (\<open>server/src/services/availability.ts\<close>): the part of a window each host spent in a problem
  state. Its first basis measures with the SLA engine (\<open>Report.computeSli\<close>), the other counts any open problem at
  or above a severity floor, outside the spans declared not measured.
\<close>

datatype basis = ByAvailability | ByAllProblems

record host_availability =
  ha_hostid :: string
  ha_host :: string
  ha_availability :: "rat option"
  ha_downtime :: int
  ha_incidents :: nat
  ha_longest :: int
  ha_coverage :: "rat option"
  ha_dataStatus :: "data_status option"
  ha_category :: "string option"
  ha_site :: "site_ref option"

text \<open>The fields the engine adds are in \<open>ar_derived\<close>; the other basis has none of them.\<close>

record derived_part =
  dp_profile :: profile
  dp_target :: rat
  dp_overall :: sli_group
  dp_categories :: "sli_group list"
  dp_sites :: "sli_group list"
  dp_gaps :: "interval list"

record availability_report =
  ar_from :: int
  ar_to :: int
  ar_windowSeconds :: int
  ar_minSeverity :: int
  ar_hosts :: "host_availability list"
  ar_truncated :: bool
  ar_basis :: basis
  ar_month :: "string option"
  ar_noDataWindows :: "interval list"
  ar_derived :: "derived_part option"

subsection \<open>\<open>getDerivedAvailability\<close>\<close>

definition derived_row :: "sli_host \<Rightarrow> host_availability" where
  "derived_row h =
     \<lparr>ha_hostid = h_hostid h, ha_host = h_name h, ha_availability = h_sli h, ha_downtime = h_downtime h,
      ha_incidents = h_incidents h, ha_longest = h_longest h, ha_coverage = Some (h_coverage h),
      ha_dataStatus = Some (h_dataStatus h), ha_category = Some (h_category h), ha_site = h_site h\<rparr>"

definition getDerivedAvailability ::
  "sla_config \<Rightarrow> (string \<Rightarrow> string \<Rightarrow> int) \<Rightarrow> sla_reads \<Rightarrow> int \<Rightarrow> int \<Rightarrow> string option \<Rightarrow> profile \<Rightarrow> int
     \<Rightarrow> api_error + availability_report" where
  "getDerivedAvailability cfg collate z now days mon prof minSeverity =
     and_then
       (case mon of
          Some m \<Rightarrow> (if m \<noteq> [] then computeSli cfg collate z now prof (Some m) None None
                      else computeSli cfg collate z now prof None (Some (now - days * 86400)) (Some now))
        | None \<Rightarrow> computeSli cfg collate z now prof None (Some (now - days * 86400)) (Some now))
       (\<lambda>r. Inr \<lparr>ar_from = r_from r, ar_to = r_end r, ar_windowSeconds = r_to r - r_from r, ar_minSeverity = minSeverity,
          ar_hosts = map derived_row (r_hosts r), ar_truncated = False, ar_basis = ByAvailability, ar_month = r_month r,
          ar_noDataWindows = r_noDataWindows r,
          ar_derived = Some \<lparr>dp_profile = r_profile r, dp_target = r_target r, dp_overall = r_overall r,
            dp_categories = r_categories r, dp_sites = r_sites r, dp_gaps = r_gaps r\<rparr>\<rparr>)"

subsection \<open>\<open>getAvailability\<close>\<close>

text \<open>What is left of an incident outside the declared spans.\<close>

definition kept :: "interval list \<Rightarrow> incident \<Rightarrow> interval list" where
  "kept outside i = intersectIntervals [(in_start i, in_end i)] outside"

type_synonym host_row = "string \<times> interval list \<times> nat"

definition add_incident :: "interval list \<Rightarrow> incident \<Rightarrow> (string, host_row) table \<Rightarrow> (string, host_row) table" where
  "add_incident outside i byHost =
     (let ks = kept outside i in
      if ks = [] then byHost
      else
        (let (host, ivs, n) = (case table_get byHost (in_hostid i) of Some row \<Rightarrow> row | None \<Rightarrow> (in_host i, [], 0))
         in table_set (in_hostid i) (host, ivs @ ks, Suc n) byHost))"

definition problem_row :: "int \<Rightarrow> string \<times> host_row \<Rightarrow> host_availability" where
  "problem_row windowSeconds entry =
     (case entry of (hostid, host, ivs, n) \<Rightarrow>
        (let (total, longest) = mergedSeconds ivs in
         \<lparr>ha_hostid = hostid, ha_host = host,
          ha_availability = Some (max 0 (100 * (1 - of_int total / of_int windowSeconds))),
          ha_downtime = total, ha_incidents = n, ha_longest = longest,
          ha_coverage = None, ha_dataStatus = None, ha_category = None, ha_site = None\<rparr>))"

definition worse_first :: "host_availability \<Rightarrow> host_availability \<Rightarrow> int" where
  "worse_first a b =
     or_else (compare (the (ha_availability a)) (the (ha_availability b))) (compare (ha_downtime b) (ha_downtime a))"

definition problem_hosts :: "interval list \<Rightarrow> int \<Rightarrow> int \<Rightarrow> incident list \<Rightarrow> host_availability list" where
  "problem_hosts declared from to incidents =
     js_sort worse_first (map (problem_row (to - from)) (fold (add_incident (complementIntervals declared from to)) incidents []))"

definition getAvailability ::
  "(int \<Rightarrow> int) \<Rightarrow> interval list \<Rightarrow> incident_source \<Rightarrow> int \<Rightarrow> int \<Rightarrow> int \<Rightarrow> string option \<Rightarrow> api_error + availability_report" where
  "getAvailability zone noDataWindows src now days minSeverity mon =
     and_then (case mon of
         Some m \<Rightarrow> (if m \<noteq> [] then monthWindow zone now m else Inr (lastDays now days))
       | None \<Rightarrow> Inr (lastDays now days)) (\<lambda>win.
     and_then (fetchIncidents src win minSeverity) (\<lambda>r.
       (let from = ir_from r; to = ir_to r; declared = mergeIntervals (clipIntervals noDataWindows from to) in
        Inr \<lparr>ar_from = from, ar_to = to, ar_windowSeconds = to - from, ar_minSeverity = minSeverity,
             ar_hosts = problem_hosts declared from to (ir_incidents r), ar_truncated = ir_truncated r,
             ar_basis = ByAllProblems, ar_month = mon, ar_noDataWindows = declared, ar_derived = None\<rparr>)))"

subsection \<open>Lemmas\<close>

lemma nform_empty: "nform xs \<Longrightarrow> secs xs = {} \<Longrightarrow> xs = []"
  using norm_unique [of xs "[]"] by simp

lemma kept_secs: "secs (kept outside i) = {in_start i..<in_end i} \<inter> secs outside"
  by (simp add: kept_def)

lemma kept_Nil: "kept outside i = [] \<longleftrightarrow> {in_start i..<in_end i} \<inter> secs outside = {}"
proof -
  have "nform (kept outside i)" by (simp add: kept_def)
  then show ?thesis using kept_secs [of outside i] nform_empty [of "kept outside i"] by auto
qed

lemma wf_add_incident: "wf_table t \<Longrightarrow> wf_table (add_incident outside x t)"
  by (simp add: add_incident_def Let_def split_beta wf_table_set)

lemma table_get_add_incident:
  "table_get (add_incident outside x t) hid =
     (if kept outside x = [] \<or> in_hostid x \<noteq> hid then table_get t hid
      else Some (case table_get t hid of None \<Rightarrow> (in_host x, kept outside x, 1)
                 | Some (host, ivs, n) \<Rightarrow> (host, ivs @ kept outside x, Suc n)))"
  by (simp add: add_incident_def Let_def split_beta table_simps split: option.split)

lemma wf_add_incidents: "wf_table t \<Longrightarrow> wf_table (fold (add_incident outside) incs t)"
  by (induction incs arbitrary: t) (simp_all add: wf_add_incident)

text \<open>The row of a host: its counted incidents, their kept seconds, their number.\<close>

definition counted :: "interval list \<Rightarrow> string \<Rightarrow> incident list \<Rightarrow> incident list" where
  "counted outside hid = filter (\<lambda>i. in_hostid i = hid \<and> kept outside i \<noteq> [])"

lemma add_incident_rows:
  "table_get (fold (add_incident outside) incs []) hid =
     (if counted outside hid incs = [] then None
      else Some (in_host (hd (counted outside hid incs)), concat (map (kept outside) (counted outside hid incs)),
                 length (counted outside hid incs)))"
proof (induction incs rule: rev_induct)
  case Nil
  then show ?case by (simp add: counted_def)
next
  case (snoc x incs)
  have c: "counted outside hid (incs @ [x]) =
      counted outside hid incs @ (if in_hostid x = hid \<and> kept outside x \<noteq> [] then [x] else [])"
    by (simp add: counted_def)
  show ?case using snoc unfolding c by (auto simp: table_get_add_incident)
qed

text \<open>The seconds a host was down: outside the declared spans, with a problem of it open.\<close>

definition problem_secs :: "interval list \<Rightarrow> int \<Rightarrow> int \<Rightarrow> incident list \<Rightarrow> string \<Rightarrow> int set" where
  "problem_secs declared from to incidents hid =
     {t. from \<le> t \<and> t < to \<and> t \<notin> secs declared \<and> (\<exists>i \<in> set incidents. in_hostid i = hid \<and> in_start i \<le> t \<and> t < in_end i)}"

lemma counted_secs:
  "secs (concat (map (kept (complementIntervals declared from to)) (counted (complementIntervals declared from to) hid incs)))
     = problem_secs declared from to incs hid"
proof -
  let ?out = "complementIntervals declared from to"
  have "secs (concat (map (kept ?out) (counted ?out hid incs)))
      = (\<Union>i \<in> set (counted ?out hid incs). {in_start i..<in_end i} \<inter> secs ?out)"
    by (simp add: secs_concat kept_secs)
  also have "\<dots> = (\<Union>i \<in> {i \<in> set incs. in_hostid i = hid}. {in_start i..<in_end i} \<inter> secs ?out)"
    by (auto simp: counted_def kept_Nil)
  also have "\<dots> = problem_secs declared from to incs hid"
    by (auto simp: problem_secs_def)
  finally show ?thesis .
qed

lemma mergedSeconds_total: "fst (mergedSeconds ivs) = int (card (secs ivs))"
  using totalSeconds_card [of ivs] by (simp add: mergedSeconds_def mergedSeconds_fold totalSeconds_def)

lemma problem_secs_card: "from \<le> to \<Longrightarrow> int (card (problem_secs declared from to incs hid)) \<le> to - from"
proof -
  assume "from \<le> to"
  have "card (problem_secs declared from to incs hid) \<le> card {from..<to}"
    by (rule card_mono) (auto simp: problem_secs_def)
  then show ?thesis using \<open>from \<le> to\<close> by simp
qed

lemma problem_share:
  assumes "from < to" "problem_secs declared from to incs hid \<noteq> {}"
  shows "0 < (of_int (int (card (problem_secs declared from to incs hid))) :: rat) / of_int (to - from) \<and>
    (of_int (int (card (problem_secs declared from to incs hid))) :: rat) / of_int (to - from) \<le> 1"
proof -
  have "finite (problem_secs declared from to incs hid)"
    by (rule finite_subset [of _ "{from..<to}"]) (auto simp: problem_secs_def)
  then have "0 < card (problem_secs declared from to incs hid)" using assms(2) by (simp add: card_gt_0_iff)
  moreover have "int (card (problem_secs declared from to incs hid)) \<le> to - from"
    using problem_secs_card [of "from" to] assms(1) by simp
  then have "(of_int (int (card (problem_secs declared from to incs hid))) :: rat) \<le> of_int (to - from)"
    by (simp only: of_int_le_iff)
  ultimately show ?thesis using assms(1) by (simp add: divide_le_eq)
qed

lemma consistent_worse_first: "consistent worse_first"
proof -
  have "consistent (\<lambda>a b. or_else (compare (the (ha_availability a)) (the (ha_availability b))) (compare (- ha_downtime a) (- ha_downtime b)))"
    by (rule consistent_or_else [OF consistent_key])
  moreover have "compare (- x) (- y) = compare y x" for x y :: int by (simp add: compare_def)
  ultimately show ?thesis by (simp add: worse_first_def [abs_def])
qed

subsection \<open>Properties\<close>

text \<open>
  C12. The any-problem availability of a host is exact. The report lists a host once, exactly when some second of
  the window outside the declared spans had a problem of it open; its downtime is the number of those seconds,
  each counted once however many problems overlap, its availability the rest of the window in percent, from 0 to 100;
  the worst host comes first.
\<close>

theorem problem_downtime_exact:
  assumes "from < to"
  shows "distinct (map ha_hostid (problem_hosts declared from to incs)) \<and>
    ha_hostid ` set (problem_hosts declared from to incs) = {hid. problem_secs declared from to incs hid \<noteq> {}} \<and>
    (\<forall>row \<in> set (problem_hosts declared from to incs).
       ha_downtime row = int (card (problem_secs declared from to incs (ha_hostid row))) \<and>
       ha_availability row = Some (100 * (1 - of_int (ha_downtime row) / of_int (to - from))) \<and>
       0 \<le> the (ha_availability row) \<and> the (ha_availability row) < 100) \<and>
    sorted_wrt (\<lambda>a b. the (ha_availability a) \<le> the (ha_availability b)) (problem_hosts declared from to incs)"
proof -
  let ?out = "complementIntervals declared from to"
  define rows where "rows = fold (add_incident ?out) incs []"
  define down where "down hid = problem_secs declared from to incs hid" for hid
  have wf: "wf_table rows" by (simp add: rows_def wf_add_incidents)
  have counted_ne: "counted ?out hid incs \<noteq> [] \<longleftrightarrow> down hid \<noteq> {}" for hid
    unfolding counted_def filter_empty_conv kept_Nil down_def problem_secs_def secs_complement by (simp add: Int_def) blast
  have row: "ha_downtime (problem_row (to - from) (hid, r)) = int (card (down hid)) \<and> down hid \<noteq> {}"
    if "table_get rows hid = Some r" for hid r
    using that counted_ne [of hid] counted_secs [of declared "from" to hid incs] mergedSeconds_total
    by (auto simp: rows_def add_incident_rows problem_row_def down_def split_beta Let_def split: if_splits)
  have figures: "ha_downtime x = int (card (down (ha_hostid x))) \<and> down (ha_hostid x) \<noteq> {} \<and>
      ha_availability x = Some (max 0 (100 * (1 - of_int (ha_downtime x) / of_int (to - from))))"
    if x: "x \<in> set (problem_hosts declared from to incs)" for x
  proof -
    obtain hid r where r: "(hid, r) \<in> set rows" "x = problem_row (to - from) (hid, r)"
      using x by (auto simp: problem_hosts_def rows_def)
    have "ha_hostid x = hid" "ha_availability x = Some (max 0 (100 * (1 - of_int (ha_downtime x) / of_int (to - from))))"
      by (simp_all add: r(2) problem_row_def split_beta Let_def)
    then show ?thesis using row [OF wf_table_get [OF wf r(1)]] r(2) by simp
  qed
  have share: "0 < (of_int (int (card (down hid))) :: rat) / of_int (to - from) \<and> (of_int (int (card (down hid))) :: rat) / of_int (to - from) \<le> 1"
    if "down hid \<noteq> {}" for hid
    using problem_share [OF assms] that by (simp add: down_def)
  have ids: "map ha_hostid (map (problem_row (to - from)) rows) = map fst rows"
    by (auto simp: problem_row_def split_beta Let_def)
  have "distinct (map ha_hostid (map (problem_row (to - from)) rows))" unfolding ids using wf by (simp add: wf_table_def)
  then have "distinct (map ha_hostid (problem_hosts declared from to incs))"
    unfolding problem_hosts_def rows_def distinct_map_js_sort .
  moreover have "ha_hostid ` set (problem_hosts declared from to incs) = fst ` set rows"
    using arg_cong [OF ids, of set] by (simp add: problem_hosts_def image_image flip: rows_def)
  moreover have "fst ` set rows = {hid. down hid \<noteq> {}}"
    using counted_ne by (auto simp: dom_map_of_conv_image_fst [symmetric] rows_def add_incident_rows split: if_splits)
  moreover have "sorted_wrt (\<lambda>a b. worse_first a b \<le> 0) (problem_hosts declared from to incs)"
    by (simp add: problem_hosts_def sorted_js_sort consistent_worse_first)
  then have "sorted_wrt (\<lambda>a b. the (ha_availability a) \<le> the (ha_availability b)) (problem_hosts declared from to incs)"
    by (rule sorted_wrt_mono_rel [rotated]) (auto simp: worse_first_def or_else_signs)
  ultimately show ?thesis using figures share by (fastforce simp: down_def)
qed

text \<open>Two overlapping problems of one host, and one inside a declared span.\<close>

definition sample_incident :: "string \<Rightarrow> int \<Rightarrow> int \<Rightarrow> incident" where
  "sample_incident hid a b =
     \<lparr>in_eventid = ''1'', in_objectid = ''7'', in_host = ''router'', in_hostid = hid, in_name = [], in_severity = 4,
      in_start = a, in_began = a, in_end = b, in_resolved = True, in_acknowledged = False\<rparr>"

theorem problem_downtime_exact_witness:
  "distinct (map ha_hostid (problem_hosts [(50, 60)] 0 100 [sample_incident ''1'' 10 30, sample_incident ''1'' 20 40, sample_incident ''2'' 50 60]))
   \<and> ha_hostid ` set (problem_hosts [(50, 60)] 0 100 [sample_incident ''1'' 10 30, sample_incident ''1'' 20 40, sample_incident ''2'' 50 60]) = {''1''}"
proof -
  let ?incs = "[sample_incident ''1'' 10 30, sample_incident ''1'' 20 40, sample_incident ''2'' 50 60]"
  have "20 \<in> problem_secs [(50, 60)] 0 100 ?incs ''1''" by (simp add: problem_secs_def sample_incident_def)
  moreover have "problem_secs [(50, 60)] 0 100 ?incs hid = {}" if "hid \<noteq> ''1''" for hid
    using that by (auto simp: problem_secs_def sample_incident_def)
  ultimately have "{hid. problem_secs [(50, 60)] 0 100 ?incs hid \<noteq> {}} = {''1''}" by blast
  then show ?thesis using problem_downtime_exact [of 0 100 "[(50, 60)]" ?incs] by simp
qed

end
