(* ===== verification/Noise.thy ===== *)
theory Noise
  imports Incidents
begin

text \<open>
  The alert-noise report (\<open>server/src/services/noise.ts\<close>): the incidents of a window per trigger, which triggers
  are worth retuning, and how few of them make most of the alerts.
\<close>

datatype noise_flag = Flapping | Unactioned | Chronic

record noisy_trigger =
  nt_objectid :: string
  nt_name :: string
  nt_host :: string
  nt_hostid :: string
  nt_severity :: int
  nt_count :: nat
  nt_medianDuration :: int
  nt_shortLived :: nat
  nt_ackRate :: rat
  nt_totalDuration :: int
  nt_longest :: int
  nt_stillOpen :: bool
  nt_flags :: "noise_flag list"

record noise_report =
  nr_from :: int
  nr_to :: int
  nr_windowSeconds :: int
  nr_minSeverity :: int
  nr_truncated :: bool
  nr_totalEvents :: nat
  nr_distinctTriggers :: nat
  nr_topN :: nat
  nr_percentOfEvents :: int
  nr_counts :: "noise_flag \<Rightarrow> nat"
  nr_shortSeconds :: rat
  nr_minCount :: rat
  nr_total :: nat
  nr_triggers :: "noisy_trigger list"

definition median :: "int list \<Rightarrow> int" where
  "median values =
     (if values = [] then 0
      else let s = sort values; mid = length s div 2 in
        if length s mod 2 \<noteq> 0 then s ! mid
        else js_round (of_int (s ! (mid - 1) + s ! mid) / 2))"

definition CHRONIC_SECONDS :: int where "CHRONIC_SECONDS = 86400"

text \<open>\<open>Math.max(...xs)\<close> of a list that is not empty.\<close>

definition max_of :: "int list \<Rightarrow> int" where
  "max_of xs = foldl max (hd xs) (tl xs)"

definition durations :: "incident list \<Rightarrow> int list" where
  "durations is = map (\<lambda>i. in_end i - in_start i) is"

definition open_age :: "incident list \<Rightarrow> int" where
  "open_age is = foldl (\<lambda>a i. if \<not> in_resolved i then max a (in_end i - in_began i) else a) 0 is"

definition noise_flags :: "rat \<Rightarrow> rat \<Rightarrow> incident list \<Rightarrow> noise_flag list" where
  "noise_flags shortSeconds minCount is =
     (let med = median (durations is); acked = length (filter in_acknowledged is);
          stillOpen = list_ex (\<lambda>i. \<not> in_resolved i) is in
      (if minCount \<le> of_nat (length is) \<and> of_int med < shortSeconds then [Flapping] else []) @
      (if minCount \<le> of_nat (length is) \<and> acked = 0 then [Unactioned] else []) @
      (if stillOpen \<and> max (max_of (durations is)) (open_age is) > CHRONIC_SECONDS then [Chronic] else []))"

definition latest_of :: "incident list \<Rightarrow> incident" where
  "latest_of is = foldl (\<lambda>a b. if in_start b > in_start a then b else a) (hd is) (tl is)"

definition trigger_row :: "rat \<Rightarrow> rat \<Rightarrow> string \<times> incident list \<Rightarrow> noisy_trigger" where
  "trigger_row shortSeconds minCount entry =
     (let (objectid, is) = entry; ds = durations is; latest = latest_of is in
      \<lparr>nt_objectid = objectid, nt_name = in_name latest, nt_host = in_host latest, nt_hostid = in_hostid latest,
       nt_severity = in_severity latest, nt_count = length is, nt_medianDuration = median ds,
       nt_shortLived = length (filter (\<lambda>d. of_int d < shortSeconds) ds),
       nt_ackRate = of_nat (length (filter in_acknowledged is)) / of_nat (length is),
       nt_totalDuration = sum_list ds, nt_longest = max_of ds,
       nt_stillOpen = list_ex (\<lambda>i. \<not> in_resolved i) is, nt_flags = noise_flags shortSeconds minCount is\<rparr>)"

definition louder :: "noisy_trigger \<Rightarrow> noisy_trigger \<Rightarrow> int" where
  "louder a b = or_else (compare (nt_count b) (nt_count a)) (compare (nt_totalDuration b) (nt_totalDuration a))"

definition by_trigger :: "incident list \<Rightarrow> (string, incident list) table" where
  "by_trigger is = fold (\<lambda>i t. table_set (in_objectid i) (table_list t (in_objectid i) @ [i]) t) is []"

definition noise_of :: "rat \<Rightarrow> rat \<Rightarrow> int \<Rightarrow> incident_read \<Rightarrow> noise_report" where
  "noise_of shortSeconds minCount minSeverity r =
     (let is = ir_incidents r;
          triggers = js_sort louder (map (trigger_row shortSeconds minCount) (by_trigger is));
          topN = min 5 (length triggers);
          topEvents = sum_list (map nt_count (take topN triggers)) in
      \<lparr>nr_from = ir_from r, nr_to = ir_to r, nr_windowSeconds = ir_to r - ir_from r, nr_minSeverity = minSeverity,
       nr_truncated = ir_truncated r, nr_totalEvents = length is, nr_distinctTriggers = length triggers,
       nr_topN = topN,
       nr_percentOfEvents = (if is = [] then 0 else js_round (of_nat topEvents / of_nat (length is) * 100)),
       nr_counts = (\<lambda>f. sum_list (map (\<lambda>t. length (filter (\<lambda>g. g = f) (nt_flags t))) triggers)),
       nr_shortSeconds = shortSeconds, nr_minCount = minCount, nr_total = length triggers, nr_triggers = triggers\<rparr>)"

definition getNoise :: "rat \<Rightarrow> rat \<Rightarrow> incident_source \<Rightarrow> int \<Rightarrow> int \<Rightarrow> int \<Rightarrow> api_error + noise_report" where
  "getNoise shortSeconds minCount src now days minSeverity =
     and_then (fetchIncidents src (lastDays now days) minSeverity) (\<lambda>r. Inr (noise_of shortSeconds minCount minSeverity r))"

text \<open>\<open>n\<close> is the \<open>top\<close> asked for; it comes clamped to at least 1 from the route.\<close>

definition topNoise :: "noise_report \<Rightarrow> nat \<Rightarrow> noise_report" where
  "topNoise report n =
     (if length (nr_triggers report) \<le> n then report else report\<lparr>nr_triggers := take n (nr_triggers report)\<rparr>)"

subsection \<open>Lemmas\<close>

lemma by_trigger_get: "table_list (by_trigger is) k = filter (\<lambda>i. in_objectid i = k) is
    \<and> (table_get (by_trigger is) k = None \<longleftrightarrow> filter (\<lambda>i. in_objectid i = k) is = []) \<and> wf_table (by_trigger is)"
proof (induction "is" rule: rev_induct)
  case Nil
  then show ?case by (simp add: by_trigger_def)
next
  case (snoc i "is")
  have "by_trigger (is @ [i]) = table_set (in_objectid i) (table_list (by_trigger is) (in_objectid i) @ [i]) (by_trigger is)"
    by (simp add: by_trigger_def)
  then show ?case using snoc by (auto simp: table_simps wf_table_set split: option.splits)
qed

lemma by_trigger_entry:
  assumes "(k, js) \<in> set (by_trigger is)"
  shows "js = filter (\<lambda>i. in_objectid i = k) is \<and> js \<noteq> []"
proof -
  have "table_get (by_trigger is) k = Some js"
    using assms by_trigger_get [of "is" k] by (simp add: wf_table_get)
  then show ?thesis using by_trigger_get [of "is" k] by auto
qed

lemma by_trigger_keys: "set (map fst (by_trigger is)) = in_objectid ` set is"
proof -
  have "set (map fst (by_trigger is)) = {k. table_get (by_trigger is) k \<noteq> None}"
    by (simp add: dom_map_of_conv_image_fst [symmetric] dom_def)
  also have "\<dots> = {k. filter (\<lambda>i. in_objectid i = k) is \<noteq> []}" using by_trigger_get [of "is"] by auto
  finally show ?thesis by (auto simp: filter_empty_conv)
qed

lemma by_trigger_counts: "sum_list (map (\<lambda>(k, js). length js) (by_trigger is)) = length is"
proof -
  have eq: "map (\<lambda>(k, js). length js) (by_trigger is) = map (\<lambda>k. length (filter (\<lambda>i. in_objectid i = k) is)) (map fst (by_trigger is))"
    using by_trigger_entry by force
  have spread: "distinct ks \<Longrightarrow> in_objectid ` set js \<subseteq> set ks \<Longrightarrow>
      sum_list (map (\<lambda>k. length (filter (\<lambda>i. in_objectid i = k) js)) ks) = length js" for ks js
  proof (induction js)
    case (Cons j js)
    have "sum_list (map (\<lambda>k. length (filter (\<lambda>i. in_objectid i = k) (j # js))) ks)
        = sum_list (map (\<lambda>k. (if in_objectid j = k then 1 else 0) + length (filter (\<lambda>i. in_objectid i = k) js)) ks)"
      by (rule arg_cong [where f = sum_list], rule map_cong) auto
    also have "\<dots> = sum_list (map (\<lambda>k. if in_objectid j = k then 1 else 0) ks) + length js"
      using Cons by (simp add: sum_list_addf)
    also have "sum_list (map (\<lambda>k. if in_objectid j = k then 1 else 0 :: nat) ks) = 1"
      using Cons.prems by (simp add: sum_list_distinct_conv_sum_set)
    finally show ?case by simp
  qed simp
  have "distinct (map fst (by_trigger is))" using by_trigger_get [of "is"] by (simp add: wf_table_def)
  then show ?thesis unfolding eq by (rule spread) (simp only: by_trigger_keys)
qed

lemma js_round_mono: "of_int k \<le> x \<Longrightarrow> k \<le> js_round x"
  by (simp add: js_round_def le_floor_iff)

lemma median_half: "2 * length (filter (\<lambda>d. d \<le> median ds) ds) \<ge> length ds"
proof (cases "ds = []")
  case False
  define s where "s = sort ds"
  have s: "sorted s" "length s = length ds" "mset s = mset ds" by (simp_all add: s_def)
  define n where "n = (if length s mod 2 \<noteq> 0 then Suc (length s div 2) else length s div 2)"
  have "length s \<noteq> 0" using False s(2) by simp
  then have n: "length s \<le> 2 * n" "n \<le> length s" "0 < n" unfolding n_def by presburger+
  have le: "s ! i \<le> median ds" if "i < n" for i
  proof -
    have i: "s ! i \<le> s ! (n - 1)" using s(1) n that by (intro sorted_nth_mono) auto
    show ?thesis
    proof (cases "length s mod 2 \<noteq> 0")
      case True
      then show ?thesis using i False by (simp add: median_def n_def Let_def flip: s_def)
    next
      case even: False
      have "s ! (n - 1) \<le> s ! n" using s(1) n even by (intro sorted_nth_mono) (auto simp: n_def)
      then have "(of_int (2 * s ! (n - 1)) :: rat) \<le> of_int (s ! (n - 1) + s ! n)" by (simp only: of_int_le_iff)
      then have "s ! (n - 1) \<le> js_round (of_int (s ! (n - 1) + s ! n) / 2)" by (intro js_round_mono) simp
      then show ?thesis using i even False by (simp add: median_def n_def Let_def flip: s_def)
    qed
  qed
  have "n = length (filter (\<lambda>d. d \<le> median ds) (take n s))"
    using le n by (subst filter_True) (auto simp: in_set_conv_nth)
  also have "\<dots> \<le> length (filter (\<lambda>d. d \<le> median ds) s)"
    by (subst (2) append_take_drop_id [of n s, symmetric]) (simp only: filter_append length_append)
  also have "\<dots> = length (filter (\<lambda>d. d \<le> median ds) ds)"
    using s(3) by (metis mset_filter size_mset)
  finally show ?thesis using n s(2) by linarith
qed simp

lemma consistent_louder: "consistent louder"
proof -
  have "consistent (\<lambda>a b. or_else (compare (- int (nt_count a)) (- int (nt_count b))) (compare (- nt_totalDuration a) (- nt_totalDuration b)))"
    by (rule consistent_or_else [OF consistent_key])
  moreover have "compare (- x) (- y) = compare y x" for x y :: int by (simp add: compare_def)
  moreover have "compare (int m) (int n) = compare m n" for m n by (simp add: compare_def)
  ultimately show ?thesis by (simp add: louder_def [abs_def])
qed

lemma noise_of_triggers:
  "t \<in> set (nr_triggers (noise_of short few lo r)) \<longleftrightarrow>
     (\<exists>k js. (k, js) \<in> set (by_trigger (ir_incidents r)) \<and> t = trigger_row short few (k, js))"
  by (auto simp: noise_of_def Let_def)

lemma sum_list_take: "sum_list (take n xs) \<le> sum_list xs" for xs :: "nat list"
  by (metis append_take_drop_id le_add1 sum_list_append)

lemma js_round_percent: "m \<le> n \<Longrightarrow> 0 \<le> js_round (of_nat m / of_nat n * 100) \<and> js_round (of_nat m / of_nat n * 100) \<le> 100"
proof -
  assume "m \<le> n"
  then have "(of_nat m :: rat) / of_nat n \<le> 1" by (cases "n = 0") (simp_all add: divide_le_eq)
  moreover have "0 \<le> (of_nat m :: rat) / of_nat n" by simp
  ultimately show ?thesis by (simp add: js_round_def le_floor_iff floor_le_iff)
qed

subsection \<open>Properties\<close>

text \<open>
  The noise report adds up. Every incident is counted under its trigger once: the triggers are distinct, each
  row counts exactly the incidents of its trigger, and the counts add up to the total, loudest first; the share of the
  loudest is a percentage; cutting the list to the top leaves every figure as it is. A trigger flagged as
  flapping fired often enough and at least half of its incidents were short.
\<close>

theorem noise_report_adds_up:
  fixes r :: incident_read and short few :: rat and lo :: int
  defines "report \<equiv> noise_of short few lo r"
  shows "distinct (map nt_objectid (nr_triggers report)) \<and>
    nt_objectid ` set (nr_triggers report) = in_objectid ` set (ir_incidents r) \<and>
    list_all (\<lambda>t. nt_count t = length (filter (\<lambda>i. in_objectid i = nt_objectid t) (ir_incidents r))
        \<and> (if Flapping \<in> set (nt_flags t) then few \<le> of_nat (nt_count t) \<and> nt_count t \<le> 2 * nt_shortLived t else True)) (nr_triggers report) \<and>
    sum_list (map nt_count (nr_triggers report)) = length (ir_incidents r) \<and> nr_totalEvents report = length (ir_incidents r) \<and>
    sorted_wrt (\<lambda>a b. nt_count b \<le> nt_count a) (nr_triggers report) \<and>
    0 \<le> nr_percentOfEvents report \<and> nr_percentOfEvents report \<le> 100 \<and>
    topNoise report n = report\<lparr>nr_triggers := take n (nr_triggers report)\<rparr>"
proof -
  let ?is = "ir_incidents r"
  have trig: "nr_triggers report = js_sort louder (map (trigger_row short few) (by_trigger ?is))"
    by (simp add: report_def noise_of_def Let_def)
  have ids: "map nt_objectid (map (trigger_row short few) (by_trigger ?is)) = map fst (by_trigger ?is)"
    by (auto simp: trigger_row_def Let_def split_beta)
  have "distinct (map nt_objectid (map (trigger_row short few) (by_trigger ?is)))"
    unfolding ids using by_trigger_get [of ?is] by (simp add: wf_table_def)
  then have d: "distinct (map nt_objectid (nr_triggers report))" unfolding trig distinct_map_js_sort .
  have s: "nt_objectid ` set (nr_triggers report) = in_objectid ` set ?is"
    unfolding trig set_js_sort set_map [symmetric] ids using by_trigger_keys [of ?is] by simp
  have row: "nt_count t = length (filter (\<lambda>i. in_objectid i = nt_objectid t) ?is)
      \<and> (if Flapping \<in> set (nt_flags t) then few \<le> of_nat (nt_count t) \<and> nt_count t \<le> 2 * nt_shortLived t else True)"
    if t: "t \<in> set (nr_triggers report)" for t
  proof -
    obtain k js where k: "(k, js) \<in> set (by_trigger ?is)" and tr: "t = trigger_row short few (k, js)"
      using t unfolding report_def noise_of_triggers by blast
    have js: "js = filter (\<lambda>i. in_objectid i = k) ?is" using by_trigger_entry [OF k] by simp
    have "length js \<le> 2 * nt_shortLived t" if "of_int (median (durations js)) < short"
    proof -
      have "length js \<le> 2 * length (filter (\<lambda>d. d \<le> median (durations js)) (durations js))"
        using median_half [of "durations js"] by (simp add: durations_def)
      also have "\<dots> \<le> 2 * length (filter (\<lambda>d. of_int d < short) (durations js))"
      proof -
        have "of_int d < short" if "d \<le> median (durations js)" for d
        proof -
          have "(of_int d :: rat) \<le> of_int (median (durations js))" using that by simp
          then show ?thesis using \<open>of_int (median (durations js)) < short\<close> by simp
        qed
        then have "length (filter (\<lambda>d. d \<le> median (durations js)) ds) \<le> length (filter (\<lambda>d. of_int d < short) ds)" for ds
          by (induction ds) auto
        then show ?thesis by simp
      qed
      finally show ?thesis by (simp add: tr trigger_row_def Let_def)
    qed
    then show ?thesis by (auto simp: tr trigger_row_def Let_def noise_flags_def js)
  qed
  have counts: "sum_list (map nt_count (nr_triggers report)) = length ?is"
    using by_trigger_counts [of ?is] by (simp add: trig comp_def trigger_row_def Let_def split_def)
  have "sorted_wrt (\<lambda>a b. louder a b \<le> 0) (nr_triggers report)"
    by (simp add: trig sorted_js_sort consistent_louder)
  then have sorted: "sorted_wrt (\<lambda>a b. nt_count b \<le> nt_count a) (nr_triggers report)"
    by (rule sorted_wrt_mono_rel [rotated]) (auto simp: louder_def or_else_signs)
  have "sum_list (map nt_count (take (nr_topN report) (nr_triggers report))) \<le> length ?is"
    using sum_list_take [of "nr_topN report" "map nt_count (nr_triggers report)"] counts by (simp add: take_map)
  from js_round_percent [OF this]
  have pct: "0 \<le> nr_percentOfEvents report \<and> nr_percentOfEvents report \<le> 100"
    by (simp add: report_def noise_of_def Let_def)
  have "topNoise report n = report\<lparr>nr_triggers := take n (nr_triggers report)\<rparr>" by (simp add: topNoise_def)
  moreover have "nr_totalEvents report = length ?is" by (simp add: report_def noise_of_def Let_def)
  moreover have "list_all (\<lambda>t. nt_count t = length (filter (\<lambda>i. in_objectid i = nt_objectid t) ?is)
      \<and> (if Flapping \<in> set (nt_flags t) then few \<le> of_nat (nt_count t) \<and> nt_count t \<le> 2 * nt_shortLived t else True)) (nr_triggers report)"
    unfolding list_all_iff using row by blast
  ultimately show ?thesis using d s counts sorted pct by blast
qed

end
