(* ===== verification/Reachability.thy ===== *)
theory Reachability
  imports Replay
begin

text \<open>
  One state per host, ping first, and whether Zabbix still collects (\<open>server/src/domain/reachability.ts\<close>).
  Clocks are seconds. The rows come from \<open>item.get\<close>, a parameter; the short cache in front of it is the
  component \<open>Cache\<close>.
\<close>

subsection \<open>Data\<close>

datatype host_state = Up | Down | Degraded | NoData | Disabled
datatype state_reason = RPing | RInterface | RSnmpSilent | RAgentSilent | RStale | RNoInterface | RUnsupported | RDisabled
datatype availability = Available | Unavailable | Unknown
datatype ping_state = PingUp | PingDown | PingUnknown

record z_interface =
  if_type :: "string option"
  if_available :: "string option"

text \<open>What freshness reads of an item: any item row carries these fields.\<close>

record collected_item =
  pi_lastclock :: "string option"
  pi_state :: "string option"
  pi_delay :: "string option"

record ping_item = collected_item +
  pi_itemid :: string
  pi_hostid :: string
  pi_key :: string
  pi_lastvalue :: string

record icmp_reading =
  r_up :: "bool option"
  r_loss :: "jsnum option"
  r_latency :: "jsnum option"
  r_state :: ping_state
  r_items :: nat
  r_unsupported :: nat

definition rollUpAvailability :: "z_interface list \<Rightarrow> availability" where
  "rollUpAvailability ifs =
     (if ifs = [] then Unknown
      else if list_ex (\<lambda>i. if_available i = Some ''2'') ifs then Unavailable
      else if list_ex (\<lambda>i. if_available i = Some ''1'') ifs then Available
      else Unknown)"

definition MIN_FRESH_SECONDS :: int where "MIN_FRESH_SECONDS = 600"

definition isFresh :: "'a collected_item_scheme \<Rightarrow> int \<Rightarrow> bool" where
  "isFresh it now =
     (if pi_state it = Some ''1'' then False
      else case pi_lastclock it of
        None \<Rightarrow> False
      | Some c \<Rightarrow>
          (if c = [] \<or> c = ''0'' then False
           else case js_number c of
             Num q \<Rightarrow> of_int now - q \<le> of_int (max (3 * parseDelay (pi_delay it)) MIN_FRESH_SECONDS)
           | _ \<Rightarrow> False))"

subsection \<open>Folding the ICMP items\<close>

definition own_rx :: rx where
  "own_rx = Seqs [Start, Plus (Cls (\<lambda>c. CHR ''a'' \<le> c \<and> c \<le> CHR ''z'')), Lit ''['', Spaces, Alts [Lit '','', Lit '']'']]"

definition pingsHost :: "string \<Rightarrow> bool" where
  "pingsHost key \<longleftrightarrow> CHR ''['' \<notin> set key \<or> rx_test own_rx key"

definition own_first :: "ping_item \<Rightarrow> ping_item \<Rightarrow> int" where
  "own_first a b = of_bool (pingsHost (pi_key b)) - of_bool (pingsHost (pi_key a))"

definition empty_reading :: icmp_reading where
  "empty_reading = \<lparr>r_up = None, r_loss = None, r_latency = None, r_state = PingUnknown, r_items = 0, r_unsupported = 0\<rparr>"

definition fold_item :: "int \<Rightarrow> ping_item \<Rightarrow> icmp_reading \<Rightarrow> icmp_reading" where
  "fold_item now it r =
     (let r = r\<lparr>r_items := Suc (r_items r)\<rparr>;
          r = (if pi_state it = Some ''1'' then r\<lparr>r_unsupported := Suc (r_unsupported r)\<rparr> else r)
      in if \<not> isFresh it now then r
         else if startsWith (pi_key it) ''icmppingloss'' then
           (case r_loss r of None \<Rightarrow> r\<lparr>r_loss := Some (js_number (pi_lastvalue it))\<rparr> | Some _ \<Rightarrow> r)
         else if startsWith (pi_key it) ''icmppingsec'' then
           (case r_latency r of None \<Rightarrow> r\<lparr>r_latency := Some (js_number (pi_lastvalue it))\<rparr> | Some _ \<Rightarrow> r)
         else if startsWith (pi_key it) ''icmpping'' \<and> r_up r = None then
           (let up = (pi_lastvalue it = ''1'') in r\<lparr>r_up := Some up, r_state := (if up then PingUp else PingDown)\<rparr>)
         else r)"

definition fold_icmp_step :: "int \<Rightarrow> ping_item \<Rightarrow> (string, icmp_reading) table \<Rightarrow> (string, icmp_reading) table" where
  "fold_icmp_step now it out =
     (let r = (case table_get out (pi_hostid it) of Some r \<Rightarrow> r | None \<Rightarrow> empty_reading)
      in table_set (pi_hostid it) (fold_item now it r) out)"

definition foldIcmp :: "ping_item list \<Rightarrow> int \<Rightarrow> (string, icmp_reading) table" where
  "foldIcmp items now = fold (fold_icmp_step now) (js_sort own_first items) []"

subsection \<open>Whether Zabbix collects\<close>

definition COLLECTING_STALE_SECONDS :: int where "COLLECTING_STALE_SECONDS = MIN_FRESH_SECONDS"

definition newest_step :: "ping_item \<Rightarrow> rat \<Rightarrow> rat" where
  "newest_step it newest =
     (if pi_state it = Some ''1'' then newest
      else case (case pi_lastclock it of None \<Rightarrow> NaN | Some c \<Rightarrow> js_number c) of
        Num q \<Rightarrow> (if q > newest then q else newest)
      | _ \<Rightarrow> newest)"

definition newestClock :: "ping_item list \<Rightarrow> rat option" where
  "newestClock items = (let n = fold newest_step items 0 in if n > 0 then Some n else None)"

record collecting_status =
  lastCollectedAt :: "rat option"
  ageSeconds :: "rat option"
  stale :: bool
  staleAfterSeconds :: int
  pinged :: nat
  answering :: nat
  reachLost :: bool

definition REACH_MIN_PINGED :: nat where "REACH_MIN_PINGED = 10"

text \<open>\<open>REACH_LOST_SHARE\<close> is a fifth: \<open>answering <= 0.2 * fresh\<close> is \<open>5 * answering <= fresh\<close> on whole numbers.\<close>

definition collectingStatus :: "rat option \<Rightarrow> int \<Rightarrow> (string, icmp_reading) table \<Rightarrow> collecting_status" where
  "collectingStatus collected now readings =
     (let age = map_option (\<lambda>c. max 0 (of_int now - c)) collected;
          fresh = filter (\<lambda>r. r_state r \<noteq> PingUnknown) (map snd readings);
          ans = length (filter (\<lambda>r. r_state r = PingUp) fresh)
      in \<lparr>lastCollectedAt = collected, ageSeconds = age,
          stale = (case age of None \<Rightarrow> False | Some a \<Rightarrow> a > of_int COLLECTING_STALE_SECONDS),
          staleAfterSeconds = COLLECTING_STALE_SECONDS, pinged = length fresh, answering = ans,
          reachLost = (length fresh \<ge> REACH_MIN_PINGED \<and> 5 * ans \<le> length fresh)\<rparr>)"

text \<open>What \<open>getCollecting\<close> keeps: both read from the same items.\<close>

definition getCollecting :: "'e + ping_item list \<Rightarrow> int \<Rightarrow> 'e + rat option \<times> (string, icmp_reading) table" where
  "getCollecting item_get nowMs =
     and_then item_get (\<lambda>items. Inr (newestClock items, foldIcmp items (nowMs div 1000)))"

subsection \<open>The state of a host\<close>

definition hostState :: "string \<Rightarrow> z_interface list \<Rightarrow> icmp_reading option \<Rightarrow> host_state \<times> state_reason" where
  "hostState status ifs icmp =
     (if status = ''1'' then (Disabled, RDisabled)
      else
        (let failed = filter (\<lambda>i. if_available i = Some ''2'') ifs in
         if map_option r_state icmp = Some PingUp then
           (if failed = [] then (Up, RPing)
            else if list_ex (\<lambda>i. if_type i = Some ''2'') failed then (Degraded, RSnmpSilent)
            else if list_ex (\<lambda>i. if_type i = Some ''1'') failed then (Degraded, RAgentSilent)
            else (Degraded, RInterface))
         else if map_option r_state icmp = Some PingDown then (Down, RPing)
         else
           (case rollUpAvailability ifs of
              Available \<Rightarrow> (Up, RInterface)
            | Unavailable \<Rightarrow> (Down, RInterface)
            | Unknown \<Rightarrow>
                (if (case icmp of Some r \<Rightarrow> r_unsupported r < r_items r | None \<Rightarrow> False) then (NoData, RStale)
                 else if ifs = [] then (NoData, RNoInterface)
                 else if (case icmp of Some r \<Rightarrow> r_items r > 0 | None \<Rightarrow> False) then (NoData, RUnsupported)
                 else (NoData, RInterface)))))"

subsection \<open>The fold, host by host\<close>

lemma sort_insert_flag:
  assumes "\<And>a b. cmp a b = of_bool (P b) - (of_bool (P a) :: int)" "\<forall>y \<in> set ys. P y" "\<forall>z \<in> set zs. \<not> P z"
  shows "sort_insert cmp x (ys @ zs) = (if P x then x # ys @ zs else ys @ x # zs)"
  using assms(2,3)
proof (induction ys)
  case Nil
  then show ?case by (cases zs) (auto simp: assms(1))
qed (auto simp: assms(1))

text \<open>Sorting by a flag puts the flagged ones first and keeps the order otherwise.\<close>

lemma js_sort_flag:
  assumes "\<And>a b. cmp a b = of_bool (P b) - (of_bool (P a) :: int)"
  shows "js_sort cmp xs = filter P xs @ filter (\<lambda>x. \<not> P x) xs"
proof (induction xs)
  case (Cons x xs)
  have "js_sort cmp (x # xs) = sort_insert cmp x (filter P xs @ filter (\<lambda>x. \<not> P x) xs)"
    using Cons by (simp add: js_sort_def)
  also have "\<dots> = (if P x then x # filter P xs @ filter (\<lambda>x. \<not> P x) xs else filter P xs @ x # filter (\<lambda>x. \<not> P x) xs)"
    by (rule sort_insert_flag [OF assms]) simp_all
  finally show ?case by simp
qed simp

lemma own_first_sort:
  "js_sort own_first items = filter (\<lambda>i. pingsHost (pi_key i)) items @ filter (\<lambda>i. \<not> pingsHost (pi_key i)) items"
  by (rule js_sort_flag) (simp add: own_first_def)

lemma fold_icmp_get:
  "table_get (fold (fold_icmp_step now) items out) h =
     (let mine = filter (\<lambda>i. pi_hostid i = h) items in
      if mine = [] then table_get out h
      else Some (fold (fold_item now) mine (case table_get out h of Some r \<Rightarrow> r | None \<Rightarrow> empty_reading)))"
  by (induction items arbitrary: out) (auto simp: fold_icmp_step_def Let_def table_simps)

datatype ping_kind = KLoss | KSec | KPing | KOther

definition kind_of :: "string \<Rightarrow> ping_kind" where
  "kind_of key =
     (if startsWith key ''icmppingloss'' then KLoss else if startsWith key ''icmppingsec'' then KSec
      else if startsWith key ''icmpping'' then KPing else KOther)"

text \<open>The first fresh item of a kind.\<close>

definition first_fresh :: "int \<Rightarrow> ping_kind \<Rightarrow> ping_item list \<Rightarrow> ping_item option" where
  "first_fresh now k items = find (\<lambda>i. isFresh i now \<and> kind_of (pi_key i) = k) items"

definition keep_first :: "'a option \<Rightarrow> 'a option \<Rightarrow> 'a option" where
  "keep_first a b = (case a of Some x \<Rightarrow> Some x | None \<Rightarrow> b)"

lemma keep_first_simps [simp]: "keep_first (Some x) b = Some x" "keep_first None b = b" "keep_first a None = a"
  by (auto simp: keep_first_def split: option.splits)

lemma fold_item_parts:
  "r_items (fold_item now it r) = Suc (r_items r)"
  "r_unsupported (fold_item now it r) = r_unsupported r + of_bool (pi_state it = Some ''1'')"
  "r_loss (fold_item now it r) = keep_first (r_loss r) (if isFresh it now \<and> kind_of (pi_key it) = KLoss then Some (js_number (pi_lastvalue it)) else None)"
  "r_latency (fold_item now it r) = keep_first (r_latency r) (if isFresh it now \<and> kind_of (pi_key it) = KSec then Some (js_number (pi_lastvalue it)) else None)"
  "r_up (fold_item now it r) = keep_first (r_up r) (if isFresh it now \<and> kind_of (pi_key it) = KPing then Some (pi_lastvalue it = ''1'') else None)"
  "r_state (fold_item now it r) = (if r_up r = None \<and> isFresh it now \<and> kind_of (pi_key it) = KPing
      then (if pi_lastvalue it = ''1'' then PingUp else PingDown) else r_state r)"
  by (cases r; cases "r_up r"; cases "r_loss r"; cases "r_latency r"; simp add: fold_item_def Let_def kind_of_def)+

lemma fold_items:
  "r_items (fold (fold_item now) is r) = r_items r + length is"
  "r_unsupported (fold (fold_item now) is r) = r_unsupported r + length (filter (\<lambda>i. pi_state i = Some ''1'') is)"
  "r_loss (fold (fold_item now) is r) = keep_first (r_loss r) (map_option (js_number \<circ> pi_lastvalue) (first_fresh now KLoss is))"
  "r_latency (fold (fold_item now) is r) = keep_first (r_latency r) (map_option (js_number \<circ> pi_lastvalue) (first_fresh now KSec is))"
  "r_up (fold (fold_item now) is r) = keep_first (r_up r) (map_option (\<lambda>i. pi_lastvalue i = ''1'') (first_fresh now KPing is))"
  by (induction "is" arbitrary: r)
     (auto simp: fold_item_parts first_fresh_def keep_first_def split: option.splits)

definition state_of_up :: "bool option \<Rightarrow> ping_state" where
  "state_of_up u = (case u of None \<Rightarrow> PingUnknown | Some b \<Rightarrow> if b then PingUp else PingDown)"

lemma fold_items_state:
  "r_state r = state_of_up (r_up r) \<Longrightarrow> r_state (fold (fold_item now) is r) = state_of_up (r_up (fold (fold_item now) is r))"
  by (induction "is" arbitrary: r) (auto simp: fold_item_parts state_of_up_def keep_first_def split: option.splits)

lemma fold_items_reading:
  "fold (fold_item now) os empty_reading =
     \<lparr>r_up = map_option (\<lambda>i. pi_lastvalue i = ''1'') (first_fresh now KPing os),
      r_loss = map_option (js_number \<circ> pi_lastvalue) (first_fresh now KLoss os),
      r_latency = map_option (js_number \<circ> pi_lastvalue) (first_fresh now KSec os),
      r_state = state_of_up (map_option (\<lambda>i. pi_lastvalue i = ''1'') (first_fresh now KPing os)),
      r_items = length os, r_unsupported = length (filter (\<lambda>i. pi_state i = Some ''1'') os)\<rparr>"
  by (rule icmp_reading.equality)
     (simp_all add: fold_items fold_items_state empty_reading_def state_of_up_def)

text \<open>The items of a host in the order they are folded.\<close>

definition own_order :: "string \<Rightarrow> ping_item list \<Rightarrow> ping_item list" where
  "own_order h items =
     (let mine = filter (\<lambda>i. pi_hostid i = h) items
      in filter (\<lambda>i. pingsHost (pi_key i)) mine @ filter (\<lambda>i. \<not> pingsHost (pi_key i)) mine)"

lemma set_own_order: "set (own_order h items) = {i \<in> set items. pi_hostid i = h}"
  by (auto simp: own_order_def Let_def)

lemma length_own_order: "length (filter P (own_order h items)) = length (filter P (filter (\<lambda>i. pi_hostid i = h) items))"
  using sum_length_filter_compl [of "\<lambda>i. pingsHost (pi_key i)" "filter P (filter (\<lambda>i. pi_hostid i = h) items)"]
  by (simp add: own_order_def Let_def conj_ac)

lemma foldIcmp_get:
  "table_get (foldIcmp items now) h =
     (if filter (\<lambda>i. pi_hostid i = h) items = [] then None else Some (fold (fold_item now) (own_order h items) empty_reading))"
proof -
  have os: "filter (\<lambda>i. pi_hostid i = h) (js_sort own_first items) = own_order h items"
    by (simp add: own_first_sort own_order_def Let_def conj_commute)
  have "own_order h items = [] \<longleftrightarrow> filter (\<lambda>i. pi_hostid i = h) items = []"
    by (auto simp: own_order_def Let_def filter_empty_conv)
  then show ?thesis unfolding foldIcmp_def fold_icmp_get os Let_def by simp
qed

text \<open>What the state of a reading says of the host's items.\<close>

definition ping_of :: "string \<Rightarrow> int \<Rightarrow> ping_item \<Rightarrow> bool" where
  "ping_of h now i \<longleftrightarrow> pi_hostid i = h \<and> isFresh i now \<and> kind_of (pi_key i) = KPing"

lemma find_set: "find P xs = Some x \<Longrightarrow> x \<in> set xs \<and> P x"
  by (induction xs) (auto split: if_splits)

lemma reading_state:
  "case map_option r_state (table_get (foldIcmp items now) h) of
     Some PingUp \<Rightarrow> \<exists>i \<in> set items. ping_of h now i \<and> pi_lastvalue i = ''1''
   | Some PingDown \<Rightarrow> \<exists>i \<in> set items. ping_of h now i \<and> pi_lastvalue i \<noteq> ''1''
   | _ \<Rightarrow> \<not> (\<exists>i \<in> set items. ping_of h now i)"
proof (cases "filter (\<lambda>i. pi_hostid i = h) items = []")
  case True
  then show ?thesis by (auto simp: foldIcmp_get ping_of_def filter_empty_conv)
next
  case False
  show ?thesis
  proof (cases "first_fresh now KPing (own_order h items)")
    case None
    then have "\<not> (\<exists>i \<in> set (own_order h items). isFresh i now \<and> kind_of (pi_key i) = KPing)"
      by (auto simp: first_fresh_def find_None_iff)
    then show ?thesis using False None by (auto simp: foldIcmp_get fold_items_reading state_of_up_def set_own_order ping_of_def)
  next
    case (Some i)
    then have "i \<in> set (own_order h items) \<and> isFresh i now \<and> kind_of (pi_key i) = KPing"
      unfolding first_fresh_def by (rule find_set)
    then show ?thesis using False Some by (auto simp: foldIcmp_get fold_items_reading state_of_up_def set_own_order ping_of_def)
  qed
qed

subsection \<open>Properties\<close>

text \<open>
  One reading per host, from its own items only. A host without an ICMP item has none; otherwise the
  reading counts its items and the unsupported ones, and its up flag, loss and latency are those of the
  first fresh item of the kind, the items that ping the host itself taken before those that ping some
  other target; the state is up or down exactly when there is such a fresh ping.
\<close>

theorem reading_of_each_host:
  "table_get (foldIcmp items now) h =
     (let mine = filter (\<lambda>i. pi_hostid i = h) items;
          ordered = filter (\<lambda>i. pingsHost (pi_key i)) mine @ filter (\<lambda>i. \<not> pingsHost (pi_key i)) mine;
          first = (\<lambda>k. find (\<lambda>i. isFresh i now \<and> kind_of (pi_key i) = k) ordered);
          up = map_option (\<lambda>i. pi_lastvalue i = ''1'') (first KPing)
      in if mine = [] then None
         else Some \<lparr>r_up = up, r_loss = map_option (js_number \<circ> pi_lastvalue) (first KLoss),
                    r_latency = map_option (js_number \<circ> pi_lastvalue) (first KSec),
                    r_state = (case up of None \<Rightarrow> PingUnknown | Some b \<Rightarrow> if b then PingUp else PingDown),
                    r_items = length mine, r_unsupported = length (filter (\<lambda>i. pi_state i = Some ''1'') mine)\<rparr>)"
proof -
  have "length (own_order h items) = length (filter (\<lambda>i. pi_hostid i = h) items)"
    using length_own_order [of "\<lambda>_. True" h items] by simp
  then show ?thesis
    unfolding foldIcmp_get fold_items_reading length_own_order Let_def state_of_up_def first_fresh_def
    by (simp add: own_order_def Let_def)
qed

text \<open>
  C17. A host's state always has evidence. From the host's interfaces and the ICMP items, judged at one
  time: a host is \<open>disabled\<close> exactly when its status says so; \<open>up\<close> needs a fresh answered ping and no failed
  interface or, with no fresh ping, an available interface; \<open>down\<close> needs a fresh unanswered ping or, with
  no fresh ping, a failed interface; \<open>degraded\<close> needs a fresh answered ping and a failed interface; and
  \<open>nodata\<close> means there is no fresh ping and no interface known to be available or failed. A stale or
  unsupported ping item never decides anything.
\<close>

theorem state_has_evidence:
  "let ping = (\<lambda>v. \<exists>i \<in> set items. pi_hostid i = h \<and> isFresh i now \<and> kind_of (pi_key i) = KPing \<and> (pi_lastvalue i = ''1'') = v);
       iface = (\<lambda>a. \<exists>i \<in> set ifs. if_available i = Some a)
   in case fst (hostState status ifs (table_get (foldIcmp items now) h)) of
        Disabled \<Rightarrow> status = ''1''
      | Up \<Rightarrow> status \<noteq> ''1'' \<and> \<not> iface ''2'' \<and> (ping True \<or> (\<not> ping False \<and> iface ''1''))
      | Down \<Rightarrow> status \<noteq> ''1'' \<and> (ping False \<or> (\<not> ping True \<and> iface ''2''))
      | Degraded \<Rightarrow> status \<noteq> ''1'' \<and> ping True \<and> iface ''2''
      | NoData \<Rightarrow> status \<noteq> ''1'' \<and> \<not> ping True \<and> \<not> ping False \<and> \<not> iface ''1'' \<and> \<not> iface ''2''"
proof -
  have roll: "rollUpAvailability ifs = (if \<exists>i \<in> set ifs. if_available i = Some ''2'' then Unavailable
      else if \<exists>i \<in> set ifs. if_available i = Some ''1'' then Available else Unknown)"
    by (auto simp: rollUpAvailability_def list_ex_iff)
  have failed: "filter (\<lambda>i. if_available i = Some ''2'') ifs = [] \<longleftrightarrow> \<not> (\<exists>i \<in> set ifs. if_available i = Some ''2'')"
    by (auto simp: filter_empty_conv)
  have ps: "(\<exists>i \<in> set items. pi_hostid i = h \<and> isFresh i now \<and> kind_of (pi_key i) = KPing \<and> (pi_lastvalue i = ''1'') = v) \<longleftrightarrow>
      (\<exists>i \<in> set items. ping_of h now i \<and> (pi_lastvalue i = ''1'') = v)" for v
    by (auto simp: ping_of_def)
  show ?thesis
    using reading_state [of items h now]
    unfolding Let_def ps hostState_def failed roll
    by (auto split: option.splits ping_state.splits)
qed

text \<open>The clock of the estate is the newest value any supported item holds.\<close>

definition collected_at :: "ping_item \<Rightarrow> rat \<Rightarrow> bool" where
  "collected_at i q \<longleftrightarrow> pi_state i \<noteq> Some ''1'' \<and> (case pi_lastclock i of None \<Rightarrow> NaN | Some c \<Rightarrow> js_number c) = Num q"

lemma newest_step_cases:
  "n \<le> newest_step j n \<and> (\<forall>q. collected_at j q \<longrightarrow> q \<le> newest_step j n) \<and> (newest_step j n = n \<or> collected_at j (newest_step j n))"
  by (auto simp: newest_step_def collected_at_def split: option.splits jsnum.splits)

lemma newest_fold:
  "n \<le> fold newest_step items n \<and> (\<forall>i \<in> set items. \<forall>q. collected_at i q \<longrightarrow> q \<le> fold newest_step items n) \<and>
   (fold newest_step items n = n \<or> (\<exists>i \<in> set items. collected_at i (fold newest_step items n)))"
proof (induction items arbitrary: n)
  case (Cons j items)
  let ?m = "newest_step j n" let ?f = "fold newest_step items ?m"
  have ih: "?m \<le> ?f" "\<forall>i \<in> set items. \<forall>q. collected_at i q \<longrightarrow> q \<le> ?f" "?f = ?m \<or> (\<exists>i \<in> set items. collected_at i ?f)"
    using Cons.IH [of ?m] by blast+
  have st: "n \<le> ?m" "\<forall>q. collected_at j q \<longrightarrow> q \<le> ?m" "?m = n \<or> collected_at j ?m"
    using newest_step_cases [of n j] by blast+
  have "n \<le> ?f" using ih(1) st(1) by (rule order_trans [rotated])
  moreover have "\<forall>q. collected_at j q \<longrightarrow> q \<le> ?f" using ih(1) st(2) by (blast intro: order_trans)
  moreover have "?f = n \<or> (\<exists>i \<in> set (j # items). collected_at i ?f)" using ih(3) st(3) by auto
  ultimately show ?case using ih(2) by simp
qed simp

lemma newestClock_iff:
  "newestClock items = Some m \<longleftrightarrow> 0 < m \<and> (\<exists>i \<in> set items. collected_at i m) \<and> (\<forall>i \<in> set items. \<forall>q. collected_at i q \<longrightarrow> q \<le> m)"
proof -
  let ?f = "fold newest_step items 0"
  have a: "newestClock items = Some m \<longleftrightarrow> 0 < m \<and> ?f = m" by (auto simp: newestClock_def Let_def)
  have f: "\<forall>i \<in> set items. \<forall>q. collected_at i q \<longrightarrow> q \<le> ?f" "?f = 0 \<or> (\<exists>i \<in> set items. collected_at i ?f)"
    using newest_fold [of 0 items] by blast+
  have "?f = m" if "0 < m" "i \<in> set items" "collected_at i m" "\<forall>i \<in> set items. \<forall>q. collected_at i q \<longrightarrow> q \<le> m" for i
  proof (rule antisym)
    show "m \<le> ?f" using f(1) that(2,3) by blast
    show "?f \<le> m" using f(2) that(1,4) by force
  qed
  then show ?thesis unfolding a using f by auto
qed

text \<open>Staleness means that something was collected once, and nothing for more than ten minutes.\<close>

lemma stale_iff:
  "stale (collectingStatus (newestClock items) now rs) \<longleftrightarrow>
     (\<exists>i \<in> set items. \<exists>q > 0. collected_at i q) \<and> (\<forall>i \<in> set items. \<forall>q. collected_at i q \<longrightarrow> of_int now - q > 600)"
proof (cases "newestClock items")
  case None
  then have "\<not> 0 < fold newest_step items 0" by (simp add: newestClock_def Let_def split: if_splits)
  then have "\<not> (\<exists>i \<in> set items. \<exists>q > 0. collected_at i q)"
    using newest_fold [of 0 items] by force
  then show ?thesis using None by (simp add: collectingStatus_def Let_def)
next
  case (Some m)
  then have m: "0 < m" "\<exists>i \<in> set items. collected_at i m" "\<forall>i \<in> set items. \<forall>q. collected_at i q \<longrightarrow> q \<le> m"
    using newestClock_iff by blast+
  have "stale (collectingStatus (newestClock items) now rs) \<longleftrightarrow> of_int now - m > 600"
    using Some by (auto simp: collectingStatus_def Let_def COLLECTING_STALE_SECONDS_def MIN_FRESH_SECONDS_def max_def)
  also have "\<dots> \<longleftrightarrow> (\<exists>i \<in> set items. \<exists>q > 0. collected_at i q) \<and> (\<forall>i \<in> set items. \<forall>q. collected_at i q \<longrightarrow> of_int now - q > 600)"
    using m by (auto; force)
  finally show ?thesis .
qed

end
