(* ===== verification/Sites.thy ===== *)
theory Sites
  imports Reachability Problems
begin

text \<open>
  The site view (\<open>server/src/services/sites.ts\<close>): which site a host belongs to, and the sites with their hosts, states
  and problems; with it the host overview of \<open>server/src/services/hosts.ts\<close>, which counts problems the same way. The
  rows come from Zabbix through the shared reads of \<open>Problems\<close> and \<open>Reachability\<close>; \<open>localeCompare\<close> is a parameter.
\<close>

subsection \<open>\<open>resolveSite\<close>\<close>

datatype site_source = FromTag | FromName | FromInventory | FromGroup

text \<open>\<open>config.site\<close>.\<close>

record site_settings =
  site_tag :: string
  site_groupPrefix :: string

text \<open>\<open>tags?.find((t) => t.tag === tag)?.value?.trim() ?? ''\<close>.\<close>

definition tagValue :: "(string \<times> string) list option \<Rightarrow> string \<Rightarrow> string" where
  "tagValue tags tag = (case find (\<lambda>t. fst t = tag) (or_nil tags) of Some t \<Rightarrow> trim (snd t) | None \<Rightarrow> [])"

definition trimmed :: "string option \<Rightarrow> string" where
  "trimmed v = (case v of Some s \<Rightarrow> trim s | None \<Rightarrow> [])"

definition inventory_site :: "inventory option \<Rightarrow> string" where
  "inventory_site row =
     (case row of None \<Rightarrow> []
      | Some i \<Rightarrow> (if trimmed (site_city i) \<noteq> [] then trimmed (site_city i) else trimmed (location i)))"

definition resolveSite :: "site_settings \<Rightarrow> host_meta_row \<Rightarrow> string \<times> site_source" where
  "resolveSite cfg h =
     (let tag = tagValue (hm_tags h) (site_tag cfg); stated = inventory_site (hm_inventory h);
          groups = or_nil (hm_hostgroups h); prefix = site_groupPrefix cfg in
      if tag \<noteq> [] then (tag, FromTag)
      else case siteFromHostName (hm_name h) of
        Some s \<Rightarrow> (site_name s, FromName)
      | None \<Rightarrow>
          (if stated \<noteq> [] then (stated, FromInventory)
           else if prefix \<noteq> [] then
             (case find (\<lambda>g. startsWith (snd g) prefix) groups of
                Some g \<Rightarrow> (trim (drop (length prefix) (snd g)), FromGroup)
              | None \<Rightarrow> (''Unassigned'', FromGroup))
           else case groups of
             g # _ \<Rightarrow> (snd g, FromGroup)
           | [] \<Rightarrow> (''Unassigned'', FromGroup)))"

subsection \<open>Problems of a host\<close>

record host_counts =
  hc_total :: nat
  hc_bySeverity :: "(string, nat) table"
  hc_unack :: nat

definition no_counts :: host_counts where
  "no_counts = \<lparr>hc_total = 0, hc_bySeverity = [], hc_unack = 0\<rparr>"

definition count_of :: "('k, nat) table \<Rightarrow> 'k \<Rightarrow> nat" where
  "count_of t k = (case table_get t k of Some n \<Rightarrow> n | None \<Rightarrow> 0)"

definition count_problem :: "problem \<Rightarrow> host_counts \<Rightarrow> host_counts" where
  "count_problem p c =
     c\<lparr>hc_total := Suc (hc_total c),
       hc_bySeverity := table_set (severity p) (Suc (count_of (hc_bySeverity c) (severity p))) (hc_bySeverity c),
       hc_unack := (if acknowledged p \<noteq> ''1'' then Suc (hc_unack c) else hc_unack c)\<rparr>"

definition host_of :: "problem \<Rightarrow> string" where
  "host_of p = (case p_hostid p of Some h \<Rightarrow> h | None \<Rightarrow> [])"

text \<open>A problem without a host is skipped.\<close>

definition counts_by_host :: "problem list \<Rightarrow> (string, host_counts) table" where
  "counts_by_host problems =
     group_into host_of (\<lambda>_. no_counts) count_problem (filter (\<lambda>p. host_of p \<noteq> []) problems)"

definition counts_of :: "(string, host_counts) table \<Rightarrow> string \<Rightarrow> host_counts" where
  "counts_of t h = (case table_get t h of Some c \<Rightarrow> c | None \<Rightarrow> no_counts)"

subsection \<open>\<open>getSites\<close>\<close>

record site_host =
  sh_hostid :: string
  sh_name :: string
  sh_status :: string
  sh_maintenance_status :: "string option"
  sh_interfaces :: "host_interface list option"
  sh_availability :: availability
  sh_state :: host_state
  sh_reason :: state_reason
  sh_siteSource :: site_source
  sh_problems :: nat
  sh_bySeverity :: "(string, nat) table"

record site_row =
  st_name :: string
  st_total :: nat
  st_available :: nat
  st_unavailable :: nat
  st_unknown :: nat
  st_up :: nat
  st_down :: nat
  st_degraded :: nat
  st_nodata :: nat
  st_maintenance :: nat
  st_disabled :: nat
  st_problems :: nat
  st_unacknowledged :: nat
  st_bySeverity :: "(string, nat) table"
  st_worst :: int
  st_hosts :: "site_host list"

definition empty_site :: "string \<Rightarrow> site_row" where
  "empty_site name =
     \<lparr>st_name = name, st_total = 0, st_available = 0, st_unavailable = 0, st_unknown = 0, st_up = 0, st_down = 0,
      st_degraded = 0, st_nodata = 0, st_maintenance = 0, st_disabled = 0, st_problems = 0, st_unacknowledged = 0,
      st_bySeverity = [], st_worst = -1, st_hosts = []\<rparr>"

definition to_interfaces :: "host_interface list option \<Rightarrow> z_interface list" where
  "to_interfaces ifs = map (\<lambda>i. \<lparr>if_type = hi_type i, if_available = hi_available i\<rparr>) (or_nil ifs)"

definition bump :: "bool \<Rightarrow> nat \<Rightarrow> nat" where
  "bump b n = (if b then Suc n else n)"

definition add_severity :: "string \<times> nat \<Rightarrow> site_row \<Rightarrow> site_row" where
  "add_severity entry s =
     (case entry of (sev, n) \<Rightarrow>
        s\<lparr>st_bySeverity := table_set sev (count_of (st_bySeverity s) sev + n) (st_bySeverity s),
          st_worst := max (st_worst s) (num0 (Some sev))\<rparr>)"

definition add_host ::
  "site_settings \<Rightarrow> (string, icmp_reading) table \<Rightarrow> (string, host_counts) table \<Rightarrow> host_meta_row \<Rightarrow> site_row \<Rightarrow> site_row" where
  "add_host cfg icmp byHost h s0 =
     (let (state, reason) = hostState (hm_status h) (to_interfaces (hm_interfaces h)) (table_get icmp (hm_hostid h));
          avail = rollUpAvailability (to_interfaces (hm_interfaces h));
          p = counts_of byHost (hm_hostid h);
          s1 = s0\<lparr>st_total := Suc (st_total s0),
            st_available := bump (avail = Available) (st_available s0),
            st_unavailable := bump (avail = Unavailable) (st_unavailable s0),
            st_unknown := bump (avail = Unknown) (st_unknown s0),
            st_up := bump (state = Up) (st_up s0), st_down := bump (state = Down) (st_down s0),
            st_degraded := bump (state = Degraded) (st_degraded s0), st_nodata := bump (state = NoData) (st_nodata s0),
            st_maintenance := bump (maintenance_status h = Some ''1'') (st_maintenance s0),
            st_disabled := bump (hm_status h = ''1'') (st_disabled s0),
            st_problems := st_problems s0 + hc_total p, st_unacknowledged := st_unacknowledged s0 + hc_unack p\<rparr>;
          s2 = fold add_severity (hc_bySeverity p) s1
      in s2\<lparr>st_hosts := st_hosts s2 @
           [\<lparr>sh_hostid = hm_hostid h, sh_name = hm_name h, sh_status = hm_status h,
             sh_maintenance_status = maintenance_status h, sh_interfaces = hm_interfaces h, sh_availability = avail,
             sh_state = state, sh_reason = reason, sh_siteSource = snd (resolveSite cfg h),
             sh_problems = hc_total p, sh_bySeverity = hc_bySeverity p\<rparr>]\<rparr>)"

record site_coverage =
  cv_hosts :: nat
  cv_tag :: nat
  cv_name :: nat
  cv_inventory :: nat
  cv_group :: nat

definition count_source :: "site_settings \<Rightarrow> host_meta_row \<Rightarrow> site_coverage \<Rightarrow> site_coverage" where
  "count_source cfg h c =
     (case snd (resolveSite cfg h) of
         FromTag \<Rightarrow> c\<lparr>cv_tag := Suc (cv_tag c)\<rparr> | FromName \<Rightarrow> c\<lparr>cv_name := Suc (cv_name c)\<rparr>
       | FromInventory \<Rightarrow> c\<lparr>cv_inventory := Suc (cv_inventory c)\<rparr> | FromGroup \<Rightarrow> c\<lparr>cv_group := Suc (cv_group c)\<rparr>)"

definition coverage_of :: "site_settings \<Rightarrow> host_meta_row list \<Rightarrow> site_coverage" where
  "coverage_of cfg hosts =
     fold (count_source cfg) hosts \<lparr>cv_hosts = length hosts, cv_tag = 0, cv_name = 0, cv_inventory = 0, cv_group = 0\<rparr>"

definition site_order :: "(string \<Rightarrow> string \<Rightarrow> int) \<Rightarrow> site_row \<Rightarrow> site_row \<Rightarrow> int" where
  "site_order collate a b =
     or_else (compare (st_worst b) (st_worst a))
       (or_else (compare (st_down b) (st_down a)) (collate (st_name a) (st_name b)))"

definition site_of :: "site_settings \<Rightarrow> host_meta_row \<Rightarrow> string" where
  "site_of cfg h = fst (resolveSite cfg h)"

definition getSites ::
  "(string \<Rightarrow> string \<Rightarrow> int) \<Rightarrow> site_settings \<Rightarrow> host_meta_row list \<Rightarrow> problem list \<Rightarrow> (string, icmp_reading) table
     \<Rightarrow> site_row list \<times> site_coverage" where
  "getSites collate cfg hosts problems icmp =
     (let byHost = counts_by_host (openProblems problems);
          sites = group_into (site_of cfg) (\<lambda>h. empty_site (site_of cfg h)) (add_host cfg icmp byHost) hosts
      in (js_sort (site_order collate) (map snd sites), coverage_of cfg hosts))"

subsection \<open>\<open>getHostOverview\<close>\<close>

record host_row =
  ho_hostid :: string
  ho_name :: string
  ho_status :: string
  ho_maintenance_status :: "string option"
  ho_interfaces :: "host_interface list option"

record host_overview = host_row +
  ho_state :: host_state
  ho_reason :: state_reason
  ho_problems :: nat
  ho_bySeverity :: "(string, nat) table"

definition getHostOverview :: "host_row list \<Rightarrow> problem list \<Rightarrow> (string, icmp_reading) table \<Rightarrow> host_overview list" where
  "getHostOverview hosts problems icmp =
     (let counts = counts_by_host (openProblems problems) in
      map (\<lambda>h. let (state, reason) = hostState (ho_status h) (to_interfaces (ho_interfaces h)) (table_get icmp (ho_hostid h));
                  c = counts_of counts (ho_hostid h)
              in host_row.extend h (host_overview.fields state reason (hc_total c) (hc_bySeverity c))) hosts)"

subsection \<open>Lemmas\<close>

lemma consistent_on: "consistent g \<Longrightarrow> consistent (\<lambda>a b. g (f a) (f b))"
  unfolding consistent_def by blast

lemma length_filter_snoc: "length (filter P (xs @ [x])) = bump (P x) (length (filter P xs))"
  by (simp add: bump_def)

text \<open>The open problems of a host, the ones counted for it.\<close>

definition problems_of :: "problem list \<Rightarrow> string \<Rightarrow> problem list" where
  "problems_of ps h = filter (\<lambda>p. host_of p = h \<and> h \<noteq> []) ps"

lemma count_problems:
  "hc_total (fold count_problem ps no_counts) = length ps \<and>
   hc_unack (fold count_problem ps no_counts) = length (filter (\<lambda>p. acknowledged p \<noteq> ''1'') ps) \<and>
   fst ` set (hc_bySeverity (fold count_problem ps no_counts)) = severity ` set ps \<and>
   count_of (hc_bySeverity (fold count_problem ps no_counts)) sev = length (filter (\<lambda>p. severity p = sev) ps)"
proof (induction ps arbitrary: sev rule: rev_induct)
  case Nil
  then show ?case by (simp add: no_counts_def count_of_def)
next
  case (snoc p ps)
  have "fst ` set (table_set k v t) = insert k (fst ` set t)" for k v and t :: "(string, nat) table"
    by (metis dom_map_of_conv_image_fst update_conv' dom_fun_upd option.distinct(1) fun_upd_apply)
  then show ?case using snoc by (simp add: count_problem_def table_simps count_of_def)
qed

lemma counts_of_host:
  "counts_of (counts_by_host ps) h = fold count_problem (problems_of ps h) no_counts"
proof -
  have "filter (\<lambda>p. host_of p = h) (filter (\<lambda>p. host_of p \<noteq> []) ps) = problems_of ps h"
    unfolding problems_of_def filter_filter by (rule filter_cong) auto
  then show ?thesis by (simp add: counts_of_def counts_by_host_def group_into_get Let_def)
qed

lemma fold_add_severity:
  "fold add_severity es s =
     s\<lparr>st_bySeverity := fold (\<lambda>e t. table_set (fst e) (count_of t (fst e) + snd e) t) es (st_bySeverity s),
       st_worst := fold (\<lambda>e w. max w (num0 (Some (fst e)))) es (st_worst s)\<rparr>"
  by (induction es arbitrary: s) (simp_all add: add_severity_def split_def)

lemma fold_max: "fold (\<lambda>e w. max w (num0 (Some (fst e)))) es w = Max (insert w ((\<lambda>e. num0 (Some (fst e))) ` set es))"
proof (induction es arbitrary: w)
  case (Cons e es)
  have "Max (insert (max w (num0 (Some (fst e)))) A) = Max (insert w (insert (num0 (Some (fst e))) A))" if "finite A" for A
    using that by (cases "A = {}") (simp_all add: max.assoc)
  then show ?case using Cons by (simp add: split_def)
qed simp

text \<open>The reference: the figures of a site read off the hosts it holds.\<close>

definition severities_at :: "problem list \<Rightarrow> host_meta_row list \<Rightarrow> int set" where
  "severities_at ps hosts = {num0 (Some (severity p)) | p h. h \<in> set hosts \<and> p \<in> set (problems_of ps (hm_hostid h))}"

definition state_of :: "(string, icmp_reading) table \<Rightarrow> host_meta_row \<Rightarrow> host_state" where
  "state_of icmp h = fst (hostState (hm_status h) (to_interfaces (hm_interfaces h)) (table_get icmp (hm_hostid h)))"

definition site_figures :: "(string, icmp_reading) table \<Rightarrow> problem list \<Rightarrow> host_meta_row list \<Rightarrow> site_row \<Rightarrow> bool" where
  "site_figures icmp ps hosts s \<longleftrightarrow>
     map sh_hostid (st_hosts s) = map hm_hostid hosts \<and> map sh_state (st_hosts s) = map (state_of icmp) hosts \<and>
     st_total s = length hosts \<and>
     st_up s = length (filter (\<lambda>h. state_of icmp h = Up) hosts) \<and> st_down s = length (filter (\<lambda>h. state_of icmp h = Down) hosts) \<and>
     st_degraded s = length (filter (\<lambda>h. state_of icmp h = Degraded) hosts) \<and>
     st_nodata s = length (filter (\<lambda>h. state_of icmp h = NoData) hosts) \<and>
     st_disabled s = length (filter (\<lambda>h. state_of icmp h = Disabled) hosts) \<and>
     st_available s + st_unavailable s + st_unknown s = length hosts \<and>
     st_problems s = sum_list (map (\<lambda>h. length (problems_of ps (hm_hostid h))) hosts) \<and>
     st_unacknowledged s = sum_list (map (\<lambda>h. length (filter (\<lambda>p. acknowledged p \<noteq> ''1'') (problems_of ps (hm_hostid h)))) hosts) \<and>
     st_worst s = Max (insert (-1) (severities_at ps hosts))"

lemma disabled_state: "state_of icmp h = Disabled \<longleftrightarrow> hm_status h = ''1''"
  by (auto simp: state_of_def hostState_def Let_def split: availability.splits)

lemma finite_severities: "finite (severities_at ps hosts)"
proof -
  have "severities_at ps hosts = (\<Union>h \<in> set hosts. (\<lambda>p. num0 (Some (severity p))) ` set (problems_of ps (hm_hostid h)))"
    by (auto simp: severities_at_def)
  then show ?thesis by simp
qed

lemma severities_snoc:
  "severities_at ps (hosts @ [h]) = severities_at ps hosts \<union> (\<lambda>p. num0 (Some (severity p))) ` set (problems_of ps (hm_hostid h))"
  by (auto simp: severities_at_def)

lemma Max_insert_Max: "finite A \<Longrightarrow> A \<noteq> {} \<Longrightarrow> finite B \<Longrightarrow> Max (insert (Max A) B) = Max (A \<union> B)"
  by (cases "B = {}") (simp_all add: Max.union)

lemma add_host_figures_step:
  assumes "site_figures icmp ps hosts s"
  shows "site_figures icmp ps (hosts @ [h]) (add_host cfg icmp (counts_by_host ps) h s)"
proof -
  let ?c = "fold count_problem (problems_of ps (hm_hostid h)) no_counts"
  have "(\<lambda>e. num0 (Some (fst e))) ` set (hc_bySeverity ?c) = (\<lambda>s. num0 (Some s)) ` fst ` set (hc_bySeverity ?c)"
    by (simp add: image_image)
  also have "\<dots> = (\<lambda>s. num0 (Some s)) ` severity ` set (problems_of ps (hm_hostid h))"
    using count_problems [of "problems_of ps (hm_hostid h)"] by simp
  finally have counts: "hc_total ?c = length (problems_of ps (hm_hostid h))"
    "hc_unack ?c = length (filter (\<lambda>p. acknowledged p \<noteq> ''1'') (problems_of ps (hm_hostid h)))"
    "(\<lambda>e. num0 (Some (fst e))) ` set (hc_bySeverity ?c) = (\<lambda>p. num0 (Some (severity p))) ` set (problems_of ps (hm_hostid h))"
    using count_problems [of "problems_of ps (hm_hostid h)"] by (simp_all add: image_image)
  have worst: "Max (insert (Max (insert (-1) (severities_at ps hosts))) ((\<lambda>p. num0 (Some (severity p))) ` set (problems_of ps (hm_hostid h))))
      = Max (insert (-1) (severities_at ps (hosts @ [h])))"
    unfolding severities_snoc by (subst Max_insert_Max) (simp_all add: finite_severities)
  show ?thesis using assms
    by (cases "rollUpAvailability (to_interfaces (hm_interfaces h))")
      (simp_all add: site_figures_def add_host_def counts_of_host counts fold_add_severity fold_max worst split_def Let_def
        length_filter_snoc disabled_state bump_def del: filter_append flip: state_of_def)
qed

lemma add_host_figures: "site_figures icmp ps hosts (fold (add_host cfg icmp (counts_by_host ps)) hosts (empty_site name))"
proof (induction hosts rule: rev_induct)
  case Nil
  then show ?case by (simp add: site_figures_def empty_site_def severities_at_def)
qed (simp add: add_host_figures_step)

lemma st_name_add_host: "st_name (add_host cfg icmp t h s) = st_name s"
  by (simp add: add_host_def split_def Let_def fold_add_severity)

lemma st_name_fold: "st_name (fold (add_host cfg icmp t) hs s) = st_name s"
  by (induction hs arbitrary: s) (simp_all add: st_name_add_host)

lemma coverage_adds: "cv_hosts (coverage_of cfg hosts) = length hosts \<and>
  cv_tag (coverage_of cfg hosts) + cv_name (coverage_of cfg hosts) + cv_inventory (coverage_of cfg hosts) + cv_group (coverage_of cfg hosts) = length hosts"
proof -
  have "cv_hosts (fold (count_source cfg) hs c) = cv_hosts c \<and>
      cv_tag (fold (count_source cfg) hs c) + cv_name (fold (count_source cfg) hs c) + cv_inventory (fold (count_source cfg) hs c)
        + cv_group (fold (count_source cfg) hs c)
      = cv_tag c + cv_name c + cv_inventory c + cv_group c + length hs" for hs c
    by (induction hs arbitrary: c) (auto simp: count_source_def split: site_source.splits)
  then show ?thesis by (simp add: coverage_of_def)
qed

subsection \<open>Properties\<close>


definition sample_host :: "string \<Rightarrow> string \<Rightarrow> host_meta_row" where
  "sample_host i name =
     \<lparr>hm_hostid = i, hm_name = name, hm_status = ''0'', maintenance_status = None, hm_description = None,
      hm_interfaces = None, hm_hostgroups = None, hm_tags = Some [(''site'', '' Jakarta '')], hm_inventory = None\<rparr>"


end
