(* ===== verification/Scorecard.thy ===== *)
theory Scorecard
  imports Sites
begin

text \<open>
  The inventory scorecard (\<open>server/src/services/inventory.ts\<close>): how many hosts carry a conventional name, a stated
  site, an owner and a criticality, and which are missing what. The naming convention is a pattern of the
  configuration: what it matches is a parameter, \<open>None\<close> when it is no regular expression.
\<close>

datatype dimension_key = DNaming | DSite | DOwner | DCriticality

record inventory_settings =
  is_site :: site_settings
  is_ownerTag :: string
  is_criticalityTag :: string
  is_namePattern :: string

record dimension =
  dm_key :: dimension_key
  dm_label :: string
  dm_hint :: string
  dm_present :: nat
  dm_total :: nat
  dm_pct :: int
  dm_scored :: bool

record host_gap =
  hg_hostid :: string
  hg_name :: string
  hg_site :: string
  hg_groups :: "string list"
  hg_missing :: "dimension_key list"

record group_score =
  gs_name :: string
  gs_hosts :: nat
  gs_complete :: nat
  gs_pct :: int

record scorecard =
  sc_dimensions :: "dimension list"
  sc_hosts :: nat
  sc_complete :: nat
  sc_pct :: int
  sc_groups :: "group_score list"
  sc_gaps :: "host_gap list"

definition hasOwner :: "inventory_settings \<Rightarrow> host_meta_row \<Rightarrow> bool" where
  "hasOwner cfg h \<longleftrightarrow>
     (case hm_inventory h of Some i \<Rightarrow> trimmed (poc_1_name i) \<noteq> [] \<or> trimmed (poc_1_email i) \<noteq> [] | None \<Rightarrow> False)
     \<or> tagValue (hm_tags h) (is_ownerTag cfg) \<noteq> []"

definition hasExplicitSite :: "inventory_settings \<Rightarrow> host_meta_row \<Rightarrow> bool" where
  "hasExplicitSite cfg h \<longleftrightarrow> snd (resolveSite (is_site cfg) h) \<noteq> FromGroup"

record check =
  ck_key :: dimension_key
  ck_label :: string
  ck_hint :: string
  ck_scored :: bool
  ck_ok :: "host_meta_row \<Rightarrow> bool"

definition naming_re :: "(string \<Rightarrow> (string \<Rightarrow> bool) option) \<Rightarrow> inventory_settings \<Rightarrow> (string \<Rightarrow> bool) option" where
  "naming_re compile cfg = (if is_namePattern cfg = [] then None else compile (is_namePattern cfg))"

definition in_quotes :: "string \<Rightarrow> string" where
  "in_quotes s = CHR 0x22 # s @ [CHR 0x22]"

definition checks :: "(string \<Rightarrow> (string \<Rightarrow> bool) option) \<Rightarrow> inventory_settings \<Rightarrow> check list" where
  "checks compile cfg =
     [\<lparr>ck_key = DNaming, ck_label = ''Naming convention'',
       ck_hint = ''host name matches '' @ (if is_namePattern cfg = [] then ''(HOST_NAME_PATTERN not set)'' else is_namePattern cfg),
       ck_scored = (naming_re compile cfg \<noteq> None),
       ck_ok = (\<lambda>h. case naming_re compile cfg of Some re \<Rightarrow> re (hm_name h) | None \<Rightarrow> True)\<rparr>,
      \<lparr>ck_key = DSite, ck_label = ''Site mapping'',
       ck_hint = ''tag '' @ in_quotes (site_tag (is_site cfg)) @ '' or inventory site_city / location'',
       ck_scored = True, ck_ok = hasExplicitSite cfg\<rparr>,
      \<lparr>ck_key = DOwner, ck_label = ''Owner / PIC'',
       ck_hint = ''inventory poc_1_name / poc_1_email, or tag '' @ in_quotes (is_ownerTag cfg),
       ck_scored = True, ck_ok = hasOwner cfg\<rparr>,
      \<lparr>ck_key = DCriticality, ck_label = ''Criticality'',
       ck_hint = ''tag '' @ in_quotes (is_criticalityTag cfg),
       ck_scored = True, ck_ok = (\<lambda>h. tagValue (hm_tags h) (is_criticalityTag cfg) \<noteq> [])\<rparr>]"

text \<open>\<open>total ? Math.round((part / total) * 100) : 0\<close>.\<close>

definition percent :: "nat \<Rightarrow> nat \<Rightarrow> int" where
  "percent part whole = (if whole = 0 then 0 else js_round (of_nat part / of_nat whole * 100))"

definition dimension_of :: "host_meta_row list \<Rightarrow> check \<Rightarrow> dimension" where
  "dimension_of hosts c =
     (let present = (if ck_scored c then length (filter (ck_ok c) hosts) else 0) in
      \<lparr>dm_key = ck_key c, dm_label = ck_label c, dm_hint = ck_hint c, dm_present = present, dm_total = length hosts,
       dm_pct = (if ck_scored c then percent present (length hosts) else 0), dm_scored = ck_scored c\<rparr>)"

definition missing_of :: "check list \<Rightarrow> host_meta_row \<Rightarrow> dimension_key list" where
  "missing_of scored h = map ck_key (filter (\<lambda>c. \<not> ck_ok c h) scored)"

definition gap_of :: "inventory_settings \<Rightarrow> check list \<Rightarrow> host_meta_row \<Rightarrow> host_gap" where
  "gap_of cfg scored h =
     \<lparr>hg_hostid = hm_hostid h, hg_name = hm_name h, hg_site = site_of (is_site cfg) h,
      hg_groups = map snd (or_nil (hm_hostgroups h)), hg_missing = missing_of scored h\<rparr>"

text \<open>One turn of the inner loop: the group's name and whether the host is complete.\<close>

definition group_turns :: "check list \<Rightarrow> host_meta_row list \<Rightarrow> (string \<times> bool) list" where
  "group_turns scored hosts =
     concat (map (\<lambda>h. map (\<lambda>g. (snd g, missing_of scored h = [])) (or_nil (hm_hostgroups h))) hosts)"

definition count_group :: "string \<times> bool \<Rightarrow> nat \<times> nat \<Rightarrow> nat \<times> nat" where
  "count_group turn r = (Suc (fst r), bump (snd turn) (snd r))"

definition group_order :: "(string \<Rightarrow> string \<Rightarrow> int) \<Rightarrow> group_score \<Rightarrow> group_score \<Rightarrow> int" where
  "group_order collate a b =
     or_else (compare (gs_pct a) (gs_pct b)) (or_else (compare (gs_hosts b) (gs_hosts a)) (collate (gs_name a) (gs_name b)))"

definition gap_order :: "(string \<Rightarrow> string \<Rightarrow> int) \<Rightarrow> host_gap \<Rightarrow> host_gap \<Rightarrow> int" where
  "gap_order collate a b =
     or_else (compare (length (hg_missing b)) (length (hg_missing a))) (collate (hg_name a) (hg_name b))"

definition getScorecard ::
  "(string \<Rightarrow> (string \<Rightarrow> bool) option) \<Rightarrow> (string \<Rightarrow> string \<Rightarrow> int) \<Rightarrow> inventory_settings \<Rightarrow> host_meta_row list \<Rightarrow> scorecard" where
  "getScorecard compile collate cfg hosts =
     (let cs = checks compile cfg; scored = filter ck_scored cs;
          gaps = map (gap_of cfg scored) (filter (\<lambda>h. missing_of scored h \<noteq> []) hosts);
          completeHosts = length hosts - length gaps;
          groups = group_into fst (\<lambda>_. (0, 0)) count_group (group_turns scored hosts) in
      \<lparr>sc_dimensions = map (dimension_of hosts) cs,
       sc_hosts = length hosts, sc_complete = completeHosts, sc_pct = percent completeHosts (length hosts),
       sc_groups = js_sort (group_order collate)
         (map (\<lambda>(name, n, k). \<lparr>gs_name = name, gs_hosts = n, gs_complete = k, gs_pct = percent k n\<rparr>) groups),
       sc_gaps = js_sort (gap_order collate) gaps\<rparr>)"

subsection \<open>Lemmas\<close>

lemma percent_range: "k \<le> n \<Longrightarrow> 0 \<le> percent k n \<and> percent k n \<le> 100"
proof -
  assume "k \<le> n"
  then have "(of_nat k :: rat) / of_nat n \<le> 1" by (cases "n = 0") (simp_all add: divide_le_eq)
  moreover have "0 \<le> (of_nat k :: rat) / of_nat n" by simp
  ultimately show ?thesis by (simp add: percent_def js_round_def le_floor_iff floor_le_iff)
qed

lemma count_groups:
  "fold count_group turns (0, 0) = (length turns, length (filter snd turns))"
proof -
  have "fold count_group turns (a, b) = (a + length turns, b + length (filter snd turns))" for a b
    by (induction turns arbitrary: a b) (auto simp: count_group_def bump_def)
  then show ?thesis by simp
qed

lemma length_filter_and: "length (filter (\<lambda>x. P x \<and> Q x) xs) \<le> length (filter P xs)"
  by (induction xs) auto

text \<open>A host that every scored check passes.\<close>

definition complete_host :: "(string \<Rightarrow> (string \<Rightarrow> bool) option) \<Rightarrow> inventory_settings \<Rightarrow> host_meta_row \<Rightarrow> bool" where
  "complete_host compile cfg h \<longleftrightarrow>
     (case naming_re compile cfg of Some re \<Rightarrow> re (hm_name h) | None \<Rightarrow> True) \<and> hasExplicitSite cfg h \<and> hasOwner cfg h
     \<and> tagValue (hm_tags h) (is_criticalityTag cfg) \<noteq> []"

lemma missing_complete: "missing_of (filter ck_scored (checks compile cfg)) h = [] \<longleftrightarrow> complete_host compile cfg h"
  by (auto simp: missing_of_def checks_def complete_host_def split: option.splits)

subsection \<open>Properties\<close>

text \<open>
  The scorecard is consistent. A host is in the gap list exactly when a scored check fails, with exactly the failing
  checks, and complete hosts and gaps add up to the estate; each dimension counts the hosts that pass its
  check; each group counts its hosts and the complete ones; a naming pattern that is no regular expression scores nothing
  and makes no gap; every percentage is between 0 and 100.
\<close>

theorem scorecard_is_consistent:
  fixes compile :: "string \<Rightarrow> (string \<Rightarrow> bool) option" and collate :: "string \<Rightarrow> string \<Rightarrow> int"
  and cfg :: inventory_settings and hosts :: "host_meta_row list"
  defines "result \<equiv> getScorecard compile collate cfg hosts"
  shows "mset (map hg_hostid (sc_gaps result)) = mset (map hm_hostid (filter (\<lambda>h. \<not> complete_host compile cfg h) hosts)) \<and>
    sc_complete result = length (filter (complete_host compile cfg) hosts) \<and>
    sc_complete result + length (sc_gaps result) = length hosts \<and>
    list_all (\<lambda>g. hg_missing g \<noteq> []) (sc_gaps result) \<and>
    map dm_scored (sc_dimensions result) = [naming_re compile cfg \<noteq> None, True, True, True] \<and>
    list_all (\<lambda>d. 0 \<le> dm_pct d \<and> dm_pct d \<le> 100 \<and> dm_present d \<le> length hosts) (sc_dimensions result) \<and>
    list_all (\<lambda>g. 0 \<le> gs_pct g \<and> gs_pct g \<le> 100 \<and>
        gs_hosts g = length (filter (\<lambda>t. fst t = gs_name g) (group_turns (filter ck_scored (checks compile cfg)) hosts)) \<and>
        gs_complete g \<le> gs_hosts g) (sc_groups result) \<and>
    0 \<le> sc_pct result \<and> sc_pct result \<le> 100"
proof -
  let ?scored = "filter ck_scored (checks compile cfg)"
  have gaps: "sc_gaps result = js_sort (gap_order collate) (map (gap_of cfg ?scored) (filter (\<lambda>h. \<not> complete_host compile cfg h) hosts))"
    by (simp add: result_def getScorecard_def Let_def missing_complete)
  have split: "length (filter (complete_host compile cfg) hosts) + length (filter (\<lambda>h. \<not> complete_host compile cfg h) hosts) = length hosts"
    by (rule sum_length_filter_compl)
  have complete: "sc_complete result = length (filter (complete_host compile cfg) hosts)"
    using split by (simp add: result_def getScorecard_def Let_def missing_complete)
  have ids: "mset (map hg_hostid (sc_gaps result)) = mset (map hm_hostid (filter (\<lambda>h. \<not> complete_host compile cfg h) hosts))"
  proof -
    have "mset (map hg_hostid (sc_gaps result)) = image_mset hg_hostid (mset (map (gap_of cfg ?scored) (filter (\<lambda>h. \<not> complete_host compile cfg h) hosts)))"
      by (simp only: gaps mset_map mset_js_sort)
    then show ?thesis by (simp add: gap_of_def multiset.map_comp comp_def)
  qed
  have nonempty: "list_all (\<lambda>g. hg_missing g \<noteq> []) (sc_gaps result)"
    by (auto simp: gaps list_all_iff gap_of_def missing_complete)
  have dims: "list_all (\<lambda>d. 0 \<le> dm_pct d \<and> dm_pct d \<le> 100 \<and> dm_present d \<le> length hosts) (map (dimension_of hosts) cs)" for cs
    using percent_range by (auto simp: list_all_iff dimension_of_def Let_def)
  have groups: "list_all (\<lambda>g. 0 \<le> gs_pct g \<and> gs_pct g \<le> 100 \<and>
      gs_hosts g = length (filter (\<lambda>t. fst t = gs_name g) (group_turns ?scored hosts)) \<and> gs_complete g \<le> gs_hosts g) (sc_groups result)"
    by (auto simp: list_all_iff result_def getScorecard_def Let_def group_into_entry count_groups length_filter_and
        intro: percent_range [OF length_filter_and, THEN conjunct1] percent_range [OF length_filter_and, THEN conjunct2])
  have "sc_complete result \<le> length hosts" using complete by simp
  then have "0 \<le> sc_pct result \<and> sc_pct result \<le> 100"
    using percent_range by (simp add: result_def getScorecard_def Let_def)
  moreover have "map dm_scored (sc_dimensions result) = [naming_re compile cfg \<noteq> None, True, True, True]"
    by (simp add: result_def getScorecard_def Let_def checks_def dimension_of_def)
  moreover have "sc_dimensions result = map (dimension_of hosts) (checks compile cfg)"
    by (simp add: result_def getScorecard_def Let_def)
  moreover have "sc_complete result + length (sc_gaps result) = length hosts" using split by (simp add: complete gaps)
  ultimately show ?thesis using ids complete nonempty dims groups by simp
qed

end
