(* ===== verification/Links.thy ===== *)
theory Links
  imports Reachability
begin

text \<open>
  Link and WAN health (\<open>server/src/services/links.ts\<close>): the ICMP items of one host and target stitched back into a
  link, its state from the thresholds, and the redundant paths. The rows come from \<open>item.get\<close>; the thresholds and
  \<open>localeCompare\<close> are parameters.
\<close>

datatype link_state = LUp | LDegraded | LDown | LUnknown

record link_item = collected_item +
  li_itemid :: string
  li_name :: string
  li_key :: string
  li_lastvalue :: "string option"
  li_hosts :: "(string \<times> string) list option"
  li_tags :: "(string \<times> string) list option"

record link =
  lk_id :: string
  lk_hostid :: string
  lk_host :: string
  lk_target :: string
  lk_label :: string
  lk_up :: "bool option"
  lk_loss :: "rat option"
  lk_latency :: "rat option"
  lk_jitter :: "rat option"
  lk_state :: link_state
  lk_group :: "string option"
  lk_role :: "string option"
  lk_lastclock :: "string option"

record link_path =
  lp_name :: string
  lp_links :: "link list"
  lp_state :: link_state

subsection \<open>Keys and values\<close>

text \<open>\<open>s.slice(a, b)\<close>: a negative end counts from the end of the text.\<close>

definition js_slice :: "string \<Rightarrow> nat \<Rightarrow> int \<Rightarrow> string" where
  "js_slice s a b = (let e = (if b < 0 then max 0 (int (length s) + b) else b) in take (nat (e - int a)) (drop a s))"

definition index_of :: "char \<Rightarrow> string \<Rightarrow> int" where
  "index_of c s = (if c \<in> set s then int (length (takeWhile (\<lambda>d. d \<noteq> c) s)) else -1)"

definition last_index_of :: "char \<Rightarrow> string \<Rightarrow> int" where
  "last_index_of c s = (if c \<in> set s then int (length s - 1 - length (takeWhile (\<lambda>d. d \<noteq> c) (rev s))) else -1)"

text \<open>\<open>s.replace(/^"(.*)"$/, '$1')\<close>: the dot takes no line end.\<close>

definition unquote :: "string \<Rightarrow> string" where
  "unquote s =
     (if length s \<ge> 2 \<and> hd s = CHR 0x22 \<and> last s = CHR 0x22
         \<and> list_all (\<lambda>c. c \<noteq> CHR 0x0A \<and> c \<noteq> CHR 0x0D) (butlast (tl s))
      then butlast (tl s) else s)"

definition parseKey :: "string \<Rightarrow> string \<times> string list" where
  "parseKey key =
     (let op = index_of CHR ''['' key in
      if op < 0 then (key, [])
      else
        (let inner = js_slice key (nat (op + 1)) (last_index_of CHR '']'' key) in
         (take (nat op) key, map (\<lambda>s. unquote (trim s)) (split_on CHR '','' inner))))"

definition param :: "string list \<Rightarrow> nat \<Rightarrow> string" where
  "param ps i = (if i < length ps then ps ! i else [])"

definition num :: "string option \<Rightarrow> rat option" where
  "num v = (case v of None \<Rightarrow> None | Some s \<Rightarrow> (if s = [] then None else case js_number s of Num q \<Rightarrow> Some q | _ \<Rightarrow> None))"

definition toMs :: "rat option \<Rightarrow> rat option" where
  "toMs seconds = map_option (\<lambda>q. of_int (js_round (q * 1000 * 100)) / 100) seconds"

text \<open>\<open>config.links\<close>: the loss from which a link is degraded, and from which it is down.\<close>

record thresholds =
  lossWarn :: rat
  lossCrit :: rat

definition classify :: "thresholds \<Rightarrow> bool option \<Rightarrow> rat option \<Rightarrow> link_state" where
  "classify cfg up loss =
     (if up = Some False then LDown
      else case loss of
        Some l \<Rightarrow> (if l \<ge> lossCrit cfg then LDown else if l \<ge> lossWarn cfg then LDegraded else LUp)
      | None \<Rightarrow> (if up = None then LUnknown else LUp))"

fun RANK :: "link_state \<Rightarrow> int" where
  "RANK LDown = 3" | "RANK LDegraded = 2" | "RANK LUnknown = 1" | "RANK LUp = 0"

subsection \<open>One link\<close>

record link_group =
  gr_host :: "string \<times> string"
  gr_target :: string
  gr_items :: "link_item list"

text \<open>An item that becomes part of a link: it has a host and an ICMP key.\<close>

definition link_items :: "link_item list \<Rightarrow> link_item list" where
  "link_items items = filter (\<lambda>i. or_nil (li_hosts i) \<noteq> [] \<and> startsWith (fst (parseKey (li_key i))) ''icmpping'') items"

definition target_of :: "link_item \<Rightarrow> string" where
  "target_of i = param (snd (parseKey (li_key i))) 0"

definition link_id :: "link_item \<Rightarrow> string" where
  "link_id i = fst (hd (or_nil (li_hosts i))) @ '':'' @ target_of i"

definition group_items :: "link_item list \<Rightarrow> (string, link_group) table" where
  "group_items items =
     group_into link_id (\<lambda>i. \<lparr>gr_host = hd (or_nil (li_hosts i)), gr_target = target_of i, gr_items = []\<rparr>)
       (\<lambda>i g. g\<lparr>gr_items := gr_items g @ [i]\<rparr>) (link_items items)"

record link_reading =
  rd_up :: "bool option"
  rd_loss :: "rat option"
  rd_latency :: "rat option"
  rd_min :: "rat option"
  rd_max :: "rat option"
  rd_label :: string
  rd_lastclock :: "string option"
  rd_tags :: "(string, string) table"

definition no_reading :: link_reading where
  "no_reading = \<lparr>rd_up = None, rd_loss = None, rd_latency = None, rd_min = None, rd_max = None, rd_label = [],
     rd_lastclock = None, rd_tags = []\<rparr>"

definition clock_value :: "string option \<Rightarrow> rat" where
  "clock_value c = (case num c of Some q \<Rightarrow> q | None \<Rightarrow> 0)"

text \<open>One turn of the loop over the items of a link.\<close>

definition read_item :: "int \<Rightarrow> link_item \<Rightarrow> link_reading \<Rightarrow> link_reading" where
  "read_item now i r =
     (let (name, params) = parseKey (li_key i);
          fresh = isFresh i now;
          v = (if fresh then num (li_lastvalue i) else None);
          r1 = r\<lparr>rd_tags := fold (\<lambda>(t, w). table_set t w) (or_nil (li_tags i)) (rd_tags r),
                 rd_lastclock := (if fresh \<and> (or_nil (rd_lastclock r) = [] \<or> clock_value (pi_lastclock i) > clock_value (rd_lastclock r))
                                  then pi_lastclock i else rd_lastclock r)\<rparr>
      in if name = ''icmpping'' then
           r1\<lparr>rd_up := map_option (\<lambda>q. q = 1) v, rd_label := (if rd_label r1 = [] then li_name i else rd_label r1)\<rparr>
         else if name = ''icmppingloss'' then
           r1\<lparr>rd_loss := v, rd_label := (if li_name i \<noteq> [] then li_name i else rd_label r1)\<rparr>
         else if name = ''icmppingsec'' then
           (let md = (if param params 5 = [] then ''avg'' else param params 5) in
            if md = ''min'' then r1\<lparr>rd_min := v\<rparr> else if md = ''max'' then r1\<lparr>rd_max := v\<rparr> else r1\<lparr>rd_latency := v\<rparr>)
         else r1)"

text \<open>The arrow between a host and its target, as its UTF-8 bytes.\<close>

definition arrow :: string where "arrow = [CHR '' '', CHR 0xE2, CHR 0x86, CHR 0x92, CHR '' '']"

definition nonempty :: "string option \<Rightarrow> string option" where
  "nonempty v = (case v of Some s \<Rightarrow> (if s \<noteq> [] then Some s else None) | None \<Rightarrow> None)"

definition wan_role :: "wan_key \<Rightarrow> string" where
  "wan_role w = ''WAN '' @ wan_leg w @ (case nonempty (provider w) of Some p \<Rightarrow> '' ('' @ p @ '')'' | None \<Rightarrow> [])"

definition link_of :: "thresholds \<Rightarrow> int \<Rightarrow> string \<times> link_group \<Rightarrow> link" where
  "link_of cfg now entry =
     (let (i, g) = entry; (hid, hname) = gr_host g; r = fold (read_item now) (gr_items g) no_reading; wan = wanPairKey hname in
      \<lparr>lk_id = i, lk_hostid = hid, lk_host = hname, lk_target = gr_target g,
       lk_label = (if rd_label r \<noteq> [] then rd_label r else if gr_target g \<noteq> [] then hname @ arrow @ gr_target g else hname),
       lk_up = rd_up r, lk_loss = rd_loss r, lk_latency = toMs (rd_latency r),
       lk_jitter = (case (rd_min r, rd_max r) of (Some a, Some b) \<Rightarrow> toMs (Some (b - a)) | _ \<Rightarrow> None),
       lk_state = classify cfg (rd_up r) (rd_loss r),
       lk_group = (case nonempty (table_get (rd_tags r) ''link_group'') of Some t \<Rightarrow> Some t
                   | None \<Rightarrow> nonempty (map_option wan_path wan)),
       lk_role = (case nonempty (table_get (rd_tags r) ''link_role'') of Some t \<Rightarrow> Some t
                  | None \<Rightarrow> map_option wan_role wan),
       lk_lastclock = rd_lastclock r\<rparr>)"

subsection \<open>Paths and the answer\<close>

definition path_state :: "link_state list \<Rightarrow> link_state" where
  "path_state ms =
     (if list_ex (\<lambda>m. m = LUp) ms then (if list_all (\<lambda>m. m = LUp) ms then LUp else LDegraded)
      else if list_ex (\<lambda>m. m = LDegraded) ms then LDegraded
      else if list_all (\<lambda>m. m = LUnknown) ms then LUnknown
      else LDown)"

definition link_order :: "(string \<Rightarrow> string \<Rightarrow> int) \<Rightarrow> link \<Rightarrow> link \<Rightarrow> int" where
  "link_order collate a b =
     or_else (compare (RANK (lk_state b)) (RANK (lk_state a)))
       (or_else (compare (case lk_loss b of Some l \<Rightarrow> l | None \<Rightarrow> 0) (case lk_loss a of Some l \<Rightarrow> l | None \<Rightarrow> 0))
         (collate (lk_label a) (lk_label b)))"

definition group_name :: "link \<Rightarrow> string" where
  "group_name l = (case lk_group l of Some g \<Rightarrow> g | None \<Rightarrow> [])"

definition paths_of :: "(string \<Rightarrow> string \<Rightarrow> int) \<Rightarrow> link list \<Rightarrow> link_path list" where
  "paths_of collate links =
     js_sort (\<lambda>a b. or_else (compare (RANK (lp_state b)) (RANK (lp_state a))) (collate (lp_name a) (lp_name b)))
       (map (\<lambda>(name, members). \<lparr>lp_name = name, lp_links = members, lp_state = path_state (map lk_state members)\<rparr>)
         (group_into group_name (\<lambda>_. []) (\<lambda>l ms. ms @ [l]) (filter (\<lambda>l. group_name l \<noteq> []) links)))"

record link_summary =
  lsum_total :: nat
  lsum_up :: nat
  lsum_degraded :: nat
  lsum_down :: nat
  lsum_unknown :: nat

definition summary_of :: "link list \<Rightarrow> link_summary" where
  "summary_of links =
     (let n = (\<lambda>s. length (filter (\<lambda>l. lk_state l = s) links)) in
      \<lparr>lsum_total = length links, lsum_up = n LUp, lsum_degraded = n LDegraded, lsum_down = n LDown, lsum_unknown = n LUnknown\<rparr>)"

definition getLinks ::
  "(string \<Rightarrow> string \<Rightarrow> int) \<Rightarrow> thresholds \<Rightarrow> int \<Rightarrow> link_item list \<Rightarrow> link list \<times> link_path list \<times> link_summary" where
  "getLinks collate cfg now items =
     (let links = js_sort (link_order collate) (map (link_of cfg now) (group_items items)) in
      (links, paths_of collate links, summary_of links))"

subsection \<open>Lemmas\<close>

text \<open>An item of the kind that was read while fresh, with its number.\<close>

definition measured :: "int \<Rightarrow> string \<Rightarrow> link_item \<Rightarrow> rat \<Rightarrow> bool" where
  "measured now name i q \<longleftrightarrow> fst (parseKey (li_key i)) = name \<and> isFresh i now \<and> num (li_lastvalue i) = Some q"

lemma read_items_up:
  "rd_up (fold (read_item now) is no_reading) = Some b \<Longrightarrow> \<exists>i \<in> set is. \<exists>q. measured now ''icmpping'' i q \<and> b = (q = 1)"
proof (induction "is" rule: rev_induct)
  case (snoc x xs)
  then show ?case
    by (cases "fst (parseKey (li_key x)) = ''icmpping''") (auto simp: read_item_def Let_def split_beta measured_def split: if_splits)
qed (simp add: no_reading_def)

lemma read_items_loss:
  "rd_loss (fold (read_item now) is no_reading) = Some q \<Longrightarrow> \<exists>i \<in> set is. measured now ''icmppingloss'' i q"
proof (induction "is" rule: rev_induct)
  case (snoc x xs)
  then show ?case
    by (cases "fst (parseKey (li_key x)) = ''icmppingloss''") (auto simp: read_item_def Let_def split_beta measured_def split: if_splits)
qed (simp add: no_reading_def)

lemma group_items_entry:
  assumes "(k, g) \<in> set (group_items items)"
  shows "gr_items g = filter (\<lambda>i. link_id i = k) (link_items items) \<and> k \<in> link_id ` set (link_items items)"
proof -
  have "gr_items (fold (\<lambda>i g. g\<lparr>gr_items := gr_items g @ [i]\<rparr>) is g0) = gr_items g0 @ is" for "is" and g0 :: link_group
    by (induction "is" arbitrary: g0) simp_all
  then show ?thesis using assms by (simp add: group_items_def group_into_entry Let_def)
qed

text \<open>What the state of a link claims, and where its measurements come from.\<close>

definition state_follows :: "thresholds \<Rightarrow> link \<Rightarrow> bool" where
  "state_follows cfg l \<longleftrightarrow>
     (case lk_state l of
        LUnknown \<Rightarrow> lk_up l = None \<and> lk_loss l = None
      | LDown \<Rightarrow> lk_up l = Some False \<or> (\<exists>x. lk_loss l = Some x \<and> lossCrit cfg \<le> x)
      | LDegraded \<Rightarrow> lk_up l \<noteq> Some False \<and> (\<exists>x. lk_loss l = Some x \<and> lossWarn cfg \<le> x \<and> x < lossCrit cfg)
      | LUp \<Rightarrow> lk_up l \<noteq> Some False \<and> (lk_up l = Some True \<or> lk_loss l \<noteq> None) \<and> (\<forall>x \<in> set_option (lk_loss l). x < lossCrit cfg \<and> x < lossWarn cfg))"

definition link_evidence :: "int \<Rightarrow> link_item list \<Rightarrow> link \<Rightarrow> bool" where
  "link_evidence now items l \<longleftrightarrow>
     (\<forall>b \<in> set_option (lk_up l). \<exists>i \<in> set items. \<exists>q. link_id i = lk_id l \<and> measured now ''icmpping'' i q \<and> b = (q = 1)) \<and>
     (\<forall>x \<in> set_option (lk_loss l). \<exists>i \<in> set items. link_id i = lk_id l \<and> measured now ''icmppingloss'' i x)"

lemma classify_follows: "lk_state l = classify cfg (lk_up l) (lk_loss l) \<Longrightarrow> state_follows cfg l"
  by (cases "lk_up l"; cases "lk_loss l") (auto simp: state_follows_def classify_def)

lemma link_of_evidence:
  assumes "(k, g) \<in> set (group_items items)"
  shows "link_evidence now items (link_of cfg now (k, g)) \<and> state_follows cfg (link_of cfg now (k, g)) \<and> lk_id (link_of cfg now (k, g)) = k"
proof -
  have sub: "set (gr_items g) \<subseteq> {i \<in> set items. link_id i = k}"
    using group_items_entry [OF assms] by (auto simp: link_items_def)
  have "lk_state (link_of cfg now (k, g)) = classify cfg (lk_up (link_of cfg now (k, g))) (lk_loss (link_of cfg now (k, g)))"
    by (simp add: link_of_def Let_def split_beta)
  moreover have fields: "lk_id (link_of cfg now (k, g)) = k" "lk_up (link_of cfg now (k, g)) = rd_up (fold (read_item now) (gr_items g) no_reading)"
    "lk_loss (link_of cfg now (k, g)) = rd_loss (fold (read_item now) (gr_items g) no_reading)"
    by (simp_all add: link_of_def Let_def split_beta)
  have "\<exists>i \<in> set items. \<exists>q. link_id i = k \<and> measured now ''icmpping'' i q \<and> b = (q = 1)"
    if "rd_up (fold (read_item now) (gr_items g) no_reading) = Some b" for b
    using read_items_up [OF that] sub by blast
  moreover have "\<exists>i \<in> set items. link_id i = k \<and> measured now ''icmppingloss'' i x"
    if "rd_loss (fold (read_item now) (gr_items g) no_reading) = Some x" for x
    using read_items_loss [OF that] sub by blast
  ultimately have "link_evidence now items (link_of cfg now (k, g))"
    unfolding link_evidence_def fields by (simp add: elem_set)
  then show ?thesis using classify_follows fields(1)
    \<open>lk_state (link_of cfg now (k, g)) = classify cfg (lk_up (link_of cfg now (k, g))) (lk_loss (link_of cfg now (k, g)))\<close> by blast
qed

lemma path_state_up: "path_state ms = LUp \<longleftrightarrow> ms \<noteq> [] \<and> (\<forall>m \<in> set ms. m = LUp)"
  by (cases ms) (auto simp: path_state_def list_ex_iff list_all_iff)

lemma path_state_down: "path_state ms = LDown \<longleftrightarrow> LUp \<notin> set ms \<and> LDegraded \<notin> set ms \<and> LDown \<in> set ms"
proof -
  have "(\<exists>m \<in> set ms. m \<noteq> LUnknown) \<longleftrightarrow> LUp \<in> set ms \<or> LDegraded \<in> set ms \<or> LDown \<in> set ms"
    by (metis link_state.exhaust link_state.distinct)
  then show ?thesis by (auto simp: path_state_def list_ex_iff list_all_iff)
qed

lemma member_states:
  "ms \<noteq> [] \<Longrightarrow> (path_state (map lk_state ms) = LUp \<longleftrightarrow> list_all (\<lambda>l. lk_state l = LUp) ms) \<and>
   (path_state (map lk_state ms) = LDown \<longleftrightarrow> list_all (\<lambda>l. lk_state l \<notin> {LUp, LDegraded}) ms \<and> list_ex (\<lambda>l. lk_state l = LDown) ms)"
  unfolding path_state_up path_state_down list_all_iff list_ex_iff by force

lemma fold_append: "fold (\<lambda>l ms. ms @ [l]) xs ys = ys @ xs"
  by (induction xs arbitrary: ys) simp_all

lemma paths_rows:
  "p \<in> set (paths_of collate links) \<longleftrightarrow>
     lp_name p \<in> group_name ` set links - {[]} \<and> lp_links p = filter (\<lambda>l. group_name l = lp_name p) links
      \<and> lp_state p = path_state (map lk_state (lp_links p))"
proof -
  let ?row = "\<lambda>(name, members). \<lparr>lp_name = name, lp_links = members, lp_state = path_state (map lk_state members)\<rparr>"
  let ?t = "group_into group_name (\<lambda>_. []) (\<lambda>l ms. ms @ [l]) (filter (\<lambda>l. group_name l \<noteq> []) links)"
  have f: "filter (\<lambda>l. group_name l = k) (filter (\<lambda>l. group_name l \<noteq> []) links) = filter (\<lambda>l. group_name l = k) links"
    if "k \<noteq> []" for k
    unfolding filter_filter using that by (intro filter_cong) auto
  have entry: "(k, ms) \<in> set ?t \<longleftrightarrow> k \<in> group_name ` set links - {[]} \<and> ms = filter (\<lambda>l. group_name l = k) links" for k ms
    by (cases "k = []") (auto simp: group_into_entry fold_append Let_def f simp del: filter_filter)
  have "p \<in> set (paths_of collate links) \<longleftrightarrow> (\<exists>k ms. (k, ms) \<in> set ?t \<and> p = ?row (k, ms))"
    by (auto simp: paths_of_def)
  then show ?thesis unfolding entry by (cases p) auto
qed

subsection \<open>Properties\<close>


end
