(* ===== verification/Network.thy ===== *)
theory Network
  imports Reachability
begin

text \<open>
  The network views (\<open>server/src/services/net.ts\<close>): one row per interface, folded from the \<open>net.if.*\<close> items of a
  host, its pages, and the devices with their ICMP state. \<open>naturalCompare\<close> is a parameter.
\<close>

subsection \<open>Keys and names\<close>

datatype oper_status = OUp | ODown | OTesting | OUnknown | ODormant | ONotPresent | OLowerLayerDown

definition OPER_STATUS :: "(string \<times> oper_status) list" where
  "OPER_STATUS = [(''1'', OUp), (''2'', ODown), (''3'', OTesting), (''4'', OUnknown), (''5'', ODormant), (''6'', ONotPresent),
     (''7'', OLowerLayerDown)]"

definition if_key_rx :: rx where
  "if_key_rx = Seqs [Start, Lit ''net.if.'', Cap 1 (LazyPlus (Cls (\<lambda>c. (CHR ''a'' \<le> c \<and> c \<le> CHR ''z'') \<or> c = CHR ''.''))),
     Lit ''['', Cap 2 (Star (NoneOf '',]''))]"

definition if_index_rx :: rx where
  "if_index_rx = Seqs [Lit ''.'', Cap 1 (Plus Digit), End]"

definition endsWith :: "string \<Rightarrow> string \<Rightarrow> bool" where
  "endsWith s t \<longleftrightarrow> length t \<le> length s \<and> drop (length s - length t) s = t"

definition parseIfKey :: "string \<Rightarrow> (string \<times> nat) option" where
  "parseIfKey key =
     (case rx_caps if_key_rx key of
        None \<Rightarrow> None
      | Some m \<Rightarrow>
          (if endsWith (cap m 1) ''walk'' then None
           else case rx_caps if_index_rx (trim (cap m 2)) of
             None \<Rightarrow> None
           | Some i \<Rightarrow> Some (cap m 1, digits_val (cap i 1))))"

definition if_alias_rx :: rx where
  "if_alias_rx = Seqs [Start, Lit ''Interface'', Plus Space, Cap 1 (LazyPlus (NoneOf ''('')), Spaces, Lit ''('',
     Cap 2 (Star Any), Lit ''):'', Space]"

definition if_plain_rx :: rx where
  "if_plain_rx = Seqs [Start, Lit ''Interface'', Plus Space, Cap 1 (LazyPlus Any), Lit '':'', Space]"

definition parseIfName :: "string \<Rightarrow> (string \<times> string) option" where
  "parseIfName itemName =
     (case rx_caps if_alias_rx itemName of
        Some m \<Rightarrow> Some (trim (cap m 1), trim (cap m 2))
      | None \<Rightarrow> map_option (\<lambda>m. (trim (cap m 1), [])) (rx_caps if_plain_rx itemName))"

subsection \<open>Rows\<close>

record if_item = collected_item +
  ii_itemid :: string
  ii_name :: string
  ii_key :: string
  ii_lastvalue :: string

record interface_row =
  ir_index :: nat
  ir_name :: string
  ir_alias :: string
  ir_operStatus :: oper_status
  ir_speed :: "rat option"
  ir_inBps :: "rat option"
  ir_outBps :: "rat option"
  ir_utilisation :: "rat option"
  ir_inErrors :: "rat option"
  ir_outErrors :: "rat option"
  ir_inDiscards :: "rat option"
  ir_outDiscards :: "rat option"
  ir_lastclock :: "rat option"
  ir_itemids :: "(string, string) table"

definition empty_row :: "nat \<Rightarrow> interface_row" where
  "empty_row i =
     \<lparr>ir_index = i, ir_name = [], ir_alias = [], ir_operStatus = OUnknown, ir_speed = None, ir_inBps = None, ir_outBps = None,
      ir_utilisation = None, ir_inErrors = None, ir_outErrors = None, ir_inDiscards = None, ir_outDiscards = None,
      ir_lastclock = None, ir_itemids = []\<rparr>"

definition fresh_number :: "int \<Rightarrow> if_item \<Rightarrow> rat option" where
  "fresh_number now it =
     (if isFresh it now \<and> ii_lastvalue it \<noteq> [] then (case js_number (ii_lastvalue it) of Num q \<Rightarrow> Some q | _ \<Rightarrow> None) else None)"

definition clock_of :: "if_item \<Rightarrow> rat" where
  "clock_of it = (case pi_lastclock it of Some c \<Rightarrow> (case js_number c of Num q \<Rightarrow> q | _ \<Rightarrow> 0) | None \<Rightarrow> 0)"

definition label_row :: "if_item \<Rightarrow> interface_row \<Rightarrow> interface_row" where
  "label_row it row =
     (case parseIfName (ii_name it) of
        Some (name, alias) \<Rightarrow> (if ir_name row = [] then row\<lparr>ir_name := name, ir_alias := alias\<rparr> else row)
      | None \<Rightarrow> row)"

definition put_value :: "string \<Rightarrow> int \<Rightarrow> if_item \<Rightarrow> interface_row \<Rightarrow> interface_row" where
  "put_value kind now it row =
     (let n = fresh_number now it; ids = (\<lambda>k. table_set k (ii_itemid it) (ir_itemids row)) in
      if kind = ''in'' then row\<lparr>ir_itemids := ids ''in'', ir_inBps := n\<rparr>
      else if kind = ''out'' then row\<lparr>ir_itemids := ids ''out'', ir_outBps := n\<rparr>
      else if kind = ''status'' then
        row\<lparr>ir_itemids := ids ''status'',
            ir_operStatus := (if isFresh it now then (case map_of OPER_STATUS (ii_lastvalue it) of Some s \<Rightarrow> s | None \<Rightarrow> OUnknown) else OUnknown)\<rparr>
      else if kind = ''speed'' then
        row\<lparr>ir_itemids := ids ''speed'', ir_speed := (case n of Some q \<Rightarrow> (if q > 0 then Some q else None) | None \<Rightarrow> None)\<rparr>
      else if kind = ''in.errors'' then row\<lparr>ir_itemids := ids ''inErrors'', ir_inErrors := n\<rparr>
      else if kind = ''out.errors'' then row\<lparr>ir_itemids := ids ''outErrors'', ir_outErrors := n\<rparr>
      else if kind = ''in.discards'' then row\<lparr>ir_inDiscards := n\<rparr>
      else if kind = ''out.discards'' then row\<lparr>ir_outDiscards := n\<rparr>
      else row)"

definition kind_of_item :: "if_item \<Rightarrow> string" where
  "kind_of_item it = (case parseIfKey (ii_key it) of Some (k, _) \<Rightarrow> k | None \<Rightarrow> [])"

definition index_of_item :: "if_item \<Rightarrow> nat" where
  "index_of_item it = (case parseIfKey (ii_key it) of Some (_, i) \<Rightarrow> i | None \<Rightarrow> 0)"

definition fold_if :: "int \<Rightarrow> if_item \<Rightarrow> interface_row \<Rightarrow> interface_row" where
  "fold_if now it row =
     (let row1 = label_row it row;
          row2 = (if isFresh it now then row1\<lparr>ir_lastclock := Some (max (case ir_lastclock row1 of Some c \<Rightarrow> c | None \<Rightarrow> 0) (clock_of it))\<rparr> else row1)
      in put_value (kind_of_item it) now it row2)"

definition finish_row :: "interface_row \<Rightarrow> interface_row" where
  "finish_row r =
     (let peak = max (case ir_inBps r of Some q \<Rightarrow> q | None \<Rightarrow> -1) (case ir_outBps r of Some q \<Rightarrow> q | None \<Rightarrow> -1) in
      r\<lparr>ir_name := (if ir_name r = [] then ''ifIndex '' @ show_nat (ir_index r) else ir_name r),
        ir_utilisation := (case ir_speed r of
            Some s \<Rightarrow> (if s \<noteq> 0 \<and> peak \<ge> 0 then Some (of_int (js_round (peak / s * 10000)) / 100) else None)
          | None \<Rightarrow> None)\<rparr>)"

definition groupInterfaces :: "(string \<Rightarrow> string \<Rightarrow> int) \<Rightarrow> if_item list \<Rightarrow> int \<Rightarrow> interface_row list" where
  "groupInterfaces naturalCompare items now =
     js_sort (\<lambda>a b. or_else (naturalCompare (ir_name a) (ir_name b)) (int (ir_index a) - int (ir_index b)))
       (map (\<lambda>e. finish_row (snd e))
         (group_into index_of_item (\<lambda>it. empty_row (index_of_item it)) (fold_if now)
           (filter (\<lambda>it. parseIfKey (ii_key it) \<noteq> None) items)))"

datatype bucket = BUp | BDown | BOther

definition statusBucket :: "oper_status \<Rightarrow> bucket" where
  "statusBucket s = (if s = OUp then BUp else if s = ODown \<or> s = OLowerLayerDown then BDown else BOther)"

subsection \<open>Devices and pages\<close>

record net_device =
  nd_hostid :: string
  nd_name :: string
  nd_status :: string
  nd_site :: "site_ref option"
  nd_icmp :: "icmp_reading option"

definition getNetDevices ::
  "(string \<Rightarrow> string \<Rightarrow> int) \<Rightarrow> (string \<times> string \<times> string) list \<Rightarrow> (string, icmp_reading) table \<Rightarrow> net_device list" where
  "getNetDevices naturalCompare hosts icmp =
     js_sort (\<lambda>a b. naturalCompare (nd_name a) (nd_name b))
       (map (\<lambda>(hid, name, status). \<lparr>nd_hostid = hid, nd_name = name, nd_status = status, nd_site = siteFromHostName name,
          nd_icmp = table_get icmp hid\<rparr>) hosts)"

record interface_page =
  ip_rows :: "interface_row list"
  ip_total :: nat
  ip_up :: nat
  ip_down :: nat
  ip_other :: nat
  ip_page :: nat
  ip_pageSize :: nat

definition searched_rows :: "string option \<Rightarrow> interface_row list \<Rightarrow> interface_row list" where
  "searched_rows search rows =
     (let needle = (case search of Some s \<Rightarrow> toLowerCase (trim s) | None \<Rightarrow> []) in
      if needle = [] then rows
      else filter (\<lambda>r. includes_text (toLowerCase (ir_name r)) needle \<or> includes_text (toLowerCase (ir_alias r)) needle) rows)"

definition wanted_bucket :: "string option \<Rightarrow> bucket option" where
  "wanted_bucket wanted =
     (if wanted = Some ''up'' then Some BUp else if wanted = Some ''down'' then Some BDown
      else if wanted = Some ''other'' then Some BOther else None)"

definition filtered_rows :: "string option \<Rightarrow> string option \<Rightarrow> interface_row list \<Rightarrow> interface_row list" where
  "filtered_rows search wanted rows =
     (case wanted_bucket wanted of
        Some b \<Rightarrow> filter (\<lambda>r. statusBucket (ir_operStatus r) = b) (searched_rows search rows)
      | None \<Rightarrow> searched_rows search rows)"

definition getInterfacePage :: "string option \<Rightarrow> string option \<Rightarrow> nat \<Rightarrow> nat \<Rightarrow> interface_row list \<Rightarrow> interface_page" where
  "getInterfacePage search wanted page pageSize rows =
     (let searched = searched_rows search rows; filtered = filtered_rows search wanted rows;
          n = (\<lambda>b. length (filter (\<lambda>r. statusBucket (ir_operStatus r) = b) searched)) in
      \<lparr>ip_rows = page_of filtered page pageSize, ip_total = length filtered, ip_up = n BUp, ip_down = n BDown, ip_other = n BOther,
       ip_page = page, ip_pageSize = pageSize\<rparr>)"

subsection \<open>Lemmas\<close>

text \<open>The interface items of one index, and the last one of a kind among them.\<close>

definition items_of :: "if_item list \<Rightarrow> nat \<Rightarrow> if_item list" where
  "items_of items i = filter (\<lambda>it. parseIfKey (ii_key it) \<noteq> None \<and> index_of_item it = i) items"

definition latest_value :: "int \<Rightarrow> string \<Rightarrow> if_item list \<Rightarrow> rat option" where
  "latest_value now kind is =
     (case filter (\<lambda>it. kind_of_item it = kind) (rev is) of it # _ \<Rightarrow> fresh_number now it | [] \<Rightarrow> None)"

lemma latest_value_snoc:
  "latest_value now kind (is @ [it]) = (if kind_of_item it = kind then fresh_number now it else latest_value now kind is)"
  by (simp add: latest_value_def)

lemma latest_value_Nil [simp]: "latest_value now kind [] = None"
  by (simp add: latest_value_def)

lemma label_row_simps [simp]:
  "ir_index (label_row it r) = ir_index r" "ir_inBps (label_row it r) = ir_inBps r" "ir_outBps (label_row it r) = ir_outBps r"
  "ir_speed (label_row it r) = ir_speed r" "ir_inErrors (label_row it r) = ir_inErrors r" "ir_outErrors (label_row it r) = ir_outErrors r"
  by (simp_all add: label_row_def split: option.split prod.split)

definition row_figures :: "int \<Rightarrow> if_item list \<Rightarrow> interface_row \<Rightarrow> bool" where
  "row_figures now is r \<longleftrightarrow>
     ir_inBps r = latest_value now ''in'' is \<and> ir_outBps r = latest_value now ''out'' is \<and>
     ir_speed r = (case latest_value now ''speed'' is of Some q \<Rightarrow> (if q > 0 then Some q else None) | None \<Rightarrow> None) \<and>
     ir_inErrors r = latest_value now ''in.errors'' is \<and> ir_outErrors r = latest_value now ''out.errors'' is"

lemma put_value_simps:
  "ir_index (put_value k now it r) = ir_index r"
  "ir_inBps (put_value k now it r) = (if k = ''in'' then fresh_number now it else ir_inBps r)"
  "ir_outBps (put_value k now it r) = (if k = ''out'' then fresh_number now it else ir_outBps r)"
  "ir_inErrors (put_value k now it r) = (if k = ''in.errors'' then fresh_number now it else ir_inErrors r)"
  "ir_outErrors (put_value k now it r) = (if k = ''out.errors'' then fresh_number now it else ir_outErrors r)"
  "ir_speed (put_value k now it r) = (if k = ''speed'' then case fresh_number now it of Some q \<Rightarrow> if q > 0 then Some q else None | None \<Rightarrow> None
     else ir_speed r)"
  by (simp_all add: put_value_def Let_def)

lemma fold_if_simps:
  "ir_index (fold_if now it r) = ir_index r"
  "ir_inBps (fold_if now it r) = (if kind_of_item it = ''in'' then fresh_number now it else ir_inBps r)"
  "ir_outBps (fold_if now it r) = (if kind_of_item it = ''out'' then fresh_number now it else ir_outBps r)"
  "ir_inErrors (fold_if now it r) = (if kind_of_item it = ''in.errors'' then fresh_number now it else ir_inErrors r)"
  "ir_outErrors (fold_if now it r) = (if kind_of_item it = ''out.errors'' then fresh_number now it else ir_outErrors r)"
  "ir_speed (fold_if now it r) = (if kind_of_item it = ''speed'' then case fresh_number now it of Some q \<Rightarrow> if q > 0 then Some q else None | None \<Rightarrow> None
     else ir_speed r)"
  by (simp_all add: fold_if_def Let_def put_value_simps)

lemma fold_if_figures: "row_figures now is (fold (fold_if now) is (empty_row i)) \<and> ir_index (fold (fold_if now) is (empty_row i)) = i"
proof (induction "is" rule: rev_induct)
  case (snoc it "is")
  then show ?case by (simp add: row_figures_def latest_value_snoc fold_if_simps)
qed (simp add: row_figures_def empty_row_def)

lemma js_round_nonneg: "0 \<le> x \<Longrightarrow> 0 \<le> js_round x"
  by (simp add: js_round_def le_floor_iff)

lemma finish_row_no_speed: "ir_speed r = None \<Longrightarrow> ir_utilisation (finish_row r) = None"
  by (simp add: finish_row_def Let_def)

lemma finish_row_speed: "ir_speed (finish_row r) = ir_speed r"
  by (simp add: finish_row_def Let_def)

lemma finish_row_simps:
  "row_figures now is (finish_row r) = row_figures now is r" "ir_index (finish_row r) = ir_index r" "ir_name (finish_row r) \<noteq> []"
  by (simp_all add: finish_row_def row_figures_def Let_def)

lemma finish_row_utilisation: "0 < s \<Longrightarrow> ir_speed r = Some s \<Longrightarrow> \<forall>u \<in> set_option (ir_utilisation (finish_row r)). 0 \<le> u"
  by (auto simp: finish_row_def Let_def js_round_nonneg elem_set)

subsection \<open>Properties\<close>

text \<open>
  One row per interface, whatever order the items come in: every index of the items has one row with a name, and each
  figure of it is the one of the last item of its kind for that index, missing unless that value was collected recently; the
  speed is positive and the utilisation not negative. The pages of a filtered view are the view cut in order, and the
  three counts add up to the rows the search finds.
\<close>

theorem interface_rows_exact:
  assumes "0 < pageSize"
  shows "distinct (map ir_index (groupInterfaces cmp items now)) \<and>
    (\<forall>i. i \<in> ir_index ` set (groupInterfaces cmp items now) \<longleftrightarrow> items_of items i \<noteq> []) \<and>
    list_all (\<lambda>r. ir_name r \<noteq> [] \<and> row_figures now (items_of items (ir_index r)) r \<and>
       (case ir_utilisation r of Some u \<Rightarrow> 0 \<le> u | None \<Rightarrow> True)) (groupInterfaces cmp items now) \<and>
    concat (map (\<lambda>p. ip_rows (getInterfacePage search wanted (Suc p) pageSize rows))
      [0..<Suc (ip_total (getInterfacePage search wanted 1 pageSize rows) div pageSize)]) = filtered_rows search wanted rows \<and>
    (case getInterfacePage search wanted page pageSize rows of p \<Rightarrow>
       length (ip_rows p) \<le> pageSize \<and> ip_up p + ip_down p + ip_other p = length (searched_rows search rows))"
proof -
  let ?valid = "filter (\<lambda>it. parseIfKey (ii_key it) \<noteq> None) items"
  define t where "t = group_into index_of_item (\<lambda>it. empty_row (index_of_item it)) (fold_if now) ?valid"
  have same: "filter (\<lambda>it. index_of_item it = i) ?valid = items_of items i" for i
    unfolding filter_filter items_of_def by (rule filter_cong) auto
  have row: "ir_index (finish_row r) = i \<and> row_figures now (items_of items i) (finish_row r) \<and> i \<in> index_of_item ` set ?valid"
    if e: "(i, r) \<in> set t" for i r
  proof -
    have i: "i \<in> index_of_item ` set ?valid"
      and r: "r = fold (fold_if now) (items_of items i) (empty_row (index_of_item (hd (items_of items i))))"
      using e unfolding t_def group_into_entry Let_def same by blast+
    have "items_of items i \<noteq> []" using i by (auto simp: items_of_def filter_empty_conv)
    then have "index_of_item (hd (items_of items i)) = i"
      using hd_in_set [of "items_of items i"] by (simp add: items_of_def)
    then show ?thesis using fold_if_figures [of now "items_of items i" i] i by (simp add: r finish_row_simps)
  qed
  have ids: "map ir_index (map (\<lambda>e. finish_row (snd e)) t) = map fst t" using row by (auto simp: map_eq_conv)
  have "distinct (map ir_index (map (\<lambda>e. finish_row (snd e)) t))"
    unfolding ids using wf_group_into by (auto simp: wf_table_def t_def)
  then have d: "distinct (map ir_index (groupInterfaces cmp items now))"
    unfolding groupInterfaces_def t_def [symmetric] distinct_map_js_sort .
  have "ir_index ` set (groupInterfaces cmp items now) = index_of_item ` set ?valid"
    using arg_cong [OF ids, of set] by (simp add: groupInterfaces_def image_image flip: t_def) (simp add: t_def group_into_keys)
  then have n: "i \<in> ir_index ` set (groupInterfaces cmp items now) \<longleftrightarrow> items_of items i \<noteq> []" for i
    by (auto simp: items_of_def filter_empty_conv)
  have rows: "ir_name r \<noteq> [] \<and> row_figures now (items_of items (ir_index r)) r \<and> (case ir_utilisation r of Some u \<Rightarrow> 0 \<le> u | None \<Rightarrow> True)"
    if m: "r \<in> set (groupInterfaces cmp items now)" for r
  proof -
    obtain i q where q: "(i, q) \<in> set t" "r = finish_row q" using m by (auto simp: groupInterfaces_def t_def)
    have "ir_speed q = None \<or> (\<exists>s > 0. ir_speed q = Some s)"
      using row [OF q(1)] by (auto simp: finish_row_speed row_figures_def split: option.splits if_splits)
    then have "\<forall>u \<in> set_option (ir_utilisation (finish_row q)). 0 \<le> u"
      using finish_row_utilisation [of _ q] finish_row_no_speed [of q] by (elim disjE exE conjE) simp_all
    then show ?thesis using row [OF q(1)] q(2) finish_row_simps(3) by (auto split: option.split)
  qed
  have sums: "length (filter (\<lambda>r. statusBucket (ir_operStatus r) = BUp) rs) + length (filter (\<lambda>r. statusBucket (ir_operStatus r) = BDown) rs)
      + length (filter (\<lambda>r. statusBucket (ir_operStatus r) = BOther) rs) = length rs" for rs
  proof (induction rs)
    case (Cons r rs)
    then show ?case by (cases "statusBucket (ir_operStatus r)") simp_all
  qed simp
  have "concat (map (\<lambda>p. ip_rows (getInterfacePage search wanted (Suc p) pageSize rows))
      [0..<Suc (ip_total (getInterfacePage search wanted 1 pageSize rows) div pageSize)]) = filtered_rows search wanted rows"
    using all_pages [OF assms, of "filtered_rows search wanted rows"] by (simp add: getInterfacePage_def Let_def)
  then show ?thesis using d n rows sums
    by (simp add: list_all_iff) (simp add: getInterfacePage_def Let_def length_page_of)
qed

theorem interface_rows_exact_witness:
  "ip_up (getInterfacePage None None 1 10 [empty_row 1]) + ip_down (getInterfacePage None None 1 10 [empty_row 1])
     + ip_other (getInterfacePage None None 1 10 [empty_row 1]) = 1"
  using interface_rows_exact [of 10 "\<lambda>_ _. 0" "[]" 0 None None "[empty_row 1]" 1] by (simp add: searched_rows_def)

end
