(* ===== verification/Charts.thy ===== *)
theory Charts
  imports Slices Regex
begin

text \<open>
  The graphs (\<open>server/src/services/history.ts\<close>, first half): reading one item's history by halving the
  window, and turning samples into at most so many chart points. Clocks are whole seconds, values exact
  rationals.
\<close>

subsection \<open>Intervals, medians\<close>

definition DAY :: int where "DAY = 86400"
definition HISTORY_PAGE :: nat where "HISTORY_PAGE = 100000"
definition MAX_RANGE :: int where "MAX_RANGE = 400 * DAY"
definition HISTORY_FILL_WINDOW :: int where "HISTORY_FILL_WINDOW = 7 * DAY"
definition MAX_GRAPH_ITEMS :: nat where "MAX_GRAPH_ITEMS = 4"

text \<open>The pattern \<open>^(\d+)([smhdw]?)$\<close>; the digits are read exactly, however many.\<close>

definition unit_seconds :: "string \<Rightarrow> int option" where
  "unit_seconds = map_of [([], 1), (''s'', 1), (''m'', 60), (''h'', 3600), (''d'', DAY), (''w'', 7 * DAY)]"

definition parseDelay :: "string option \<Rightarrow> int" where
  "parseDelay raw =
     (let first = trim (hd (split_on CHR '';'' (case raw of Some s \<Rightarrow> s | None \<Rightarrow> [])));
          ds = takeWhile is_digit first
      in case unit_seconds (dropWhile is_digit first) of
           Some factor \<Rightarrow> (if ds = [] then 60 else int (digits_val ds) * factor)
         | None \<Rightarrow> 60)"

definition STEP_KEY :: rx where
  "STEP_KEY = Seq Start (Alts [Seq (Lit ''icmpping'') Bound, Lit ''icmpping['', Lit ''net.if.status'', Lit ''web.test.fail''])"

definition median :: "int list \<Rightarrow> int" where
  "median values = (if values = [] then 0 else js_sort (\<lambda>a b. a - b) values ! (length values div 2))"

subsection \<open>\<open>fetchHistory\<close>\<close>

record history_row =
  hr_clock :: int
  hr_value :: string

text \<open>\<open>zbx\<close> is \<open>history.get\<close> for one item: the window and the page size.\<close>

function fetchHistory :: "(int \<Rightarrow> int \<Rightarrow> nat \<Rightarrow> api_error + 'r list) \<Rightarrow> int \<Rightarrow> int \<Rightarrow> api_error + 'r list" where
  "fetchHistory zbx from to =
     (case zbx from to HISTORY_PAGE of
        Inl e \<Rightarrow> Inl e
      | Inr rows \<Rightarrow>
         (if length rows < HISTORY_PAGE \<or> to - from < 2 then Inr rows
          else case fetchHistory zbx from ((from + to) div 2) of
              Inl e \<Rightarrow> Inl e
            | Inr a \<Rightarrow> (case fetchHistory zbx ((from + to) div 2 + 1) to of Inl e \<Rightarrow> Inl e | Inr b \<Rightarrow> Inr (a @ b))))"
  by pat_completeness auto

termination
  by (relation "measure (\<lambda>(zbx, from, to). nat (to - from))") auto

declare fetchHistory.simps [simp del]

subsection \<open>Samples\<close>

record sample =
  s_clock :: int
  s_num :: rat
  s_sum :: rat
  s_min :: rat
  s_max :: rat
  s_trend :: bool

definition historySample :: "history_row \<Rightarrow> sample option" where
  "historySample r =
     (case js_number (hr_value r) of
        Num v \<Rightarrow> Some \<lparr>s_clock = hr_clock r, s_num = 1, s_sum = v, s_min = v, s_max = v, s_trend = False\<rparr>
      | _ \<Rightarrow> None)"

record graph_point =
  gp_ms :: int
  gp_avg :: "rat option"
  gp_min :: "rat option"
  gp_max :: "rat option"

record shape_opts =
  so_from :: int
  so_to :: int
  so_points :: nat
  so_delay :: int
  so_withBand :: bool

text \<open>\<open>samples.slice(1).map((s, i) => s.clock - samples[i].clock)\<close>.\<close>

definition spacings :: "sample list \<Rightarrow> int list" where
  "spacings samples = map2 (\<lambda>s before. s_clock s - s_clock before) (tl samples) samples"

definition gap_step :: "rat \<Rightarrow> graph_point \<Rightarrow> graph_point list \<Rightarrow> graph_point list" where
  "gap_step expected p acc =
     acc @ (if acc \<noteq> [] \<and> of_int (gp_ms p - gp_ms (List.last acc)) > 3 * expected * 1000
            then [\<lparr>gp_ms = js_round (of_int (gp_ms (List.last acc) + gp_ms p) / 2), gp_avg = None, gp_min = None, gp_max = None\<rparr>]
            else []) @ [p]"

definition withGaps :: "graph_point list \<Rightarrow> rat \<Rightarrow> graph_point list" where
  "withGaps pts expected = fold (gap_step expected) pts []"

text \<open>A bucket. The first sample sets it, the others are added; adding the first one to this start is setting it.\<close>

record bucket_sum =
  b_num :: rat
  b_sum :: rat
  b_min :: rat
  b_max :: rat

definition new_bucket :: "sample \<Rightarrow> bucket_sum" where
  "new_bucket s = \<lparr>b_num = 0, b_sum = 0, b_min = s_min s, b_max = s_max s\<rparr>"

definition add_sample :: "sample \<Rightarrow> bucket_sum \<Rightarrow> bucket_sum" where
  "add_sample s b =
     \<lparr>b_num = b_num b + s_num s, b_sum = b_sum b + s_sum s, b_min = min (b_min b) (s_min s), b_max = max (b_max b) (s_max s)\<rparr>"

definition bucket_width :: "shape_opts \<Rightarrow> rat" where
  "bucket_width o1 = of_int (so_to o1 - so_from o1) / of_nat (so_points o1)"

definition bucket_index :: "shape_opts \<Rightarrow> sample \<Rightarrow> int" where
  "bucket_index o1 s = min (int (so_points o1) - 1) (max 0 \<lfloor>of_int (s_clock s - so_from o1) / bucket_width o1\<rfloor>)"

definition buckets_of :: "shape_opts \<Rightarrow> sample list \<Rightarrow> (int, bucket_sum) table" where
  "buckets_of o1 samples = group_into (bucket_index o1) new_bucket add_sample samples"

definition bucket_point :: "shape_opts \<Rightarrow> int \<times> bucket_sum \<Rightarrow> graph_point" where
  "bucket_point o1 e =
     \<lparr>gp_ms = js_round ((of_int (so_from o1) + (of_int (fst e) + 1 / 2) * bucket_width o1) * 1000),
      gp_avg = Some (b_sum (snd e) / b_num (snd e)), gp_min = Some (b_min (snd e)), gp_max = Some (b_max (snd e))\<rparr>"

definition raw_point :: "shape_opts \<Rightarrow> sample \<Rightarrow> graph_point" where
  "raw_point o1 s =
     \<lparr>gp_ms = s_clock s * 1000, gp_avg = Some (s_sum s / s_num s),
      gp_min = (if so_withBand o1 then Some (s_min s) else None), gp_max = (if so_withBand o1 then Some (s_max s) else None)\<rparr>"

definition base_expected :: "shape_opts \<Rightarrow> sample list \<Rightarrow> int" where
  "base_expected o1 samples =
     max (if so_delay o1 \<noteq> 0 then so_delay o1 else median (spacings samples)) (if list_ex s_trend samples then 3600 else 0)"

record shaped_series =
  sh_points :: "graph_point list"
  sh_downsampled :: bool

definition bucketed :: "shape_opts \<Rightarrow> sample list \<Rightarrow> graph_point list" where
  "bucketed o1 samples = map (bucket_point o1) (js_sort (\<lambda>a b. fst a - fst b) (buckets_of o1 samples))"

definition shapeSeries :: "sample list \<Rightarrow> shape_opts \<Rightarrow> shaped_series" where
  "shapeSeries samples o1 =
     (let expected = base_expected o1 samples;
          shaped = withGaps (map (raw_point o1) samples) (of_int expected)
      in if length samples \<le> so_points o1 \<and> length shaped \<le> so_points o1
         then \<lparr>sh_points = shaped, sh_downsampled = False\<rparr>
         else \<lparr>sh_points = withGaps (bucketed o1 samples) (max (of_int expected) (bucket_width o1)), sh_downsampled = True\<rparr>)"

subsection \<open>Figures of a series\<close>

record series_stats =
  st_min :: rat
  st_avg :: rat
  st_max :: rat
  st_last :: rat
  st_lastClock :: int

definition seriesStats :: "sample list \<Rightarrow> series_stats option" where
  "seriesStats samples =
     (case samples of
        [] \<Rightarrow> None
      | s0 # rest \<Rightarrow>
         (let b = fold add_sample samples (new_bucket s0); final = List.last samples
          in Some \<lparr>st_min = b_min b, st_avg = b_sum b / b_num b, st_max = b_max b,
               st_last = s_sum final / s_num final, st_lastClock = s_clock final\<rparr>))"

record series_coverage =
  sc_coveredSeconds :: int
  sc_firstClock :: "int option"
  sc_lastClock :: "int option"

definition or_value :: "int \<Rightarrow> int \<Rightarrow> int" where
  "or_value a b = (if a \<noteq> 0 then a else b)"

definition covered_step :: "int \<Rightarrow> int \<Rightarrow> int \<Rightarrow> sample \<times> sample option \<Rightarrow> int" where
  "covered_step to delay rawSpacing p =
     (let s = fst p; expected = (if s_trend s then 3600 else or_value delay (or_value rawSpacing 60));
          next = (case snd p of Some n \<Rightarrow> s_clock n | None \<Rightarrow> min to (s_clock s + expected))
      in max 0 (min (next - s_clock s) (3 * expected)))"

definition followers :: "sample list \<Rightarrow> (sample \<times> sample option) list" where
  "followers samples = zip samples (map Some (tl samples) @ [None])"

definition seriesCoverage :: "sample list \<Rightarrow> int \<Rightarrow> int \<Rightarrow> int \<Rightarrow> series_coverage" where
  "seriesCoverage samples from to delay =
     (if samples = [] then \<lparr>sc_coveredSeconds = 0, sc_firstClock = None, sc_lastClock = None\<rparr>
      else
        (let covered = sum_list (map (covered_step to delay (median (spacings samples))) (followers samples))
         in \<lparr>sc_coveredSeconds = min covered (to - from), sc_firstClock = Some (s_clock (hd samples)),
             sc_lastClock = Some (s_clock (List.last samples))\<rparr>))"

subsection \<open>Lemmas\<close>

lemma fetchHistory_store:
  assumes "sorted (map clock stored)"
    and "\<And>lo hi. lo0 \<le> lo \<Longrightarrow> lo \<le> hi \<Longrightarrow> hi \<le> hi0 \<Longrightarrow> hi - lo < 2 \<Longrightarrow> length (events_in clock stored lo hi) < HISTORY_PAGE"
  shows "lo0 \<le> from \<Longrightarrow> to \<le> hi0 \<Longrightarrow> fetchHistory (event_store clock stored) from to = Inr (events_in clock stored from to)"
proof (induction "nat (to - from)" arbitrary: "from" to rule: less_induct)
  case less
  show ?case
  proof (cases "length (events_in clock stored from to) < HISTORY_PAGE \<or> to - from < 2")
    case True
    have "length (events_in clock stored from to) < HISTORY_PAGE"
    proof (cases "to < from")
      case True
      then show ?thesis by (auto simp: events_in_def filter_empty_conv HISTORY_PAGE_def intro: order_le_less_trans [OF eq_refl])
    next
      case False
      then show ?thesis using True assms(2) [of "from" to] less.prems by auto
    qed
    then show ?thesis by (subst fetchHistory.simps) (simp add: event_store_def)
  next
    case False
    define mid where "mid = (from + to) div 2"
    have mid: "from \<le> mid" "mid < to" using False by (auto simp: mid_def)
    have "fetchHistory (event_store clock stored) from mid = Inr (events_in clock stored from mid)"
      "fetchHistory (event_store clock stored) (mid + 1) to = Inr (events_in clock stored (mid + 1) to)"
      using less mid by auto
    then show ?thesis using False events_in_split [OF assms(1), of "from" mid to] mid
      by (subst fetchHistory.simps) (simp add: event_store_def flip: mid_def)
  qed
qed

lemma withGaps_snoc: "withGaps (ps @ [p]) e = gap_step e p (withGaps ps e)"
  by (simp add: withGaps_def)

lemma withGaps_Nil [simp]: "withGaps [] e = []"
  by (simp add: withGaps_def)

lemma last_withGaps: "ps \<noteq> [] \<Longrightarrow> withGaps ps e \<noteq> [] \<and> List.last (withGaps ps e) = List.last ps"
  by (cases ps rule: rev_cases) (simp_all add: withGaps_snoc gap_step_def)

lemma withGaps_keeps: "\<forall>p \<in> set ps. gp_avg p \<noteq> None \<Longrightarrow> filter (\<lambda>p. gp_avg p \<noteq> None) (withGaps ps e) = ps"
  by (induction ps rule: rev_induct) (auto simp: withGaps_snoc gap_step_def)

lemma js_round_between: "a \<le> b \<Longrightarrow> a \<le> js_round (of_int (a + b) / 2) \<and> js_round (of_int (a + b) / 2) \<le> b"
  unfolding js_round_def le_floor_iff floor_le_iff by (simp add: field_simps)

lemma sorted_add: "sorted (map f xs) \<Longrightarrow> xs \<noteq> [] \<Longrightarrow> f (List.last xs) \<le> f y \<Longrightarrow> sorted (map f (xs @ [y]))"
  for f :: "'a \<Rightarrow> int"
  by (cases xs rule: rev_cases) (auto simp: sorted_append intro: order_trans)

lemma sorted_withGaps: "sorted (map gp_ms ps) \<Longrightarrow> sorted (map gp_ms (withGaps ps e))"
proof (induction ps rule: rev_induct)
  case (snoc p ps)
  show ?case
  proof (cases "ps = []")
    case False
    let ?out = "withGaps ps e"
    have l: "?out \<noteq> []" "List.last ?out = List.last ps" using last_withGaps [OF False] by auto
    have s: "sorted (map gp_ms ?out)" using snoc by (simp add: sorted_append)
    have le: "gp_ms (List.last ps) \<le> gp_ms p" using snoc.prems False by (simp add: sorted_append)
    note mid = js_round_between [OF le]
    define q where "q = \<lparr>gp_ms = js_round (of_int (gp_ms (List.last ps) + gp_ms p) / 2), gp_avg = None, gp_min = None, gp_max = None\<rparr>"
    have "sorted (map gp_ms (?out @ [q]))" using sorted_add [OF s l(1), of q] mid l(2) by (simp add: q_def)
    from sorted_add [OF this, of p] have "sorted (map gp_ms ((?out @ [q]) @ [p]))" using mid by (simp add: q_def)
    moreover have "sorted (map gp_ms (?out @ [p]))" using sorted_add [OF s l(1), of p] le l(2) by simp
    moreover have "withGaps (ps @ [p]) e = ?out @ [p] \<or> withGaps (ps @ [p]) e = (?out @ [q]) @ [p]"
      by (simp add: withGaps_snoc gap_step_def l q_def)
    ultimately show ?thesis by metis
  qed (simp add: withGaps_def gap_step_def)
qed simp

text \<open>A null is only put where buckets are missing, so nulls and buckets together fit the buckets there are.\<close>

lemma next_bucket_near:
  assumes "fst y = fst x + 1"
  shows "of_int (gp_ms (bucket_point o1 y) - gp_ms (bucket_point o1 x)) \<le> 1000 * bucket_width o1 + 1"
proof -
  define u where "u = (of_int (so_from o1) + (of_int (fst x) + 1 / 2) * bucket_width o1) * 1000 + 1 / 2"
  have "of_int \<lfloor>u + 1000 * bucket_width o1\<rfloor> \<le> u + 1000 * bucket_width o1" "u < of_int \<lfloor>u\<rfloor> + 1" by linarith+
  moreover have "gp_ms (bucket_point o1 x) = \<lfloor>u\<rfloor>" "gp_ms (bucket_point o1 y) = \<lfloor>u + 1000 * bucket_width o1\<rfloor>"
    using assms by (simp_all add: bucket_point_def js_round_def u_def algebra_simps)
  ultimately show ?thesis unfolding of_int_diff by linarith
qed

lemma length_bucket_gaps:
  assumes "1 / 2000 \<le> bucket_width o1" "bucket_width o1 \<le> e"
  shows "sorted_wrt (\<lambda>a b. fst a < fst b) es \<Longrightarrow> \<forall>x \<in> set es. 0 \<le> fst x \<Longrightarrow> es \<noteq> [] \<Longrightarrow>
    int (length (withGaps (map (bucket_point o1) es) e)) \<le> fst (List.last es) + 1"
proof (induction es rule: rev_induct)
  case (snoc x es)
  show ?case
  proof (cases "es = []")
    case True
    then show ?thesis using snoc.prems by (simp add: withGaps_snoc [of "[]", simplified] gap_step_def)
  next
    case False
    have ih: "int (length (withGaps (map (bucket_point o1) es) e)) \<le> fst (List.last es) + 1"
      using snoc False by (auto simp: sorted_wrt_append)
    have less: "fst (List.last es) < fst x" using snoc.prems(1) False by (simp add: sorted_wrt_append)
    have l: "List.last (withGaps (map (bucket_point o1) es) e) = bucket_point o1 (List.last es)"
      using last_withGaps [of "map (bucket_point o1) es" e] False by (simp add: last_map)
    have "fst x \<noteq> fst (List.last es) + 1"
      if "of_int (gp_ms (bucket_point o1 x) - gp_ms (bucket_point o1 (List.last es))) > 3 * e * 1000"
      using next_bucket_near [of x "List.last es" o1] assms that by auto
    then show ?thesis using ih less False by (auto simp: withGaps_snoc gap_step_def l)
  qed
qed simp

text \<open>The sums of a bucket, and of a whole series.\<close>

definition ok_sample :: "sample \<Rightarrow> bool" where
  "ok_sample s \<longleftrightarrow> 0 < s_num s \<and> s_min s * s_num s \<le> s_sum s \<and> s_sum s \<le> s_max s * s_num s"

definition mean :: "sample list \<Rightarrow> rat" where
  "mean ss = sum_list (map s_sum ss) / sum_list (map s_num ss)"

definition lowest :: "sample list \<Rightarrow> rat" where "lowest ss = Min (s_min ` set ss)"
definition highest :: "sample list \<Rightarrow> rat" where "highest ss = Max (s_max ` set ss)"

lemma fold_add_sample:
  "b_num (fold add_sample ss b) = b_num b + sum_list (map s_num ss) \<and> b_sum (fold add_sample ss b) = b_sum b + sum_list (map s_sum ss) \<and>
   b_min (fold add_sample ss b) = Min (insert (b_min b) (s_min ` set ss)) \<and> b_max (fold add_sample ss b) = Max (insert (b_max b) (s_max ` set ss))"
proof (induction ss rule: rev_induct)
  case (snoc s ss)
  have "Min (insert (b_min b) (s_min ` set (ss @ [s]))) = min (Min (insert (b_min b) (s_min ` set ss))) (s_min s)"
    "Max (insert (b_max b) (s_max ` set (ss @ [s]))) = max (Max (insert (b_max b) (s_max ` set ss))) (s_max s)"
    by (simp_all add: insert_commute [of "b_min b"] insert_commute [of "b_max b"] min.commute max.commute)
  then show ?case using snoc by (simp add: add_sample_def)
qed simp

lemma fold_new_bucket:
  assumes "ss \<noteq> []"
  shows "fold add_sample ss (new_bucket (hd ss)) =
    \<lparr>b_num = sum_list (map s_num ss), b_sum = sum_list (map s_sum ss), b_min = lowest ss, b_max = highest ss\<rparr>"
proof -
  have "insert (s_min (hd ss)) (s_min ` set ss) = s_min ` set ss" "insert (s_max (hd ss)) (s_max ` set ss) = s_max ` set ss"
    using assms by (auto intro!: imageI)
  then show ?thesis using fold_add_sample [of ss "new_bucket (hd ss)"]
    by (intro bucket_sum.equality) (simp_all add: new_bucket_def lowest_def highest_def)
qed

lemma lowest_le: "s \<in> set ss \<Longrightarrow> lowest ss \<le> s_min s" and highest_ge: "s \<in> set ss \<Longrightarrow> s_max s \<le> highest ss"
  by (simp_all add: lowest_def highest_def)

lemma lowest_mono: "set ss \<subseteq> set ts \<Longrightarrow> ss \<noteq> [] \<Longrightarrow> lowest ts \<le> lowest ss \<and> highest ss \<le> highest ts"
  unfolding lowest_def highest_def by (auto intro!: Min_antimono Max_mono)

lemma mean_between:
  assumes ok: "\<forall>s \<in> set ss. ok_sample s" and ne: "ss \<noteq> []"
  shows "lowest ss \<le> mean ss \<and> mean ss \<le> highest ss"
proof -
  have "lowest ss * s_num s \<le> s_sum s \<and> s_sum s \<le> highest ss * s_num s" if s: "s \<in> set ss" for s
  proof -
    have "lowest ss * s_num s \<le> s_min s * s_num s" "s_max s * s_num s \<le> highest ss * s_num s"
      using ok s lowest_le [OF s] highest_ge [OF s] by (auto simp: ok_sample_def intro: mult_right_mono)
    moreover have "s_min s * s_num s \<le> s_sum s" "s_sum s \<le> s_max s * s_num s" using ok s by (auto simp: ok_sample_def)
    ultimately show ?thesis by linarith
  qed
  then have "sum_list (map (\<lambda>s. lowest ss * s_num s) ss) \<le> sum_list (map s_sum ss)"
    "sum_list (map s_sum ss) \<le> sum_list (map (\<lambda>s. highest ss * s_num s) ss)"
    by (auto intro!: sum_list_mono)
  moreover have "0 < sum_list (map s_num ss)" using ok ne
  proof (induction ss)
    case (Cons s ss)
    then show ?case by (cases "ss = []") (auto simp: ok_sample_def add_pos_pos)
  qed simp
  ultimately show ?thesis by (simp add: mean_def sum_list_const_mult pos_le_divide_eq pos_divide_le_eq)
qed

lemma seriesStats_eq:
  "ss \<noteq> [] \<Longrightarrow> seriesStats ss = Some \<lparr>st_min = lowest ss, st_avg = mean ss, st_max = highest ss,
     st_last = s_sum (List.last ss) / s_num (List.last ss), st_lastClock = s_clock (List.last ss)\<rparr>"
  using fold_new_bucket [of ss] by (cases ss) (simp_all add: seriesStats_def Let_def mean_def)

text \<open>A bucketed series, by what it stands for.\<close>

definition in_bucket :: "shape_opts \<Rightarrow> sample list \<Rightarrow> int \<Rightarrow> sample list" where
  "in_bucket o1 samples i = filter (\<lambda>s. bucket_index o1 s = i) samples"

definition mean_point :: "shape_opts \<Rightarrow> sample list \<Rightarrow> int \<Rightarrow> graph_point" where
  "mean_point o1 samples i =
     (let ss = in_bucket o1 samples i
      in \<lparr>gp_ms = js_round ((of_int (so_from o1) + (of_int i + 1 / 2) * bucket_width o1) * 1000),
          gp_avg = Some (mean ss), gp_min = Some (lowest ss), gp_max = Some (highest ss)\<rparr>)"

definition bucket_indices :: "shape_opts \<Rightarrow> sample list \<Rightarrow> int list" where
  "bucket_indices o1 samples = sorted_list_of_set (bucket_index o1 ` set samples)"

lemma bucket_entries:
  assumes "es = js_sort (\<lambda>a b. fst a - fst b) (buckets_of o1 samples)"
  shows "sorted_wrt (\<lambda>a b. fst a < fst b) es" "map fst es = bucket_indices o1 samples"
    "map (bucket_point o1) es = map (mean_point o1 samples) (bucket_indices o1 samples)"
proof -
  have "consistent (\<lambda>a b :: int \<times> bucket_sum. fst a - fst b)" by (auto simp: consistent_def)
  then have s: "sorted (map fst es)" using sorted_js_sort [of "\<lambda>a b. fst a - fst b" "buckets_of o1 samples"]
    by (simp add: assms sorted_wrt_map)
  have d: "distinct (map fst es)" using wf_group_into by (simp add: assms wf_table_def buckets_of_def)
  then have "sorted_wrt (<) (map fst es)" using s strict_sorted_iff by blast
  then show "sorted_wrt (\<lambda>a b. fst a < fst b) es" by (simp add: sorted_wrt_map)
  have "fst ` set es = bucket_index o1 ` set samples" by (simp add: assms buckets_of_def group_into_keys)
  then show ids: "map fst es = bucket_indices o1 samples"
    using s d by (metis bucket_indices_def sorted_list_of_set.idem_if_sorted_distinct list.set_map)
  have "bucket_point o1 e = mean_point o1 samples (fst e)" if "e \<in> set es" for e
  proof -
    have e: "(fst e, snd e) \<in> set (buckets_of o1 samples)" using that by (simp add: assms)
    note e = e [unfolded buckets_of_def group_into_entry Let_def]
    have ne: "in_bucket o1 samples (fst e) \<noteq> []" using e by (auto simp: in_bucket_def filter_empty_conv)
    have "snd e = fold add_sample (in_bucket o1 samples (fst e)) (new_bucket (hd (in_bucket o1 samples (fst e))))"
      using e by (simp add: in_bucket_def)
    then show ?thesis using fold_new_bucket [OF ne] by (simp add: bucket_point_def mean_point_def Let_def mean_def)
  qed
  then have "map (bucket_point o1) es = map (mean_point o1 samples) (map fst es)" by simp
  then show "map (bucket_point o1) es = map (mean_point o1 samples) (bucket_indices o1 samples)" unfolding ids .
qed

lemma bucket_index_range: "0 < so_points o1 \<Longrightarrow> 0 \<le> bucket_index o1 s \<and> bucket_index o1 s < int (so_points o1)"
  by (auto simp: bucket_index_def)

lemma sorted_bucket_points:
  assumes "so_from o1 < so_to o1" "0 < so_points o1"
  shows "sorted (map gp_ms (map (mean_point o1 samples) (bucket_indices o1 samples)))"
proof -
  have "0 \<le> bucket_width o1" using assms by (simp add: bucket_width_def)
  then have mono: "gp_ms (mean_point o1 samples i) \<le> gp_ms (mean_point o1 samples j)" if "i \<le> j" for i j
    using that by (auto simp: mean_point_def Let_def js_round_def intro!: floor_mono mult_right_mono add_mono)
  have "sorted (bucket_indices o1 samples)" by (simp add: bucket_indices_def)
  then show ?thesis unfolding sorted_map by (simp add: sorted_wrt_map mono sorted_wrt_mono_rel [where P = "(\<le>)"])
qed

lemma covered_bounds: "0 \<le> covered_step to delay raw p"
  by (simp add: covered_step_def Let_def)

subsection \<open>Properties\<close>


text \<open>Three samples folded into two buckets.\<close>

definition three_samples :: "sample list" where
  "three_samples = map (\<lambda>(t, v). \<lparr>s_clock = t, s_num = 1, s_sum = v, s_min = v, s_max = v, s_trend = False\<rparr>) [(0, 1), (60, 5), (120, 3)]"

definition two_points :: shape_opts where
  "two_points = \<lparr>so_from = 0, so_to = 180, so_points = 2, so_delay = 60, so_withBand = False\<rparr>"


end
