(* ===== verification/Graphs.thy ===== *)
theory Graphs
  imports Charts Calendar
begin

text \<open>
  The graph request (\<open>server/src/services/history.ts\<close>, second half): the items and the window asked for, and
  \<open>getGraph\<close>, which reads history or hourly trends topped up from history. The methods \<open>item.get\<close> and
  \<open>history.get\<close> and the sliced trend read (\<open>fetchTrendsSliced\<close>) are parameters.
\<close>

subsection \<open>The request\<close>

definition parseItemIds :: "string option \<Rightarrow> api_error + string list" where
  "parseItemIds raw =
     (let ids = filter (\<lambda>s. s \<noteq> []) (map trim (split_on CHR '','' (case raw of Some s \<Rightarrow> s | None \<Rightarrow> []))) in
      if ids = [] then Inl (BadRequestError ''itemids is required (comma-separated Zabbix item ids).'')
      else if length ids > MAX_GRAPH_ITEMS then
        Inl (BadRequestError (''At most '' @ show_nat MAX_GRAPH_ITEMS @ '' items can be graphed together.''))
      else and_then (all_or_error (map (\<lambda>i. requireId (JStr i) ''itemids'') ids)) (\<lambda>is. Inr (js_set is)))"

record range_query =
  rq_month :: "string option"
  rq_from :: "string option"
  rq_to :: "string option"
  rq_hours :: "string option"

definition given :: "string option \<Rightarrow> bool" where
  "given s \<longleftrightarrow> s \<noteq> None \<and> s \<noteq> Some []"

text \<open>\<open>Number(s)\<close> as a whole number above zero.\<close>

definition positive_integer :: "string option \<Rightarrow> int option" where
  "positive_integer s =
     (case s of
        None \<Rightarrow> None
      | Some w \<Rightarrow> (case js_number w of Num q \<Rightarrow> (if q = of_int \<lfloor>q\<rfloor> \<and> \<lfloor>q\<rfloor> > 0 then Some \<lfloor>q\<rfloor> else None) | _ \<Rightarrow> None))"

definition minute_floor :: "int \<Rightarrow> int" where "minute_floor t = (t div 60) * 60"
definition minute_ceil :: "int \<Rightarrow> int" where "minute_ceil t = ceil_div t 60 * 60"

definition parseRange :: "(int \<Rightarrow> int) \<Rightarrow> range_query \<Rightarrow> int \<Rightarrow> api_error + int \<times> int" where
  "parseRange zone q now =
     (if given (rq_month q) then
        and_then (parseMonth (JStr (the (rq_month q)))) (\<lambda>mon.
        and_then (monthBounds zone mon) (\<lambda>(f, t).
          if f \<ge> now then Inl (BadRequestError ''month is in the future.'')
          else Inr (f, min t (minute_ceil now))))
      else if given (rq_from q) \<or> given (rq_to q) then
        (case (positive_integer (rq_from q), positive_integer (rq_to q)) of
           (Some f, Some t) \<Rightarrow>
             (if f \<ge> t then Inl (BadRequestError ''from must be before to.'')
              else if t - f > MAX_RANGE then Inl (BadRequestError ''The range may not exceed 400 days.'')
              else Inr (minute_floor f, minute_ceil t))
         | _ \<Rightarrow> Inl (BadRequestError ''from and to must both be Unix timestamps in seconds.''))
      else
        (let hours = intParam (case rq_hours q of Some h \<Rightarrow> JStr h | None \<Rightarrow> JUndef) 24 1 8760; t = minute_ceil now
         in Inr (t - hours * 3600, t)))"

subsection \<open>The samples of one item\<close>

record graph_item =
  gi_itemid :: string
  gi_name :: string
  gi_key :: string
  gi_units :: "string option"
  gi_value_type :: string
  gi_delay :: "string option"
  gi_hosts :: "(string \<times> string) list option"

record trend_values =
  tv_itemid :: string
  tv_clock :: int
  tv_num :: string
  tv_min :: string
  tv_avg :: string
  tv_max :: string

record graph_source =
  items_by_id :: "string list \<Rightarrow> api_error + graph_item list"
  history_of :: "string \<Rightarrow> string \<Rightarrow> int \<Rightarrow> int \<Rightarrow> nat \<Rightarrow> api_error + history_row list"
  trends_of :: "string list \<Rightarrow> int \<Rightarrow> int \<Rightarrow> api_error + trend_values list"

text \<open>\<open>Number(r.num) || 1\<close>.\<close>

definition row_count :: "string \<Rightarrow> jsnum" where
  "row_count s = (case js_number s of Num q \<Rightarrow> (if q = 0 then Num 1 else Num q) | NaN \<Rightarrow> Num 1 | x \<Rightarrow> x)"

text \<open>A row with a figure that is no finite number is dropped.\<close>

definition trend_sample :: "trend_values \<Rightarrow> sample option" where
  "trend_sample r =
     (case (row_count (tv_num r), js_number (tv_avg r), js_number (tv_min r), js_number (tv_max r)) of
        (Num n, Num avg, Num lo, Num hi) \<Rightarrow>
          Some \<lparr>s_clock = tv_clock r, s_num = n, s_sum = avg * n, s_min = lo, s_max = hi, s_trend = True\<rparr>
      | _ \<Rightarrow> None)"

definition trend_samples :: "trend_values list \<Rightarrow> string \<Rightarrow> sample list" where
  "trend_samples rows itemid =
     js_sort (\<lambda>a b. s_clock a - s_clock b) (List.map_filter trend_sample (filter (\<lambda>r. tv_itemid r = itemid) rows))"

definition history_samples :: "graph_source \<Rightarrow> graph_item \<Rightarrow> int \<Rightarrow> int \<Rightarrow> api_error + sample list" where
  "history_samples src i from to =
     and_then (fetchHistory (history_of src (gi_itemid i) (gi_value_type i)) from to) (\<lambda>rows.
       Inr (List.map_filter historySample rows))"

text \<open>Where the history that stands in for missing trends begins.\<close>

definition fill_from :: "sample list \<Rightarrow> int \<Rightarrow> int \<Rightarrow> int" where
  "fill_from samples from now =
     max (max from (if samples = [] then from else s_clock (List.last samples) + 3600)) (now - HISTORY_FILL_WINDOW)"

text \<open>The samples, and whether history filled in.\<close>

definition item_samples :: "graph_source \<Rightarrow> trend_values list \<Rightarrow> int \<Rightarrow> int \<Rightarrow> int \<Rightarrow> graph_item \<Rightarrow> api_error + sample list \<times> bool" where
  "item_samples src trendRows from to now i =
     (if to - from \<le> DAY then and_then (history_samples src i from (to - 1)) (\<lambda>ss. Inr (ss, False))
      else
        (let samples = trend_samples trendRows (gi_itemid i); start = fill_from samples from now in
         if start < to then and_then (history_samples src i start (to - 1)) (\<lambda>fill. Inr (samples @ fill, fill \<noteq> []))
         else Inr (samples, False)))"

subsection \<open>\<open>getGraph\<close>\<close>

record graph_series =
  gs_itemid :: string
  gs_name :: string
  gs_host :: string
  gs_units :: string
  gs_value_type :: string
  gs_delaySeconds :: int
  gs_step :: bool
  gs_points :: "graph_point list"
  gs_stats :: "series_stats option"
  gs_coverage :: series_coverage
  gs_downsampled :: bool

definition effective_delay :: "graph_item \<Rightarrow> sample list \<Rightarrow> int" where
  "effective_delay i samples =
     (let raw = filter (\<lambda>s. \<not> s_trend s) samples in or_value (parseDelay (gi_delay i)) (median (spacings raw)))"

definition is_step :: "graph_item \<Rightarrow> sample list \<Rightarrow> bool" where
  "is_step i samples \<longleftrightarrow>
     rx_test STEP_KEY (gi_key i) \<or>
     (gi_value_type i = ''3'' \<and> samples \<noteq> [] \<and> list_all (\<lambda>v. v = 0 \<or> v = 1) (concat (map (\<lambda>s. [s_min s, s_max s]) samples)))"

definition opts_of :: "int \<Rightarrow> int \<Rightarrow> nat \<Rightarrow> graph_item \<Rightarrow> sample list \<Rightarrow> shape_opts" where
  "opts_of from to points i samples =
     \<lparr>so_from = from, so_to = to, so_points = points, so_delay = effective_delay i samples, so_withBand = (to - from > DAY)\<rparr>"

definition series_of :: "int \<Rightarrow> int \<Rightarrow> nat \<Rightarrow> graph_item \<Rightarrow> sample list \<Rightarrow> graph_series" where
  "series_of from to points i samples =
     (let delay = effective_delay i samples; shaped = shapeSeries samples (opts_of from to points i samples) in
      \<lparr>gs_itemid = gi_itemid i, gs_name = gi_name i,
       gs_host = (case gi_hosts i of Some ((_, n) # _) \<Rightarrow> n | _ \<Rightarrow> []),
       gs_units = (case gi_units i of Some u \<Rightarrow> u | None \<Rightarrow> []), gs_value_type = gi_value_type i,
       gs_delaySeconds = or_value delay (if to - from > DAY then 3600 else 60), gs_step = is_step i samples,
       gs_points = sh_points shaped, gs_stats = seriesStats samples, gs_coverage = seriesCoverage samples from to delay,
       gs_downsampled = sh_downsampled shaped\<rparr>)"

record graph =
  gr_from :: int
  gr_to :: int
  gr_source :: string
  gr_series :: "graph_series list"
  gr_latestClock :: "int option"
  gr_downsampled :: bool

definition latest_clock :: "graph_series list \<Rightarrow> int option" where
  "latest_clock series =
     (let clocks = List.map_filter (\<lambda>s. map_option st_lastClock (gs_stats s)) series
      in if clocks = [] then None else Some (Max (set clocks)))"

text \<open>The items in the order asked for, or the refusal.\<close>

definition graph_items :: "graph_item list \<Rightarrow> string list \<Rightarrow> api_error + graph_item list" where
  "graph_items items ids =
     (let byId = fold (\<lambda>i. table_set (gi_itemid i) i) items []; missing = filter (\<lambda>i. table_get byId i = None) ids in
      if missing \<noteq> [] then Inl (BadRequestError (''Unknown itemids: '' @ join '', '' missing @ ''.''))
      else
        (let ordered = map (\<lambda>i. the (table_get byId i)) ids;
             nonNumeric = filter (\<lambda>i. gi_value_type i \<noteq> ''0'' \<and> gi_value_type i \<noteq> ''3'') ordered in
         if nonNumeric \<noteq> [] then
           Inl (BadRequestError (''Only numeric items can be graphed; not: '' @ join '', '' (map gi_name nonNumeric) @ ''.''))
         else Inr ordered))"

definition getGraph :: "graph_source \<Rightarrow> string list \<Rightarrow> int \<Rightarrow> int \<Rightarrow> nat \<Rightarrow> int \<Rightarrow> api_error + graph" where
  "getGraph src ids from to points now =
     and_then (items_by_id src ids) (\<lambda>items.
     and_then (graph_items items ids) (\<lambda>ordered.
     and_then (if to - from > DAY then trends_of src ids from (to - 1) else Inr []) (\<lambda>trendRows.
     and_then (all_or_error (map (item_samples src trendRows from to now) ordered)) (\<lambda>read.
       let series = map2 (\<lambda>i r. series_of from to points i (fst r)) ordered read in
       Inr \<lparr>gr_from = from, gr_to = to,
         gr_source = (if to - from \<le> DAY then ''history'' else if list_ex snd read then ''trend+history'' else ''trend''),
         gr_series = series, gr_latestClock = latest_clock series, gr_downsampled = list_ex gs_downsampled series\<rparr>))))"

subsection \<open>What Zabbix stores\<close>

record graph_store =
  db_items :: "graph_item list"
  db_history :: "string \<Rightarrow> history_row list"
  db_trends :: "trend_values list"

definition store_source :: "graph_store \<Rightarrow> graph_source" where
  "store_source db =
     \<lparr>items_by_id = (\<lambda>ids. Inr (filter (\<lambda>i. gi_itemid i \<in> set ids) (db_items db))),
      history_of = (\<lambda>i _. event_store hr_clock (db_history db i)),
      trends_of = trend_store tv_itemid tv_clock (db_trends db)\<rparr>"

text \<open>
  Histories come in clock order, and no two seconds hold a full page (a hundred thousand values) of one item: such a
  span cannot be halved and is cut.
\<close>

definition readable :: "graph_store \<Rightarrow> bool" where
  "readable db \<longleftrightarrow> (\<forall>i. sorted (map hr_clock (db_history db i)) \<and>
     (\<forall>lo. length (events_in hr_clock (db_history db i) lo (lo + 1)) < HISTORY_PAGE))"

definition measured :: "graph_store \<Rightarrow> int \<Rightarrow> int \<Rightarrow> graph_item \<Rightarrow> sample list" where
  "measured db a b i = List.map_filter historySample (filter (\<lambda>r. a \<le> hr_clock r \<and> hr_clock r < b) (db_history db (gi_itemid i)))"

definition hourly :: "graph_store \<Rightarrow> int \<Rightarrow> int \<Rightarrow> graph_item \<Rightarrow> sample list" where
  "hourly db a b i = trend_samples (filter (\<lambda>r. a \<le> tv_clock r \<and> tv_clock r < b) (db_trends db)) (gi_itemid i)"

definition stored_samples :: "graph_store \<Rightarrow> int \<Rightarrow> int \<Rightarrow> int \<Rightarrow> graph_item \<Rightarrow> sample list" where
  "stored_samples db from to now i =
     (if to - from \<le> DAY then measured db from to i
      else hourly db from to i @ measured db (fill_from (hourly db from to i) from now) to i)"

lemma short_spans:
  assumes "readable db" "hi - lo < 2"
  shows "length (events_in hr_clock (db_history db i) lo hi) < HISTORY_PAGE"
proof -
  have "length (events_in hr_clock (db_history db i) lo hi) \<le> length (events_in hr_clock (db_history db i) lo (lo + 1))"
  proof (induction "db_history db i")
    case Nil
    then show ?case by (simp add: events_in_def flip: Nil)
  next
    case (Cons r rs)
    have "length (filter (\<lambda>e. lo \<le> hr_clock e \<and> hr_clock e \<le> hi) xs) \<le> length (filter (\<lambda>e. lo \<le> hr_clock e \<and> hr_clock e \<le> lo + 1) xs)" for xs
      using assms(2) by (induction xs) auto
    then show ?case by (simp add: events_in_def)
  qed
  then show ?thesis using assms(1) unfolding readable_def by (meson order_le_less_trans)
qed

lemma history_samples_store:
  assumes "readable db"
  shows "history_samples (store_source db) i a (b - 1) = Inr (measured db a b i)"
proof -
  have "fetchHistory (event_store hr_clock (db_history db (gi_itemid i))) a (b - 1) =
      Inr (events_in hr_clock (db_history db (gi_itemid i)) a (b - 1))"
    using assms short_spans [OF assms] by (intro fetchHistory_store [of _ _ a "b - 1"]) (auto simp: readable_def)
  then show ?thesis by (simp add: history_samples_def store_source_def measured_def events_in_def zle_diff1_eq)
qed

lemma trend_samples_store:
  assumes "gi_itemid i \<in> set ids" "trends_of (store_source db) ids from (to - 1) = Inr rows"
  shows "trend_samples rows (gi_itemid i) = hourly db from to i"
proof -
  have "filter (\<lambda>r. tv_itemid r = gi_itemid i) rows =
      filter (\<lambda>r. tv_itemid r = gi_itemid i) (filter (\<lambda>r. from \<le> tv_clock r \<and> tv_clock r < to) (db_trends db))"
  proof -
    have rows: "rows = filter (\<lambda>r. tv_itemid r \<in> set ids \<and> from \<le> tv_clock r \<and> tv_clock r \<le> to - 1) (db_trends db)"
      using assms(2) by (simp add: store_source_def trend_store_def)
    show ?thesis unfolding rows filter_filter by (rule filter_cong) (use assms(1) in auto)
  qed
  then show ?thesis by (simp add: trend_samples_def hourly_def)
qed

lemma item_samples_store:
  assumes "readable db" "gi_itemid i \<in> set ids" "to - from > DAY \<Longrightarrow> trends_of (store_source db) ids from (to - 1) = Inr rows"
  shows "\<exists>b. item_samples (store_source db) rows from to now i = Inr (stored_samples db from to now i, b)"
proof (cases "to - from > DAY")
  case True
  then show ?thesis using trend_samples_store [OF assms(2) assms(3)] history_samples_store [OF assms(1)]
    by (auto simp: item_samples_def stored_samples_def Let_def measured_def filter_empty_conv map_filter_simps
      intro: list.exhaust [of "db_history db (gi_itemid i)"])
next
  case False
  then show ?thesis using history_samples_store [OF assms(1)] by (auto simp: item_samples_def stored_samples_def)
qed

text \<open>The reads keep the order of time, and history starts where the trends end.\<close>

lemma historySample_clock: "historySample r = Some s \<Longrightarrow> s_clock s = hr_clock r \<and> \<not> s_trend s"
  by (auto simp: historySample_def split: jsnum.splits)

lemma clocks_of_history: "sorted (map hr_clock rs) \<Longrightarrow> sorted (map s_clock (List.map_filter historySample rs))"
proof (induction rs)
  case (Cons r rs)
  have "s_clock s \<ge> hr_clock r" if "s \<in> set (List.map_filter historySample rs)" for s
    using that Cons.prems historySample_clock by (auto simp: set_map_filter)
  then show ?case using Cons historySample_clock [of r] by (auto simp: map_filter_simps split: option.split)
qed (simp add: map_filter_simps)

lemma measured_clocks: "s \<in> set (measured db a b i) \<Longrightarrow> a \<le> s_clock s \<and> s_clock s < b \<and> \<not> s_trend s"
  using historySample_clock by (fastforce simp: measured_def set_map_filter)

lemma trend_sample_clock: "trend_sample r = Some s \<Longrightarrow> s_clock s = tv_clock r \<and> s_trend s"
  by (auto simp: trend_sample_def split: jsnum.splits)

lemma hourly_clocks: "s \<in> set (hourly db a b i) \<Longrightarrow> a \<le> s_clock s \<and> s_clock s < b \<and> s_trend s"
  using trend_sample_clock by (fastforce simp: hourly_def trend_samples_def set_map_filter)

lemma sorted_hourly: "sorted (map s_clock (hourly db a b i))"
  using sorted_js_sort [of "\<lambda>a b :: sample. s_clock a - s_clock b"]
  by (auto simp: hourly_def trend_samples_def sorted_wrt_map consistent_def)

lemma stored_samples_sorted:
  assumes "readable db"
  shows "sorted (map s_clock (stored_samples db from to now i)) \<and>
    (\<forall>t \<in> set (hourly db from to i). \<forall>h \<in> set (measured db (fill_from (hourly db from to i) from now) to i). s_clock t + 3600 \<le> s_clock h)"
proof -
  let ?ts = "hourly db from to i"
  have m: "sorted (map s_clock (measured db a to i))" for a
    using assms clocks_of_history by (simp add: measured_def readable_def sorted_wrt_map sorted_wrt_filter)
  have "s_clock t + 3600 \<le> s_clock h" if "t \<in> set ?ts" "h \<in> set (measured db (fill_from ?ts from now) to i)" for t h
  proof -
    have "s_clock t \<le> s_clock (List.last ?ts)" using that(1) sorted_hourly [of db "from" to i]
      by (cases ?ts rule: rev_cases) (auto simp: sorted_append)
    moreover have "s_clock (List.last ?ts) + 3600 \<le> fill_from ?ts from now" using that(1) by (auto simp: fill_from_def)
    ultimately show ?thesis using measured_clocks [OF that(2)] by simp
  qed
  then show ?thesis using m sorted_hourly by (fastforce simp: stored_samples_def sorted_append)
qed

lemma graph_items_ids: "graph_items items ids = Inr is \<Longrightarrow> map gi_itemid is = ids"
proof -
  assume g: "graph_items items ids = Inr is"
  define byId where "byId = fold (\<lambda>i. table_set (gi_itemid i) i) items []"
  have "gi_itemid i = k" if "table_get byId k = Some i" for k i
    using that unfolding byId_def by (induction items rule: rev_induct) (auto simp: table_simps split: if_splits)
  moreover have "is = map (\<lambda>i. the (table_get byId i)) ids" "\<forall>i \<in> set ids. table_get byId i \<noteq> None"
    using g by (auto simp: graph_items_def Let_def byId_def filter_empty_conv split: if_splits)
  ultimately show ?thesis by (auto intro!: map_idI)
qed

subsection \<open>Properties\<close>



definition one_item :: graph_store where
  "one_item = \<lparr>db_items = [\<lparr>gi_itemid = ''7'', gi_name = ''load'', gi_key = ''system.cpu.load'', gi_units = None, gi_value_type = ''0'',
      gi_delay = Some ''1m'', gi_hosts = None\<rparr>],
    db_history = (\<lambda>_. [\<lparr>hr_clock = 60, hr_value = ''1.5''\<rparr>]), db_trends = []\<rparr>"


end
