(* ===== verification/Passwords.thy ===== *)
theory Passwords
  imports JsText
begin

text \<open>
  How a portal password is stored (\<open>server/src/security/passwords.ts\<close>): plain text or a self-describing
  scrypt entry. Bytes are numbers below 256; \<open>base64url\<close> is written out on bits. The two
  cryptographic functions are parameters: \<open>sha\<close> (a digest of a text) and \<open>kdf\<close> (scrypt: password, salt,
  length and cost settings to a key).
\<close>

subsection \<open>Bits and base64url\<close>

fun to_bits :: "nat \<Rightarrow> nat \<Rightarrow> bool list" where
  "to_bits 0 n = []"
| "to_bits (Suc w) n = to_bits w (n div 2) @ [odd n]"

definition of_bits :: "bool list \<Rightarrow> nat" where
  "of_bits bs = foldl (\<lambda>n b. 2 * n + (if b then 1 else 0)) 0 bs"

text \<open>Consecutive groups of \<open>Suc k\<close> bits; the last may be shorter.\<close>

fun groups :: "nat \<Rightarrow> bool list \<Rightarrow> bool list list" where
  "groups k [] = []"
| "groups k (b # bs) = (b # take k bs) # groups k (drop k bs)"

definition B64 :: string where
  "B64 = ''ABCDEFGHIJKLMNOPQRSTUVWXYZabcdefghijklmnopqrstuvwxyz0123456789-_''"

definition b64_value :: "char \<Rightarrow> nat" where
  "b64_value c = length (takeWhile (\<lambda>d. d \<noteq> c) B64)"

definition is_b64 :: "char \<Rightarrow> bool" where
  "is_b64 c \<longleftrightarrow> c \<in> set B64"

text \<open>\<open>toString('base64url')\<close>: six bits a character, the last filled up with zeros, no padding.\<close>

definition b64_encode :: "nat list \<Rightarrow> string" where
  "b64_encode bytes = map (\<lambda>g. B64 ! of_bits (g @ replicate (6 - length g) False)) (groups 5 (concat (map (to_bits 8) bytes)))"

text \<open>\<open>Buffer.from(s, 'base64url')\<close>: the full bytes of the bits.\<close>

definition b64_decode :: "string \<Rightarrow> nat list" where
  "b64_decode s = map of_bits (filter (\<lambda>g. length g = 8) (groups 7 (concat (map (\<lambda>c. to_bits 6 (b64_value c)) s))))"

subsection \<open>Stored passwords\<close>

record scrypt_params =
  cost_N :: nat
  cost_r :: nat
  cost_p :: nat

definition SCRYPT_DEFAULTS :: scrypt_params where
  "SCRYPT_DEFAULTS = \<lparr>cost_N = 32768, cost_r = 8, cost_p = 1\<rparr>"

definition SALT_BYTES :: nat where "SALT_BYTES = 16"
definition KEY_BYTES :: nat where "KEY_BYTES = 32"
definition MAX_SCRYPT_BYTES :: nat where "MAX_SCRYPT_BYTES = 256 * 1024 * 1024"

datatype 'd stored_password =
    Plain 'd
  | Scrypt scrypt_params "nat list" "nat list"
  | Invalid

text \<open>
  \<open>HASH_SHAPE\<close>: none of its classes contains the dot, so the pattern matches exactly when the text
  splits at the dots into the six parts.
\<close>

definition digits_upto :: "nat \<Rightarrow> string \<Rightarrow> bool" where
  "digits_upto n s \<longleftrightarrow> s \<noteq> [] \<and> length s \<le> n \<and> all_digits s"

definition HASH_SHAPE :: "string \<Rightarrow> (string \<times> string \<times> string \<times> string \<times> string) option" where
  "HASH_SHAPE s =
     (case split_on CHR ''.'' s of
        [w, n, r, p, salt, hash] \<Rightarrow>
          (if w = ''scrypt'' \<and> digits_upto 8 n \<and> digits_upto 3 r \<and> digits_upto 3 p \<and>
              salt \<noteq> [] \<and> list_all is_b64 salt \<and> hash \<noteq> [] \<and> list_all is_b64 hash
           then Some (n, r, p, salt, hash) else None)
      | _ \<Rightarrow> None)"

definition power_of_two :: "nat \<Rightarrow> bool" where
  "power_of_two n \<longleftrightarrow> list_ex (\<lambda>k. n = 2 ^ k) [0..<27]"

definition parseStoredPassword :: "(string \<Rightarrow> 'd) \<Rightarrow> string \<Rightarrow> 'd stored_password" where
  "parseStoredPassword sha stored =
     (if \<not> startsWith stored ''scrypt.'' then Plain (sha stored)
      else (case HASH_SHAPE stored of
        None \<Rightarrow> Invalid
      | Some (n, r, p, s, h) \<Rightarrow>
          (let N = digits_val n; r = digits_val r; p = digits_val p; salt = b64_decode s; hash = b64_decode h;
               usable = power_of_two N \<and> N \<ge> 1024 \<and> r \<ge> 1 \<and> r \<le> 32 \<and> p \<ge> 1 \<and> p \<le> 16 \<and>
                 128 * N * r \<le> MAX_SCRYPT_BYTES \<and>
                 length salt \<ge> 8 \<and> length salt \<le> 64 \<and> b64_encode salt = s \<and>
                 length hash \<ge> 16 \<and> length hash \<le> 128 \<and> b64_encode hash = h
           in if usable then Scrypt \<lparr>cost_N = N, cost_r = r, cost_p = p\<rparr> salt hash else Invalid)))"

text \<open>\<open>timingSafeEqual\<close> is equality; its time is not modelled.\<close>

definition verifyPassword ::
  "(string \<Rightarrow> 'd) \<Rightarrow> (string \<Rightarrow> nat list \<Rightarrow> nat \<Rightarrow> scrypt_params \<Rightarrow> nat list) \<Rightarrow> 'd stored_password \<Rightarrow> string \<Rightarrow> bool" where
  "verifyPassword sha kdf stored candidate =
     (case stored of
        Plain d \<Rightarrow> sha candidate = d
      | Scrypt params salt hash \<Rightarrow> kdf candidate salt (length hash) params = hash
      | Invalid \<Rightarrow> False)"

text \<open>The entry for a password, with the random salt drawn for it.\<close>

definition hashPassword :: "(string \<Rightarrow> nat list \<Rightarrow> nat \<Rightarrow> scrypt_params \<Rightarrow> nat list) \<Rightarrow> nat list \<Rightarrow> string \<Rightarrow> scrypt_params \<Rightarrow> string" where
  "hashPassword kdf salt password params =
     ''scrypt.'' @ show_nat (cost_N params) @ ''.'' @ show_nat (cost_r params) @ ''.'' @ show_nat (cost_p params) @ ''.'' @
     b64_encode salt @ ''.'' @ b64_encode (kdf password salt KEY_BYTES params)"

definition isGuessable ::
  "(string \<Rightarrow> 'd) \<Rightarrow> (string \<Rightarrow> nat list \<Rightarrow> nat \<Rightarrow> scrypt_params \<Rightarrow> nat list) \<Rightarrow> string \<Rightarrow> bool" where
  "isGuessable sha kdf stored =
     (case parseStoredPassword sha stored of
        Plain d \<Rightarrow> stored = [] \<or> stored = ''admin''
      | Scrypt params salt hash \<Rightarrow> list_ex (\<lambda>guess. kdf guess salt (length hash) params = hash) [[], ''admin'']
      | Invalid \<Rightarrow> False)"

subsection \<open>Decoding undoes encoding\<close>

lemma length_to_bits [simp]: "length (to_bits w n) = w"
  by (induction w arbitrary: n) auto

lemma of_bits_snoc [simp]: "of_bits (bs @ [b]) = 2 * of_bits bs + (if b then 1 else 0)"
  by (simp add: of_bits_def)

lemma of_to_bits: "n < 2 ^ w \<Longrightarrow> of_bits (to_bits w n) = n"
proof (induction w arbitrary: n)
  case 0
  then show ?case by (simp add: of_bits_def)
next
  case (Suc w)
  then have "of_bits (to_bits w (n div 2)) = n div 2" by (intro Suc.IH) (simp add: less_mult_imp_div_less)
  then show ?case by (cases "even n") auto
qed

lemma to_of_bits: "length bs = w \<Longrightarrow> to_bits w (of_bits bs) = bs"
proof (induction w arbitrary: bs)
  case 0
  then show ?case by simp
next
  case (Suc w)
  then obtain b c where bs: "bs = c @ [b]" by (metis length_Suc_conv_rev)
  then show ?case using Suc by simp
qed

lemma of_bits_bound: "of_bits bs < 2 ^ length bs"
  by (induction bs rule: rev_induct) (auto simp: of_bits_def)

lemma groups_append: "length g = Suc k \<Longrightarrow> groups k (g @ bs) = g # groups k bs"
  by (cases g) auto

lemma groups_full: "\<forall>g \<in> set gs. length g = Suc k \<Longrightarrow> length rest \<le> k \<Longrightarrow>
    filter (\<lambda>g. length g = Suc k) (groups k (concat gs @ rest)) = gs"
proof (induction gs)
  case Nil
  then show ?case by (cases rest) auto
next
  case (Cons g gs)
  then show ?case by (simp add: groups_append)
qed

lemma groups_length: "\<forall>g \<in> set (groups k bs). length g \<le> Suc k"
  by (induction k bs rule: groups.induct) (auto simp: min_def)

lemma groups_pad:
  "\<exists>z. length z \<le> k \<and> concat (map (\<lambda>g. g @ replicate (Suc k - length g) False) (groups k bs)) = bs @ z"
proof (induction k bs rule: groups.induct)
  case (2 k b bs)
  obtain z where z: "length z \<le> k" "concat (map (\<lambda>g. g @ replicate (Suc k - length g) False) (groups k (drop k bs))) = drop k bs @ z"
    using "2" by blast
  show ?case
  proof (cases "k \<le> length bs")
    case True
    then show ?thesis using z by (intro exI [of _ z]) (simp add: min_def append_take_drop_id flip: append_assoc)
  next
    case False
    then have "groups k (drop k bs) = []" by simp
    then show ?thesis using False by (intro exI [of _ "replicate (k - length bs) False"]) simp
  qed
qed simp

lemma b64_roundtrip_char: "v < 64 \<Longrightarrow> b64_value (B64 ! v) = v"
proof -
  have "\<forall>v \<in> set [0..<64]. b64_value (B64 ! v) = v" by code_simp
  then show "v < 64 \<Longrightarrow> b64_value (B64 ! v) = v" by simp
qed

lemma length_B64: "length B64 = 64"
  by (simp add: B64_def)

lemma b64_chars: "v < 64 \<Longrightarrow> is_b64 (B64 ! v)"
  by (simp add: is_b64_def length_B64)

lemma pad6: "g \<in> set (groups 5 bs) \<Longrightarrow> length (g @ replicate (6 - length g) False) = 6"
  using groups_length [of 5 bs] by auto

lemma pad6_value: "g \<in> set (groups 5 bs) \<Longrightarrow> of_bits (g @ replicate (6 - length g) False) < 64"
  using of_bits_bound [of "g @ replicate (6 - length g) False"] pad6 [of g bs] by simp

lemma b64_roundtrip:
  assumes "\<forall>b \<in> set bytes. b < 256"
  shows "b64_decode (b64_encode bytes) = bytes"
proof -
  define bits where "bits = concat (map (to_bits 8) bytes)"
  have "concat (map (\<lambda>c. to_bits 6 (b64_value c)) (b64_encode bytes)) =
      concat (map (\<lambda>g. g @ replicate (6 - length g) False) (groups 5 bits))"
    unfolding b64_encode_def bits_def [symmetric] map_map o_def
    by (rule arg_cong [where f = concat], rule map_cong) (simp_all add: b64_roundtrip_char pad6_value to_of_bits [OF pad6])
  also have "\<exists>z. length z \<le> 5 \<and> \<dots> = bits @ z" using groups_pad [of 5 bits] by simp
  finally obtain z where z: "length z \<le> 5" "concat (map (\<lambda>c. to_bits 6 (b64_value c)) (b64_encode bytes)) = bits @ z" by blast
  have "filter (\<lambda>g. length g = 8) (groups 7 (bits @ z)) = map (to_bits 8) bytes"
    unfolding bits_def using groups_full [of "map (to_bits 8) bytes" 7 z] z(1) by simp
  then have "b64_decode (b64_encode bytes) = map (\<lambda>b. of_bits (to_bits 8 b)) bytes" by (simp add: b64_decode_def z(2) o_def)
  also have "\<dots> = bytes" using assms of_to_bits [of _ 8] by (simp add: map_idI)
  finally show ?thesis .
qed

lemma b64_encode_chars: "list_all is_b64 (b64_encode bytes)"
  by (auto simp: b64_encode_def list_all_iff b64_chars pad6_value)

subsection \<open>Reading back a made entry\<close>

lemma dot_free_digits: "all_digits s \<Longrightarrow> CHR ''.'' \<notin> set s"
  by (auto simp: all_digits_def list_all_iff dest: digit_not)

lemma dot_free_b64: "list_all is_b64 s \<Longrightarrow> CHR ''.'' \<notin> set s"
proof -
  have "\<not> is_b64 CHR ''.''" by (simp add: is_b64_def B64_def)
  then show "list_all is_b64 s \<Longrightarrow> CHR ''.'' \<notin> set s" by (auto simp: list_all_iff)
qed

definition usable_params :: "scrypt_params \<Rightarrow> bool" where
  "usable_params ps \<longleftrightarrow> power_of_two (cost_N ps) \<and> 1024 \<le> cost_N ps \<and> cost_N ps < 10 ^ 8 \<and> 1 \<le> cost_r ps \<and> cost_r ps \<le> 32 \<and>
     1 \<le> cost_p ps \<and> cost_p ps \<le> 16 \<and> 128 * cost_N ps * cost_r ps \<le> MAX_SCRYPT_BYTES"

lemma length_show_nat_le: "n < 10 ^ k \<Longrightarrow> 0 < k \<Longrightarrow> length (show_nat n) \<le> k"
proof (induction n arbitrary: k rule: show_nat.induct)
  case (1 n)
  show ?case
  proof (cases "n < 10")
    case True
    then show ?thesis using 1 by (simp add: show_nat.simps [of n])
  next
    case False
    then have k: "1 < k" using "1.prems" by (cases "k = 1") auto
    then have "10 ^ k = 10 * (10 :: nat) ^ (k - 1)" by (simp add: power_eq_if)
    then have "n div 10 < 10 ^ (k - 1)" using "1.prems" by simp
    then have "length (show_nat (n div 10)) \<le> k - 1" using 1 False k by simp
    then show ?thesis using False k by (simp add: show_nat.simps [of n])
  qed
qed

lemma parse_hash_entry:
  assumes "usable_params ps" "\<forall>b \<in> set salt. b < 256" "\<forall>b \<in> set key. b < 256"
    and "8 \<le> length salt" "length salt \<le> 64" "16 \<le> length key" "length key \<le> 128"
  shows "parseStoredPassword sha (''scrypt.'' @ show_nat (cost_N ps) @ ''.'' @ show_nat (cost_r ps) @ ''.'' @ show_nat (cost_p ps) @ ''.'' @
     b64_encode salt @ ''.'' @ b64_encode key) = Scrypt ps salt key"
proof -
  let ?n = "show_nat (cost_N ps)" and ?r = "show_nat (cost_r ps)" and ?p = "show_nat (cost_p ps)"
  let ?e = "''scrypt.'' @ ?n @ ''.'' @ ?r @ ''.'' @ ?p @ ''.'' @ b64_encode salt @ ''.'' @ b64_encode key"
  have dots: "CHR ''.'' \<notin> set ?n" "CHR ''.'' \<notin> set ?r" "CHR ''.'' \<notin> set ?p"
    "CHR ''.'' \<notin> set (b64_encode salt)" "CHR ''.'' \<notin> set (b64_encode key)"
    by (simp_all add: dot_free_digits dot_free_b64 b64_encode_chars)
  have e: "?e = ''scrypt'' @ CHR ''.'' # ?n @ CHR ''.'' # ?r @ CHR ''.'' # ?p @ CHR ''.'' # b64_encode salt @ CHR ''.'' # b64_encode key"
    by simp
  have split: "split_on CHR ''.'' ?e = [''scrypt'', ?n, ?r, ?p, b64_encode salt, b64_encode key]"
    unfolding e using dots split_on_append [of "CHR ''.''" "''scrypt''"] by (simp del: split_on.simps append_Cons add: split_on_append split_on_plain)
  have "digits_upto 8 ?n" "digits_upto 3 ?r" "digits_upto 3 ?p"
    using assms(1) length_show_nat_le [of _ 8] length_show_nat_le [of _ 3]
    by (simp_all add: digits_upto_def usable_params_def)
  moreover have "b64_encode salt \<noteq> []" "b64_encode key \<noteq> []"
    using b64_roundtrip [OF assms(2)] b64_roundtrip [OF assms(3)] assms(4,6) by (auto simp: b64_decode_def)
  ultimately have "HASH_SHAPE ?e = Some (?n, ?r, ?p, b64_encode salt, b64_encode key)"
    unfolding HASH_SHAPE_def split by (simp add: b64_encode_chars)
  moreover have "startsWith ?e ''scrypt.''" by (simp add: startsWith_def)
  ultimately have "parseStoredPassword sha ?e =
      (case Some (?n, ?r, ?p, b64_encode salt, b64_encode key) of None \<Rightarrow> Invalid
       | Some (n, r, p, s, h) \<Rightarrow>
          (let N = digits_val n; r = digits_val r; p = digits_val p; salt = b64_decode s; hash = b64_decode h;
               usable = power_of_two N \<and> N \<ge> 1024 \<and> r \<ge> 1 \<and> r \<le> 32 \<and> p \<ge> 1 \<and> p \<le> 16 \<and>
                 128 * N * r \<le> MAX_SCRYPT_BYTES \<and>
                 length salt \<ge> 8 \<and> length salt \<le> 64 \<and> b64_encode salt = s \<and>
                 length hash \<ge> 16 \<and> length hash \<le> 128 \<and> b64_encode hash = h
           in if usable then Scrypt \<lparr>cost_N = N, cost_r = r, cost_p = p\<rparr> salt hash else Invalid))"
    unfolding parseStoredPassword_def by simp
  then show ?thesis using assms b64_roundtrip [OF assms(2)] b64_roundtrip [OF assms(3)]
    by (simp add: usable_params_def)
qed

subsection \<open>Properties\<close>

text \<open>
  A made entry reads back. For any usable cost settings, any salt of \<open>SALT_BYTES\<close> bytes and a key
  function that returns the length asked for: what \<open>hashPassword\<close> makes is read by
  \<open>parseStoredPassword\<close> as the same settings, salt and key, so the password it was made from verifies,
  and another one verifies only if scrypt maps both to one key.
\<close>

theorem hash_entry_round_trip:
  assumes "usable_params ps" "length salt = SALT_BYTES" "\<forall>b \<in> set salt. b < 256"
    and "length (kdf password salt KEY_BYTES ps) = KEY_BYTES" "\<forall>b \<in> set (kdf password salt KEY_BYTES ps). b < 256"
  shows "parseStoredPassword sha (hashPassword kdf salt password ps) = Scrypt ps salt (kdf password salt KEY_BYTES ps) \<and>
    verifyPassword sha kdf (parseStoredPassword sha (hashPassword kdf salt password ps)) password \<and>
    (verifyPassword sha kdf (parseStoredPassword sha (hashPassword kdf salt password ps)) other \<longleftrightarrow>
       kdf other salt KEY_BYTES ps = kdf password salt KEY_BYTES ps)"
proof -
  have "parseStoredPassword sha (hashPassword kdf salt password ps) = Scrypt ps salt (kdf password salt KEY_BYTES ps)"
    unfolding hashPassword_def using assms by (intro parse_hash_entry) (simp_all add: SALT_BYTES_def KEY_BYTES_def)
  then show ?thesis using assms(4) by (simp add: verifyPassword_def)
qed

lemma hash_entry_round_trip_witness:
  "verifyPassword id (\<lambda>pw salt n ps. replicate n (length pw mod 256))
     (parseStoredPassword id (hashPassword (\<lambda>pw salt n ps. replicate n (length pw mod 256)) (replicate 16 7) ''secret'' SCRYPT_DEFAULTS)) ''secret''"
proof -
  have "power_of_two 32768" unfolding power_of_two_def list_ex_iff by (rule bexI [of _ 15]) simp_all
  then have "usable_params SCRYPT_DEFAULTS" by (simp add: usable_params_def SCRYPT_DEFAULTS_def MAX_SCRYPT_BYTES_def)
  then show ?thesis
    using hash_entry_round_trip [of SCRYPT_DEFAULTS "replicate 16 7" "\<lambda>pw salt n ps. replicate n (length pw mod 256)" "''secret''" id "[]"]
    by (simp add: SALT_BYTES_def verifyPassword_def)
qed

end
