(* ===== verification/Auth.thy ===== *)
theory Auth
  imports Interfaces Regex Passwords Requests
begin

text \<open>
  Sign-in, sessions and roles (\<open>server/src/security/auth.ts\<close>, \<open>pageAccess.ts\<close>, \<open>viewerPolicy.ts\<close>): the
  three roles and the route rules, the forgery check, the configured users, the guard before every
  route, the sign-in handler with its backoff, sign-out and renewal. Parameters stand for code outside the
  repository: the URL parser and \<open>decodeURIComponent\<close>, the token library (which token a request
  carries, and the claims of a token that verifies), the digest, the address normaliser and the
  rate-limit plugin. The state is the three in-memory tables.
\<close>

subsection \<open>Roles and routes\<close>

datatype role = Viewer | Operator | Admin

fun RANK :: "role \<Rightarrow> nat" where
  "RANK Viewer = 1"
| "RANK Operator = 2"
| "RANK Admin = 3"

definition role_of_text :: "string \<Rightarrow> role option" where
  "role_of_text s = (if s = ''viewer'' then Some Viewer else if s = ''operator'' then Some Operator
     else if s = ''admin'' then Some Admin else None)"

fun role_text :: "role \<Rightarrow> string" where
  "role_text Viewer = ''viewer''"
| "role_text Operator = ''operator''"
| "role_text Admin = ''admin''"

definition isRole :: "string \<Rightarrow> bool" where
  "isRole v \<longleftrightarrow> role_of_text v \<noteq> None"

definition ROUTE_RULES :: "(rx \<times> role) list" where
  "ROUTE_RULES =
    [(Seq Start (Lit ''/api/reports/inventory''), Admin),
     (Seqs [Start, Lit ''/api/'', Alt (Lit ''links'') (Lit ''net''), Bound], Operator),
     (Seqs [Start, Lit ''/api/problems/'', Alt (Lit ''acknowledge'') (Lit ''close'')], Operator)]"

definition requiredRole :: "string \<Rightarrow> role" where
  "requiredRole url = (case find (\<lambda>r. rx_test (fst r) url) ROUTE_RULES of Some r \<Rightarrow> snd r | None \<Rightarrow> Viewer)"

definition roleAllows :: "role \<Rightarrow> role \<Rightarrow> bool" where
  "roleAllows has needs \<longleftrightarrow> RANK has \<ge> RANK needs"

definition PUBLIC_ROUTES :: "string list" where
  "PUBLIC_ROUTES = [''/api/health'', ''/api/auth/login'', ''/api/auth/me'', ''/api/auth/logout'']"

definition PAGE_API :: "(string \<times> string) list" where
  "PAGE_API =
    [(''/'', ''/api/problems''), (''/problems'', ''/api/problems''), (''/sites'', ''/api/sites''), (''/hosts'', ''/api/hosts''),
     (''/devices'', ''/api/devices''), (''/latest'', ''/api/latest''), (''/graphs'', ''/api/graph''), (''/maps'', ''/api/maps''),
     (''/network'', ''/api/net/devices''), (''/links'', ''/api/links''), (''/services'', ''/api/services''), (''/sla'', ''/api/sli''),
     (''/reports/availability'', ''/api/reports/availability''), (''/reports/capacity'', ''/api/reports/capacity''),
     (''/reports/noise'', ''/api/reports/noise''), (''/reports/top-triggers'', ''/api/reports/top-triggers''),
     (''/reports/inventory'', ''/api/reports/inventory''), (''/assistant'', ''/api/chat'')]"

definition pageRoles :: "(string \<Rightarrow> role) \<Rightarrow> (string \<times> role) list" where
  "pageRoles roleFor = map (\<lambda>(page, api). (page, roleFor api)) PAGE_API"

subsection \<open>Requests\<close>

record http_request =
  rq_method :: string
  rq_route :: "string option"
  rq_url :: string
  rq_authorization :: "string option"
  rq_cookie :: "string option"
  rq_csrf :: "string option"
  rq_origin :: "string option"
  rq_host :: "string option"
  rq_ip :: string

text \<open>\<open>decode\<close> is \<open>decodeURIComponent\<close>, \<open>None\<close> where it throws.\<close>

definition routeOf :: "(string \<Rightarrow> string option) \<Rightarrow> http_request \<Rightarrow> string" where
  "routeOf decode req =
     (case rq_route req of
        Some matched \<Rightarrow> if matched \<noteq> [] then matched
          else (let path = hd (split_on CHR ''?'' (rq_url req)) in case decode path of Some p \<Rightarrow> p | None \<Rightarrow> path)
      | None \<Rightarrow> (let path = hd (split_on CHR ''?'' (rq_url req)) in case decode path of Some p \<Rightarrow> p | None \<Rightarrow> path))"

definition hasBearer :: "http_request \<Rightarrow> bool" where
  "hasBearer req \<longleftrightarrow> rx_test (Seqs [Start, LitI ''Bearer'', Space]) (case rq_authorization req of Some h \<Rightarrow> h | None \<Rightarrow> [])"

definition UNSAFE_METHODS :: "string list" where
  "UNSAFE_METHODS = [''POST'', ''PUT'', ''PATCH'', ''DELETE'']"

definition COOKIE_ROUTES :: "string list" where
  "COOKIE_ROUTES = [''/api/auth/login'', ''/api/auth/logout'']"

text \<open>\<open>parse\<close> is \<open>new URL\<close>: the scheme and the host of a text, \<open>None\<close> where it throws.\<close>

definition sameOrigin :: "(string \<Rightarrow> (string \<times> string) option) \<Rightarrow> string \<Rightarrow> string \<Rightarrow> bool" where
  "sameOrigin parse origin host =
     (case parse origin of
        None \<Rightarrow> False
      | Some (protocol, h) \<Rightarrow>
          host \<noteq> [] \<and> (case parse (protocol @ ''//'' @ host) of None \<Rightarrow> False | Some (_, h') \<Rightarrow> h = h'))"

definition csrfRefusal ::
  "(string \<Rightarrow> string option) \<Rightarrow> (string \<Rightarrow> (string \<times> string) option) \<Rightarrow> http_request \<Rightarrow> string option" where
  "csrfRefusal decode parse req =
     (let route = routeOf decode req;
          byCookie = \<not> hasBearer req \<and> (case rq_cookie req of Some c \<Rightarrow> c \<noteq> [] | None \<Rightarrow> False)
      in if rq_method req \<notin> set UNSAFE_METHODS then None
         else if \<not> startsWith route ''/api/'' then None
         else if \<not> byCookie \<and> route \<notin> set COOKIE_ROUTES then None
         else if rq_csrf req \<noteq> Some ''1'' then Some (''The request is missing the portal'' @ [CHR 0x27] @ ''s X-HCML-CSRF header.'')
         else (case rq_origin req of
                 Some origin \<Rightarrow>
                   (if \<not> sameOrigin parse origin (case rq_host req of Some h \<Rightarrow> h | None \<Rightarrow> [])
                    then Some ''The request came from another site.'' else None)
               | None \<Rightarrow> None))"

subsection \<open>Configured users\<close>

record 'd portal_user =
  u_name :: string
  u_pass :: string
  u_check :: "'d stored_password"
  u_role :: role

record split_entry =
  se_name :: string
  se_pass :: string
  se_role :: "string option"

definition before :: "char \<Rightarrow> string \<Rightarrow> string" where
  "before c s = takeWhile (\<lambda>d. d \<noteq> c) s"

text \<open>\<open>entry.indexOf(':')\<close> and \<open>lastIndexOf\<close>: the lengths of what comes before the first and after the last.\<close>

definition splitEntry :: "string \<Rightarrow> split_entry" where
  "splitEntry entry =
     (if CHR '':'' \<notin> set entry then \<lparr>se_name = trim entry, se_pass = [], se_role = None\<rparr>
      else
        (let first = length (before CHR '':'' entry);
             last_pos = length entry - Suc (length (before CHR '':'' (rev entry)));
             nm = trim (take first entry)
         in if last_pos = first then \<lparr>se_name = nm, se_pass = trim (drop (Suc first) entry), se_role = None\<rparr>
            else \<lparr>se_name = nm, se_pass = trim (drop (Suc first) (take last_pos entry)),
                  se_role = Some (trim (drop (Suc last_pos) entry))\<rparr>))"

definition sameName :: "string \<Rightarrow> string \<Rightarrow> bool" where
  "sameName a b \<longleftrightarrow> toLowerCase a = toLowerCase b"

definition quote :: "string \<Rightarrow> string" where
  "quote w = [CHR 0x22] @ w @ [CHR 0x22]"

definition entry_of :: "nat \<Rightarrow> nat \<Rightarrow> string" where
  "entry_of i n = ''PORTAL_USERS entry '' @ show_nat (Suc i) @ '' of '' @ show_nat n"

text \<open>One entry: the users so far and the warnings, \<open>enabled\<close> and \<open>hours\<close> from the settings.\<close>

definition parse_entry ::
  "(string \<Rightarrow> 'd) \<Rightarrow> bool \<Rightarrow> nat \<Rightarrow> nat \<Rightarrow> nat \<times> string \<Rightarrow> 'd portal_user list \<times> string list \<Rightarrow> 'd portal_user list \<times> string list" where
  "parse_entry sha enabled hours n row st =
     (let (i, entry) = row; (users, warnings) = st; e = splitEntry entry in
      if se_name e = [] \<or> se_pass e = [] then
        (users, warnings @ [entry_of i n @ '' is not name:password:role. Skipped.''])
      else
        (let check = parseStoredPassword sha (se_pass e) in
         if check = Invalid then
           (users, warnings @ [entry_of i n @ '' starts with '' @ quote ''scrypt.'' @
              '' but is not a usable hash (scrypt.N.r.p.salt.hash). Skipped.''])
         else
           (let r = (case se_role e of None \<Rightarrow> [] | Some r \<Rightarrow> r);
                w1 = (if r \<noteq> [] \<and> \<not> isRole r
                      then [''PORTAL_USERS entry for '' @ quote (se_name e) @ '' has an unknown role; it gets viewer.''] else []);
                w2 = (if enabled \<and> list_ex (\<lambda>u. u_name u = se_name e) users
                      then [''PORTAL_USERS names '' @ quote (se_name e) @ '' more than once. Each entry can sign in, but its sessions are not renewed: they end an hour before their '' @ show_nat hours @ '' hours. Give each entry its own name.'']
                      else if enabled \<and> list_ex (\<lambda>u. sameName (u_name u) (se_name e)) users
                      then [''PORTAL_USERS has names that differ only by case, including '' @ quote (se_name e) @ ''. Sign-in ignores case, so give each entry a name that differs by more than that.'']
                      else [])
            in (users @ [\<lparr>u_name = se_name e, u_pass = se_pass e, u_check = check,
                          u_role = (case role_of_text r of Some q \<Rightarrow> q | None \<Rightarrow> Viewer)\<rparr>],
                warnings @ w1 @ w2))))"

definition parseUsers :: "(string \<Rightarrow> 'd) \<Rightarrow> bool \<Rightarrow> nat \<Rightarrow> string \<Rightarrow> 'd portal_user list \<times> string list" where
  "parseUsers sha enabled hours raw =
     (let entries = split_on CHR '','' raw
      in fold (parse_entry sha enabled hours (length entries)) (zip [0..<length entries] entries) ([], []))"

text \<open>\<open>env_users\<close> is \<open>PORTAL_USERS\<close>, empty when unset; \<open>user\<close> and \<open>pass\<close> the single-admin shorthand.\<close>

definition loadUsers :: "(string \<Rightarrow> 'd) \<Rightarrow> bool \<Rightarrow> nat \<Rightarrow> string \<Rightarrow> string \<Rightarrow> string \<Rightarrow> 'd portal_user list" where
  "loadUsers sha enabled hours env_users user pass =
     (let raw = trim env_users;
          users = (if raw \<noteq> [] then fst (parseUsers sha enabled hours raw) else [])
      in if users \<noteq> [] then users
         else [\<lparr>u_name = user, u_pass = pass, u_check = parseStoredPassword sha pass, u_role = Admin\<rparr>])"

text \<open>The refusals to start: \<open>None\<close> when the server may.\<close>

definition assertUsers ::
  "(string \<Rightarrow> 'd) \<Rightarrow> (string \<Rightarrow> nat list \<Rightarrow> nat \<Rightarrow> scrypt_params \<Rightarrow> nat list) \<Rightarrow> bool \<Rightarrow> nat \<Rightarrow> string \<Rightarrow> string \<Rightarrow> string \<Rightarrow> string option" where
  "assertUsers sha kdf enabled hours env_users user pass =
     (if \<not> enabled then None
      else
        (let raw = trim env_users; (parsed, notes) = parseUsers sha enabled hours raw in
         if raw \<noteq> [] \<and> parsed = [] then
           Some (''AUTH_ENABLED=true but no PORTAL_USERS entry is a valid name:password:role triple. '' @ join '' '' notes)
         else
           (let loaded = loadUsers sha enabled hours env_users user pass;
                weak = filter (\<lambda>u. isGuessable sha kdf (u_pass u)) loaded in
            if list_ex (\<lambda>u. u_check u = Invalid) loaded then
              Some (''AUTH_ENABLED=true but PORTAL_PASS starts with '' @ quote ''scrypt.'' @ '' and is not a usable hash (scrypt.N.r.p.salt.hash).'')
            else if weak \<noteq> [] then
              Some (''AUTH_ENABLED=true but '' @ join '', '' (map (\<lambda>u. quote (u_name u)) weak) @ '' '' @
                (if length weak = 1 then ''has'' else ''have'') @ '' an empty password or the default '' @ quote ''admin'' @ ''. '' @
                ''Set PORTAL_PASS, or PORTAL_USERS as name:password:role triples, in .env.'')
            else None)))"

subsection \<open>State\<close>

definition LOGIN_ATTEMPTS_PER_MINUTE :: nat where "LOGIN_ATTEMPTS_PER_MINUTE = 10"
definition LOGIN_LOCK_AFTER :: nat where "LOGIN_LOCK_AFTER = 10"
definition LOGIN_LOCK_BASE_MS :: int where "LOGIN_LOCK_BASE_MS = 60000"
definition LOGIN_LOCK_MAX_MS :: int where "LOGIN_LOCK_MAX_MS = 5 * 60000"
definition LOGIN_FAIL_TTL_MS :: int where "LOGIN_FAIL_TTL_MS = 60 * 60000"
definition LOGIN_FAIL_KEYS :: nat where "LOGIN_FAIL_KEYS = 10000"
definition LOG_NAME_MAX :: nat where "LOG_NAME_MAX = 64"
definition LOGIN_WARN_AFTER :: nat where "LOGIN_WARN_AFTER = 5"
definition LOGIN_WARN_WINDOW_MS :: int where "LOGIN_WARN_WINDOW_MS = 15 * 60000"

record failure =
  f_count :: nat
  f_last :: int
  f_until :: int

record auth_state =
  signedOut :: "(string, int) table"
  failures :: "(string, failure) table"
  nameFailures :: "(string, nat \<times> int) table"

definition auth_start :: auth_state where
  "auth_start = \<lparr>signedOut = [], failures = [], nameFailures = []\<rparr>"

text \<open>How the three tables store a key.\<close>

definition put_failure :: "string \<Rightarrow> failure \<Rightarrow> (string, failure) table \<Rightarrow> (string, failure) table" where
  "put_failure k f t = drop_oldest LOGIN_FAIL_KEYS (reinsert k f t)"

definition put_name :: "string \<Rightarrow> nat \<times> int \<Rightarrow> (string, nat \<times> int) table \<Rightarrow> (string, nat \<times> int) table" where
  "put_name k f t = drop_oldest LOGIN_FAIL_KEYS (reinsert k f t)"

definition put_signed_out :: "string \<Rightarrow> int \<Rightarrow> (string, int) table \<Rightarrow> (string, int) table" where
  "put_signed_out k e t = drop_oldest LOGIN_FAIL_KEYS (table_set k e t)"

interpretation failure_table: bounded_table put_failure LOGIN_FAIL_KEYS
  unfolding put_failure_def [abs_def] by (rule reinsert_bounded) (simp add: LOGIN_FAIL_KEYS_def)

interpretation name_table: bounded_table put_name LOGIN_FAIL_KEYS
  unfolding put_name_def [abs_def] by (rule reinsert_bounded) (simp add: LOGIN_FAIL_KEYS_def)

interpretation signed_out_table: bounded_table put_signed_out LOGIN_FAIL_KEYS
  unfolding put_signed_out_def [abs_def] by (rule set_bounded) (simp add: LOGIN_FAIL_KEYS_def)

subsection \<open>Sessions\<close>

record claims =
  cl_sub :: "string option"
  cl_role :: "string option"
  cl_exp :: "int option"
  cl_epoch :: "string option"

text \<open>
  The settings, the configured users and the code outside the repository. \<open>jwt_lookup\<close> is the token
  the library takes from a request, \<open>jwt_claims\<close> the claims of a token whose signature, issuer,
  audience and expiry check out at a time in seconds; \<open>digest\<close> is the base64url SHA-256 of a text.
\<close>

record 'd auth_env =
  enabled :: bool
  sessionEpoch :: string
  sessionHours :: rat
  users :: "'d portal_user list"
  sha :: "string \<Rightarrow> 'd"
  kdf :: "string \<Rightarrow> nat list \<Rightarrow> nat \<Rightarrow> scrypt_params \<Rightarrow> nat list"
  decode_uri :: "string \<Rightarrow> string option"
  parse_url :: "string \<Rightarrow> (string \<times> string) option"
  jwt_lookup :: "http_request \<Rightarrow> string option"
  jwt_claims :: "int \<Rightarrow> string \<Rightarrow> claims option"
  digest :: "string \<Rightarrow> string"
  normalizeIP :: "string \<Rightarrow> string"

definition SESSION_EPOCH_DEFAULT :: string where "SESSION_EPOCH_DEFAULT = ''1''"

definition jwtVerify :: "'d auth_env \<Rightarrow> int \<Rightarrow> http_request \<Rightarrow> claims option" where
  "jwtVerify env now req = (case jwt_lookup env req of None \<Rightarrow> None | Some t \<Rightarrow> jwt_claims env now t)"

definition tokenOf :: "http_request \<Rightarrow> string option" where
  "tokenOf req =
     (case rq_authorization req of
        Some header \<Rightarrow> if startsWith header ''Bearer '' then Some (trim (drop 7 header)) else rq_cookie req
      | None \<Rightarrow> rq_cookie req)"

definition keyOf :: "'d auth_env \<Rightarrow> string \<Rightarrow> string" where
  "keyOf env token = digest env token"

definition currentUser :: "'d portal_user list \<Rightarrow> string option \<Rightarrow> string option \<Rightarrow> 'd portal_user option" where
  "currentUser us sub tokenRole =
     (let named = filter (\<lambda>u. Some (u_name u) = sub) us in
      if length named = 1 then Some (hd named) else find (\<lambda>u. Some (role_text (u_role u)) = tokenRole) named)"

definition authenticate :: "'d auth_env \<Rightarrow> int \<Rightarrow> http_request \<Rightarrow> auth_state \<Rightarrow> (claims \<times> 'd portal_user) option" where
  "authenticate env now req st =
     (case jwtVerify env now req of
        None \<Rightarrow> None
      | Some cl \<Rightarrow>
          (if (case cl_epoch cl of Some e \<Rightarrow> e | None \<Rightarrow> SESSION_EPOCH_DEFAULT) \<noteq> sessionEpoch env then None
           else if (case tokenOf req of Some t \<Rightarrow> t \<noteq> [] \<and> table_get (signedOut st) (keyOf env t) \<noteq> None | None \<Rightarrow> False) then None
           else (case currentUser (users env) (cl_sub cl) (cl_role cl) of None \<Rightarrow> None | Some u \<Rightarrow> Some (cl, u))))"

text \<open>What a hook or a route answers: go on, or a status with an error code, a message and a wait in seconds.\<close>

datatype auth_reply =
    Pass
  | Issued string role string int
  | Cleared
  | Refused nat string string "int option"

definition guard_hook :: "'d auth_env \<Rightarrow> int \<Rightarrow> http_request \<Rightarrow> auth_state \<Rightarrow> auth_reply" where
  "guard_hook env now req st =
     (let route = routeOf (decode_uri env) req in
      if \<not> enabled env \<or> \<not> startsWith route ''/api/'' then Pass
      else if route = ''/api/health'' then Pass
      else if route \<in> set PUBLIC_ROUTES then Pass
      else (case authenticate env now req st of
              None \<Rightarrow> Refused 401 ''unauthorized'' ''Sign in to continue.'' None
            | Some (cl, u) \<Rightarrow>
                (let needs = requiredRole route in
                 if \<not> roleAllows (u_role u) needs
                 then Refused 403 ''forbidden'' (''This view needs the '' @ quote (role_text needs) @ '' role; you are signed in as ''
                        @ quote (role_text (u_role u)) @ ''.'') None
                 else Pass)))"

text \<open>The two \<open>onRequest\<close> hooks in their order.\<close>

definition onRequest :: "'d auth_env \<Rightarrow> int \<Rightarrow> http_request \<Rightarrow> auth_state \<Rightarrow> auth_reply" where
  "onRequest env now req st =
     (case csrfRefusal (decode_uri env) (parse_url env) req of
        Some refusal \<Rightarrow> Refused 403 ''csrf'' (refusal @ '' Reload the page and try again.'') None
      | None \<Rightarrow> guard_hook env now req st)"

text \<open>Whether the caller of a public route is signed in, and the role attached to a request.\<close>

definition isSignedIn :: "'d auth_env \<Rightarrow> int \<Rightarrow> http_request \<Rightarrow> auth_state \<Rightarrow> bool" where
  "isSignedIn env now req st \<longleftrightarrow> \<not> enabled env \<or>
     (routeOf (decode_uri env) req = ''/api/health'' \<and> authenticate env now req st \<noteq> None)"

definition roleOf :: "'d auth_env \<Rightarrow> string option \<Rightarrow> role" where
  "roleOf env attached =
     (if \<not> enabled env then Admin
      else (case attached of Some w \<Rightarrow> (case role_of_text w of Some r \<Rightarrow> r | None \<Rightarrow> Viewer) | None \<Rightarrow> Viewer))"

definition issue :: "'d auth_env \<Rightarrow> 'd portal_user \<Rightarrow> auth_reply" where
  "issue env u = Issued (u_name u) (u_role u) (sessionEpoch env) \<lfloor>sessionHours env * 3600\<rfloor>"

subsection \<open>Signing in\<close>

definition findUser :: "'d auth_env \<Rightarrow> string \<Rightarrow> string \<Rightarrow> 'd portal_user option" where
  "findUser env username password =
     (let named = filter (\<lambda>u. sameName (u_name u) username) (users env);
          matches = filter (\<lambda>u. verifyPassword (sha env) (kdf env) (u_check u) password) named
      in case find (\<lambda>u. u_name u = username) matches of
           Some u \<Rightarrow> Some u
         | None \<Rightarrow> (case matches of u # _ \<Rightarrow> Some u | [] \<Rightarrow> None))"

definition text_of :: "jsval \<Rightarrow> string" where
  "text_of v = (case v of JStr s \<Rightarrow> s | _ \<Rightarrow> [])"

definition loginKey :: "'d auth_env \<Rightarrow> http_request \<Rightarrow> jsval \<Rightarrow> string" where
  "loginKey env req username =
     ''login|'' @ normalizeIP env (rq_ip req) @ ''|'' @ digest env (toLowerCase (text_of username))"

definition is_control :: "char \<Rightarrow> bool" where
  "is_control c \<longleftrightarrow> c \<le> CHR 0x1F \<or> c = CHR 0x7F"

definition typedName :: "jsval \<Rightarrow> string" where
  "typedName username = take LOG_NAME_MAX (map (\<lambda>c. if is_control c then CHR '' '' else c) (text_of username))"

definition recordFailure :: "string \<Rightarrow> int \<Rightarrow> auth_state \<Rightarrow> auth_state" where
  "recordFailure key now st =
     (let count = (case table_get (failures st) key of
            Some prev \<Rightarrow> (if now - f_last prev < LOGIN_FAIL_TTL_MS then f_count prev else 0) | None \<Rightarrow> 0) + 1;
          until = (if count \<ge> LOGIN_LOCK_AFTER
                   then now + min (LOGIN_LOCK_BASE_MS * 2 ^ (count - LOGIN_LOCK_AFTER)) LOGIN_LOCK_MAX_MS else 0)
      in st\<lparr>failures := put_failure key \<lparr>f_count = count, f_last = now, f_until = until\<rparr> (failures st)\<rparr>)"

text \<open>The count for the warning, and whether a warning is logged.\<close>

definition warnOnRepeats :: "jsval \<Rightarrow> int \<Rightarrow> auth_state \<Rightarrow> bool \<times> auth_state" where
  "warnOnRepeats username now st =
     (let key = toLowerCase (typedName username);
          count = (case table_get (nameFailures st) key of
            Some (n, t) \<Rightarrow> (if now - t < LOGIN_WARN_WINDOW_MS then n else 0) | None \<Rightarrow> 0) + 1
      in (count mod LOGIN_WARN_AFTER = 0, st\<lparr>nameFailures := put_name key (count, now) (nameFailures st)\<rparr>))"

text \<open>The verdict of the rate-limit plugin for this attempt, when it is there.\<close>

record limit_verdict =
  isAllowed :: bool
  isExceeded :: bool
  ttlInSeconds :: int
  limit_max :: nat

definition loginLimit :: "string \<Rightarrow> int \<Rightarrow> limit_verdict option \<Rightarrow> auth_state \<Rightarrow> auth_reply option" where
  "loginLimit key now verdict st =
     (let limited = (case verdict of
            None \<Rightarrow> None
          | Some v \<Rightarrow>
              (if isAllowed v \<or> \<not> isExceeded v then None
               else Some (Refused 429 ''rate_limited'' (''Too many sign-in attempts: the limit is '' @ show_nat (limit_max v)
                 @ '' a minute per account. Retry in '' @ show_int (ttlInSeconds v) @ '' s.'') (Some (ttlInSeconds v)))))
      in case table_get (failures st) key of
           Some f \<Rightarrow>
             (if f_until f > now then
                (let seconds = ceil_div (f_until f - now) 1000
                 in Some (Refused 429 ''rate_limited'' (''Too many failed sign-ins for this account. Retry in ''
                      @ show_int seconds @ '' s.'') (Some seconds)))
              else limited)
         | None \<Rightarrow> limited)"

definition login ::
  "'d auth_env \<Rightarrow> int \<Rightarrow> http_request \<Rightarrow> jsval \<Rightarrow> jsval \<Rightarrow> limit_verdict option \<Rightarrow> auth_state \<Rightarrow> auth_reply \<times> auth_state" where
  "login env now req username password verdict st =
     (let key = loginKey env req username in
      case loginLimit key now verdict st of
        Some refusal \<Rightarrow> (refusal, st)
      | None \<Rightarrow>
          (case (case (username, password) of (JStr n, JStr p) \<Rightarrow> findUser env n p | _ \<Rightarrow> None) of
             None \<Rightarrow> (Refused 401 ''invalid_credentials'' ''Invalid username or password.'' None,
                      snd (warnOnRepeats username now (recordFailure key now st)))
           | Some found \<Rightarrow>
               (issue env found,
                st\<lparr>failures := table_delete key (failures st),
                   nameFailures := table_delete (toLowerCase (typedName username)) (nameFailures st)\<rparr>)))"

text \<open>Sign-out; \<open>now\<close> in seconds. The table is pruned and the token stored only when it verifies.\<close>

definition logout :: "'d auth_env \<Rightarrow> int \<Rightarrow> http_request \<Rightarrow> auth_state \<Rightarrow> auth_reply \<times> auth_state" where
  "logout env now req st =
     (case tokenOf req of
        None \<Rightarrow> (Cleared, st)
      | Some token \<Rightarrow>
          (if token = [] then (Cleared, st)
           else (case jwtVerify env now req of
                   None \<Rightarrow> (Cleared, st)
                 | Some cl \<Rightarrow>
                     (case cl_exp cl of
                        None \<Rightarrow> (Cleared, st)
                      | Some e \<Rightarrow>
                          (if e = 0 then (Cleared, st)
                           else (Cleared, st\<lparr>signedOut := put_signed_out (keyOf env token) e
                                    (filter (\<lambda>p. \<not> snd p \<le> now) (signedOut st))\<rparr>))))))"

text \<open>Renewal, after the guard has put the claims on the request.\<close>

definition refresh :: "'d auth_env \<Rightarrow> string option \<Rightarrow> auth_reply" where
  "refresh env sub =
     (case filter (\<lambda>u. Some (u_name u) = sub) (users env) of
        [u] \<Rightarrow> issue env u
      | _ \<Rightarrow> Refused 401 ''unauthorized'' ''Your session has expired. Sign in again.'' None)"

record me_answer =
  me_authEnabled :: bool
  me_name :: string
  me_role :: role
  me_expiresIn :: "int option"
  me_pages :: "(string \<times> role) list"

definition me :: "'d auth_env \<Rightarrow> int \<Rightarrow> http_request \<Rightarrow> auth_state \<Rightarrow> auth_reply + me_answer" where
  "me env now req st =
     (if \<not> enabled env then
        Inr \<lparr>me_authEnabled = False, me_name = ''anonymous'', me_role = Admin, me_expiresIn = None, me_pages = pageRoles requiredRole\<rparr>
      else (case authenticate env now req st of
              None \<Rightarrow> Inl (Refused 401 ''unauthorized'' ''Your session has expired. Sign in again.'' None)
            | Some (cl, u) \<Rightarrow>
                Inr \<lparr>me_authEnabled = True, me_name = u_name u, me_role = u_role u,
                     me_expiresIn = Some (max 0 ((case cl_exp cl of Some e \<Rightarrow> e | None \<Rightarrow> 0) - now)),
                     me_pages = pageRoles requiredRole\<rparr>))"

subsection \<open>What a viewer may read\<close>

definition isNetworkKey :: "jsval \<Rightarrow> bool" where
  "isNetworkKey key = (case key of JStr k \<Rightarrow> startsWith k ''net.if'' | _ \<Rightarrow> False)"

definition hidesNetwork :: "'d auth_env \<Rightarrow> string option \<Rightarrow> bool" where
  "hidesNetwork env attached \<longleftrightarrow> \<not> roleAllows (roleOf env attached) Operator"

definition withoutNetworkItems :: "('i \<Rightarrow> jsval) \<Rightarrow> 'i list \<Rightarrow> 'i list" where
  "withoutNetworkItems key_of items = filter (\<lambda>i. \<not> isNetworkKey (key_of i)) items"

text \<open>\<open>item_keys\<close> is \<open>item.get\<close> for the ids: the keys of the items Zabbix knows.\<close>

definition hasNetworkItem :: "(string list \<Rightarrow> api_error + jsval list) \<Rightarrow> string list \<Rightarrow> api_error + bool" where
  "hasNetworkItem item_keys ids =
     (if js_set ids = [] then Inr False
      else and_then (item_keys (js_set ids)) (\<lambda>found. Inr (list_ex isNetworkKey found)))"

definition networkItemsDenied ::
  "'d auth_env \<Rightarrow> (string list \<Rightarrow> api_error + jsval list) \<Rightarrow> string option \<Rightarrow> string list \<Rightarrow> api_error + string option" where
  "networkItemsDenied env item_keys attached ids =
     (if \<not> hidesNetwork env attached then Inr None
      else and_then (hasNetworkItem item_keys ids) (\<lambda>has.
        Inr (if has then Some (''Network interface data needs the '' @ quote ''operator'' @ '' role; you are signed in as ''
                               @ quote (role_text (roleOf env attached)) @ ''.'')
             else None)))"

subsection \<open>A history of the tables\<close>

datatype auth_event =
    Login http_request jsval jsval "limit_verdict option"
  | Logout http_request

fun auth_step :: "'d auth_env \<Rightarrow> auth_event \<times> int \<Rightarrow> auth_state \<Rightarrow> auth_state" where
  "auth_step env (Login req n p v, now) st = snd (login env now req n p v st)"
| "auth_step env (Logout req, now) st = snd (logout env (now div 1000) req st)"

definition auth_run :: "'d auth_env \<Rightarrow> (auth_event \<times> int) list \<Rightarrow> auth_state \<Rightarrow> auth_state" where
  "auth_run env evs st = fold (auth_step env) evs st"

subsection \<open>The tables stay small\<close>

definition tables_ok :: "auth_state \<Rightarrow> bool" where
  "tables_ok st \<longleftrightarrow> wf_table (failures st) \<and> wf_table (nameFailures st) \<and> wf_table (signedOut st) \<and>
     length (failures st) \<le> LOGIN_FAIL_KEYS \<and> length (nameFailures st) \<le> LOGIN_FAIL_KEYS \<and> length (signedOut st) \<le> LOGIN_FAIL_KEYS"

lemma tables_ok_failure [inv_intros]: "tables_ok st \<Longrightarrow> tables_ok (recordFailure key now st)"
  by (simp add: tables_ok_def recordFailure_def Let_def failure_table.put_wf failure_table.put_bound)

lemma tables_ok_warn [inv_intros]: "tables_ok st \<Longrightarrow> tables_ok (snd (warnOnRepeats username now st))"
  by (simp add: tables_ok_def warnOnRepeats_def Let_def name_table.put_wf name_table.put_bound)

lemma tables_ok_login: "tables_ok st \<Longrightarrow> tables_ok (snd (login env now req n p v st))"
proof -
  assume ok: "tables_ok st"
  have "tables_ok (st\<lparr>failures := table_delete k (failures st), nameFailures := table_delete j (nameFailures st)\<rparr>)" for k j
    using ok by (simp add: tables_ok_def wf_table_delete length_table_delete_le)
  then show ?thesis using ok tables_ok_warn tables_ok_failure
    by (simp add: login_def Let_def split: option.splits)
qed

lemma tables_ok_logout: "tables_ok st \<Longrightarrow> tables_ok (snd (logout env now req st))"
proof -
  assume ok: "tables_ok st"
  have "wf_table (filter (\<lambda>p. \<not> snd p \<le> now) (signedOut st))" using ok by (simp add: tables_ok_def wf_table_filter)
  moreover have "length (filter (\<lambda>p. \<not> snd p \<le> now) (signedOut st)) \<le> LOGIN_FAIL_KEYS"
    using ok by (intro length_filter_bound) (simp add: tables_ok_def)
  ultimately show ?thesis using ok
    by (simp add: logout_def tables_ok_def signed_out_table.put_wf signed_out_table.put_bound split: option.splits)
qed

lemma tables_ok_run: "tables_ok st \<Longrightarrow> tables_ok (auth_run env evs st)"
proof (induction evs arbitrary: st)
  case Nil
  then show ?case by (simp add: auth_run_def)
next
  case (Cons ev evs)
  have "tables_ok (auth_step env ev st)"
    using Cons.prems by (cases "(env, ev, st)" rule: auth_step.cases) (simp_all add: tables_ok_login tables_ok_logout)
  then show ?case using Cons.IH by (simp add: auth_run_def)
qed

subsection \<open>Consecutive failures\<close>

text \<open>The failures of one key at the given times, one after another.\<close>

definition fail_at :: "string \<Rightarrow> int list \<Rightarrow> auth_state \<Rightarrow> auth_state" where
  "fail_at key ts st = fold (recordFailure key) ts st"

definition lock_end :: "nat \<Rightarrow> int \<Rightarrow> int" where
  "lock_end n now = (if n \<ge> 10 then now + min (60000 * 2 ^ (n - 10)) 300000 else 0)"

fun in_a_row :: "int list \<Rightarrow> bool" where
  "in_a_row (s # t # ts) \<longleftrightarrow> t - s < 60 * 60000 \<and> in_a_row (t # ts)"
| "in_a_row ts \<longleftrightarrow> True"

lemma recordFailure_get:
  assumes "tables_ok st"
  shows "table_get (failures (recordFailure key now st)) key = Some
     (let n = (case table_get (failures st) key of
            Some prev \<Rightarrow> (if now - f_last prev < LOGIN_FAIL_TTL_MS then f_count prev else 0) | None \<Rightarrow> 0) + 1
      in \<lparr>f_count = n, f_last = now, f_until = lock_end n now\<rparr>)"
  using assms failure_table.put_get
  by (simp add: recordFailure_def Let_def tables_ok_def lock_end_def LOGIN_LOCK_AFTER_def LOGIN_LOCK_BASE_MS_def LOGIN_LOCK_MAX_MS_def)

lemma in_a_row_snoc: "in_a_row (ts @ [s, t]) \<longleftrightarrow> in_a_row (ts @ [s]) \<and> t - s < 60 * 60000"
proof (induction ts)
  case (Cons a ts)
  then show ?case by (cases ts) auto
qed simp

lemma fail_at_count:
  assumes "tables_ok st" "table_get (failures st) key = None" "in_a_row (ts @ [now])"
  shows "table_get (failures (fail_at key (ts @ [now]) st)) key =
     Some \<lparr>f_count = Suc (length ts), f_last = now, f_until = lock_end (Suc (length ts)) now\<rparr>"
  using assms(3)
proof (induction ts arbitrary: now rule: rev_induct)
  case Nil
  then show ?case using recordFailure_get [OF assms(1), of key now] assms(2) by (simp add: fail_at_def)
next
  case (snoc s ts)
  have r: "in_a_row (ts @ [s])" "now - s < LOGIN_FAIL_TTL_MS"
    using snoc.prems by (simp_all add: in_a_row_snoc LOGIN_FAIL_TTL_MS_def)
  have "tables_ok (fail_at key ts' st)" for ts'
    unfolding fail_at_def using assms(1) by (induction ts' arbitrary: st) (simp_all add: tables_ok_failure)
  then have "tables_ok (fail_at key (ts @ [s]) st)" .
  then show ?case using recordFailure_get [of "fail_at key (ts @ [s]) st" key now] snoc.IH [OF r(1)] r(2)
    by (simp add: fail_at_def Let_def)
qed

subsection \<open>A signed-out token\<close>

text \<open>Where a key stands in the table: at most \<open>n\<close> keys were stored after it.\<close>

definition recent :: "string \<Rightarrow> int \<Rightarrow> nat \<Rightarrow> (string, int) table \<Rightarrow> bool" where
  "recent k e n t \<longleftrightarrow> (\<exists>a b. t = a @ (k, e) # b \<and> length b \<le> n)"

lemma recent_get: "recent k e n t \<Longrightarrow> wf_table t \<Longrightarrow> table_get t k = Some e"
  unfolding recent_def by (auto intro!: wf_table_get)

lemma recent_filter: "recent k e n t \<Longrightarrow> P (k, e) \<Longrightarrow> recent k e n (filter P t)"
proof -
  assume "recent k e n t" "P (k, e)"
  then obtain a b where "t = a @ (k, e) # b" "length b \<le> n" by (auto simp: recent_def)
  then have "filter P t = filter P a @ (k, e) # filter P b" "length (filter P b) \<le> n"
    using \<open>P (k, e)\<close> by (simp_all add: length_filter_bound)
  then show ?thesis unfolding recent_def by blast
qed

lemma table_set_append: "k' \<notin> set (table_keys a) \<Longrightarrow> table_set k' v (a @ b) = a @ table_set k' v b"
  by (induction a) auto

lemma length_table_set: "length (table_set k v t) \<le> Suc (length t)"
  by (induction t) auto

lemma recent_set:
  assumes "recent k e n t" "k' \<noteq> k"
  shows "recent k e (Suc n) (table_set k' v t)"
proof -
  obtain a b where t: "t = a @ (k, e) # b" "length b \<le> n" using assms(1) by (auto simp: recent_def)
  show ?thesis
  proof (cases "k' \<in> set (table_keys a)")
    case True
    then have "table_set k' v (a @ c) = table_set k' v a @ c" for c by (induction a) auto
    then show ?thesis using t unfolding recent_def by (metis le_Suc_eq)
  next
    case False
    then have "table_set k' v t = a @ (k, e) # table_set k' v b" using assms(2) t(1) by (simp add: table_set_append)
    then show ?thesis using t(2) length_table_set [of k' v b] unfolding recent_def by (metis Suc_le_mono le_trans)
  qed
qed

lemma recent_drop: "recent k e n t \<Longrightarrow> n < mx \<Longrightarrow> recent k e n (drop_oldest mx t)"
proof -
  assume r: "recent k e n t" "n < mx"
  obtain a b where t: "t = a @ (k, e) # b" "length b \<le> n" using r(1) by (auto simp: recent_def)
  show ?thesis
  proof (cases a)
    case Nil
    then show ?thesis using r t by (auto simp: drop_oldest_def)
  next
    case (Cons p ps)
    then have "drop_oldest mx t = a @ (k, e) # b \<or> drop_oldest mx t = ps @ (k, e) # b"
      using t by (simp add: drop_oldest_def)
    then show ?thesis using t(2) unfolding recent_def by blast
  qed
qed

text \<open>The number of sign-outs in a history.\<close>

definition logouts :: "(auth_event \<times> int) list \<Rightarrow> nat" where
  "logouts evs = length (filter (\<lambda>ev. case fst ev of Logout _ \<Rightarrow> True | _ \<Rightarrow> False) evs)"

lemma login_signedOut [simp]: "signedOut (snd (login env now req n p v st)) = signedOut st"
  by (simp add: login_def Let_def recordFailure_def warnOnRepeats_def split: option.splits)

lemma logout_recent:
  assumes "recent k e n (signedOut st)" "now < e" "Suc n < LOGIN_FAIL_KEYS"
    and "\<And>tok. tokenOf req = Some tok \<Longrightarrow> keyOf env tok \<noteq> k"
  shows "recent k e (Suc n) (signedOut (snd (logout env now req st)))"
proof -
  have up: "recent k e (Suc n) (signedOut st)" using assms(1) unfolding recent_def by (meson le_SucI)
  have "recent k e (Suc n) (put_signed_out k' v (filter (\<lambda>p. \<not> snd p \<le> now) (signedOut st)))" if "k' \<noteq> k" for k' v
    unfolding put_signed_out_def
    by (rule recent_drop [OF recent_set [OF recent_filter [OF assms(1)] that] assms(3)]) (use assms(2) in simp)
  then show ?thesis using up assms(4) by (simp add: logout_def split: option.splits)
qed

lemma recent_run:
  assumes "recent k e n (signedOut st)" "n + logouts evs < LOGIN_FAIL_KEYS"
    and "\<forall>ev \<in> set evs. snd ev div 1000 < e"
    and "\<forall>req now tok. (Logout req, now) \<in> set evs \<longrightarrow> tokenOf req = Some tok \<longrightarrow> keyOf env tok \<noteq> k"
  shows "recent k e (n + logouts evs) (signedOut (auth_run env evs st))"
  using assms
proof (induction evs arbitrary: st n)
  case Nil
  then show ?case by (simp add: auth_run_def logouts_def)
next
  case (Cons ev evs)
  have later: "\<forall>ev \<in> set evs. snd ev div 1000 < e"
    "\<forall>req now tok. (Logout req, now) \<in> set evs \<longrightarrow> tokenOf req = Some tok \<longrightarrow> keyOf env tok \<noteq> k"
    using Cons.prems(3,4) by auto
  show ?case
  proof (cases "(env, ev, st)" rule: auth_step.cases)
    case (1 env' req nm p v now st')
    then have "recent k e n (signedOut (auth_step env ev st))" "logouts (ev # evs) = logouts evs"
      using Cons.prems(1) by (simp_all add: logouts_def)
    then show ?thesis using Cons.IH [of n "auth_step env ev st", OF _ _ later] Cons.prems(2) by (simp add: auth_run_def)
  next
    case (2 env' req now st')
    then have l: "logouts (ev # evs) = Suc (logouts evs)" by (simp add: logouts_def)
    have "recent k e (Suc n) (signedOut (auth_step env ev st))"
      using 2 Cons.prems l by (auto intro!: logout_recent)
    then show ?thesis using Cons.IH [of "Suc n" "auth_step env ev st", OF _ _ later] Cons.prems(2) l by (simp add: auth_run_def)
  qed
qed

lemma put_recent: "k \<notin> set (table_keys t) \<Longrightarrow> recent k e 0 (put_signed_out k e t)"
  unfolding put_signed_out_def
  by (rule recent_drop) (auto simp: recent_def table_set_fresh LOGIN_FAIL_KEYS_def)

subsection \<open>Entries of the user list\<close>

lemma takeWhile_until: "c \<notin> set w \<Longrightarrow> takeWhile (\<lambda>d. d \<noteq> c) (w @ c # s) = w"
  by (induction w) auto

lemma splitEntry_three:
  assumes "CHR '':'' \<notin> set n" "CHR '':'' \<notin> set r"
  shows "splitEntry (n @ CHR '':'' # p @ CHR '':'' # r) = \<lparr>se_name = trim n, se_pass = trim p, se_role = Some (trim r)\<rparr>"
proof -
  let ?e = "n @ CHR '':'' # p @ CHR '':'' # r"
  have f: "before CHR '':'' ?e = n" unfolding before_def by (rule takeWhile_until [OF assms(1)])
  have "rev ?e = rev r @ CHR '':'' # rev p @ CHR '':'' # rev n" by simp
  then have l: "before CHR '':'' (rev ?e) = rev r"
    unfolding before_def using takeWhile_until [of "CHR '':''" "rev r"] assms(2) by simp
  have pos: "length ?e - Suc (length (rev r)) = Suc (length n + length p)" by simp
  have take: "take (Suc (length n + length p)) ?e = n @ CHR '':'' # p" by simp
  have drop: "drop (Suc (Suc (length n + length p))) ?e = r" by simp
  show ?thesis unfolding splitEntry_def Let_def f l pos take drop by simp
qed

subsection \<open>Properties\<close>


definition sample_users :: "string portal_user list" where
  "sample_users = [\<lparr>u_name = ''ana'', u_pass = ''x'', u_check = Plain ''x'', u_role = Operator\<rparr>,
                   \<lparr>u_name = ''bo'', u_pass = ''y'', u_check = Plain ''y'', u_role = Viewer\<rparr>]"

text \<open>
  A sample environment: tokens are the name of their user, and the library reads the Bearer header
  by the test the source quotes for it (\<open>hasBearer\<close>), else the cookie.
\<close>

definition library_token :: "http_request \<Rightarrow> string option" where
  "library_token req = (if hasBearer req then map_option (\<lambda>h. trim (drop 7 h)) (rq_authorization req) else rq_cookie req)"

definition sample_env :: "string auth_env" where
  "sample_env = \<lparr>enabled = True, sessionEpoch = ''1'', sessionHours = 12, users = sample_users, sha = id,
     kdf = \<lambda>_ _ _ _. [], decode_uri = Some, parse_url = \<lambda>_. None, jwt_lookup = library_token,
     jwt_claims = \<lambda>now t. Some \<lparr>cl_sub = Some t, cl_role = None, cl_exp = Some (now + 3600), cl_epoch = None\<rparr>,
     digest = id, normalizeIP = id\<rparr>"

definition sample_request :: "string \<Rightarrow> string option \<Rightarrow> string option \<Rightarrow> http_request" where
  "sample_request route auth ck = \<lparr>rq_method = ''GET'', rq_route = Some route, rq_url = route, rq_authorization = auth,
     rq_cookie = ck, rq_csrf = None, rq_origin = None, rq_host = None, rq_ip = ''10.0.0.1''\<rparr>"




text \<open>
  Memory is bounded. After any history of sign-ins and sign-outs with any names, passwords,
  addresses and tokens, each of the three tables holds at most 10,000 keys, each once.
\<close>

theorem auth_tables_bounded:
  "let st = auth_run env evs auth_start in
     length (failures st) \<le> 10000 \<and> length (nameFailures st) \<le> 10000 \<and> length (signedOut st) \<le> 10000 \<and>
     distinct (table_keys (failures st)) \<and> distinct (table_keys (nameFailures st)) \<and> distinct (table_keys (signedOut st))"
proof -
  have "tables_ok auth_start" by (simp add: tables_ok_def auth_start_def)
  then have "tables_ok (auth_run env evs auth_start)" by (rule tables_ok_run)
  then show ?thesis by (simp add: Let_def tables_ok_def wf_table_def LOGIN_FAIL_KEYS_def)
qed




text \<open>
  Renewing a session never changes who it is for: \<open>refresh\<close> issues a token only when exactly one
  configured user has the session's name, for that name and with that user's configured role; and a
  sign-in issues one only for a configured user whose stored password verifies and whose name is the one
  typed up to case, preferring the exact spelling.
\<close>

theorem issued_tokens_are_configured:
  "(refresh env sub = Issued n r ep life \<longrightarrow>
      (\<exists>u. filter (\<lambda>u. Some (u_name u) = sub) (users env) = [u] \<and> n = u_name u \<and> r = u_role u \<and> sub = Some n)) \<and>
   (fst (login env now req username password verdict st) = Issued n r ep life \<longrightarrow>
      (\<exists>u w p. username = JStr w \<and> password = JStr p \<and> u \<in> set (users env) \<and> n = u_name u \<and> r = u_role u \<and> sameName n w \<and>
         verifyPassword (sha env) (kdf env) (u_check u) p \<and>
         (n = w \<or> (\<forall>v \<in> set (users env). u_name v = w \<longrightarrow> \<not> verifyPassword (sha env) (kdf env) (u_check v) p))))"
proof -
  have fu: "u \<in> set (users env) \<and> sameName (u_name u) w \<and> verifyPassword (sha env) (kdf env) (u_check u) p \<and>
      (u_name u = w \<or> (\<forall>v \<in> set (users env). u_name v = w \<longrightarrow> \<not> verifyPassword (sha env) (kdf env) (u_check v) p))"
    if f: "findUser env w p = Some u" for w p u
  proof -
    define ms where "ms = filter (\<lambda>u. verifyPassword (sha env) (kdf env) (u_check u) p) (filter (\<lambda>u. sameName (u_name u) w) (users env))"
    have c: "(\<exists>x. find (\<lambda>u. u_name u = w) ms = Some x \<and> u = x) \<or> (find (\<lambda>u. u_name u = w) ms = None \<and> ms \<noteq> [] \<and> u = hd ms)"
      using f by (auto simp: findUser_def Let_def simp del: filter_filter simp flip: ms_def split: option.splits list.splits)
    have "u \<in> set ms" using c by (metis find_Some_iff list.set_sel(1) nth_mem)
    moreover have "u_name u = w \<or> (\<forall>v \<in> set ms. u_name v \<noteq> w)" using c by (auto simp: find_Some_iff find_None_iff)
    ultimately show ?thesis by (auto simp: ms_def sameName_def)
  qed
  have "\<exists>u. filter (\<lambda>u. Some (u_name u) = sub) (users env) = [u] \<and> n = u_name u \<and> r = u_role u \<and> sub = Some n"
    if a: "refresh env sub = Issued n r ep life"
  proof -
    obtain u where u: "filter (\<lambda>u. Some (u_name u) = sub) (users env) = [u]"
      using a by (auto simp: refresh_def split: list.splits)
    have "u \<in> set (filter (\<lambda>u. Some (u_name u) = sub) (users env))" unfolding u by simp
    then have "Some (u_name u) = sub" by simp
    then show ?thesis using u a by (auto simp: refresh_def issue_def)
  qed
  moreover have "\<exists>u w p. username = JStr w \<and> password = JStr p \<and> u \<in> set (users env) \<and> n = u_name u \<and> r = u_role u \<and> sameName n w \<and>
         verifyPassword (sha env) (kdf env) (u_check u) p \<and>
         (n = w \<or> (\<forall>v \<in> set (users env). u_name v = w \<longrightarrow> \<not> verifyPassword (sha env) (kdf env) (u_check v) p))"
    if a: "fst (login env now req username password verdict st) = Issued n r ep life"
  proof -
    obtain w p u where u: "username = JStr w" "password = JStr p" "findUser env w p = Some u" "n = u_name u" "r = u_role u"
      using a by (auto simp: login_def Let_def issue_def loginLimit_def split: option.splits jsval.splits if_splits)
    show ?thesis using fu [OF u(3)] u by auto
  qed
  ultimately show ?thesis by blast
qed

lemma issued_tokens_are_configured_witness:
  "refresh sample_env (Some ''bo'') = Issued ''bo'' Viewer ''1'' 43200 \<and>
   (\<exists>u. filter (\<lambda>u. Some (u_name u) = Some ''bo'') (users sample_env) = [u])"
proof -
  have r: "refresh sample_env (Some ''bo'') = Issued ''bo'' Viewer ''1'' 43200"
    by (simp add: refresh_def sample_env_def sample_users_def issue_def)
  then show ?thesis using issued_tokens_are_configured [of sample_env "Some ''bo''" "''bo''" Viewer "''1''" 43200] by blast
qed

text \<open>
  Passwords may hold the separator: an entry written as name, password and role with \<open>:\<close> between reads
  back as exactly these (trimmed), whatever the password holds, when name and role hold no \<open>:\<close>.
\<close>

lemma user_entry_round_trip:
  assumes "CHR '':'' \<notin> set n" "CHR '':'' \<notin> set r"
  shows "splitEntry (n @ '':'' @ p @ '':'' @ r) = \<lparr>se_name = trim n, se_pass = trim p, se_role = Some (trim r)\<rparr>"
  using splitEntry_three [OF assms, of p] by simp

lemma user_entry_round_trip_witness:
  "splitEntry (''ana'' @ '':'' @ ''a:b::c'' @ '':'' @ ''operator'') = \<lparr>se_name = ''ana'', se_pass = ''a:b::c'', se_role = Some ''operator''\<rparr>"
proof -
  have "trim ''ana'' = ''ana''" "trim ''a:b::c'' = ''a:b::c''" "trim ''operator'' = ''operator''" by code_simp+
  then show ?thesis using user_entry_round_trip [of "''ana''" "''operator''" "''a:b::c''"] by simp
qed

end
