(* ===== verification/HostData.thy ===== *)
theory HostData
  imports Auth Sites Replay
begin

text \<open>
  Hosts and latest data: the rest of \<open>server/src/services/hosts.ts\<close> (\<open>getHostOverview\<close> is in \<open>Sites\<close>), the
  Devices page (\<open>server/src/services/devices.ts\<close>) and the routes over them (\<open>server/src/routes/hosts.ts\<close>): which
  items a request gets, by page, and what a viewer is not shown. The reads of \<open>item.get\<close> are parameters; the caches
  in front of them are the subject of \<open>CacheKeys\<close>.
\<close>

subsection \<open>Items\<close>

definition LATEST_LIMIT :: nat where "LATEST_LIMIT = 500"
definition LATEST_ID_LIMIT :: nat where "LATEST_ID_LIMIT = 20000"
definition MAX_ITEMIDS :: nat where "MAX_ITEMIDS = 50"

record z_item =
  zi_itemid :: string
  zi_name :: string
  zi_key :: "string option"
  zi_value_type :: string
  zi_status :: "string option"
  zi_state :: "string option"

definition key_val :: "z_item \<Rightarrow> jsval" where
  "key_val i = (case zi_key i of None \<Rightarrow> JUndef | Some k \<Rightarrow> JStr k)"

definition isGraphable :: "z_item \<Rightarrow> bool" where
  "isGraphable i \<longleftrightarrow> (zi_value_type i = ''0'' \<or> zi_value_type i = ''3'') \<and>
     zi_status i \<in> {None, Some ''0''} \<and> zi_state i \<in> {None, Some ''0''}"

record listed_host = host_row +
  lh_site :: "site_ref option"

definition getHosts :: "host_row list \<Rightarrow> listed_host list" where
  "getHosts hosts = map (\<lambda>h. host_row.extend h (listed_host.fields (siteFromHostName (ho_name h)))) hosts"

record item_query =
  iq_hostid :: "string option"
  iq_itemids :: "string list option"
  iq_search :: "string option"
  iq_graphable :: bool

text \<open>\<open>read\<close> is \<open>item.get\<close> for the query.\<close>

definition findItems :: "(item_query \<Rightarrow> api_error + z_item list) \<Rightarrow> item_query \<Rightarrow> api_error + z_item list" where
  "findItems read q = and_then (read q) (\<lambda>items. Inr (if iq_graphable q then filter isGraphable items else items))"

subsection \<open>Latest data\<close>

record latest_filter =
  lf_hostids :: "string option"
  lf_groupids :: "string option"

record latest_source =
  light_rows :: "latest_filter \<Rightarrow> string \<Rightarrow> nat \<Rightarrow> api_error + z_item list"
  details_of :: "string list \<Rightarrow> api_error + z_item list"
  first_rows :: "latest_filter \<Rightarrow> string option \<Rightarrow> nat \<Rightarrow> api_error + z_item list"

record latest_answer =
  la_items :: "z_item list"
  la_truncated :: bool
  la_total :: "nat option"
  la_page :: nat
  la_pageSize :: nat

definition by_name :: "(string \<Rightarrow> string \<Rightarrow> int) \<Rightarrow> z_item \<Rightarrow> z_item \<Rightarrow> int" where
  "by_name naturalCompare a b =
     or_else (naturalCompare (zi_name a) (zi_name b)) (naturalCompare (zi_itemid a) (zi_itemid b))"

text \<open>Every matching id, with whether it is an interface item.\<close>

definition latest_ids :: "(string \<Rightarrow> string \<Rightarrow> int) \<Rightarrow> z_item list \<Rightarrow> (string \<times> bool) list" where
  "latest_ids naturalCompare rows = map (\<lambda>r. (zi_itemid r, isNetworkKey (key_val r))) (js_sort (by_name naturalCompare) rows)"

definition getLatestPage ::
  "(string \<Rightarrow> string \<Rightarrow> int) \<Rightarrow> latest_source \<Rightarrow> latest_filter \<Rightarrow> string \<Rightarrow> nat \<Rightarrow> nat \<Rightarrow> bool \<Rightarrow> api_error + latest_answer" where
  "getLatestPage naturalCompare src flt needle page pageSize hide =
     and_then (light_rows src flt needle LATEST_ID_LIMIT) (\<lambda>rows.
       let all = latest_ids naturalCompare rows;
           ids = map fst (if hide then filter (\<lambda>r. \<not> snd r) all else all);
           slice = page_of ids page pageSize
       in and_then (if slice = [] then Inr [] else
             and_then (details_of src slice) (\<lambda>details.
               let byId = fold (\<lambda>d. table_set (zi_itemid d) d) details [] in Inr (List.map_filter (table_get byId) slice)))
           (\<lambda>items. Inr \<lparr>la_items = items, la_truncated = LATEST_ID_LIMIT \<le> length all, la_total = Some (length ids),
              la_page = page, la_pageSize = pageSize\<rparr>))"

definition getLatestItems :: "latest_source \<Rightarrow> latest_filter \<Rightarrow> string option \<Rightarrow> bool \<Rightarrow> api_error + latest_answer" where
  "getLatestItems src flt search hide =
     and_then (first_rows src flt search LATEST_LIMIT) (\<lambda>items.
       Inr \<lparr>la_items = (if hide then withoutNetworkItems key_val items else items),
         la_truncated = LATEST_LIMIT \<le> length items, la_total = None, la_page = 0, la_pageSize = 0\<rparr>)"

subsection \<open>The routes\<close>

definition js_text :: "string option \<Rightarrow> jsval" where
  "js_text s = (case s of None \<Rightarrow> JUndef | Some w \<Rightarrow> JStr w)"

definition filled :: "string option \<Rightarrow> bool" where
  "filled s \<longleftrightarrow> s \<noteq> None \<and> s \<noteq> Some []"

record items_request =
  ir_hostid :: "string option"
  ir_search :: "string option"
  ir_graphable :: "string option"
  ir_itemids :: "string option"

definition asked_items :: "string option \<Rightarrow> api_error + string list option" where
  "asked_items raw =
     (if \<not> filled raw then Inr None
      else and_then (all_or_error (map (\<lambda>s. requireId (JStr (trim s)) ''itemids'') (split_on CHR '','' (the raw))))
        (\<lambda>ids. Inr (Some (js_set ids))))"

definition items_route ::
  "'d auth_env \<Rightarrow> string option \<Rightarrow> (item_query \<Rightarrow> api_error + z_item list) \<Rightarrow> items_request \<Rightarrow> api_error + z_item list" where
  "items_route env attached read q =
     (let graphable = (ir_graphable q = Some ''1'' \<or> ir_graphable q = Some ''true'') in
      and_then (asked_items (ir_itemids q)) (\<lambda>itemids.
        if itemids \<noteq> None \<and> length (the itemids) > MAX_ITEMIDS then
          Inl (BadRequestError (''At most '' @ show_nat MAX_ITEMIDS @ '' itemids per request.''))
        else
          and_then (if itemids \<noteq> None then optionalId (js_text (ir_hostid q)) ''hostid''
                    else and_then (requireId (js_text (ir_hostid q)) ''hostid'') (\<lambda>h. Inr (Some h))) (\<lambda>hostid.
          and_then (findItems read \<lparr>iq_hostid = hostid, iq_itemids = itemids, iq_search = ir_search q, iq_graphable = graphable\<rparr>)
            (\<lambda>found. Inr (if hidesNetwork env attached then withoutNetworkItems key_val found else found)))))"

record latest_request =
  lr_hostid :: "string option"
  lr_groupid :: "string option"
  lr_search :: "string option"
  lr_page :: "string option"
  lr_pageSize :: "string option"

definition empty_answer :: "latest_request \<Rightarrow> latest_answer" where
  "empty_answer q =
     (if filled (lr_page q)
      then \<lparr>la_items = [], la_truncated = False, la_total = Some 0, la_page = 1, la_pageSize = nat (intParam (js_text (lr_pageSize q)) 100 25 500)\<rparr>
      else \<lparr>la_items = [], la_truncated = False, la_total = None, la_page = 0, la_pageSize = 0\<rparr>)"

definition latest_route ::
  "(string \<Rightarrow> string \<Rightarrow> int) \<Rightarrow> 'd auth_env \<Rightarrow> string option \<Rightarrow> latest_source \<Rightarrow> latest_request \<Rightarrow> api_error + latest_answer" where
  "latest_route naturalCompare env attached src q =
     (if \<not> filled (lr_hostid q) \<and> \<not> filled (lr_groupid q) then Inr (empty_answer q)
      else
        and_then (if filled (lr_hostid q) then optionalId (js_text (lr_hostid q)) ''hostid'' else Inr None) (\<lambda>h.
        and_then (if filled (lr_groupid q) then optionalId (js_text (lr_groupid q)) ''groupid'' else Inr None) (\<lambda>g.
          let flt = \<lparr>lf_hostids = h, lf_groupids = g\<rparr> in
          if filled (lr_page q) then
            getLatestPage naturalCompare src flt (trim (case lr_search q of Some s \<Rightarrow> s | None \<Rightarrow> []))
              (nat (intParam (js_text (lr_page q)) 1 1 1000000)) (nat (intParam (js_text (lr_pageSize q)) 100 25 500))
              (hidesNetwork env attached)
          else getLatestItems src flt (lr_search q) (hidesNetwork env attached))))"

subsection \<open>Devices\<close>

definition CLASS_ORDER :: "device_class list" where
  "CLASS_ORDER = [Switch, Firewall, AccessPoint, Repeater, Server, WanLink, Web, Other]"

record device_row = host_overview +
  dv_site :: "site_ref option"
  dv_category :: string
  dv_class :: device_class

record devices_answer =
  da_classes :: "(device_class \<times> string) list"
  da_devices :: "device_row list"

text \<open>\<open>templates\<close>: per host, the names of its parent templates.\<close>

definition getDevices :: "host_overview list \<Rightarrow> (string \<times> string list) list \<Rightarrow> devices_answer" where
  "getDevices overview templates =
     (let categoryByHost = fold (\<lambda>t. table_set (fst t) (categoryFor (snd t))) templates [] in
      \<lparr>da_classes = map (\<lambda>k. (k, DEVICE_CLASS_LABELS k)) CLASS_ORDER,
       da_devices = map (\<lambda>h.
         let category = (case table_get categoryByHost (ho_hostid h) of Some c \<Rightarrow> c | None \<Rightarrow> ''Other'')
         in host_overview.extend h (device_row.fields (siteFromHostName (ho_name h)) category (deviceClass (ho_name h) (Some category)))) overview\<rparr>)"

subsection \<open>Lemmas\<close>

text \<open>Zabbix as a list of items; \<open>matches\<close> is what a filter and a search text select.\<close>

definition latest_store :: "(latest_filter \<Rightarrow> string \<Rightarrow> z_item \<Rightarrow> bool) \<Rightarrow> z_item list \<Rightarrow> latest_source" where
  "latest_store matches stored =
     \<lparr>light_rows = (\<lambda>flt needle n. Inr (take n (filter (matches flt needle) stored))),
      details_of = (\<lambda>ids. Inr (filter (\<lambda>i. zi_itemid i \<in> set ids) stored)),
      first_rows = (\<lambda>flt search n. Inr (take n (filter (matches flt (case search of Some s \<Rightarrow> s | None \<Rightarrow> [])) stored)))\<rparr>"

definition shown :: "bool \<Rightarrow> z_item \<Rightarrow> bool" where
  "shown hide i \<longleftrightarrow> \<not> (hide \<and> isNetworkKey (key_val i))"

definition listed :: "(string \<Rightarrow> string \<Rightarrow> int) \<Rightarrow> bool \<Rightarrow> z_item list \<Rightarrow> z_item list" where
  "listed naturalCompare hide rows = filter (shown hide) (js_sort (by_name naturalCompare) rows)"

lemma page_of_map: "page_of (map f xs) p n = map f (page_of xs p n)"
  by (simp add: page_of_def take_map drop_map)

lemma listed_ids: "map fst (if hide then filter (\<lambda>r. \<not> snd r) (latest_ids nc rows) else latest_ids nc rows) = map zi_itemid (listed nc hide rows)"
  by (simp add: latest_ids_def listed_def shown_def [abs_def] filter_map comp_def)

lemma map_filter_Some: "(\<And>x. x \<in> set xs \<Longrightarrow> f (g x) = Some x) \<Longrightarrow> List.map_filter f (map g xs) = xs"
  by (induction xs) (simp_all add: map_filter_simps)

lemma details_by_id:
  assumes "distinct (map zi_itemid stored)" "set xs \<subseteq> set stored"
  shows "List.map_filter (table_get (fold (\<lambda>d. table_set (zi_itemid d) d) (filter (\<lambda>i. zi_itemid i \<in> set (map zi_itemid xs)) stored) []))
      (map zi_itemid xs) = xs"
proof -
  have "table_get (fold (\<lambda>d. table_set (zi_itemid d) d) (filter (\<lambda>i. zi_itemid i \<in> set (map zi_itemid xs)) stored) []) (zi_itemid x) = Some x"
    if x: "x \<in> set xs" for x
  proof (rule table_get_fold_set [of x])
    show "x \<in> set (filter (\<lambda>i. zi_itemid i \<in> set (map zi_itemid xs)) stored)" using x assms(2) by auto
    show "y = x" if "y \<in> set (filter (\<lambda>i. zi_itemid i \<in> set (map zi_itemid xs)) stored)" "zi_itemid y = zi_itemid x" for y
      using that x assms by (auto simp: distinct_map inj_on_def)
  qed simp
  then show ?thesis by (rule map_filter_Some)
qed

lemma getLatestPage_store:
  assumes "distinct (map zi_itemid stored)"
  shows "getLatestPage nc (latest_store matches stored) flt needle page pageSize hide =
    (let rows = take LATEST_ID_LIMIT (filter (matches flt needle) stored); xs = listed nc hide rows in
     Inr \<lparr>la_items = page_of xs page pageSize, la_truncated = LATEST_ID_LIMIT \<le> length rows, la_total = Some (length xs),
       la_page = page, la_pageSize = pageSize\<rparr>)"
proof -
  define rows where "rows = take LATEST_ID_LIMIT (filter (matches flt needle) stored)"
  let ?xs = "page_of (listed nc hide rows) page pageSize"
  have "set ?xs \<subseteq> set rows" using set_page_of [of "listed nc hide rows" page pageSize] by (auto simp: listed_def)
  then have sub: "set ?xs \<subseteq> set stored" using set_take_subset by (fastforce simp: rows_def)
  have ids: "map fst (if hide then filter (\<lambda>r. \<not> snd r) (latest_ids nc rows) else latest_ids nc rows) = map zi_itemid (listed nc hide rows)"
    by (rule listed_ids)
  have len: "length (latest_ids nc rows) = length rows" by (simp add: latest_ids_def)
  show ?thesis using details_by_id [OF assms sub]
    unfolding getLatestPage_def Let_def latest_store_def latest_source.simps and_then.simps rows_def [symmetric] ids
    unfolding page_of_map len by simp
qed

lemma latest_route_cases:
  "latest_route nc env attached src q = Inr a \<Longrightarrow>
   a = empty_answer q \<or> (\<exists>flt n p k. getLatestPage nc src flt n p k (hidesNetwork env attached) = Inr a) \<or>
   (\<exists>flt w. getLatestItems src flt w (hidesNetwork env attached) = Inr a)"
  unfolding latest_route_def Let_def and_then_Inr by (auto simp: and_then_Inr split: if_splits)

subsection \<open>Properties\<close>

text \<open>
  C9. Latest data, and what a viewer sees of it. With fewer than the twenty thousand matches one read returns, the pages of a
  search put together are all matching items, each once, sorted by name, and the total counts them; for a viewer they are
  the same list without the interface items. No answer of \<open>/api/items\<close> or \<open>/api/latest\<close> to a viewer holds an
  interface item.
\<close>

theorem latest_pages_are_the_list:
  assumes "distinct (map zi_itemid stored)" "0 < pageSize" "length (filter (matches flt needle) stored) < LATEST_ID_LIMIT"
  shows "concat (map (\<lambda>p. case getLatestPage nc (latest_store matches stored) flt needle (Suc p) pageSize hide of
        Inr a \<Rightarrow> la_items a | Inl e \<Rightarrow> []) [0..<Suc (length (filter (shown hide) (filter (matches flt needle) stored)) div pageSize)])
      = filter (shown hide) (js_sort (by_name nc) (filter (matches flt needle) stored)) \<and>
    (case getLatestPage nc (latest_store matches stored) flt needle page pageSize hide of
       Inr a \<Rightarrow> la_total a = Some (length (filter (shown hide) (filter (matches flt needle) stored))) \<and> \<not> la_truncated a
     | Inl e \<Rightarrow> False) \<and>
    (if hidesNetwork env attached
     then (case items_route env attached read q of Inl e \<Rightarrow> True | Inr items \<Rightarrow> list_all (shown True) items) \<and>
          (case latest_route nc env attached (latest_store matches stored) lq of Inl e \<Rightarrow> True | Inr a \<Rightarrow> list_all (shown True) (la_items a))
     else True)"
proof -
  have all: "take LATEST_ID_LIMIT (filter (matches flt needle) stored) = filter (matches flt needle) stored" using assms(3) by simp
  have len: "length (listed nc hide rows) = length (filter (shown hide) rows)" for rows
    by (metis listed_def mset_filter mset_js_sort size_mset)
  have tiles: "concat (map (\<lambda>p. case getLatestPage nc (latest_store matches stored) flt needle (Suc p) pageSize hide of
        Inr a \<Rightarrow> la_items a | Inl e \<Rightarrow> []) [0..<Suc (length (filter (shown hide) (filter (matches flt needle) stored)) div pageSize)])
      = filter (shown hide) (js_sort (by_name nc) (filter (matches flt needle) stored))"
    using all_pages [OF assms(2), of "listed nc hide (filter (matches flt needle) stored)"]
    by (simp add: getLatestPage_store [OF assms(1)] Let_def all listed_def len [of "filter (matches flt needle) stored", unfolded listed_def] del: filter_filter upt_Suc)
  have items: "case items_route env attached read q of Inl e \<Rightarrow> True | Inr items \<Rightarrow> list_all (shown True) items"
    if "hidesNetwork env attached"
    using that by (auto simp: items_route_def Let_def and_then_Inr withoutNetworkItems_def list_all_iff shown_def split: sum.split)
  have pages: "list_all (shown True) (page_of (listed nc True rows) p n)" for rows p n
    using set_page_of [of "listed nc True rows" p n] by (auto simp: list_all_iff listed_def)
  have latest: "case latest_route nc env attached (latest_store matches stored) lq of Inl e \<Rightarrow> True | Inr a \<Rightarrow> list_all (shown True) (la_items a)"
    if "hidesNetwork env attached"
  proof (cases "latest_route nc env attached (latest_store matches stored) lq")
    case (Inr a)
    have p1: "list_all (shown True) (la_items a)" if "getLatestPage nc (latest_store matches stored) f n p k True = Inr a" for f n p k
      using that pages by (auto simp: getLatestPage_store [OF assms(1)] Let_def)
    have p2: "list_all (shown True) (la_items a)" if "getLatestItems (latest_store matches stored) f w True = Inr a" for f w
      using that by (auto simp: getLatestItems_def and_then_Inr withoutNetworkItems_def list_all_iff shown_def)
    have p3: "list_all (shown True) (la_items (empty_answer lq))" by (simp add: empty_answer_def)
    show ?thesis using latest_route_cases [OF Inr] that p1 p2 p3 Inr by auto
  qed simp
  show ?thesis using tiles items latest len assms(3)
    by (simp add: getLatestPage_store [OF assms(1)] Let_def all not_le del: filter_filter upt_Suc)
qed

definition two_items :: "z_item list" where
  "two_items = map (\<lambda>(i, n, k). \<lparr>zi_itemid = i, zi_name = n, zi_key = Some k, zi_value_type = ''3'', zi_status = None, zi_state = None\<rparr>)
     [(''1'', ''Bits in'', ''net.if.in[1]''), (''2'', ''CPU'', ''system.cpu.util'')]"

theorem latest_pages_are_the_list_witness:
  "(case getLatestPage (\<lambda>a b. compare (length a) (length b)) (latest_store (\<lambda>_ _ _. True) two_items)
      \<lparr>lf_hostids = Some ''1'', lf_groupids = None\<rparr> [] 1 25 True of Inr a \<Rightarrow> la_total a = Some 1 | Inl e \<Rightarrow> False)"
  using latest_pages_are_the_list [of two_items 25 "\<lambda>_ _ _. True" "\<lparr>lf_hostids = Some ''1'', lf_groupids = None\<rparr>" "[]"
      "\<lambda>a b. compare (length a) (length b)" True 1 sample_env None "\<lambda>_. Inr []" "\<lparr>ir_hostid = None, ir_search = None, ir_graphable = None, ir_itemids = None\<rparr>"
      "\<lparr>lr_hostid = None, lr_groupid = None, lr_search = None, lr_page = None, lr_pageSize = None\<rparr>"]
  by (auto simp: two_items_def LATEST_ID_LIMIT_def shown_def key_val_def isNetworkKey_def startsWith_def split: sum.splits)

end
