(* ===== verification/Maps.thy ===== *)
theory Maps
  imports Problems Sites
begin

text \<open>
  Network maps (\<open>server/src/services/maps.ts\<close>): the labels Zabbix returns with their macros, the problems of the
  hosts on a map, and the copy a viewer gets. The reads are parameters.
\<close>

subsection \<open>\<open>resolveLabel\<close>\<close>

record map_interface =
  mi_ip :: string
  mi_dns :: string
  mi_useip :: string
  mi_main :: string

record map_host =
  mh_hostid :: string
  mh_host :: string
  mh_name :: string
  mh_interfaces :: "map_interface list option"

text \<open>\<open>replace(/\{[^{}]*\}/g, f)\<close>: the leftmost brace whose text up to the next brace ends in a closing one.\<close>

definition plain_char :: "char \<Rightarrow> bool" where
  "plain_char c \<longleftrightarrow> c \<noteq> CHR ''{'' \<and> c \<noteq> CHR ''}''"

function expand_macros :: "(string \<Rightarrow> string) \<Rightarrow> string \<Rightarrow> string" where
  "expand_macros f [] = []"
| "expand_macros f (c # s) =
     (let body = takeWhile plain_char s; rest = dropWhile plain_char s in
      if c = CHR ''{'' \<and> rest \<noteq> [] \<and> hd rest = CHR ''}'' then f (c # body @ ''}'') @ expand_macros f (tl rest)
      else c # expand_macros f s)"
  by pat_completeness auto

termination
proof (relation "measure (\<lambda>(f, s). length s)", goal_cases)
  case (2 f c s body rest)
  have "length rest \<le> length s" by (simp add: 2 length_dropWhile_le)
  then show ?case by (cases rest) auto
qed simp_all

text \<open>\<open>replace(/\(\s*\)/g, '')\<close>.\<close>

function drop_empty_brackets :: "string \<Rightarrow> string" where
  "drop_empty_brackets [] = []"
| "drop_empty_brackets (c # s) =
     (let rest = dropWhile is_space s in
      if c = CHR ''('' \<and> rest \<noteq> [] \<and> hd rest = CHR '')'' then drop_empty_brackets (tl rest) else c # drop_empty_brackets s)"
  by pat_completeness auto

termination
proof (relation "measure length", goal_cases)
  case (2 c s rest)
  have "length rest \<le> length s" by (simp add: 2 length_dropWhile_le)
  then show ?case by (cases rest) auto
qed simp_all

definition main_interface :: "map_host \<Rightarrow> map_interface option" where
  "main_interface h =
     (let is = or_nil (mh_interfaces h) in
      case find (\<lambda>i. mi_main i = ''1'') is of Some i \<Rightarrow> Some i | None \<Rightarrow> (case is of i # _ \<Rightarrow> Some i | [] \<Rightarrow> None))"

definition macro_values :: "map_host option \<Rightarrow> (string, string option) table" where
  "macro_values host =
     (let iface = Option.bind host main_interface in
      [(''{HOST.NAME}'', map_option mh_name host), (''{HOSTNAME}'', map_option mh_name host),
       (''{HOST.HOST}'', map_option mh_host host), (''{HOST.IP}'', map_option mi_ip iface), (''{IPADDRESS}'', map_option mi_ip iface),
       (''{HOST.DNS}'', map_option mi_dns iface),
       (''{HOST.CONN}'', map_option (\<lambda>i. if mi_useip i = ''1'' then mi_ip i else mi_dns i) iface)])"

definition macro_value :: "map_host option \<Rightarrow> string \<Rightarrow> string" where
  "macro_value host m = (case table_get (macro_values host) m of Some (Some v) \<Rightarrow> v | _ \<Rightarrow> [])"

definition resolveLabel :: "string \<Rightarrow> map_host option \<Rightarrow> string" where
  "resolveLabel label host =
     join [CHR 0x0A] (filter (\<lambda>l. l \<noteq> []) (map (\<lambda>l. trim (drop_empty_brackets l))
       (split_on CHR 0x0A (filter (\<lambda>c. c \<noteq> CHR 0x0D) (expand_macros (macro_value host) label)))))"

subsection \<open>\<open>getMapDetail\<close>\<close>

record selement =
  se_selementid :: string
  se_elementtype :: string
  se_label :: "string option"
  se_elements :: "(string option \<times> string option) list option"

text \<open>What is added to a host element: its host and the open problems there.\<close>

record element_state =
  es_hostid :: string
  es_hostName :: "string option"
  es_problems :: nat
  es_maxSeverity :: int

record shown_element = selement +
  sn_labelText :: string
  sn_state :: "element_state option"

record map_link =
  ml_selementid1 :: "string option"
  ml_selementid2 :: "string option"

record 'e z_map =
  zm_sysmapid :: string
  zm_selements :: "'e list option"
  zm_links :: "map_link list option"

text \<open>The host of a host element: \<open>elements[0].hostid\<close>, when it has one.\<close>

definition element_host :: "selement \<Rightarrow> string option" where
  "element_host s =
     (if se_elementtype s = ''0''
      then (case or_nil (se_elements s) of (Some h, _) # _ \<Rightarrow> (if h \<noteq> [] then Some h else None) | _ \<Rightarrow> None) else None)"

definition map_hostids :: "selement z_map list \<Rightarrow> string list" where
  "map_hostids maps =
     js_set (filter (\<lambda>h. h \<noteq> []) (List.map_filter fst (concat (map (\<lambda>s. or_nil (se_elements s))
       (filter (\<lambda>s. se_elementtype s = ''0'') (concat (map (\<lambda>m. or_nil (zm_selements m)) maps)))))))"

definition host_status :: "problem list \<Rightarrow> (string, nat \<times> int) table" where
  "host_status problems =
     group_into host_of (\<lambda>_. (0, -1)) (\<lambda>p s. (Suc (fst s), max (snd s) (num0 (Some (severity p)))))
       (filter (\<lambda>p. host_of p \<noteq> []) problems)"

definition show_element :: "map_host list \<Rightarrow> (string, nat \<times> int) table \<Rightarrow> selement \<Rightarrow> shown_element" where
  "show_element hosts status s =
     (let hostid = element_host s;
          hostById = fold (\<lambda>h. table_set (mh_hostid h) h) hosts [];
          host = Option.bind hostid (table_get hostById);
          state = map_option (\<lambda>h.
            let st = (case table_get status h of Some x \<Rightarrow> x | None \<Rightarrow> (0, -1))
            in \<lparr>es_hostid = h, es_hostName = map_option mh_name host, es_problems = fst st, es_maxSeverity = snd st\<rparr>) hostid
      in selement.extend s (shown_element.fields (resolveLabel (or_nil (se_label s)) host) state))"

text \<open>\<open>hosts_by_id\<close> is \<open>host.get\<close>; with no host on the map neither hosts nor problems are read.\<close>

definition getMapDetail ::
  "(string list \<Rightarrow> 'err + map_host list) \<Rightarrow> 'err + problem list \<Rightarrow> selement z_map list \<Rightarrow> 'err + shown_element z_map list" where
  "getMapDetail hosts_by_id problems_read maps =
     (let hostids = map_hostids maps in
      and_then (if hostids = [] then Inr [] else hosts_by_id hostids) (\<lambda>hosts.
      and_then (if hostids = [] then Inr [] else problems_read) (\<lambda>problems.
        let status = host_status (openProblems problems) in
        Inr (map (\<lambda>m. \<lparr>zm_sysmapid = zm_sysmapid m, zm_selements = Some (map (show_element hosts status) (or_nil (zm_selements m))),
          zm_links = zm_links m\<rparr>) maps))))"

subsection \<open>What a viewer gets\<close>

definition network_element :: "string list \<Rightarrow> string list \<Rightarrow> shown_element \<Rightarrow> bool" where
  "network_element hostIds groupIds s =
     (let hostid = (case sn_state s of
            Some st \<Rightarrow> Some (es_hostid st)
          | None \<Rightarrow> (case or_nil (se_elements s) of (h, _) # _ \<Rightarrow> h | [] \<Rightarrow> None))
      in (case hostid of Some h \<Rightarrow> h \<in> set hostIds | None \<Rightarrow> False) \<or>
         list_ex (\<lambda>e. case snd e of Some g \<Rightarrow> g \<in> set groupIds | None \<Rightarrow> False) (or_nil (se_elements s)))"

definition link_end :: "string option \<Rightarrow> string" where
  "link_end i = (case i of Some s \<Rightarrow> s | None \<Rightarrow> ''undefined'')"

definition cut_map :: "string list \<Rightarrow> string list \<Rightarrow> shown_element z_map \<Rightarrow> shown_element z_map" where
  "cut_map hostIds groupIds m =
     (let gone = map se_selementid (filter (network_element hostIds groupIds) (or_nil (zm_selements m))) in
      if gone = [] then m
      else m\<lparr>zm_selements := Some (filter (\<lambda>s. se_selementid s \<notin> set gone) (or_nil (zm_selements m))),
             zm_links := map_option (filter (\<lambda>l. link_end (ml_selementid1 l) \<notin> set gone \<and> link_end (ml_selementid2 l) \<notin> set gone)) (zm_links m)\<rparr>)"

definition withoutNetworkElements :: "shown_element z_map list \<Rightarrow> string list \<Rightarrow> string list \<Rightarrow> shown_element z_map list" where
  "withoutNetworkElements maps hostIds groupIds =
     (if hostIds = [] \<and> groupIds = [] then maps else map (cut_map hostIds groupIds) maps)"

text \<open>\<open>hosts_in\<close> is \<open>host.get\<close> for host groups.\<close>

definition networkHostIds :: "(string list \<Rightarrow> 'err + string list) \<Rightarrow> string list \<Rightarrow> 'err + string list" where
  "networkHostIds hosts_in netGroupIds = (if netGroupIds = [] then Inr [] else hosts_in netGroupIds)"

text \<open>\<open>GET /api/maps/detail\<close>, after the id is checked; \<open>hide\<close> is \<open>hidesNetwork(req)\<close>.\<close>

definition map_detail_route ::
  "bool \<Rightarrow> 'err + shown_element z_map list \<Rightarrow> (string list \<Rightarrow> 'err + string list) \<Rightarrow> string list \<Rightarrow> 'err + shown_element z_map list" where
  "map_detail_route hide detail hosts_in netGroupIds =
     and_then detail (\<lambda>maps.
       if hide then and_then (networkHostIds hosts_in netGroupIds) (\<lambda>hosts. Inr (withoutNetworkElements maps hosts netGroupIds))
       else Inr maps)"

subsection \<open>Lemmas\<close>

lemma count_status:
  "fold (\<lambda>p s. (Suc (fst s), max (snd s) (num0 (Some (severity p))))) ps (0, -1) =
     (length ps, Max (insert (-1) ((\<lambda>p. num0 (Some (severity p))) ` set ps)))"
proof (induction ps rule: rev_induct)
  case (snoc p ps)
  have "Max (insert (-1) ((\<lambda>p. num0 (Some (severity p))) ` set (ps @ [p]))) =
      max (Max (insert (-1) ((\<lambda>p. num0 (Some (severity p))) ` set ps))) (num0 (Some (severity p)))"
    by (simp add: insert_commute [of "-1"] max.commute)
  then show ?case using snoc by simp
qed simp

text \<open>The reference: an element with what is stored of its host.\<close>

definition state_of_host :: "map_host list \<Rightarrow> problem list \<Rightarrow> string \<Rightarrow> element_state" where
  "state_of_host db ps h =
     \<lparr>es_hostid = h, es_hostName = map_option mh_name (find (\<lambda>x. mh_hostid x = h) db), es_problems = length (problems_of ps h),
      es_maxSeverity = Max (insert (-1) ((\<lambda>p. num0 (Some (severity p))) ` set (problems_of ps h)))\<rparr>"

definition element_shown :: "map_host list \<Rightarrow> problem list \<Rightarrow> selement \<Rightarrow> shown_element" where
  "element_shown db ps s =
     selement.extend s (shown_element.fields
       (resolveLabel (or_nil (se_label s)) (Option.bind (element_host s) (\<lambda>h. find (\<lambda>x. mh_hostid x = h) db)))
       (map_option (state_of_host db ps) (element_host s)))"

lemma host_status_get:
  assumes "h \<noteq> []"
  shows "(case table_get (host_status ps) h of Some x \<Rightarrow> x | None \<Rightarrow> (0, -1)) =
     (length (problems_of ps h), Max (insert (-1) ((\<lambda>p. num0 (Some (severity p))) ` set (problems_of ps h))))"
proof -
  have "filter (\<lambda>p. host_of p = h) (filter (\<lambda>p. host_of p \<noteq> []) ps) = problems_of ps h"
    unfolding problems_of_def filter_filter by (rule filter_cong) (use assms in auto)
  then show ?thesis by (simp add: host_status_def group_into_get Let_def) (use count_status [of "problems_of ps h"] in simp)
qed

lemma table_of_hosts:
  assumes "distinct (map mh_hostid db)" "h \<in> set ids"
  shows "table_get (fold (\<lambda>x. table_set (mh_hostid x) x) (filter (\<lambda>x. mh_hostid x \<in> set ids) db) []) h = find (\<lambda>x. mh_hostid x = h) db"
proof (cases "find (\<lambda>x. mh_hostid x = h) db")
  case None
  then have "h \<notin> mh_hostid ` set (filter (\<lambda>x. mh_hostid x \<in> set ids) db)" by (auto simp: find_None_iff)
  then show ?thesis using None by (simp add: table_get_fold_other)
next
  case (Some x)
  then have x: "x \<in> set db" "mh_hostid x = h" by (auto simp: find_Some_iff)
  have "table_get (fold (\<lambda>x. table_set (mh_hostid x) x) (filter (\<lambda>x. mh_hostid x \<in> set ids) db) []) h = Some x"
    by (rule table_get_fold_set [of x]) (use x assms in \<open>auto simp: distinct_map inj_on_def\<close>)
  then show ?thesis using Some by simp
qed

lemma element_host_listed:
  assumes "m \<in> set maps" "s \<in> set (or_nil (zm_selements m))" "element_host s = Some h"
  shows "h \<in> set (map_hostids maps) \<and> h \<noteq> []"
proof -
  from assms(3) obtain g es where e: "or_nil (se_elements s) = (Some h, g) # es" "se_elementtype s = ''0''" "h \<noteq> []"
    by (auto simp: element_host_def split: if_splits list.splits option.splits prod.splits)
  then have "h \<in> set (List.map_filter fst (concat (map (\<lambda>s. or_nil (se_elements s))
       (filter (\<lambda>s. se_elementtype s = ''0'') (concat (map (\<lambda>m. or_nil (zm_selements m)) maps))))))"
    using assms(1,2) unfolding set_map_filter by fastforce
  then show ?thesis using e by (simp add: map_hostids_def)
qed

lemma show_element_store:
  assumes "distinct (map mh_hostid db)" "m \<in> set maps" "s \<in> set (or_nil (zm_selements m))"
  shows "show_element (filter (\<lambda>x. mh_hostid x \<in> set (map_hostids maps)) db) (host_status ps) s = element_shown db ps s"
proof (cases "element_host s")
  case None
  then show ?thesis by (simp add: show_element_def element_shown_def Let_def)
next
  case (Some h)
  note h = element_host_listed [OF assms(2,3) Some]
  show ?thesis using host_status_get [of h ps] table_of_hosts [OF assms(1), of h "map_hostids maps"] h Some
    by (simp add: show_element_def element_shown_def state_of_host_def Let_def)
qed

subsection \<open>Properties\<close>

text \<open>
  C10. A map shows the state of its hosts, and a viewer's map no network. Every host element carries the open problems of
  its host, counted, their worst severity (-1 without any) and its label with the macros of that host. In a viewer's
  copy exactly the elements of network hosts and network host groups are missing, and of the links those that
  end at one; anyone else gets the whole map.
\<close>

theorem maps_show_state_and_hide_the_network:
  assumes "distinct (map mh_hostid db)" "\<forall>m \<in> set maps. distinct (map se_selementid (or_nil (zm_selements m)))"
  shows "\<exists>shown. map_detail_route hide (getMapDetail (\<lambda>ids. Inr (filter (\<lambda>x. mh_hostid x \<in> set ids) db)) (Inr problems) maps)
      (\<lambda>_. Inr nets) groups = Inr shown \<and>
    list_all2 (\<lambda>m out.
       let whole = map (element_shown db (openProblems problems)) (or_nil (zm_selements m));
           gone = (\<lambda>s. hide \<and> network_element (if groups = [] then [] else nets) groups s) in
       zm_sysmapid out = zm_sysmapid m \<and>
       or_nil (zm_selements out) = filter (\<lambda>s. \<not> gone s) whole \<and>
       zm_links out = map_option (filter (\<lambda>l. \<not> list_ex (\<lambda>s. gone s \<and> se_selementid s \<in> {link_end (ml_selementid1 l), link_end (ml_selementid2 l)}) whole)) (zm_links m))
      maps shown"
proof -
  let ?ps = "openProblems problems" and ?nets = "if groups = [] then [] else nets"
  define whole where "whole m = map (element_shown db ?ps) (or_nil (zm_selements m))" for m :: "selement z_map"
  define detail where "detail m = \<lparr>zm_sysmapid = zm_sysmapid m, zm_selements = Some (whole m), zm_links = zm_links m\<rparr>" for m :: "selement z_map"
  have none: "show_element [] [] s = element_shown db ?ps s" if "map_hostids maps = []" "m \<in> set maps" "s \<in> set (or_nil (zm_selements m))" for m s
    using element_host_listed [OF that(2,3)] that(1) by (cases "element_host s") (auto simp: show_element_def element_shown_def Let_def)
  have no_rows: "openProblems [] = []" "host_status [] = []" by (simp_all add: host_status_def openProblems_def)
  have d: "getMapDetail (\<lambda>ids. Inr (filter (\<lambda>x. mh_hostid x \<in> set ids) db)) (Inr problems) maps = Inr (map detail maps)"
  proof (cases "map_hostids maps = []")
    case True
    then show ?thesis using none [OF True] by (auto simp: getMapDetail_def Let_def detail_def whole_def no_rows)
  next
    case False
    then show ?thesis using show_element_store [OF assms(1), of _ maps] by (auto simp: getMapDetail_def Let_def detail_def whole_def)
  qed
  have cut: "or_nil (zm_selements (cut_map ?nets groups (detail m))) = filter (\<lambda>s. \<not> network_element ?nets groups s) (whole m) \<and>
      zm_sysmapid (cut_map ?nets groups (detail m)) = zm_sysmapid m \<and>
      zm_links (cut_map ?nets groups (detail m)) = map_option (filter (\<lambda>l. \<not> list_ex (\<lambda>s. network_element ?nets groups s \<and>
        se_selementid s \<in> {link_end (ml_selementid1 l), link_end (ml_selementid2 l)}) (whole m))) (zm_links m)"
    if m: "m \<in> set maps" for m
  proof -
    have ids: "map se_selementid (whole m) = map se_selementid (or_nil (zm_selements m))"
      by (simp add: whole_def element_shown_def selement.defs)
    have "distinct (map se_selementid (whole m))" unfolding ids using assms(2) m by blast
    then have "se_selementid s \<in> se_selementid ` {s \<in> set (whole m). network_element ?nets groups s} \<longleftrightarrow> network_element ?nets groups s"
      if "s \<in> set (whole m)" for s using that by (auto simp: distinct_map inj_on_def)
    then have f: "filter (\<lambda>s. se_selementid s \<notin> se_selementid ` {s \<in> set (whole m). network_element ?nets groups s}) (whole m)
        = filter (\<lambda>s. \<not> network_element ?nets groups s) (whole m)" by (intro filter_cong) auto
    have l: "i \<notin> se_selementid ` {s \<in> set (whole m). network_element ?nets groups s} \<and> j \<notin> se_selementid ` {s \<in> set (whole m). network_element ?nets groups s}
        \<longleftrightarrow> \<not> list_ex (\<lambda>s. network_element ?nets groups s \<and> se_selementid s \<in> {i, j}) (whole m)" for i j
      by (auto simp: list_ex_iff)
    show ?thesis
    proof (cases "filter (network_element ?nets groups) (whole m) = []")
      case True
      then have "cut_map ?nets groups (detail m) = detail m" by (simp add: cut_map_def detail_def or_nil_def)
      moreover have "\<forall>s \<in> set (whole m). \<not> network_element ?nets groups s" using True by (simp add: filter_empty_conv)
      ultimately show ?thesis
        by (cases "zm_links m") (simp_all add: detail_def or_nil_def list_ex_iff cong: filter_cong)
    next
      case False
      then show ?thesis using f l by (simp add: cut_map_def detail_def or_nil_def Let_def)
    qed
  qed
  have nets: "networkHostIds (\<lambda>_. Inr nets) groups = Inr ?nets" by (simp add: networkHostIds_def)
  have "list_all2 (\<lambda>m out. zm_sysmapid out = zm_sysmapid m \<and> or_nil (zm_selements out) = filter (\<lambda>s. \<not> network_element ?nets groups s) (whole m) \<and>
      zm_links out = map_option (filter (\<lambda>l. \<not> list_ex (\<lambda>s. network_element ?nets groups s \<and>
        se_selementid s \<in> {link_end (ml_selementid1 l), link_end (ml_selementid2 l)}) (whole m))) (zm_links m))
      maps (map (cut_map ?nets groups) (map detail maps))"
    using cut by (simp add: list_all2_conv_all_nth del: if_split)
  moreover have "withoutNetworkElements (map detail maps) ?nets groups = map (cut_map ?nets groups) (map detail maps)"
  proof (cases "groups = []")
    case True
    then have "\<not> network_element [] [] s" for s by (auto simp: network_element_def Let_def list_ex_iff split: option.splits list.splits)
    then show ?thesis using True by (simp add: withoutNetworkElements_def cut_map_def)
  qed (simp add: withoutNetworkElements_def)
  moreover have "list_all2 (\<lambda>m out. zm_sysmapid out = zm_sysmapid m \<and> or_nil (zm_selements out) = whole m \<and> zm_links out = zm_links m) maps (map detail maps)"
    by (simp add: list_all2_conv_all_nth detail_def or_nil_def)
  moreover have "map_option (filter (\<lambda>l. \<not> list_ex (\<lambda>s. False) ws)) x = x" for x :: "map_link list option" and ws :: "shown_element list"
    by (cases x) (simp_all add: list_ex_iff)
  ultimately show ?thesis
    by (cases hide) (simp_all add: map_detail_route_def d nets Let_def flip: whole_def del: map_map if_split)
qed

definition one_host :: map_host where
  "one_host = \<lparr>mh_hostid = ''7'', mh_host = ''core'', mh_name = ''Core'', mh_interfaces = None\<rparr>"

definition one_map :: "selement z_map" where
  "one_map = \<lparr>zm_sysmapid = ''1'', zm_selements = Some [\<lparr>se_selementid = ''4'', se_elementtype = ''0'', se_label = Some ''{HOST.NAME} ()'',
     se_elements = Some [(Some ''7'', None)]\<rparr>], zm_links = None\<rparr>"

theorem maps_show_state_and_hide_the_network_witness:
  "\<exists>out. map_detail_route True (getMapDetail (\<lambda>ids. Inr (filter (\<lambda>x. mh_hostid x \<in> set ids) [one_host])) (Inr []) [one_map])
     (\<lambda>_. Inr [''7'']) [''2''] = Inr [out] \<and> or_nil (zm_selements out) = []"
  using maps_show_state_and_hide_the_network [of "[one_host]" "[one_map]" True "[]" "[''7'']" "[''2'']"]
  by (auto simp: one_map_def or_nil_def Let_def list_all2_Cons1 element_shown_def element_host_def state_of_host_def
    network_element_def selement.defs shown_element.defs)

end
