(* ===== verification/Activity.thy ===== *)
theory Activity
  imports Sites
begin

text \<open>
  What the dashboard counts over the open problems and the last events (\<open>server/src/services/reports.ts\<close>,
  \<open>server/src/services/aging.ts\<close>): the busiest triggers, the totals, the problems of each host group and the age
  of the unacknowledged problems. The answers of Zabbix and the clock are parameters.
\<close>

subsection \<open>The busiest triggers\<close>

definition EVENT_LIMIT :: nat where "EVENT_LIMIT = 10000"

record event_row =
  ev_objectid :: string
  ev_name :: string
  ev_severity :: string
  ev_hosts :: "(string \<times> string) list option"

record top_trigger =
  tt_objectid :: string
  tt_name :: string
  tt_severity :: string
  tt_host :: string
  tt_count :: nat

record top_triggers =
  tts_triggers :: "top_trigger list"
  tts_truncated :: bool
  tts_days :: int

definition new_top :: "event_row \<Rightarrow> top_trigger" where
  "new_top e =
     \<lparr>tt_objectid = ev_objectid e, tt_name = ev_name e, tt_severity = ev_severity e,
      tt_host = (case ev_hosts e of Some (h # _) \<Rightarrow> snd h | _ \<Rightarrow> []), tt_count = 0\<rparr>"

definition count_top :: "event_row \<Rightarrow> top_trigger \<Rightarrow> top_trigger" where
  "count_top e t = t\<lparr>tt_count := Suc (tt_count t)\<rparr>"

definition top_of :: "event_row list \<Rightarrow> top_trigger list" where
  "top_of events =
     take 100 (js_sort (\<lambda>a b. compare (tt_count b) (tt_count a))
       (map snd (object_entries (group_into ev_objectid new_top count_top events))))"

text \<open>\<open>event_get from limit\<close> is the one read, newest event first.\<close>

definition getTopTriggers :: "int \<Rightarrow> int \<Rightarrow> (int \<Rightarrow> nat \<Rightarrow> 'e + event_row list) \<Rightarrow> 'e + top_triggers" where
  "getTopTriggers days now event_get =
     and_then (event_get (now - days * 86400) EVENT_LIMIT) (\<lambda>events.
       Inr \<lparr>tts_triggers = top_of events, tts_truncated = (EVENT_LIMIT \<le> length events), tts_days = days\<rparr>)"

subsection \<open>Totals\<close>

record stats =
  s_hosts :: jsnum
  s_items :: jsnum
  s_triggers :: jsnum
  s_groups :: jsnum
  s_problems :: nat
  s_unacknowledged :: nat
  s_bySeverity :: "(string, nat) table"

definition count_severities :: "string list \<Rightarrow> (string, nat) table" where
  "count_severities sevs = fold (\<lambda>sev t. table_set sev (Suc (count_of t sev)) t) sevs []"

definition unacked :: "problem list \<Rightarrow> problem list" where
  "unacked ps = filter (\<lambda>p. acknowledged p \<noteq> ''1'') ps"

text \<open>The five reads of \<open>Promise.all\<close>, the last one from the shared cache entry.\<close>

definition getStats :: "'e + string \<Rightarrow> 'e + string \<Rightarrow> 'e + string \<Rightarrow> 'e + string \<Rightarrow> 'e + problem list \<Rightarrow> 'e + stats" where
  "getStats hosts items triggers groups shared =
     and_then hosts (\<lambda>h. and_then items (\<lambda>i. and_then triggers (\<lambda>t. and_then groups (\<lambda>g. and_then shared (\<lambda>ps.
       let problems = openProblems ps in
       Inr \<lparr>s_hosts = js_number h, s_items = js_number i, s_triggers = js_number t, s_groups = js_number g,
            s_problems = length problems, s_unacknowledged = length (unacked problems),
            s_bySeverity = count_severities (map severity problems)\<rparr>)))))"

definition getFreshness :: "'e + ping_item list \<Rightarrow> int \<Rightarrow> int \<Rightarrow> 'e + collecting_status" where
  "getFreshness items read_at now =
     and_then (getCollecting items read_at) (\<lambda>(collected, readings). Inr (collectingStatus collected now readings))"

subsection \<open>Problems of each host group\<close>

record group_row =
  gr_groupid :: string
  gr_name :: string
  gr_hosts :: "string list option"

record group_problems =
  gp_groupid :: string
  gp_name :: string
  gp_total :: nat
  gp_bySeverity :: "(string, nat) table"

definition sev_by_host :: "problem list \<Rightarrow> (string, string list) table" where
  "sev_by_host problems =
     group_into host_of (\<lambda>_. []) (\<lambda>p sevs. sevs @ [severity p]) (filter (\<lambda>p. host_of p \<noteq> []) problems)"

definition group_severities :: "(string, string list) table \<Rightarrow> group_row \<Rightarrow> string list" where
  "group_severities t g = concat (map (table_list t) (or_nil (gr_hosts g)))"

definition count_group :: "(string, string list) table \<Rightarrow> group_row \<Rightarrow> group_problems" where
  "count_group t g =
     (let sevs = group_severities t g in
      \<lparr>gp_groupid = gr_groupid g, gp_name = gr_name g, gp_total = length sevs, gp_bySeverity = count_severities sevs\<rparr>)"

definition getProblemsByGroup :: "'e + group_row list \<Rightarrow> 'e + problem list \<Rightarrow> 'e + group_problems list" where
  "getProblemsByGroup group_get shared =
     and_then group_get (\<lambda>groups. and_then shared (\<lambda>ps.
       let t = sev_by_host (openProblems ps) in
       Inr (js_sort (\<lambda>a b. compare (gp_total b) (gp_total a)) (filter (\<lambda>g. 0 < gp_total g) (map (count_group t) groups)))))"

subsection \<open>The age of the unacknowledged problems\<close>

record old_problem =
  op_eventid :: string
  op_name :: string
  op_host :: string
  op_severity :: string
  op_clock :: string
  op_age :: jsnum

record aging_report =
  ag_buckets :: "(string \<times> nat) list"
  ag_unacknowledged :: nat
  ag_total :: nat
  ag_oldest :: "old_problem list"

text \<open>The labels as UTF-8: the dash of two of them is three bytes. No upper end is \<open>Infinity\<close>.\<close>

definition BUCKETS :: "(string \<times> rat option) list" where
  "BUCKETS =
     [(''Under 1h'', Some 3600), (''1'' @ [CHR 0xE2, CHR 0x80, CHR 0x93] @ ''4h'', Some (4 * 3600)),
      (''4'' @ [CHR 0xE2, CHR 0x80, CHR 0x93] @ ''24h'', Some 86400), (''Over 24h'', None)]"

definition age_of :: "int \<Rightarrow> string \<Rightarrow> jsnum" where
  "age_of now clock =
     (case js_number clock of Num q \<Rightarrow> Num (of_int now - q) | PosInf \<Rightarrow> NegInf | NegInf \<Rightarrow> PosInf | NaN \<Rightarrow> NaN)"

text \<open>\<open>age < end\<close>, false for \<open>NaN\<close>.\<close>

definition younger :: "rat option \<Rightarrow> jsnum \<Rightarrow> bool" where
  "younger e a = (case a of Num x \<Rightarrow> (case e of Some m \<Rightarrow> x < m | None \<Rightarrow> True) | NegInf \<Rightarrow> True | _ \<Rightarrow> False)"

text \<open>\<open>findIndex\<close>, and the last bucket when there is none.\<close>

fun find_bucket :: "rat option list \<Rightarrow> jsnum \<Rightarrow> nat option" where
  "find_bucket [] a = None"
| "find_bucket (e # es) a = (if younger e a then Some 0 else map_option Suc (find_bucket es a))"

definition bucket_of :: "jsnum \<Rightarrow> nat" where
  "bucket_of a = (case find_bucket (map snd BUCKETS) a of Some i \<Rightarrow> i | None \<Rightarrow> length BUCKETS - 1)"

definition add_to_bucket :: "nat \<Rightarrow> (string \<times> nat) list \<Rightarrow> (string \<times> nat) list" where
  "add_to_bucket i bs = bs[i := (fst (bs ! i), Suc (snd (bs ! i)))]"

definition old_row :: "int \<Rightarrow> problem \<Rightarrow> old_problem" where
  "old_row now p =
     \<lparr>op_eventid = eventid p, op_name = p_name p, op_host = (case p_host p of Some h \<Rightarrow> h | None \<Rightarrow> []),
      op_severity = severity p, op_clock = p_clock p, op_age = age_of now (p_clock p)\<rparr>"

definition getAging :: "int \<Rightarrow> 'e + problem list \<Rightarrow> 'e + aging_report" where
  "getAging now shared =
     and_then shared (\<lambda>ps.
       let problems = openProblems ps; un = unacked problems in
       Inr \<lparr>ag_buckets = fold (\<lambda>p. add_to_bucket (bucket_of (age_of now (p_clock p)))) un (map (\<lambda>b. (fst b, 0)) BUCKETS),
            ag_unacknowledged = length un, ag_total = length problems,
            ag_oldest = take 20 (js_sort (\<lambda>a b. sign_minus (op_age b) (op_age a)) (map (old_row now) un))\<rparr>)"

subsection \<open>Lemmas\<close>

lemma fold_count_top:
  "tt_count (fold count_top es t) = tt_count t + length es" "tt_objectid (fold count_top es t) = tt_objectid t"
  "tt_name (fold count_top es t) = tt_name t" "tt_host (fold count_top es t) = tt_host t"
  by (induction es arbitrary: t) (simp_all add: count_top_def)

definition events_of :: "string \<Rightarrow> event_row list \<Rightarrow> event_row list" where
  "events_of i es = filter (\<lambda>e. ev_objectid e = i) es"

lemma top_entry:
  "(k, t) \<in> set (group_into ev_objectid new_top count_top es) \<longleftrightarrow>
     events_of k es \<noteq> [] \<and> t = fold count_top (events_of k es) (new_top (hd (events_of k es)))"
  by (auto simp: group_into_entry events_of_def Let_def filter_empty_conv)

lemma hd_events_of: "events_of k es \<noteq> [] \<Longrightarrow> ev_objectid (hd (events_of k es)) = k"
  using hd_in_set [of "events_of k es"] by (simp add: events_of_def)

lemma top_row_figures:
  assumes "(k, t) \<in> set (group_into ev_objectid new_top count_top es)"
  shows "tt_objectid t = k" "tt_count t = length (events_of k es)" "tt_name t = ev_name (hd (events_of k es))" "0 < tt_count t"
  using assms hd_events_of by (auto simp: top_entry fold_count_top new_top_def)

definition counted :: "event_row list \<Rightarrow> top_trigger list" where
  "counted es = map snd (object_entries (group_into ev_objectid new_top count_top es))"

lemma counted_row: "t \<in> set (counted es) \<Longrightarrow> (tt_objectid t, t) \<in> set (group_into ev_objectid new_top count_top es)"
  using top_row_figures(1) by (fastforce simp: counted_def)

lemma counted_ids: "mset (map tt_objectid (counted es)) = mset (map fst (group_into ev_objectid new_top count_top es))"
proof -
  have "map tt_objectid (counted es) = map fst (object_entries (group_into ev_objectid new_top count_top es))"
    using top_row_figures(1) by (fastforce simp: counted_def)
  then show ?thesis by (simp only: mset_map mset_object_entries)
qed

lemma distinct_counted: "distinct (map tt_objectid (counted es))"
  using wf_group_into [of ev_objectid new_top count_top es] mset_eq_imp_distinct_iff [OF counted_ids [of es]]
  by (simp add: wf_table_def)

lemma set_counted: "tt_objectid ` set (counted es) = ev_objectid ` set es"
  using arg_cong [OF counted_ids [of es], of set_mset] group_into_keys [of ev_objectid new_top count_top es] by simp

lemma length_counted: "length (counted es) = card (ev_objectid ` set es)"
  using distinct_card [OF distinct_counted [of es]] by (simp add: set_counted)

lemma top_of_counted: "top_of es = take 100 (js_sort (\<lambda>a b. compare (tt_count b) (tt_count a)) (counted es))"
  by (simp add: top_of_def counted_def)

lemma top_of_rows: "t \<in> set (top_of es) \<Longrightarrow> t \<in> set (counted es)"
  unfolding top_of_counted by (auto dest: in_set_takeD)

lemma count_severities_get: "count_of (count_severities sevs) s = length (filter (\<lambda>x. x = s) sevs)"
proof -
  have "count_of (fold (\<lambda>sev t. table_set sev (Suc (count_of t sev)) t) sevs t) s = count_of t s + length (filter (\<lambda>x. x = s) sevs)" for t
    by (induction sevs arbitrary: t) (auto simp: count_of_def table_simps)
  from this [of "[]"] show ?thesis by (simp add: count_severities_def count_of_def)
qed

text \<open>The severities of the problems on some hosts, host by host; a problem without a host is on none.\<close>

definition on_hosts :: "problem list \<Rightarrow> string list \<Rightarrow> string list" where
  "on_hosts ps hs = concat (map (\<lambda>h. map severity (filter (\<lambda>p. host_of p = h \<and> h \<noteq> []) ps)) hs)"

lemma sev_by_host_get: "table_list (sev_by_host ps) h = map severity (filter (\<lambda>p. host_of p = h \<and> h \<noteq> []) ps)"
proof -
  have app: "fold (\<lambda>p sevs. sevs @ [severity p]) ys acc = acc @ map severity ys" for ys acc
    by (induction ys arbitrary: acc) simp_all
  have same: "filter (\<lambda>p. host_of p \<noteq> [] \<and> host_of p = h) ps = filter (\<lambda>p. host_of p = h \<and> h \<noteq> []) ps"
    by (rule filter_cong) auto
  show ?thesis by (simp add: sev_by_host_def group_into_get Let_def app filter_filter same)
qed

lemma group_severities_on_hosts: "group_severities (sev_by_host ps) g = on_hosts ps (or_nil (gr_hosts g))"
  unfolding group_severities_def on_hosts_def sev_by_host_get ..

subsection \<open>Properties\<close>

text \<open>
  C37. The list of the busiest triggers is exact for the events that were read: each listed trigger carries the
  number of its events and the name of its newest one, no trigger is listed twice, the busiest come first, a
  trigger that is left out has no more events than any listed one, and fewer than 100 rows mean that all are
  there. The report says so exactly when the read came back full.
\<close>

theorem busiest_triggers_are_exact:
  "case getTopTriggers days now event_get of
     Inl e \<Rightarrow> event_get (now - days * 86400) EVENT_LIMIT = Inl e
   | Inr r \<Rightarrow> (case event_get (now - days * 86400) EVENT_LIMIT of
       Inl _ \<Rightarrow> False
     | Inr es \<Rightarrow>
         list_all (\<lambda>t. events_of (tt_objectid t) es \<noteq> [] \<and> tt_count t = length (events_of (tt_objectid t) es)
            \<and> tt_name t = ev_name (hd (events_of (tt_objectid t) es))) (tts_triggers r) \<and>
         distinct (map tt_objectid (tts_triggers r)) \<and>
         sorted_wrt (\<lambda>a b. tt_count b \<le> tt_count a) (tts_triggers r) \<and>
         length (tts_triggers r) = min 100 (card (ev_objectid ` set es)) \<and>
         list_all (\<lambda>e. ev_objectid e \<in> tt_objectid ` set (tts_triggers r) \<or>
            list_all (\<lambda>t. length (events_of (ev_objectid e) es) \<le> tt_count t) (tts_triggers r)) es \<and>
         (tts_truncated r \<longleftrightarrow> EVENT_LIMIT \<le> length es))"
proof (cases "event_get (now - days * 86400) EVENT_LIMIT")
  case (Inr es)
  let ?s = "js_sort (\<lambda>a b. compare (tt_count b) (tt_count a)) (counted es)"
  have rows: "(tt_objectid t, t) \<in> set (group_into ev_objectid new_top count_top es)" if "t \<in> set (counted es)" for t
    using counted_row [OF that] .
  have "distinct (map tt_objectid (top_of es))"
    using distinct_take [of "map tt_objectid ?s" 100] distinct_counted [of es] by (simp add: top_of_counted take_map)
  moreover have "sorted_wrt (\<lambda>a b. tt_count b \<le> tt_count a) (top_of es)"
    unfolding top_of_counted by (rule sorted_wrt_take [OF largest_first])
  moreover have "ev_objectid e \<in> tt_objectid ` set (top_of es) \<or>
      list_all (\<lambda>t. length (events_of (ev_objectid e) es) \<le> tt_count t) (top_of es)" if "e \<in> set es" for e
  proof -
    have "ev_objectid e \<in> tt_objectid ` set (counted es)" using that by (simp add: set_counted)
    then obtain u where u: "u \<in> set (counted es)" "tt_objectid u = ev_objectid e" by (elim imageE) simp
    then have n: "tt_count u = length (events_of (ev_objectid e) es)" using top_row_figures(2) [OF rows] by simp
    show ?thesis
    proof (cases "u \<in> set (top_of es)")
      case True
      then show ?thesis using u(2) by force
    next
      case False
      have "tt_count u \<le> tt_count t" if "t \<in> set (top_of es)" for t
        using first_rows_before_rest [OF largest_first, of t 100 tt_count "counted es" u] that False u(1)
        unfolding top_of_counted by simp
      then show ?thesis using n by (simp add: list_all_iff)
    qed
  qed
  moreover have "list_all (\<lambda>t. events_of (tt_objectid t) es \<noteq> [] \<and> tt_count t = length (events_of (tt_objectid t) es)
      \<and> tt_name t = ev_name (hd (events_of (tt_objectid t) es))) (top_of es)"
    using top_row_figures [OF rows [OF top_of_rows]] by (simp add: list_all_iff)
  moreover have "length (top_of es) = min 100 (card (ev_objectid ` set es))"
    by (simp add: top_of_counted length_counted min.commute)
  ultimately show ?thesis using Inr by (simp add: getTopTriggers_def list_all_iff [of _ es])
qed (simp add: getTopTriggers_def)

text \<open>
  The dashboard's breakdown by host group: a group is listed exactly when an open problem is on one of its
  hosts, its total and its severities are those of the open problems on its hosts, and the groups with most
  problems come first.
\<close>

theorem group_problems_are_exact:
  "case getProblemsByGroup group_get shared of
     Inl e \<Rightarrow> (case group_get of Inl e' \<Rightarrow> e = e' | Inr _ \<Rightarrow> shared = Inl e)
   | Inr rows \<Rightarrow> (case (group_get, shared) of
       (Inr gs, Inr ps) \<Rightarrow>
         mset (map gp_groupid rows) = mset (map gr_groupid (filter (\<lambda>g. on_hosts (openProblems ps) (or_nil (gr_hosts g)) \<noteq> []) gs)) \<and>
         list_all (\<lambda>r. list_ex (\<lambda>g. gp_groupid r = gr_groupid g \<and> gp_name r = gr_name g \<and>
              gp_total r = length (on_hosts (openProblems ps) (or_nil (gr_hosts g))) \<and>
              count_of (gp_bySeverity r) = (\<lambda>s. length (filter (\<lambda>x. x = s) (on_hosts (openProblems ps) (or_nil (gr_hosts g)))))) gs) rows \<and>
         sorted_wrt (\<lambda>a b. gp_total b \<le> gp_total a) rows
     | _ \<Rightarrow> False)"
proof (cases group_get; cases shared)
  fix gs ps assume x: "group_get = Inr gs" and y: "shared = Inr ps"
  have "image_mset gp_groupid (filter_mset (\<lambda>g. 0 < gp_total g) (image_mset (count_group (sev_by_host (openProblems ps))) (mset gs)))
      = image_mset gr_groupid (filter_mset (\<lambda>g. on_hosts (openProblems ps) (or_nil (gr_hosts g)) \<noteq> []) (mset gs))"
    by (induction gs) (simp_all add: count_group_def Let_def group_severities_on_hosts)
  then show ?thesis using x y largest_first
    by (auto simp: getProblemsByGroup_def Let_def list_all_iff list_ex_iff count_group_def count_severities_get
        group_severities_on_hosts fun_eq_iff)
qed (simp_all add: getProblemsByGroup_def)

text \<open>The age report: every unacknowledged problem is in the bucket of its age, and the oldest are listed.\<close>

lemma bucket_of_range: "bucket_of a < 4"
  by (auto simp: bucket_of_def BUCKETS_def younger_def split: option.splits jsnum.splits if_splits)

definition in_bucket_at :: "int \<Rightarrow> nat \<Rightarrow> problem list \<Rightarrow> nat" where
  "in_bucket_at now i ps = length (filter (\<lambda>p. bucket_of (age_of now (p_clock p)) = i) ps)"

lemma fill_buckets:
  "length bs = 4 \<Longrightarrow> fold (\<lambda>p. add_to_bucket (bucket_of (age_of now (p_clock p)))) ps bs =
     map (\<lambda>i. (fst (bs ! i), snd (bs ! i) + in_bucket_at now i ps)) [0..<4]"
proof (induction ps arbitrary: bs)
  case Nil
  then show ?case by (intro nth_equalityI) (simp_all add: in_bucket_at_def)
next
  case (Cons p ps)
  let ?i = "bucket_of (age_of now (p_clock p))"
  have "length (add_to_bucket ?i bs) = 4" using Cons.prems by (simp add: add_to_bucket_def)
  from Cons.IH [OF this] show ?case using Cons.prems bucket_of_range [of "age_of now (p_clock p)"]
    by (auto simp: in_bucket_at_def add_to_bucket_def nth_list_update)
qed

theorem aging_counts_add_up:
  "case getAging now shared of
     Inl e \<Rightarrow> shared = Inl e
   | Inr r \<Rightarrow> (case shared of Inl _ \<Rightarrow> False | Inr ps \<Rightarrow>
       let un = unacked (openProblems ps) in
       map snd (ag_buckets r) =
         [length (filter (\<lambda>p. younger (Some 3600) (age_of now (p_clock p))) un),
          length (filter (\<lambda>p. \<not> younger (Some 3600) (age_of now (p_clock p)) \<and> younger (Some 14400) (age_of now (p_clock p))) un),
          length (filter (\<lambda>p. \<not> younger (Some 14400) (age_of now (p_clock p)) \<and> younger (Some 86400) (age_of now (p_clock p))) un),
          length (filter (\<lambda>p. \<not> younger (Some 86400) (age_of now (p_clock p))) un)] \<and>
       sum_list (map snd (ag_buckets r)) = ag_unacknowledged r \<and> ag_unacknowledged r = length un \<and>
       ag_total r = length (openProblems ps) \<and> length (ag_oldest r) = min 20 (length un))"
proof (cases shared)
  case (Inr ps)
  let ?un = "unacked (openProblems ps)"
  let ?bs = "map (\<lambda>b. (fst b, 0 :: nat)) BUCKETS"
  have four: "length ?bs = 4" "[0..<4] = [0, 1, 2, 3 :: nat]" by (simp_all add: BUCKETS_def upt_rec)
  have counts: "map snd (fold (\<lambda>p. add_to_bucket (bucket_of (age_of now (p_clock p)))) ?un ?bs)
      = [in_bucket_at now 0 ?un, in_bucket_at now 1 ?un, in_bucket_at now 2 ?un, in_bucket_at now 3 ?un]"
    unfolding fill_buckets [OF four(1)] four(2) by (simp add: BUCKETS_def)
  have all: "in_bucket_at now 0 un + (in_bucket_at now 1 un + (in_bucket_at now 2 un + in_bucket_at now 3 un)) = length un" for un
  proof (induction un)
    case (Cons p un)
    have "bucket_of (age_of now (p_clock p)) \<in> {0, 1, 2, 3}"
      using bucket_of_range [of "age_of now (p_clock p)"] by auto
    then show ?case using Cons by (auto simp: in_bucket_at_def)
  qed (simp add: in_bucket_at_def)
  have bucket: "bucket_of a = 0 \<longleftrightarrow> younger (Some 3600) a"
    "bucket_of a = 1 \<longleftrightarrow> \<not> younger (Some 3600) a \<and> younger (Some 14400) a"
    "bucket_of a = 2 \<longleftrightarrow> \<not> younger (Some 14400) a \<and> younger (Some 86400) a"
    "bucket_of a = 3 \<longleftrightarrow> \<not> younger (Some 86400) a" for a
    by (auto simp: bucket_of_def BUCKETS_def younger_def split: jsnum.splits)
  obtain r where r: "getAging now shared = Inr r"
    and "ag_buckets r = fold (\<lambda>p. add_to_bucket (bucket_of (age_of now (p_clock p)))) ?un ?bs"
    and rest: "ag_unacknowledged r = length ?un" "ag_total r = length (openProblems ps)" "length (ag_oldest r) = min 20 (length ?un)"
    using Inr by (simp add: getAging_def Let_def min.commute)
  then have b: "map snd (ag_buckets r) = [in_bucket_at now 0 ?un, in_bucket_at now 1 ?un, in_bucket_at now 2 ?un, in_bucket_at now 3 ?un]"
    using counts by simp
  then have "sum_list (map snd (ag_buckets r)) = length ?un" using all [of ?un] by simp
  then show ?thesis using Inr r rest b [unfolded in_bucket_at_def bucket] by (simp add: Let_def)
qed (simp add: getAging_def)

end
