(* ===== verification/Archive.thy ===== *)
theory Archive
  imports Calendar "HOL-Library.Word"
begin

text \<open>
  The ZIP writer behind the spreadsheet download (\<open>server/src/export/zip.ts\<close>). A \<open>Buffer\<close> is a list of bytes;
  every \<open>writeUInt\<close> checks its value as Node does and throws when it does not fit. \<open>deflateRawSync\<close> and \<open>crc32\<close>
  of \<open>node:zlib\<close> are parameters. A reader of the format, written from the format's side, says what an archive holds.
\<close>

unbundle bit_operations_syntax

type_synonym byte = "8 word"

subsection \<open>Buffers\<close>

text \<open>Byte \<open>i\<close> of a number, lowest first; a number in \<open>w\<close> bytes.\<close>

definition byte_at :: "nat \<Rightarrow> nat \<Rightarrow> byte" where
  "byte_at i v = word_of_nat (v div 256 ^ i)"

definition le :: "nat \<Rightarrow> nat \<Rightarrow> byte list" where
  "le w v = map (\<lambda>i. byte_at i v) [0..<w]"

datatype zip_error =
    TooManyEntries nat
  | BadNameLength nat
  | DuplicateEntry string
  | EntryTooLarge string
  | ArchiveTooLarge
  | OutOfRange nat

text \<open>\<open>buf.writeUInt16LE(v, off)\<close> and \<open>buf.writeUInt32LE(v, off)\<close> with \<open>w\<close> bytes.\<close>

definition write_le :: "nat \<Rightarrow> nat \<times> nat \<Rightarrow> byte list \<Rightarrow> zip_error + byte list" where
  "write_le w vo buf =
     (case vo of (v, off) \<Rightarrow>
        if v < 256 ^ w \<and> off + w \<le> length buf then Inr (take off buf @ le w v @ drop (off + w) buf) else Inl (OutOfRange v))"

text \<open>\<open>Buffer.alloc(n)\<close> and the writes on it, each as its width, value and offset.\<close>

definition header :: "nat \<Rightarrow> (nat \<times> nat \<times> nat) list \<Rightarrow> zip_error + byte list" where
  "header n writes = fold (\<lambda>(w, vo) buf. and_then buf (write_le w vo)) writes (Inr (replicate n 0))"

text \<open>\<open>Buffer.from(name, 'utf8')\<close> for code points below 256, which the model's characters are.\<close>

definition utf8 :: "string \<Rightarrow> byte list" where
  "utf8 s = concat (map (\<lambda>c. let n = of_char c :: nat in
     if n < 128 then [word_of_nat n] else [word_of_nat (192 + n div 64), word_of_nat (128 + n mod 64)]) s)"

subsection \<open>The writer\<close>

record zip_entry =
  ze_name :: string
  ze_data :: "byte list"

definition MAX_ENTRIES :: nat where "MAX_ENTRIES = 65535"
definition MAX_BYTES :: nat where "MAX_BYTES = 4294967295"
definition CONTENT_TYPES :: string where "CONTENT_TYPES = ''[Content_Types].xml''"

text \<open>A date is its milliseconds since 1970, or none when invalid. 315532800000 is the start of 1980.\<close>

definition stamp_time :: "int option \<Rightarrow> int" where
  "stamp_time now =
     (case now of
        Some t \<Rightarrow> (let y = year (civil (t div 86400000)) in if 1980 \<le> y \<and> y \<le> 2107 then t else 315532800000)
      | None \<Rightarrow> 315532800000)"

definition dosStamp :: "int option \<Rightarrow> nat \<times> nat" where
  "dosStamp now =
     (let ms = stamp_time now; d = civil (ms div 86400000); secs = (ms mod 86400000) div 1000
      in (push_bit 9 (nat (year d - 1980)) OR push_bit 5 (nat (month d)) OR nat (day d),
          push_bit 11 (nat (secs div 3600)) OR push_bit 5 (nat (secs mod 3600 div 60)) OR drop_bit 1 (nat (secs mod 60))))"

definition pack :: "(byte list \<Rightarrow> byte list) \<Rightarrow> byte list \<Rightarrow> nat \<times> byte list" where
  "pack deflate data =
     (let deflated = deflate data in if length deflated < length data then (8, deflated) else (0, data))"

definition content_types_first :: "zip_entry list \<Rightarrow> zip_entry list" where
  "content_types_first es =
     filter (\<lambda>e. ze_name e = CONTENT_TYPES) es @ filter (\<lambda>e. ze_name e \<noteq> CONTENT_TYPES) es"

record zip_state =
  z_seen :: "string list"
  z_locals :: "byte list"
  z_centrals :: "byte list"
  z_offset :: nat

definition needed_version :: "nat \<Rightarrow> nat" where
  "needed_version meth = (if meth = 8 then 20 else 10)"

definition FLAGS :: nat where "FLAGS = 0x0800"

definition local_writes :: "nat \<times> nat \<Rightarrow> nat \<Rightarrow> nat \<Rightarrow> nat \<Rightarrow> nat \<Rightarrow> nat \<Rightarrow> (nat \<times> nat \<times> nat) list" where
  "local_writes stamp meth crc packed len name_len =
     [(4, 0x04034b50, 0), (2, needed_version meth, 4), (2, FLAGS, 6), (2, meth, 8), (2, snd stamp, 10), (2, fst stamp, 12),
      (4, crc, 14), (4, packed, 18), (4, len, 22), (2, name_len, 26)]"

definition central_writes :: "nat \<times> nat \<Rightarrow> nat \<Rightarrow> nat \<Rightarrow> nat \<Rightarrow> nat \<Rightarrow> nat \<Rightarrow> nat \<Rightarrow> (nat \<times> nat \<times> nat) list" where
  "central_writes stamp meth crc packed len name_len offset =
     [(4, 0x02014b50, 0), (2, 20, 4), (2, needed_version meth, 6), (2, FLAGS, 8), (2, meth, 10), (2, snd stamp, 12),
      (2, fst stamp, 14), (4, crc, 16), (4, packed, 20), (4, len, 24), (2, name_len, 28), (4, offset, 42)]"

definition end_writes :: "nat \<Rightarrow> nat \<Rightarrow> nat \<Rightarrow> (nat \<times> nat \<times> nat) list" where
  "end_writes n directory_len offset = [(4, 0x06054b50, 0), (2, n, 8), (2, n, 10), (4, directory_len, 12), (4, offset, 16)]"

definition add_entry ::
  "(byte list \<Rightarrow> byte list) \<Rightarrow> (byte list \<Rightarrow> 32 word) \<Rightarrow> nat \<times> nat \<Rightarrow> zip_entry \<Rightarrow> zip_state \<Rightarrow> zip_error + zip_state" where
  "add_entry deflate crc32 stamp e st =
     (let name = utf8 (ze_name e); data = ze_data e in
      if name = [] \<or> 65535 < length name then Inl (BadNameLength (length name))
      else if ze_name e \<in> set (z_seen st) then Inl (DuplicateEntry (ze_name e))
      else if MAX_BYTES \<le> length data then Inl (EntryTooLarge (ze_name e))
      else
        let (meth, body) = pack deflate data; crc = unat (crc32 data) in
        and_then (header 30 (local_writes stamp meth crc (length body) (length data) (length name))) (\<lambda>local_header.
        and_then (header 46 (central_writes stamp meth crc (length body) (length data) (length name) (z_offset st))) (\<lambda>central.
          let offset = z_offset st + length local_header + length name + length body in
          if MAX_BYTES \<le> offset then Inl ArchiveTooLarge
          else Inr \<lparr>z_seen = z_seen st @ [ze_name e], z_locals = z_locals st @ local_header @ name @ body,
                    z_centrals = z_centrals st @ central @ name, z_offset = offset\<rparr>)))"

fun add_entries ::
  "(byte list \<Rightarrow> byte list) \<Rightarrow> (byte list \<Rightarrow> 32 word) \<Rightarrow> nat \<times> nat \<Rightarrow> zip_entry list \<Rightarrow> zip_state \<Rightarrow> zip_error + zip_state" where
  "add_entries deflate crc32 stamp [] st = Inr st"
| "add_entries deflate crc32 stamp (e # es) st =
     and_then (add_entry deflate crc32 stamp e st) (add_entries deflate crc32 stamp es)"

definition zip_archive ::
  "(byte list \<Rightarrow> byte list) \<Rightarrow> (byte list \<Rightarrow> 32 word) \<Rightarrow> int option \<Rightarrow> zip_entry list \<Rightarrow> zip_error + byte list" where
  "zip_archive deflate crc32 now entries =
     (if MAX_ENTRIES < length entries then Inl (TooManyEntries (length entries))
      else
        let ordered = content_types_first entries in
        and_then (add_entries deflate crc32 (dosStamp now) ordered \<lparr>z_seen = [], z_locals = [], z_centrals = [], z_offset = 0\<rparr>) (\<lambda>st.
        and_then (header 22 (end_writes (length ordered) (length (z_centrals st)) (z_offset st))) (\<lambda>end_record.
          Inr (z_locals st @ z_centrals st @ end_record))))"

subsection \<open>A reader\<close>

text \<open>
  What an archive holds, by the format: the end record is the last 22 bytes (an archive of this writer has no
  comment), it gives the number of entries and the place of the directory; an entry of the directory gives the
  method, the checksum, the two sizes and the place of its part, and a part's own header the length of its name.
\<close>

definition of_le :: "byte list \<Rightarrow> nat" where
  "of_le bs = foldr (\<lambda>b n. unat b + 256 * n) bs 0"

definition read_le :: "nat \<Rightarrow> nat \<Rightarrow> byte list \<Rightarrow> nat" where
  "read_le w off bs = of_le (take w (drop off bs))"

definition unpack :: "(byte list \<Rightarrow> byte list) \<Rightarrow> nat \<Rightarrow> byte list \<Rightarrow> byte list option" where
  "unpack inflate meth body = (if meth = 8 then Some (inflate body) else if meth = 0 then Some body else None)"

definition read_part :: "(byte list \<Rightarrow> byte list) \<Rightarrow> (byte list \<Rightarrow> 32 word) \<Rightarrow> nat \<Rightarrow> nat \<Rightarrow> nat \<Rightarrow> nat \<Rightarrow> nat \<Rightarrow> byte list \<Rightarrow> byte list option" where
  "read_part inflate crc32 meth crc packed len off bs =
     (if read_le 4 off bs \<noteq> 0x04034b50 then None
      else case unpack inflate meth (take packed (drop (off + 30 + read_le 2 (off + 26) bs + read_le 2 (off + 28) bs) bs)) of
        Some data \<Rightarrow> (if length data = len \<and> unat (crc32 data) = crc then Some data else None)
      | None \<Rightarrow> None)"

fun read_directory :: "(byte list \<Rightarrow> byte list) \<Rightarrow> (byte list \<Rightarrow> 32 word) \<Rightarrow> byte list \<Rightarrow> nat \<Rightarrow> nat \<Rightarrow> (byte list \<times> byte list) list option" where
  "read_directory inflate crc32 bs 0 pos = Some []"
| "read_directory inflate crc32 bs (Suc n) pos =
     (if read_le 4 pos bs \<noteq> 0x02014b50 then None
      else
        let name_len = read_le 2 (pos + 28) bs in
        case read_part inflate crc32 (read_le 2 (pos + 10) bs) (read_le 4 (pos + 16) bs) (read_le 4 (pos + 20) bs)
            (read_le 4 (pos + 24) bs) (read_le 4 (pos + 42) bs) bs of
          None \<Rightarrow> None
        | Some data \<Rightarrow>
            map_option (\<lambda>rest. (take name_len (drop (pos + 46) bs), data) # rest)
              (read_directory inflate crc32 bs n (pos + 46 + name_len + read_le 2 (pos + 30) bs + read_le 2 (pos + 32) bs)))"

definition unzip :: "(byte list \<Rightarrow> byte list) \<Rightarrow> (byte list \<Rightarrow> 32 word) \<Rightarrow> byte list \<Rightarrow> (byte list \<times> byte list) list option" where
  "unzip inflate crc32 bs =
     (let e = length bs - 22 in
      if length bs < 22 \<or> read_le 4 e bs \<noteq> 0x06054b50 then None
      else read_directory inflate crc32 bs (read_le 2 (e + 10) bs) (read_le 4 (e + 16) bs))"

subsection \<open>Numbers in bytes\<close>

lemma length_le [simp]: "length (le w v) = w"
  by (simp add: le_def)

lemma le_2: "le 2 v = [byte_at 0 v, byte_at 1 v]"
  by (simp add: le_def numeral_2_eq_2)

lemma le_4: "le 4 v = [byte_at 0 v, byte_at 1 v, byte_at 2 v, byte_at 3 v]"
  by (simp add: le_def numeral_eq_Suc)

lemma unat_byte_at: "unat (byte_at i v) = v div 256 ^ i mod 256"
  by (simp add: byte_at_def unat_of_nat)

lemma of_le_2 [simp]: "v < 65536 \<Longrightarrow> of_le [byte_at 0 v, byte_at (Suc 0) v] = v"
  by (simp add: of_le_def unat_byte_at)

lemma of_le_4 [simp]: "v < 4294967296 \<Longrightarrow> of_le [byte_at 0 v, byte_at (Suc 0) v, byte_at 2 v, byte_at 3 v] = v"
proof -
  assume v: "v < 4294967296"
  have parts: "v div 65536 = v div 256 div 256" "v div 16777216 = v div 256 div 256 div 256"
    by (simp_all flip: div_mult2_eq)
  have top_byte: "v div 16777216 < 256" by (rule less_mult_imp_div_less) (use v in simp)
  have "v mod 256 + 256 * (v div 256 mod 256 + 256 * (v div 65536 mod 256 + 256 * (v div 16777216))) = v"
    unfolding parts using div_mult_mod_eq [of v 256] div_mult_mod_eq [of "v div 256" 256] div_mult_mod_eq [of "v div 256 div 256" 256]
    by simp
  then show ?thesis using top_byte by (simp add: of_le_def unat_byte_at)
qed

lemma of_le_zeros [simp]: "of_le [0, 0] = 0"
  by (simp add: of_le_def)

subsection \<open>The headers\<close>

definition local_header :: "nat \<times> nat \<Rightarrow> nat \<Rightarrow> nat \<Rightarrow> nat \<Rightarrow> nat \<Rightarrow> nat \<Rightarrow> byte list" where
  "local_header stamp meth crc packed len name_len =
     le 4 0x04034b50 @ le 2 (needed_version meth) @ le 2 FLAGS @ le 2 meth @ le 2 (snd stamp) @ le 2 (fst stamp) @
     le 4 crc @ le 4 packed @ le 4 len @ le 2 name_len @ [0, 0]"

definition central_header :: "nat \<times> nat \<Rightarrow> nat \<Rightarrow> nat \<Rightarrow> nat \<Rightarrow> nat \<Rightarrow> nat \<Rightarrow> nat \<Rightarrow> byte list" where
  "central_header stamp meth crc packed len name_len offset =
     le 4 0x02014b50 @ le 2 20 @ le 2 (needed_version meth) @ le 2 FLAGS @ le 2 meth @ le 2 (snd stamp) @ le 2 (fst stamp) @
     le 4 crc @ le 4 packed @ le 4 len @ le 2 name_len @ replicate 12 0 @ le 4 offset"

definition end_record :: "nat \<Rightarrow> nat \<Rightarrow> nat \<Rightarrow> byte list" where
  "end_record n directory_len offset =
     le 4 0x06054b50 @ replicate 4 0 @ le 2 n @ le 2 n @ le 4 directory_len @ le 4 offset @ [0, 0]"

text \<open>Writes in the order of their offsets leave each value at its place and zeros between.\<close>

fun layout :: "nat \<Rightarrow> nat \<Rightarrow> (nat \<times> nat \<times> nat) list \<Rightarrow> byte list" where
  "layout off n [] = replicate (n - off) 0"
| "layout off n ((w, v, p) # ws) = replicate (p - off) 0 @ le w v @ layout (p + w) n ws"

fun ordered :: "nat \<Rightarrow> nat \<Rightarrow> (nat \<times> nat \<times> nat) list \<Rightarrow> bool" where
  "ordered off n [] \<longleftrightarrow> off \<le> n"
| "ordered off n ((w, v, p) # ws) \<longleftrightarrow> off \<le> p \<and> v < 256 ^ w \<and> ordered (p + w) n ws"

lemma ordered_le: "ordered off n ws \<Longrightarrow> off \<le> n"
  by (induction off n ws rule: ordered.induct) auto

lemma write_in_zeros:
  assumes "length pre = off" "off \<le> p" "p + w \<le> n" "v < 256 ^ w"
  shows "write_le w (v, p) (pre @ replicate (n - off) 0) = Inr ((pre @ replicate (p - off) 0 @ le w v) @ replicate (n - (p + w)) 0)"
proof -
  have "replicate (n - off) (0 :: byte) = replicate (p - off) 0 @ replicate w 0 @ replicate (n - (p + w)) 0"
    using assms by (simp flip: replicate_add)
  then show ?thesis using assms by (simp add: write_le_def)
qed

lemma writes_layout:
  "ordered off n ws \<Longrightarrow> length pre = off \<Longrightarrow>
   fold (\<lambda>(w, vo) buf. and_then buf (write_le w vo)) ws (Inr (pre @ replicate (n - off) 0)) = Inr (pre @ layout off n ws)"
proof (induction off n ws arbitrary: pre rule: layout.induct)
  case (2 off n w v p ws)
  then have p: "off \<le> p" "v < 256 ^ w" "ordered (p + w) n ws" "length pre = off" by simp_all
  then have "p + w \<le> n" using ordered_le by blast
  note step = write_in_zeros [OF p(4,1) this p(2)]
  have "length (pre @ replicate (p - off) 0 @ le w v) = p + w" using p by simp
  from "2.IH" [OF p(3) this] step show ?case by simp
qed simp

lemma header_layout: "ordered 0 n ws \<Longrightarrow> header n ws = Inr (layout 0 n ws)"
  using writes_layout [of 0 n ws "[]"] by (simp add: header_def)

lemma local_header_writes:
  assumes "meth = 0 \<or> meth = 8" "fst stamp < 65536" "snd stamp < 65536" "crc < 4294967296" "packed < 4294967296"
    "len < 4294967296" "name_len < 65536"
  shows "header 30 (local_writes stamp meth crc packed len name_len) = Inr (local_header stamp meth crc packed len name_len)"
proof -
  have "ordered 0 30 (local_writes stamp meth crc packed len name_len)"
    using assms by (auto simp: local_writes_def needed_version_def FLAGS_def)
  from header_layout [OF this] show ?thesis
    by (simp add: local_writes_def local_header_def numeral_2_eq_2)
qed

lemma central_header_writes:
  assumes "meth = 0 \<or> meth = 8" "fst stamp < 65536" "snd stamp < 65536" "crc < 4294967296" "packed < 4294967296"
    "len < 4294967296" "name_len < 65536" "offset < 4294967296"
  shows "header 46 (central_writes stamp meth crc packed len name_len offset) = Inr (central_header stamp meth crc packed len name_len offset)"
proof -
  have "ordered 0 46 (central_writes stamp meth crc packed len name_len offset)"
    using assms by (auto simp: central_writes_def needed_version_def FLAGS_def)
  from header_layout [OF this] show ?thesis by (simp add: central_writes_def central_header_def)
qed

lemma end_record_writes:
  assumes "n < 65536" "directory_len < 4294967296" "offset < 4294967296"
  shows "header 22 (end_writes n directory_len offset) = Inr (end_record n directory_len offset)"
proof -
  have "ordered 0 22 (end_writes n directory_len offset)" using assms by (simp add: end_writes_def)
  from header_layout [OF this] show ?thesis by (simp add: end_writes_def end_record_def numeral_2_eq_2)
qed

lemma length_headers [simp]:
  "length (local_header stamp meth crc packed len name_len) = 30"
  "length (central_header stamp meth crc packed len name_len offset) = 46"
  "length (end_record n directory_len offset) = 22"
  by (simp_all add: local_header_def central_header_def end_record_def)

lemma or_below: "a < 2 ^ n \<Longrightarrow> b < 2 ^ n \<Longrightarrow> a OR b < 2 ^ n" for a b :: nat
  by (simp add: take_bit_or flip: take_bit_nat_eq_self_iff)

lemma stamp_time_year: "1980 \<le> year (civil (stamp_time now div 86400000)) \<and> year (civil (stamp_time now div 86400000)) \<le> 2107"
proof -
  have "civil (make_day 1980 (1 - 1) 1) = \<lparr>year = 1980, month = 1, day = 1\<rparr>"
    by (rule civil_make_day) (simp add: valid_date_def days_in_def month_start_def)
  moreover have "make_day 1980 (1 - 1) 1 = 3652" by (simp add: make_day_def day_from_year_def month_start_def)
  ultimately have "year (civil 3652) = 1980" by simp
  then show ?thesis by (simp add: stamp_time_def Let_def split: option.split)
qed

lemma push_below: "a < 2 ^ k \<Longrightarrow> push_bit n a < 2 ^ (n + k)" for a :: nat
  by (simp add: push_bit_eq_mult power_add mult.commute)

lemma days_in_31: "1 \<le> m \<Longrightarrow> m \<le> 12 \<Longrightarrow> days_in y m \<le> 31"
  by (drule (1) month_cases) (elim disjE, simp_all add: days_in_def month_start_def)

lemma dosStamp_below: "fst (dosStamp now) < 65536" "snd (dosStamp now) < 65536"
proof -
  have p16: "2 ^ 16 = (65536 :: nat)" by simp
  define d where "d = civil (stamp_time now div 86400000)"
  define secs where "secs = stamp_time now mod 86400000 div 1000"
  have valid: "valid_date (year d) (month d) (day d)" unfolding d_def by (rule civil_valid)
  then have m: "1 \<le> month d" "month d \<le> 12" and day: "1 \<le> day d" "day d \<le> days_in (year d) (month d)"
    unfolding valid_date_def by blast+
  have y: "1980 \<le> year d" "year d \<le> 2107" unfolding d_def using stamp_time_year by blast+
  have "day d \<le> 31" using day(2) days_in_31 [OF m] by (rule order_trans)
  then have "nat (year d - 1980) < 2 ^ 7" "nat (month d) < 2 ^ 11" "nat (day d) < 2 ^ 16" using m y by simp_all
  then have "push_bit 9 (nat (year d - 1980)) < 2 ^ 16" "push_bit 5 (nat (month d)) < 2 ^ 16" "nat (day d) < 2 ^ 16"
    using push_below [of "nat (year d - 1980)" 7 9] push_below [of "nat (month d)" 11 5] by simp_all
  then have "push_bit 9 (nat (year d - 1980)) OR push_bit 5 (nat (month d)) OR nat (day d) < 2 ^ 16" by (intro or_below)
  then show "fst (dosStamp now) < 65536" unfolding dosStamp_def Let_def fst_conv d_def p16 .
  have "0 \<le> secs" "secs < 86400" by (auto simp: secs_def)
  then have "nat (secs div 3600) < 2 ^ 5" "nat (secs mod 3600 div 60) < 2 ^ 11" "nat (secs mod 60) < 2 ^ 16" by auto
  moreover have "drop_bit 1 (nat (secs mod 60)) \<le> nat (secs mod 60)" by (simp add: drop_bit_eq_div)
  ultimately have "push_bit 11 (nat (secs div 3600)) < 2 ^ 16" "push_bit 5 (nat (secs mod 3600 div 60)) < 2 ^ 16" "drop_bit 1 (nat (secs mod 60)) < 2 ^ 16"
    using push_below [of "nat (secs div 3600)" 5 11] push_below [of "nat (secs mod 3600 div 60)" 11 5]
    by (simp_all del: drop_bit_eq_div)
  then have "push_bit 11 (nat (secs div 3600)) OR push_bit 5 (nat (secs mod 3600 div 60)) OR drop_bit 1 (nat (secs mod 60)) < 2 ^ 16"
    by (intro or_below)
  then show "snd (dosStamp now) < 65536" unfolding dosStamp_def Let_def snd_conv secs_def p16 .
qed

subsection \<open>What the writer lays down\<close>

lemma pack_facts: "fst (pack deflate d) = 0 \<or> fst (pack deflate d) = 8" "length (snd (pack deflate d)) \<le> length d"
  by (auto simp: pack_def Let_def)

definition part_header where
  "part_header deflate crc32 stamp e =
     local_header stamp (fst (pack deflate (ze_data e))) (unat (crc32 (ze_data e) :: 32 word)) (length (snd (pack deflate (ze_data e))))
       (length (ze_data e)) (length (utf8 (ze_name e)))"

definition part_bytes :: "(byte list \<Rightarrow> byte list) \<Rightarrow> (byte list \<Rightarrow> 32 word) \<Rightarrow> nat \<times> nat \<Rightarrow> zip_entry \<Rightarrow> byte list" where
  "part_bytes deflate crc32 stamp e = part_header deflate crc32 stamp e @ utf8 (ze_name e) @ snd (pack deflate (ze_data e))"

definition directory_bytes :: "(byte list \<Rightarrow> byte list) \<Rightarrow> (byte list \<Rightarrow> 32 word) \<Rightarrow> nat \<times> nat \<Rightarrow> nat \<times> zip_entry \<Rightarrow> byte list" where
  "directory_bytes deflate crc32 stamp oe =
     (case oe of (off, e) \<Rightarrow>
        central_header stamp (fst (pack deflate (ze_data e))) (unat (crc32 (ze_data e))) (length (snd (pack deflate (ze_data e))))
          (length (ze_data e)) (length (utf8 (ze_name e))) off @ utf8 (ze_name e))"

definition part_size :: "(byte list \<Rightarrow> byte list) \<Rightarrow> zip_entry \<Rightarrow> nat" where
  "part_size deflate e = 30 + length (utf8 (ze_name e)) + length (snd (pack deflate (ze_data e)))"

lemma length_part [simp]: "length (part_bytes deflate crc32 stamp e) = part_size deflate e"
  by (simp add: part_bytes_def part_header_def part_size_def)

definition fits :: "zip_entry \<Rightarrow> bool" where
  "fits e \<longleftrightarrow> utf8 (ze_name e) \<noteq> [] \<and> length (utf8 (ze_name e)) \<le> 65535 \<and> length (ze_data e) < MAX_BYTES"

text \<open>Each entry with the place of its part.\<close>

fun placed :: "(byte list \<Rightarrow> byte list) \<Rightarrow> nat \<Rightarrow> zip_entry list \<Rightarrow> (nat \<times> zip_entry) list" where
  "placed deflate off [] = []"
| "placed deflate off (e # es) = (off, e) # placed deflate (off + part_size deflate e) es"

lemma add_entry_Inr:
  assumes "fst stamp < 65536" "snd stamp < 65536" "z_offset st < MAX_BYTES"
  shows "add_entry deflate crc32 stamp e st = Inr st' \<longleftrightarrow>
    fits e \<and> ze_name e \<notin> set (z_seen st) \<and> z_offset st + part_size deflate e < MAX_BYTES \<and>
    st' = \<lparr>z_seen = z_seen st @ [ze_name e], z_locals = z_locals st @ part_bytes deflate crc32 stamp e,
           z_centrals = z_centrals st @ directory_bytes deflate crc32 stamp (z_offset st, e), z_offset = z_offset st + part_size deflate e\<rparr>"
proof (cases "fits e")
  case True
  obtain meth body where pk: "pack deflate (ze_data e) = (meth, body)" by (cases "pack deflate (ze_data e)")
  have crc: "unat (crc32 (ze_data e)) < 4294967296" using unsigned_less [of "crc32 (ze_data e)"] by simp
  have sizes: "length body < 4294967296" "length (ze_data e) < 4294967296" "length (utf8 (ze_name e)) < 65536"
    using True pack_facts(2) [of deflate "ze_data e"] pk by (auto simp: fits_def MAX_BYTES_def)
  have meth: "meth = 0 \<or> meth = 8" using pack_facts(1) [of deflate "ze_data e"] pk by simp
  note headers = local_header_writes [OF meth assms(1,2) crc sizes]
    central_header_writes [OF meth assms(1,2) crc sizes, of "z_offset st"]
  have "z_offset st < 4294967296" using assms(3) by (simp add: MAX_BYTES_def)
  then show ?thesis using True
    by (auto simp: add_entry_def Let_def pk headers fits_def part_bytes_def part_header_def directory_bytes_def part_size_def add.assoc)
qed (auto simp: add_entry_def Let_def fits_def)

lemma add_entries_Inr:
  assumes "fst stamp < 65536" "snd stamp < 65536"
  shows "z_offset st < MAX_BYTES \<Longrightarrow> distinct (z_seen st) \<Longrightarrow> add_entries deflate crc32 stamp es st = Inr st' \<longleftrightarrow>
    list_all fits es \<and> distinct (z_seen st @ map ze_name es) \<and> z_offset st + sum_list (map (part_size deflate) es) < MAX_BYTES \<and>
    st' = \<lparr>z_seen = z_seen st @ map ze_name es, z_locals = z_locals st @ concat (map (part_bytes deflate crc32 stamp) es),
           z_centrals = z_centrals st @ concat (map (directory_bytes deflate crc32 stamp) (placed deflate (z_offset st) es)),
           z_offset = z_offset st + sum_list (map (part_size deflate) es)\<rparr>"
proof (induction es arbitrary: st)
  case (Cons e es)
  let ?next = "\<lparr>z_seen = z_seen st @ [ze_name e], z_locals = z_locals st @ part_bytes deflate crc32 stamp e,
     z_centrals = z_centrals st @ directory_bytes deflate crc32 stamp (z_offset st, e), z_offset = z_offset st + part_size deflate e\<rparr>"
  show ?case
  proof (cases "fits e \<and> ze_name e \<notin> set (z_seen st) \<and> z_offset st + part_size deflate e < MAX_BYTES")
    case True
    then have "add_entry deflate crc32 stamp e st = Inr ?next" using add_entry_Inr [OF assms Cons.prems(1)] by blast
    then show ?thesis using True Cons.IH [of ?next] Cons.prems by (auto simp: add.assoc)
  next
    case False
    then have "\<nexists>y. add_entry deflate crc32 stamp e st = Inr y" using add_entry_Inr [OF assms Cons.prems(1)] by blast
    then obtain err where "add_entry deflate crc32 stamp e st = Inl err" by (metis obj_sumE)
    then show ?thesis using False by auto
  qed
qed auto

subsection \<open>What the reader finds there\<close>

lemma read_le_at: "drop off bs = xs @ rest \<Longrightarrow> k + w \<le> length xs \<Longrightarrow> read_le w (off + k) bs = read_le w k xs"
proof -
  assume bs: "drop off bs = xs @ rest" and k: "k + w \<le> length xs"
  have "drop (off + k) bs = drop k (xs @ rest)" unfolding bs [symmetric] by (simp add: add.commute)
  then show ?thesis using k by (simp add: read_le_def)
qed

lemma twelve_zeros: "replicate 12 (0 :: byte) = [0, 0, 0, 0, 0, 0, 0, 0, 0, 0, 0, 0]"
  and four_zeros: "replicate 4 (0 :: byte) = [0, 0, 0, 0]"
  by (simp_all add: numeral_eq_Suc)

lemma local_fields:
  "read_le 4 0 (local_header stamp meth crc packed len name_len) = 0x04034b50"
  "name_len < 65536 \<Longrightarrow> read_le 2 26 (local_header stamp meth crc packed len name_len) = name_len"
  "read_le 2 28 (local_header stamp meth crc packed len name_len) = 0"
  by (simp_all add: read_le_def local_header_def le_2 le_4)

lemma central_fields:
  "read_le 4 0 (central_header stamp meth crc packed len name_len off) = 0x02014b50"
  "meth < 65536 \<Longrightarrow> read_le 2 10 (central_header stamp meth crc packed len name_len off) = meth"
  "crc < 4294967296 \<Longrightarrow> read_le 4 16 (central_header stamp meth crc packed len name_len off) = crc"
  "packed < 4294967296 \<Longrightarrow> read_le 4 20 (central_header stamp meth crc packed len name_len off) = packed"
  "len < 4294967296 \<Longrightarrow> read_le 4 24 (central_header stamp meth crc packed len name_len off) = len"
  "name_len < 65536 \<Longrightarrow> read_le 2 28 (central_header stamp meth crc packed len name_len off) = name_len"
  "read_le 2 30 (central_header stamp meth crc packed len name_len off) = 0"
  "read_le 2 32 (central_header stamp meth crc packed len name_len off) = 0"
  "off < 4294967296 \<Longrightarrow> read_le 4 42 (central_header stamp meth crc packed len name_len off) = off"
  by (simp_all add: read_le_def central_header_def le_2 le_4 twelve_zeros)

lemma end_fields:
  "read_le 4 0 (end_record n directory_len offset) = 0x06054b50"
  "n < 65536 \<Longrightarrow> read_le 2 10 (end_record n directory_len offset) = n"
  "offset < 4294967296 \<Longrightarrow> read_le 4 16 (end_record n directory_len offset) = offset"
  by (simp_all add: read_le_def end_record_def le_2 le_4 four_zeros)

lemma fits_sizes:
  assumes "fits e"
  shows "length (utf8 (ze_name e)) < 65536" "length (ze_data e) < 4294967296" "length (snd (pack deflate (ze_data e))) < 4294967296"
    "fst (pack deflate (ze_data e)) < 65536"
  using assms pack_facts [of deflate "ze_data e"] by (auto simp: fits_def MAX_BYTES_def)

lemma read_part_bytes:
  assumes "fits e" "\<And>d. inflate (deflate d) = d" "drop off bs = part_bytes deflate crc32 stamp e @ rest"
  shows "read_part inflate crc32 (fst (pack deflate (ze_data e))) (unat (crc32 (ze_data e))) (length (snd (pack deflate (ze_data e))))
           (length (ze_data e)) off bs = Some (ze_data e)"
proof -
  let ?h = "part_header deflate crc32 stamp e" and ?name = "utf8 (ze_name e)" and ?body = "snd (pack deflate (ze_data e))"
  have at: "drop off bs = ?h @ ?name @ ?body @ rest" using assms(3) by (simp add: part_bytes_def)
  have h: "length ?h = 30" by (simp add: part_header_def)
  have sig: "read_le 4 off bs = 0x04034b50"
    using read_le_at [OF at, of 0 4] h local_fields(1) by (simp add: part_header_def)
  have lens: "read_le 2 (off + 26) bs = length ?name" "read_le 2 (off + 28) bs = 0"
    using read_le_at [OF at, of 26 2] read_le_at [OF at, of 28 2] h fits_sizes(1) [OF assms(1)]
    by (simp_all add: part_header_def local_fields)
  have "drop (off + 30 + length ?name) bs = drop (30 + length ?name) (drop off bs)" by (simp add: add.commute add.left_commute)
  also have "\<dots> = ?body @ rest" unfolding at using h by simp
  finally have "take (length ?body) (drop (off + 30 + length ?name + 0) bs) = ?body" by simp
  moreover have "unpack inflate (fst (pack deflate (ze_data e))) ?body = Some (ze_data e)"
    by (simp add: unpack_def pack_def Let_def assms(2))
  ultimately show ?thesis by (simp add: read_part_def sig lens)
qed

lemma directory_at:
  assumes "fits e" "off < 4294967296" "drop pos bs = directory_bytes deflate crc32 stamp (off, e) @ rest"
  shows "read_le 4 pos bs = 0x02014b50" "read_le 2 (pos + 10) bs = fst (pack deflate (ze_data e))"
    "read_le 4 (pos + 16) bs = unat (crc32 (ze_data e))" "read_le 4 (pos + 20) bs = length (snd (pack deflate (ze_data e)))"
    "read_le 4 (pos + 24) bs = length (ze_data e)" "read_le 2 (pos + 28) bs = length (utf8 (ze_name e))"
    "read_le 2 (pos + 30) bs = 0" "read_le 2 (pos + 32) bs = 0" "read_le 4 (pos + 42) bs = off"
    "take (length (utf8 (ze_name e))) (drop (pos + 46) bs) = utf8 (ze_name e)"
    "drop (pos + 46 + length (utf8 (ze_name e))) bs = rest"
proof -
  let ?h = "central_header stamp (fst (pack deflate (ze_data e))) (unat (crc32 (ze_data e))) (length (snd (pack deflate (ze_data e))))
    (length (ze_data e)) (length (utf8 (ze_name e))) off"
  have at: "drop pos bs = ?h @ utf8 (ze_name e) @ rest" using assms(3) by (simp add: directory_bytes_def)
  have crc: "unat (crc32 (ze_data e)) < 4294967296" using unsigned_less [of "crc32 (ze_data e)"] by simp
  note at_field = read_le_at [OF at] and sizes = fits_sizes [OF assms(1)] crc assms(2)
  show "read_le 4 pos bs = 0x02014b50" using at_field [of 0 4] by (simp add: central_fields)
  show "read_le 2 (pos + 10) bs = fst (pack deflate (ze_data e))" "read_le 4 (pos + 16) bs = unat (crc32 (ze_data e))"
    "read_le 4 (pos + 20) bs = length (snd (pack deflate (ze_data e)))" "read_le 4 (pos + 24) bs = length (ze_data e)"
    "read_le 2 (pos + 28) bs = length (utf8 (ze_name e))" "read_le 2 (pos + 30) bs = 0" "read_le 2 (pos + 32) bs = 0"
    "read_le 4 (pos + 42) bs = off"
    using at_field sizes by (simp_all add: central_fields)
  have "drop (pos + 46) bs = drop 46 (drop pos bs)" by (simp add: add.commute)
  then have name: "drop (pos + 46) bs = utf8 (ze_name e) @ rest" unfolding at by simp
  then show "take (length (utf8 (ze_name e))) (drop (pos + 46) bs) = utf8 (ze_name e)" by simp
  have "drop (pos + 46 + length (utf8 (ze_name e))) bs = drop (length (utf8 (ze_name e))) (drop (pos + 46) bs)"
    by (simp add: add.commute add.left_commute)
  then show "drop (pos + 46 + length (utf8 (ze_name e))) bs = rest" unfolding name by simp
qed

lemma read_directory_bytes:
  assumes inflate: "\<And>d. inflate (deflate d) = d"
  shows "list_all fits es \<Longrightarrow> drop pos bs = concat (map (directory_bytes deflate crc32 stamp) (placed deflate off es)) @ tail \<Longrightarrow>
    drop off bs = concat (map (part_bytes deflate crc32 stamp) es) @ rest \<Longrightarrow>
    off + sum_list (map (part_size deflate) es) < 4294967296 \<Longrightarrow>
    read_directory inflate crc32 bs (length es) pos = Some (map (\<lambda>e. (utf8 (ze_name e), ze_data e)) es)"
proof (induction es arbitrary: pos off)
  case (Cons e es)
  have fit: "fits e" and off: "off < 4294967296" using Cons.prems by auto
  obtain more where more: "more = concat (map (directory_bytes deflate crc32 stamp) (placed deflate (off + part_size deflate e) es)) @ tail" by simp
  have dir: "drop pos bs = directory_bytes deflate crc32 stamp (off, e) @ more" using Cons.prems(2) more by simp
  obtain parts where parts: "parts = concat (map (part_bytes deflate crc32 stamp) es) @ rest" by simp
  have part: "drop off bs = part_bytes deflate crc32 stamp e @ parts" using Cons.prems(3) parts by simp
  have "drop (off + part_size deflate e) bs = drop (part_size deflate e) (drop off bs)" by (simp add: add.commute)
  then have next_part: "drop (off + part_size deflate e) bs = parts" unfolding part by simp
  note here = directory_at [OF fit off dir]
  have "read_directory inflate crc32 bs (length es) (pos + 46 + length (utf8 (ze_name e))) = Some (map (\<lambda>e. (utf8 (ze_name e), ze_data e)) es)"
    by (rule Cons.IH [of _ "off + part_size deflate e"]) (use Cons.prems next_part here(11) more parts in \<open>simp_all add: add.assoc\<close>)
  then show ?case using here read_part_bytes [OF fit inflate part] by (simp add: Let_def)
qed simp

lemma header_fits: "header n ws = Inr buf \<Longrightarrow> (w, v, p) \<in> set ws \<Longrightarrow> v < 256 ^ w"
proof -
  have stop: "fold (\<lambda>(w, vo) buf. and_then buf (write_le w vo)) ws (Inl err) = Inl err" for ws err
    by (induction ws) auto
  have "fold (\<lambda>(w, vo) buf. and_then buf (write_le w vo)) ws (Inr start) = Inr buf \<Longrightarrow> (w, v, p) \<in> set ws \<Longrightarrow> v < 256 ^ w" for start
    by (induction ws arbitrary: start) (auto simp: stop write_le_def split: if_splits)
  then show "header n ws = Inr buf \<Longrightarrow> (w, v, p) \<in> set ws \<Longrightarrow> v < 256 ^ w" by (simp add: header_def)
qed

lemma mset_content_types_first: "mset (content_types_first es) = mset es"
  by (induction es) (simp_all add: content_types_first_def)

lemma length_directory: "length (concat (map (directory_bytes deflate crc32 stamp) (placed deflate off es))) = sum_list (map (\<lambda>e. 46 + length (utf8 (ze_name e))) es)"
  by (induction es arbitrary: off) (simp_all add: directory_bytes_def)

lemma length_parts: "length (concat (map (part_bytes deflate crc32 stamp) es)) = sum_list (map (part_size deflate) es)"
  by (induction es) simp_all

text \<open>When an archive can be written: the limits of the format without zip64.\<close>

definition can_zip :: "(byte list \<Rightarrow> byte list) \<Rightarrow> zip_entry list \<Rightarrow> bool" where
  "can_zip deflate es \<longleftrightarrow> length es \<le> MAX_ENTRIES \<and> list_all fits es \<and> distinct (map ze_name es) \<and>
     sum_list (map (part_size deflate) es) < MAX_BYTES \<and> sum_list (map (\<lambda>e. 46 + length (utf8 (ze_name e))) es) < 4294967296"

lemma can_zip_order: "can_zip deflate (content_types_first es) = can_zip deflate es"
proof -
  note same = mset_content_types_first [of es]
  have "list_all fits (content_types_first es) = list_all fits es" by (simp add: list_all_iff flip: set_mset_mset same)
  moreover have "distinct (map ze_name (content_types_first es)) = distinct (map ze_name es)"
    by (rule mset_eq_imp_distinct_iff) (simp add: mset_map same)
  moreover have "sum_list (map f (content_types_first es)) = sum_list (map f es)" for f :: "zip_entry \<Rightarrow> nat"
    using same by (simp flip: sum_mset_sum_list add: mset_map)
  moreover have "length (content_types_first es) = length es" using same by (rule mset_eq_length)
  ultimately show ?thesis by (simp add: can_zip_def)
qed

text \<open>The bytes of an archive.\<close>

definition layout_of :: "(byte list \<Rightarrow> byte list) \<Rightarrow> (byte list \<Rightarrow> 32 word) \<Rightarrow> nat \<times> nat \<Rightarrow> zip_entry list \<Rightarrow> byte list" where
  "layout_of deflate crc32 stamp es =
     concat (map (part_bytes deflate crc32 stamp) es) @ concat (map (directory_bytes deflate crc32 stamp) (placed deflate 0 es)) @
     end_record (length es) (sum_list (map (\<lambda>e. 46 + length (utf8 (ze_name e))) es)) (sum_list (map (part_size deflate) es))"

lemma zip_archive_Inr:
  "zip_archive deflate crc32 now entries = Inr bs \<longleftrightarrow>
     can_zip deflate entries \<and> bs = layout_of deflate crc32 (dosStamp now) (content_types_first entries)"
proof -
  let ?es = "content_types_first entries" and ?st = "\<lparr>z_seen = [], z_locals = [], z_centrals = [], z_offset = 0\<rparr>"
  let ?dir = "sum_list (map (\<lambda>e. 46 + length (utf8 (ze_name e))) ?es)" and ?size = "sum_list (map (part_size deflate) ?es)"
  have len: "length ?es = length entries" using mset_content_types_first [of entries] by (rule mset_eq_length)
  have start: "z_offset ?st < MAX_BYTES" "distinct (z_seen ?st)" by (simp_all add: MAX_BYTES_def)
  note added = add_entries_Inr [OF dosStamp_below [of now] start, of deflate crc32 ?es]
  have tail: "header 22 (end_writes (length ?es) ?dir ?size) = Inr r \<longleftrightarrow> ?dir < 4294967296 \<and> r = end_record (length ?es) ?dir ?size"
    if "length ?es \<le> MAX_ENTRIES" "?size < MAX_BYTES" for r
  proof (cases "?dir < 4294967296")
    case True
    then show ?thesis using end_record_writes [of "length ?es" ?dir ?size] that by (auto simp: MAX_ENTRIES_def MAX_BYTES_def)
  next
    case False
    have "(4, ?dir, 12) \<in> set (end_writes (length ?es) ?dir ?size)" by (simp add: end_writes_def)
    then have "header 22 (end_writes (length ?es) ?dir ?size) \<noteq> Inr r" using header_fits [of 22 _ r 4 ?dir 12] False by auto
    then show ?thesis using False by blast
  qed
  show ?thesis unfolding can_zip_order [symmetric, of deflate entries]
    by (auto simp: zip_archive_def Let_def and_then_Inr added can_zip_def len tail [unfolded len] length_directory layout_of_def)
qed

lemma unzip_layout:
  assumes inflate: "\<And>d. inflate (deflate d) = d" and ok: "can_zip deflate es"
  shows "unzip inflate crc32 (layout_of deflate crc32 stamp es) = Some (map (\<lambda>e. (utf8 (ze_name e), ze_data e)) es)"
proof -
  let ?bs = "layout_of deflate crc32 stamp es"
  let ?parts = "concat (map (part_bytes deflate crc32 stamp) es)" and ?dirs = "concat (map (directory_bytes deflate crc32 stamp) (placed deflate 0 es))"
  let ?last_record = "end_record (length es) (sum_list (map (\<lambda>e. 46 + length (utf8 (ze_name e))) es)) (sum_list (map (part_size deflate) es))"
  have bs: "?bs = ?parts @ ?dirs @ ?last_record" by (simp add: layout_of_def)
  have sizes: "length es < 65536" "sum_list (map (part_size deflate) es) < 4294967296" "list_all fits es"
    using ok by (auto simp: can_zip_def MAX_ENTRIES_def MAX_BYTES_def)
  have at: "drop (length ?bs - 22) ?bs = ?last_record @ []" unfolding bs by simp
  have "length ?bs \<ge> 22" unfolding bs by simp
  moreover have "read_le 4 (length ?bs - 22) ?bs = 0x06054b50" using read_le_at [OF at, of 0 4] by (simp add: end_fields)
  moreover have "read_le 2 (length ?bs - 22 + 10) ?bs = length es" using read_le_at [OF at, of 10 2] sizes by (simp add: end_fields)
  moreover have "read_le 4 (length ?bs - 22 + 16) ?bs = length ?parts"
    using read_le_at [OF at, of 16 4] sizes by (simp add: end_fields length_parts)
  moreover have "read_directory inflate crc32 ?bs (length es) (length ?parts) = Some (map (\<lambda>e. (utf8 (ze_name e), ze_data e)) es)"
    by (rule read_directory_bytes [of inflate deflate es _ _ crc32 stamp 0 ?last_record "?dirs @ ?last_record"]) (use inflate sizes bs in simp_all)
  ultimately show ?thesis by (simp add: unzip_def Let_def)
qed

subsection \<open>Property\<close>

text \<open>
  C38. A written archive holds what was packed. If inflating undoes deflating, a reader of the format finds in it
  exactly the entries given, each with its name and all its data, the content-types part first and the others in
  their order; and the writer refuses exactly when the plain format cannot hold them: more than 65535 entries, an
  empty or too long name, a name twice, or data, parts or a directory past 4 GiB.
\<close>

theorem archive_reads_back:
  assumes "\<And>d. inflate (deflate d) = d"
  shows "case zip_archive deflate crc32 now entries of
     Inr bs \<Rightarrow> can_zip deflate entries \<and>
       unzip inflate crc32 bs = Some (map (\<lambda>e. (utf8 (ze_name e), ze_data e))
         (filter (\<lambda>e. ze_name e = CONTENT_TYPES) entries @ filter (\<lambda>e. ze_name e \<noteq> CONTENT_TYPES) entries))
   | Inl err \<Rightarrow> \<not> can_zip deflate entries"
proof (cases "zip_archive deflate crc32 now entries")
  case (Inr bs)
  then have "can_zip deflate (content_types_first entries)" "bs = layout_of deflate crc32 (dosStamp now) (content_types_first entries)"
    using zip_archive_Inr can_zip_order by blast+
  then show ?thesis using Inr unzip_layout [of inflate deflate "content_types_first entries"] assms
    by (simp add: can_zip_order flip: content_types_first_def)
next
  case (Inl err)
  then show ?thesis using zip_archive_Inr [of deflate crc32 now entries "layout_of deflate crc32 (dosStamp now) (content_types_first entries)"] by simp
qed

text \<open>A codec that packs five zeros and stores everything else, and an archive with one part of each kind.\<close>

definition tiny_deflate :: "byte list \<Rightarrow> byte list" where
  "tiny_deflate d = (if d = [0, 0, 0, 0, 0] then [1] else 0 # d)"

definition tiny_inflate :: "byte list \<Rightarrow> byte list" where
  "tiny_inflate b = (if b = [1] then [0, 0, 0, 0, 0] else tl b)"

definition two_parts :: "zip_entry list" where
  "two_parts = [\<lparr>ze_name = ''a.xml'', ze_data = [0, 0, 0, 0, 0]\<rparr>, \<lparr>ze_name = CONTENT_TYPES, ze_data = [7]\<rparr>]"

theorem archive_reads_back_witness:
  "(case zip_archive tiny_deflate (\<lambda>_. 9) (Some 0) two_parts of
      Inr bs \<Rightarrow> unzip tiny_inflate (\<lambda>_. 9) bs = Some [(utf8 CONTENT_TYPES, [7]), (utf8 ''a.xml'', [0, 0, 0, 0, 0])]
    | Inl _ \<Rightarrow> False)"
proof -
  have "tiny_inflate (tiny_deflate d) = d" for d by (simp add: tiny_deflate_def tiny_inflate_def)
  note reads = archive_reads_back [of tiny_inflate tiny_deflate two_parts "\<lambda>_. 9" "Some 0", OF this]
  have names: "utf8 ''a.xml'' = [97, 46, 120, 109, 108]" "length (utf8 CONTENT_TYPES) = 19" by code_simp+
  have "can_zip tiny_deflate two_parts"
    by (simp add: can_zip_def two_parts_def fits_def part_size_def pack_def tiny_deflate_def MAX_ENTRIES_def MAX_BYTES_def
        names CONTENT_TYPES_def) (use names(2) in \<open>auto simp: CONTENT_TYPES_def\<close>)
  then show ?thesis using reads
    by (auto simp: two_parts_def CONTENT_TYPES_def split: sum.splits)
qed

end
