(* ===== verification/Meters.thy ===== *)
theory Meters
  imports Network
begin

text \<open>
  The internet traffic meters (\<open>server/src/services/meters.ts\<close>): the gauge widgets of a Zabbix dashboard, what a
  reading means on a widget's scale, and the neighbour items that tell whether the link is up and how full it is the
  other way. The answers of Zabbix, the clock and the text of a number are parameters; \<open>undefined\<close> and \<open>null\<close> are
  \<open>None\<close>. The gate that bounds the history reads is the component of that name.
\<close>

unbundle bit_operations_syntax

subsection \<open>Data\<close>

datatype zone_level = ZNone | ZLow | ZOk | ZWarn | ZCritical
datatype meter_state = MOk | MStale | MNodata | MUnsupported | MMissing | MInvalid
datatype direction = DirIn | DirOut
datatype link_status = LinkUp | LinkDown | LinkUnknown

record zone =
  zn_from :: rat
  zn_level :: zone_level

record other_direction =
  od_direction :: direction
  od_itemid :: string
  od_value :: "rat option"
  od_clock :: "jsnum option"
  od_fraction :: "rat option"
  od_zone :: "zone_level option"

record meter =
  mt_id :: string
  mt_title :: string
  mt_page :: string
  mt_host :: "string option"
  mt_hostid :: "string option"
  mt_item :: "string option"
  mt_itemid :: "string option"
  mt_direction :: "direction option"
  mt_link :: link_status
  mt_other :: "other_direction option"
  mt_units :: string
  mt_value :: "rat option"
  mt_clock :: "jsnum option"
  mt_min :: rat
  mt_max :: "rat option"
  mt_zones :: "zone list"
  mt_fraction :: "rat option"
  mt_zone :: "zone_level option"
  mt_state :: meter_state

record meter_definition =
  md_title :: string
  md_page :: string
  md_itemid :: "string option"
  md_min :: "string option"
  md_max :: "string option"
  md_thresholds :: "(string \<times> string) list"

record widget_field =
  wf_type :: string
  wf_name :: string
  wf_value :: string

record widget =
  w_type :: string
  w_name :: "string option"
  w_x :: jsval
  w_y :: jsval
  w_fields :: "widget_field list option"

record dash_page =
  dp_name :: "string option"
  dp_widgets :: "widget list option"

record dashboard =
  db_name :: "string option"
  db_pages :: "dash_page list option"

definition truthy :: "string option \<Rightarrow> bool" where
  "truthy s \<longleftrightarrow> s \<noteq> None \<and> s \<noteq> Some []"

subsection \<open>The widgets of a dashboard\<close>

definition FIELD_ITEM :: string where "FIELD_ITEM = ''4''"

definition titleKey :: "string \<Rightarrow> string" where
  "titleKey title = filter (\<lambda>c. (CHR ''a'' \<le> c \<and> c \<le> CHR ''z'') \<or> is_digit c) (toLowerCase title)"

text \<open>\<open>Number(w.y ?? 0)\<close>.\<close>

definition coordinate :: "jsval \<Rightarrow> jsnum" where
  "coordinate v = (case v of JUndef \<Rightarrow> Num 0 | JNull \<Rightarrow> Num 0 | JNum q \<Rightarrow> Num q | JStr s \<Rightarrow> js_number s | _ \<Rightarrow> NaN)"

definition widget_order :: "widget \<Rightarrow> widget \<Rightarrow> int" where
  "widget_order a b =
     or_else (sign_minus (coordinate (w_y a)) (coordinate (w_y b))) (sign_minus (coordinate (w_x a)) (coordinate (w_x b)))"

definition gauges :: "dash_page \<Rightarrow> widget list" where
  "gauges page = js_sort widget_order (filter (\<lambda>w. w_type w = ''gauge'') (or_nil (dp_widgets page)))"

definition field_value :: "widget_field list \<Rightarrow> string \<Rightarrow> string option" where
  "field_value fs name = map_option wf_value (find (\<lambda>f. wf_name f = name) fs)"

definition widget_item :: "widget \<Rightarrow> string option" where
  "widget_item w = map_option wf_value (find (\<lambda>f. wf_type f = FIELD_ITEM) (or_nil (w_fields w)))"

definition widget_title :: "widget \<Rightarrow> string" where
  "widget_title w = trim (case w_name w of Some n \<Rightarrow> n | None \<Rightarrow> [])"

definition widget_key :: "widget \<Rightarrow> string" where
  "widget_key w =
     (if truthy (widget_item w) then ''item:'' @ the (widget_item w) else ''title:'' @ titleKey (widget_title w))"

definition threshold_rx :: rx where
  "threshold_rx = Seqs [Start, Lit ''thresholds.'', Cap 1 (Plus Digit), Lit ''.'', Cap 2 (Alts [Lit ''threshold'', Lit ''color'']), End]"

definition put_threshold :: "widget_field \<Rightarrow> (string, string option \<times> string option) table \<Rightarrow> (string, string option \<times> string option) table" where
  "put_threshold f t =
     (case rx_caps threshold_rx (wf_name f) of
        None \<Rightarrow> t
      | Some m \<Rightarrow>
          let (threshold, color) = (case table_get t (cap m 1) of Some e \<Rightarrow> e | None \<Rightarrow> (None, None))
          in table_set (cap m 1) (if cap m 2 = ''threshold'' then (Some (wf_value f), color) else (threshold, Some (wf_value f))) t)"

definition widget_thresholds :: "widget_field list \<Rightarrow> (string \<times> string) list" where
  "widget_thresholds fs =
     List.map_filter (\<lambda>e. case snd e of (Some t, Some c) \<Rightarrow> Some (t, c) | _ \<Rightarrow> None) (fold put_threshold fs [])"

definition page_title :: "nat \<Rightarrow> dash_page \<Rightarrow> string" where
  "page_title i page =
     (let t = trim (case dp_name page of Some n \<Rightarrow> n | None \<Rightarrow> []) in if t = [] then ''Page '' @ show_nat (Suc i) else t)"

definition definition_of :: "nat \<Rightarrow> dash_page \<Rightarrow> widget \<Rightarrow> meter_definition" where
  "definition_of i page w =
     (let fs = or_nil (w_fields w) in
      \<lparr>md_title = widget_title w, md_page = page_title i page, md_itemid = widget_item w, md_min = field_value fs ''min'',
       md_max = field_value fs ''max'', md_thresholds = widget_thresholds fs\<rparr>)"

text \<open>The loop over the widgets, with the keys seen so far.\<close>

fun take_new :: "string list \<Rightarrow> (nat \<times> dash_page \<times> widget) list \<Rightarrow> meter_definition list" where
  "take_new seen [] = []"
| "take_new seen ((i, page, w) # rest) =
     (if widget_key w \<in> set seen then take_new seen rest
      else definition_of i page w # take_new (widget_key w # seen) rest)"

definition all_gauges :: "dashboard \<Rightarrow> (nat \<times> dash_page \<times> widget) list" where
  "all_gauges d = concat (map (\<lambda>(i, page). map (\<lambda>w. (i, page, w)) (gauges page)) (enumerate 0 (or_nil (db_pages d))))"

definition definitionsFrom :: "dashboard \<Rightarrow> meter_definition list" where
  "definitionsFrom d = take_new [] (all_gauges d)"

subsection \<open>Scales, colours and zones\<close>

definition scale_rx :: rx where
  "scale_rx = Seqs [Start, Spaces, Cap 1 (Seqs [Opt (Lit ''-''), Plus Digit, Opt (Seqs [Lit ''.'', Plus Digit])]), Spaces,
     Cap 2 (Opt (OneOf ''KMGTkmgt'')), Spaces, End]"

definition parseScale :: "string option \<Rightarrow> string \<Rightarrow> rat option" where
  "parseScale txt units =
     (case txt of
        None \<Rightarrow> None
      | Some t \<Rightarrow>
          (case rx_caps scale_rx t of
             None \<Rightarrow> None
           | Some m \<Rightarrow>
               let base = (if units = ''B'' \<or> units = ''Bps'' then 1024 else 1000 :: rat);
                   power = (if cap m 2 = [] then 0 else length (takeWhile (\<lambda>c. [c] \<noteq> toUpperCase (cap m 2)) ''KMGT'') + 1)
               in case js_number (cap m 1) of
                    Num q \<Rightarrow> finite_number (to_jsnum (q * base ^ power))
                  | _ \<Rightarrow> None))"

text \<open>JavaScript's \<open>%\<close> has the sign of the dividend.\<close>

definition js_rem :: "rat \<Rightarrow> rat \<Rightarrow> rat" where
  "js_rem x m = (let q = x / m in x - m * of_int (if q \<ge> 0 then \<lfloor>q\<rfloor> else \<lceil>q\<rceil>))"

definition hue_of :: "rat \<Rightarrow> rat \<Rightarrow> rat \<Rightarrow> rat" where
  "hue_of r g b =
     (let mx = max r (max g b); mn = min r (min g b); d = mx - mn;
          h = (if mx = r then js_rem ((g - b) / d) 6 else if mx = g then (b - r) / d + 2 else (r - g) / d + 4)
      in js_rem (h * 60 + 360) 360)"

definition saturation_of :: "rat \<Rightarrow> rat \<Rightarrow> rat \<Rightarrow> rat" where
  "saturation_of r g b =
     (let mx = max r (max g b); mn = min r (min g b); d = mx - mn; lightness = (mx + mn) / 2
      in if d = 0 then 0 else d / (1 - \<bar>2 * lightness - 1\<bar>))"

definition level_of_hue :: "rat \<Rightarrow> zone_level" where
  "level_of_hue hue =
     (if hue < 20 \<or> hue \<ge> 340 then ZCritical else if hue < 70 then ZWarn else if hue < 170 then ZOk
      else if hue < 290 then ZLow else ZNone)"

definition hex_rx :: rx where
  "hex_rx = Seqs [Start, Opt (Lit ''#''), Cap 1 (Times 6 (Cls (\<lambda>c. radix_digit c < 16))), End]"

definition levelOfColor :: "string \<Rightarrow> zone_level" where
  "levelOfColor hex =
     (case rx_caps hex_rx (trim hex) of
        None \<Rightarrow> ZNone
      | Some m \<Rightarrow>
          let n = foldl (\<lambda>n c. 16 * n + radix_digit c) 0 (cap m 1);
              r = of_nat (drop_bit 16 n AND 255) / 255;
              g = of_nat (drop_bit 8 n AND 255) / 255;
              b = of_nat (n AND 255) / 255
          in if saturation_of r g b < 1 / 4 then ZNone else level_of_hue (hue_of r g b))"

definition buildZones :: "(rat \<times> string) list \<Rightarrow> rat \<Rightarrow> zone list" where
  "buildZones thresholds mn =
     (let zones = js_sort (\<lambda>a b. compare (zn_from a) (zn_from b))
            (map (\<lambda>(v, color). \<lparr>zn_from = v, zn_level = levelOfColor color\<rparr>) thresholds)
      in case zones of
           [] \<Rightarrow> [\<lparr>zn_from = mn, zn_level = ZNone\<rparr>]
         | z # _ \<Rightarrow> (if zn_from z > mn then \<lparr>zn_from = mn, zn_level = ZNone\<rparr> # zones else zones))"

definition zoneOf :: "rat \<Rightarrow> zone list \<Rightarrow> zone_level" where
  "zoneOf v zones =
     fold (\<lambda>z level. if v \<ge> zn_from z then zn_level z else level) zones
       (case zones of z # _ \<Rightarrow> zn_level z | [] \<Rightarrow> ZNone)"

subsection \<open>One meter\<close>

definition directionOf :: "string option \<Rightarrow> direction option" where
  "directionOf key =
     (case key of
        None \<Rightarrow> None
      | Some k \<Rightarrow> (if startsWith k ''net.if.in['' then Some DirIn else if startsWith k ''net.if.out['' then Some DirOut else None))"

record meter_item = collected_item +
  mi_itemid :: string
  mi_hostid :: "string option"
  mi_name :: string
  mi_key :: string
  mi_units :: string
  mi_status :: "string option"
  mi_hosts :: "string list option"
  mi_value_type :: string
  mi_lastvalue :: "string option"

record reading =
  rd_value :: rat
  rd_clock :: jsnum

definition linkOf :: "rat option \<Rightarrow> link_status" where
  "linkOf status =
     (if status = Some 1 then LinkUp else if status = Some 2 \<or> status = Some 7 then LinkDown else LinkUnknown)"

record siblings =
  sb_status :: "rat option"
  sb_other :: "(string \<times> reading option) option"

definition usable_scale :: "rat \<Rightarrow> rat option \<Rightarrow> bool" where
  "usable_scale mn mx \<longleftrightarrow> (case mx of Some m \<Rightarrow> m > mn | None \<Rightarrow> False)"

text \<open>Where a value sits on a usable scale, between 0 and 1.\<close>

definition fraction_of :: "rat \<Rightarrow> rat option \<Rightarrow> rat \<Rightarrow> rat option" where
  "fraction_of mn mx v =
     (case mx of Some m \<Rightarrow> (if m > mn then Some (min 1 (max 0 ((v - mn) / (m - mn)))) else None) | None \<Rightarrow> None)"

definition otherOf ::
  "direction option \<Rightarrow> (string \<times> reading option) option \<Rightarrow> rat \<Rightarrow> rat option \<Rightarrow> zone list \<Rightarrow> other_direction option" where
  "otherOf dir found mn mx zones =
     (case (dir, found) of
        (Some d, Some (itemid, r)) \<Rightarrow>
          Some \<lparr>od_direction = (if d = DirIn then DirOut else DirIn), od_itemid = itemid,
                od_value = map_option rd_value r, od_clock = map_option rd_clock r,
                od_fraction = (case r of Some x \<Rightarrow> fraction_of mn mx (rd_value x) | None \<Rightarrow> None),
                od_zone = (case r of Some x \<Rightarrow> (if usable_scale mn mx then Some (zoneOf (rd_value x) zones) else None) | None \<Rightarrow> None)\<rparr>
      | _ \<Rightarrow> None)"

definition meter_id :: "meter_definition \<Rightarrow> string" where
  "meter_id def =
     (if truthy (md_itemid def) then ''item-'' @ the (md_itemid def)
      else ''title-'' @ (if titleKey (md_title def) = [] then ''untitled'' else titleKey (md_title def)))"

text \<open>The meter without a reading, of a widget whose item is known or gone.\<close>

definition base_meter :: "meter_definition \<Rightarrow> meter_item option \<Rightarrow> meter" where
  "base_meter def item =
     \<lparr>mt_id = meter_id def,
      mt_title = (if md_title def \<noteq> [] then md_title def
                  else case item of Some it \<Rightarrow> (if mi_name it \<noteq> [] then mi_name it else ''Untitled gauge'') | None \<Rightarrow> ''Untitled gauge''),
      mt_page = md_page def,
      mt_host = (case item of Some it \<Rightarrow> (case mi_hosts it of Some (h # _) \<Rightarrow> Some h | _ \<Rightarrow> None) | None \<Rightarrow> None),
      mt_hostid = (case item of Some it \<Rightarrow> mi_hostid it | None \<Rightarrow> None), mt_item = map_option mi_name item,
      mt_itemid = md_itemid def, mt_direction = directionOf (map_option mi_key item), mt_link = LinkUnknown, mt_other = None,
      mt_units = (case item of Some it \<Rightarrow> mi_units it | None \<Rightarrow> []), mt_value = None, mt_clock = None, mt_min = 0, mt_max = None,
      mt_zones = [], mt_fraction = None, mt_zone = None, mt_state = MMissing\<rparr>"

definition disabled :: "string option \<Rightarrow> string option \<Rightarrow> bool" where
  "disabled status state \<longleftrightarrow> status = Some ''1'' \<or> state = Some ''1''"

definition scale_thresholds :: "meter_definition \<Rightarrow> string \<Rightarrow> (rat \<times> string) list" where
  "scale_thresholds def units =
     List.map_filter (\<lambda>(t, color). map_option (\<lambda>v. (v, color)) (parseScale (Some t) units)) (md_thresholds def)"

definition buildMeter :: "meter_definition \<Rightarrow> meter_item option \<Rightarrow> reading option \<Rightarrow> bool \<Rightarrow> siblings \<Rightarrow> meter" where
  "buildMeter def item reading fresh sb =
     (let base = base_meter def item in
      case item of
        None \<Rightarrow> base
      | Some it \<Rightarrow>
          let units = mi_units it;
              mn = (case parseScale (md_min def) units of Some v \<Rightarrow> v | None \<Rightarrow> 0);
              mx = parseScale (md_max def) units;
              zones = buildZones (scale_thresholds def units) mn;
              m = base\<lparr>mt_link := linkOf (sb_status sb), mt_other := otherOf (mt_direction base) (sb_other sb) mn mx zones,
                       mt_min := mn, mt_max := mx, mt_zones := zones\<rparr>
          in if disabled (mi_status it) (pi_state it) then m\<lparr>mt_state := MUnsupported\<rparr>
             else case reading of
               None \<Rightarrow> m\<lparr>mt_state := MNodata\<rparr>
             | Some r \<Rightarrow>
                 m\<lparr>mt_value := Some (rd_value r), mt_clock := Some (rd_clock r), mt_fraction := fraction_of mn mx (rd_value r),
                   mt_zone := (if usable_scale mn mx then Some (zoneOf (rd_value r) zones) else None),
                   mt_state := (if \<not> usable_scale mn mx then MInvalid else if fresh then MOk else MStale)\<rparr>)"

record meters_summary =
  ms_total :: nat
  ms_current :: nat
  ms_critical :: nat
  ms_warn :: nat
  ms_stale :: nat
  ms_unavailable :: nat
  ms_down :: nat
  ms_otherHigh :: nat

definition other_high :: "meter \<Rightarrow> bool" where
  "other_high m = (case mt_other m of Some od \<Rightarrow> od_zone od \<in> {Some ZCritical, Some ZWarn} | None \<Rightarrow> False)"

definition count_meter :: "meter \<Rightarrow> meters_summary \<Rightarrow> meters_summary" where
  "count_meter m s =
     (let s = (if mt_state m = MOk then
                 let s = s\<lparr>ms_current := Suc (ms_current s)\<rparr> in
                 if mt_zone m = Some ZCritical then s\<lparr>ms_critical := Suc (ms_critical s)\<rparr>
                 else if mt_zone m = Some ZWarn then s\<lparr>ms_warn := Suc (ms_warn s)\<rparr> else s
               else if mt_state m = MStale then s\<lparr>ms_stale := Suc (ms_stale s)\<rparr>
               else s\<lparr>ms_unavailable := Suc (ms_unavailable s)\<rparr>);
          s = (if mt_link m = LinkDown then s\<lparr>ms_down := Suc (ms_down s)\<rparr> else s)
      in if other_high m then s\<lparr>ms_otherHigh := Suc (ms_otherHigh s)\<rparr> else s)"

definition summarise :: "meter list \<Rightarrow> meters_summary" where
  "summarise meters =
     fold count_meter meters
       \<lparr>ms_total = length meters, ms_current = 0, ms_critical = 0, ms_warn = 0, ms_stale = 0, ms_unavailable = 0, ms_down = 0, ms_otherHigh = 0\<rparr>"

subsection \<open>The neighbours of an interface\<close>

record keyed =
  ky_itemid :: string
  ky_hostid :: string
  ky_key :: string

record sibling_ids =
  statusId :: "string option"
  otherId :: "string option"

definition hc_rx :: rx where "hc_rx = Seqs [Bound, Lit ''ifHC'']"

definition hc :: "string \<Rightarrow> bool" where "hc key = rx_test hc_rx key"

text \<open>The candidates of a host and interface, in the order found; the best of a kind.\<close>

definition candidates :: "keyed list \<Rightarrow> keyed \<Rightarrow> nat \<Rightarrow> (keyed \<times> string) list" where
  "candidates found main i =
     List.map_filter (\<lambda>f. case parseIfKey (ky_key f) of
         Some (kind, j) \<Rightarrow> (if ky_hostid f = ky_hostid main \<and> j = i \<and> ky_itemid f \<noteq> ky_itemid main then Some (f, kind) else None)
       | None \<Rightarrow> None) found"

definition best_of :: "string \<Rightarrow> (string \<Rightarrow> bool) \<Rightarrow> (keyed \<times> string) list \<Rightarrow> string option" where
  "best_of kind prefer here =
     (case js_sort (\<lambda>a b. or_else (compare (prefer (ky_key (fst b))) (prefer (ky_key (fst a))))
                                  (sign_minus (js_number (ky_itemid (fst a))) (js_number (ky_itemid (fst b)))))
             (filter (\<lambda>f. snd f = kind) here) of
        f # _ \<Rightarrow> Some (ky_itemid (fst f)) | [] \<Rightarrow> None)"

definition pair_main :: "keyed list \<Rightarrow> keyed \<Rightarrow> (string, sibling_ids) table \<Rightarrow> (string, sibling_ids) table" where
  "pair_main found main t =
     (case parseIfKey (ky_key main) of
        None \<Rightarrow> t
      | Some (kind, i) \<Rightarrow>
          (if kind \<noteq> ''in'' \<and> kind \<noteq> ''out'' then t
           else
             let here = candidates found main i in
             table_set (ky_itemid main)
               \<lparr>statusId = best_of ''status'' (\<lambda>key. rx_test (Lit ''ifOperStatus'') key) here,
                otherId = best_of (if kind = ''in'' then ''out'' else ''in'') (\<lambda>key. hc key = hc (ky_key main)) here\<rparr> t))"

definition pairSiblings :: "keyed list \<Rightarrow> keyed list \<Rightarrow> (string, sibling_ids) table" where
  "pairSiblings mains found = fold (pair_main found) mains []"

definition keyed_of :: "meter_item \<Rightarrow> keyed option" where
  "keyed_of it =
     (if truthy (mi_hostid it) then Some \<lparr>ky_itemid = mi_itemid it, ky_hostid = the (mi_hostid it), ky_key = mi_key it\<rparr> else None)"

definition findSiblings :: "(string list \<Rightarrow> 'e + keyed list) \<Rightarrow> meter_item list \<Rightarrow> 'e + (string, sibling_ids) table" where
  "findSiblings neighbours_on items =
     (let mains = List.map_filter keyed_of items in
      if mains = [] then Inr []
      else and_then (neighbours_on (js_set (map ky_hostid mains))) (\<lambda>found. Inr (pairSiblings mains found)))"

subsection \<open>Readings\<close>

record sibling_item = collected_item +
  si_itemid :: string
  si_key :: string
  si_status :: "string option"
  si_lastvalue :: "string option"

definition currentReading :: "sibling_item option \<Rightarrow> int \<Rightarrow> reading option" where
  "currentReading found now =
     (case found of
        None \<Rightarrow> None
      | Some it \<Rightarrow>
          (if disabled (si_status it) (pi_state it) \<or> \<not> truthy (si_lastvalue it) then None
           else case number_of (si_lastvalue it) of
             Num v \<Rightarrow> (if isFresh it now then Some \<lparr>rd_value = v, rd_clock = number_of (pi_lastclock it)\<rparr> else None)
           | _ \<Rightarrow> None))"

definition positive :: "jsnum \<Rightarrow> bool" where
  "positive n = (case n of Num q \<Rightarrow> q > 0 | PosInf \<Rightarrow> True | _ \<Rightarrow> False)"

text \<open>What the item itself says: no reading, a reading, or nothing, so that history is asked.\<close>

datatype own_reading = NoReading | Own reading | AskHistory

definition own_reading_of :: "meter_item \<Rightarrow> own_reading" where
  "own_reading_of it =
     (let clock = number_of (pi_lastclock it) in
      if disabled (mi_status it) (pi_state it) then NoReading
      else if positive clock \<and> truthy (mi_lastvalue it) then
        (case number_of (mi_lastvalue it) of Num v \<Rightarrow> Own \<lparr>rd_value = v, rd_clock = clock\<rparr> | _ \<Rightarrow> AskHistory)
      else AskHistory)"

text \<open>The newest row of an item's history, as clock and value; \<open>history_get type itemid\<close> is the one read.\<close>

definition history_reading :: "(nat \<Rightarrow> string \<Rightarrow> 'e + (string \<times> string) list) \<Rightarrow> meter_item \<Rightarrow> 'e + string \<times> reading option" where
  "history_reading history_get it =
     (let type = js_number (mi_value_type it) in
      if type \<noteq> Num 0 \<and> type \<noteq> Num 3 then Inr (mi_itemid it, None)
      else and_then (history_get (if type = Num 0 then 0 else 3) (mi_itemid it)) (\<lambda>rows.
        Inr (mi_itemid it, case rows of
          (clock, v) # _ \<Rightarrow> map_option (\<lambda>q. \<lparr>rd_value = q, rd_clock = js_number clock\<rparr>) (finite_number (js_number v))
        | [] \<Rightarrow> None)))"

definition note_own :: "meter_item \<Rightarrow> (string, reading option) table \<Rightarrow> (string, reading option) table" where
  "note_own it t =
     (case own_reading_of it of NoReading \<Rightarrow> table_set (mi_itemid it) None t | Own r \<Rightarrow> table_set (mi_itemid it) (Some r) t | AskHistory \<Rightarrow> t)"

definition readings :: "(nat \<Rightarrow> string \<Rightarrow> 'e + (string \<times> string) list) \<Rightarrow> meter_item list \<Rightarrow> 'e + (string, reading option) table" where
  "readings history_get items =
     and_then (all_or_error (map (history_reading history_get) (filter (\<lambda>it. own_reading_of it = AskHistory) items))) (\<lambda>rows.
       Inr (fold (\<lambda>(i, r). table_set i r) rows (fold note_own items [])))"

subsection \<open>\<open>getMeters\<close>\<close>

record meters_response =
  mr_dashboard :: string
  mr_found :: bool
  mr_generatedAt :: int
  mr_meters :: "meter list"
  mr_summary :: meters_summary

definition last_of :: "('a \<Rightarrow> string) \<Rightarrow> 'a list \<Rightarrow> string \<Rightarrow> 'a option" where
  "last_of f xs i = table_get (fold (\<lambda>x. table_set (f x) x) xs []) i"

definition wanted_items :: "meter_definition list \<Rightarrow> string list" where
  "wanted_items defs = js_set (List.map_filter (\<lambda>d. if truthy (md_itemid d) then md_itemid d else None) defs)"

definition neighbour_ids :: "(string, sibling_ids) table \<Rightarrow> string list" where
  "neighbour_ids pairs =
     js_set (concat (map (\<lambda>p. List.map_filter id [statusId (snd p), otherId (snd p)]) (object_entries pairs)))"

text \<open>\<open>number_text\<close> is \<open>String(n)\<close>.\<close>

definition fresh_reading :: "(jsnum \<Rightarrow> string) \<Rightarrow> int \<Rightarrow> meter_item \<Rightarrow> reading \<Rightarrow> bool" where
  "fresh_reading number_text now it r =
     isFresh \<lparr>pi_lastclock = Some (number_text (rd_clock r)), pi_state = pi_state it, pi_delay = pi_delay it\<rparr> now"

definition show_meter ::
  "(jsnum \<Rightarrow> string) \<Rightarrow> int \<Rightarrow> meter_item list \<Rightarrow> (string, reading option) table \<Rightarrow> (string, sibling_ids) table \<Rightarrow> sibling_item list \<Rightarrow>
   meter_definition \<Rightarrow> meter" where
  "show_meter number_text now items found pairs neighbours d =
     (let item = (if truthy (md_itemid d) then last_of mi_itemid items (the (md_itemid d)) else None);
          reading = (case item of Some it \<Rightarrow> (case table_get found (mi_itemid it) of Some r \<Rightarrow> r | None \<Rightarrow> None) | None \<Rightarrow> None);
          fresh = (case (item, reading) of (Some it, Some r) \<Rightarrow> fresh_reading number_text now it r | _ \<Rightarrow> False);
          ids = (case item of Some it \<Rightarrow> table_get pairs (mi_itemid it) | None \<Rightarrow> None);
          neighbour = (\<lambda>i. if truthy i then last_of si_itemid neighbours (the i) else None);
          otherItem = (case ids of Some p \<Rightarrow> neighbour (otherId p) | None \<Rightarrow> None);
          statusItem = (case ids of Some p \<Rightarrow> neighbour (statusId p) | None \<Rightarrow> None)
      in buildMeter d item reading fresh
           \<lparr>sb_status = map_option rd_value (currentReading statusItem now),
            sb_other = map_option (\<lambda>x. (si_itemid x, currentReading otherItem now)) otherItem\<rparr>)"

definition getMeters ::
  "(jsnum \<Rightarrow> string) \<Rightarrow> string \<Rightarrow> int \<Rightarrow> (string \<Rightarrow> 'e + dashboard list) \<Rightarrow> (string list \<Rightarrow> 'e + meter_item list) \<Rightarrow>
   (nat \<Rightarrow> string \<Rightarrow> 'e + (string \<times> string) list) \<Rightarrow> (string list \<Rightarrow> 'e + keyed list) \<Rightarrow> (string list \<Rightarrow> 'e + sibling_item list) \<Rightarrow>
   'e + meters_response" where
  "getMeters number_text name now dashboard_get item_get history_get neighbours_on neighbour_get =
     and_then (dashboard_get name) (\<lambda>dashboards.
       case dashboards of
         [] \<Rightarrow> Inr \<lparr>mr_dashboard = name, mr_found = False, mr_generatedAt = now, mr_meters = [], mr_summary = summarise []\<rparr>
       | dash # _ \<Rightarrow>
           let defs = definitionsFrom dash; itemids = wanted_items defs in
           and_then (if itemids \<noteq> [] then item_get itemids else Inr []) (\<lambda>items.
           and_then (readings history_get items) (\<lambda>found.
           and_then (if items \<noteq> [] then findSiblings neighbours_on items else Inr []) (\<lambda>pairs.
           and_then (if neighbour_ids pairs \<noteq> [] then neighbour_get (neighbour_ids pairs) else Inr []) (\<lambda>neighbours.
             let meters = map (show_meter number_text now items found pairs neighbours) defs in
             Inr \<lparr>mr_dashboard = name, mr_found = True, mr_generatedAt = now, mr_meters = meters, mr_summary = summarise meters\<rparr>)))))"

subsection \<open>Lemmas\<close>

lemma last_of_Some: "last_of f xs i = Some x \<Longrightarrow> x \<in> set xs \<and> f x = i"
proof -
  have "table_get (fold (\<lambda>x. table_set (f x) x) xs t) i = Some x \<Longrightarrow> table_get t i = Some x \<or> (x \<in> set xs \<and> f x = i)" for t
    by (induction xs arbitrary: t) (fastforce simp: table_simps split: if_splits)+
  from this [of "[]"] show "last_of f xs i = Some x \<Longrightarrow> x \<in> set xs \<and> f x = i" by (simp add: last_of_def)
qed

text \<open>A reading that an item gives: its own last value, or else the newest row of its history.\<close>

definition gives_reading :: "(nat \<Rightarrow> string \<Rightarrow> 'e + (string \<times> string) list) \<Rightarrow> meter_item \<Rightarrow> reading \<Rightarrow> bool" where
  "gives_reading history_get it r \<longleftrightarrow>
     own_reading_of it = Own r \<or> (own_reading_of it = AskHistory \<and> history_reading history_get it = Inr (mi_itemid it, Some r))"

lemma history_reading_id: "history_reading h it = Inr (i, r) \<Longrightarrow> i = mi_itemid it"
  by (auto simp: history_reading_def Let_def and_then_Inr split: if_splits)

lemma all_or_error_member: "all_or_error rs = Inr xs \<Longrightarrow> x \<in> set xs \<Longrightarrow> Inr x \<in> set rs"
  by (induction rs arbitrary: xs rule: all_or_error.induct) (auto split: sum.splits)

lemma fold_pairs_get: "table_get (fold (\<lambda>(i, r). table_set i r) rows t) i = Some y \<Longrightarrow> table_get t i = Some y \<or> (i, y) \<in> set rows"
  by (induction rows arbitrary: t) (fastforce simp: table_simps split: if_splits prod.splits)+

lemma note_own_get: "table_get (fold note_own items t) i = Some (Some r) \<Longrightarrow>
    table_get t i = Some (Some r) \<or> (\<exists>it \<in> set items. mi_itemid it = i \<and> own_reading_of it = Own r)"
proof (induction items arbitrary: t)
  case (Cons it items)
  then have "table_get (note_own it t) i = Some (Some r) \<or> (\<exists>it \<in> set items. mi_itemid it = i \<and> own_reading_of it = Own r)" by simp
  then show ?case by (auto simp: note_own_def table_simps split: own_reading.splits if_splits)
qed simp

lemma readings_get:
  assumes "readings h items = Inr found" "table_get found i = Some (Some r)"
  shows "\<exists>it \<in> set items. mi_itemid it = i \<and> gives_reading h it r"
proof -
  obtain rows where rows: "all_or_error (map (history_reading h) (filter (\<lambda>it. own_reading_of it = AskHistory) items)) = Inr rows"
    and found: "found = fold (\<lambda>(i, r). table_set i r) rows (fold note_own items [])"
    using assms(1) by (auto simp: readings_def and_then_Inr)
  from fold_pairs_get [OF assms(2) [unfolded found]] consider "table_get (fold note_own items []) i = Some (Some r)" | "(i, Some r) \<in> set rows"
    by blast
  then show ?thesis
  proof cases
    case 1
    then show ?thesis using note_own_get [of items "[]" i r] by (auto simp: gives_reading_def)
  next
    case 2
    then obtain it where "it \<in> set items" "own_reading_of it = AskHistory" "history_reading h it = Inr (i, Some r)"
      using all_or_error_member [OF rows 2] by auto
    then show ?thesis using history_reading_id [of h it i] by (auto simp: gives_reading_def)
  qed
qed

text \<open>The neighbours of an item are of its host and its interface.\<close>

definition same_interface :: "string \<Rightarrow> keyed \<Rightarrow> keyed \<Rightarrow> bool" where
  "same_interface kind main f \<longleftrightarrow> ky_hostid f = ky_hostid main \<and> ky_itemid f \<noteq> ky_itemid main \<and>
     (case (parseIfKey (ky_key f), parseIfKey (ky_key main)) of (Some (k, i), Some (_, j)) \<Rightarrow> k = kind \<and> i = j | _ \<Rightarrow> False)"

lemma best_of_Some: "best_of kind prefer here = Some i \<Longrightarrow> \<exists>f. (f, kind) \<in> set here \<and> ky_itemid f = i"
proof -
  let ?s = "js_sort (\<lambda>a b. or_else (compare (prefer (ky_key (fst b))) (prefer (ky_key (fst a))))
      (sign_minus (js_number (ky_itemid (fst a))) (js_number (ky_itemid (fst b))))) (filter (\<lambda>f. snd f = kind) here)"
  assume "best_of kind prefer here = Some i"
  then obtain f rest where f: "?s = f # rest" "ky_itemid (fst f) = i" by (auto simp: best_of_def split: list.splits)
  have "f \<in> set ?s" unfolding f(1) by simp
  then have "f \<in> set here" "snd f = kind" by auto
  then have "(fst f, kind) \<in> set here" by auto
  then show ?thesis using f(2) by blast
qed

lemma candidates_member: "(f, kind) \<in> set (candidates found main i) \<Longrightarrow>
    f \<in> set found \<and> parseIfKey (ky_key f) = Some (kind, i) \<and> ky_hostid f = ky_hostid main \<and> ky_itemid f \<noteq> ky_itemid main"
  by (auto simp: candidates_def set_map_filter split: option.splits if_splits)

lemma pairSiblings_get:
  assumes "table_get (pairSiblings mains found) i = Some p"
  shows "\<exists>main \<in> set mains. ky_itemid main = i \<and>
    (case statusId p of Some j \<Rightarrow> \<exists>f \<in> set found. ky_itemid f = j \<and> same_interface ''status'' main f | None \<Rightarrow> True)"
proof -
  let ?P = "\<lambda>main p. case statusId p of Some j \<Rightarrow> \<exists>f \<in> set found. ky_itemid f = j \<and> same_interface ''status'' main f | None \<Rightarrow> True"
  have one: "ky_itemid main = i \<and> ?P main p" if "table_get (pair_main found main t) i = Some p" "table_get t i \<noteq> Some p" for main t
  proof -
    from that obtain kind j where j: "parseIfKey (ky_key main) = Some (kind, j)" and i: "ky_itemid main = i"
      and p: "statusId p = best_of ''status'' (\<lambda>key. rx_test (Lit ''ifOperStatus'') key) (candidates found main j)"
      by (auto simp: pair_main_def table_simps Let_def split: option.splits prod.splits if_splits)
    have "?P main p"
    proof (cases "statusId p")
      case (Some n)
      then obtain f where "(f, ''status'') \<in> set (candidates found main j)" "ky_itemid f = n" using p best_of_Some by metis
      then show ?thesis using Some candidates_member [of f "''status''" found main j] j by (auto simp: same_interface_def)
    qed simp
    then show ?thesis using i by simp
  qed
  have "table_get (fold (pair_main found) mains t) i = Some p \<Longrightarrow> table_get t i = Some p \<or> (\<exists>main \<in> set mains. ky_itemid main = i \<and> ?P main p)" for t
  proof (induction mains arbitrary: t)
    case (Cons main mains)
    then have "table_get (pair_main found main t) i = Some p \<or> (\<exists>main \<in> set mains. ky_itemid main = i \<and> ?P main p)" by simp
    then show ?case using one [of main t] by auto
  qed simp
  from this [of "[]"] show ?thesis using assms by (simp add: pairSiblings_def)
qed

lemma buildMeter_ok:
  assumes "mt_state (buildMeter d item r fresh sb) = MOk"
  shows "\<exists>it rd. item = Some it \<and> r = Some rd \<and> fresh \<and> \<not> disabled (mi_status it) (pi_state it) \<and>
    mt_value (buildMeter d item r fresh sb) = Some (rd_value rd) \<and> mt_clock (buildMeter d item r fresh sb) = Some (rd_clock rd) \<and>
    mt_fraction (buildMeter d item r fresh sb) \<noteq> None"
  using assms by (auto simp: buildMeter_def base_meter_def Let_def usable_scale_def fraction_of_def split: option.splits if_splits)

lemma buildMeter_down:
  "mt_link (buildMeter d item r fresh sb) = LinkDown \<Longrightarrow> item \<noteq> None \<and> (sb_status sb = Some 2 \<or> sb_status sb = Some 7)"
  by (auto simp: buildMeter_def base_meter_def Let_def linkOf_def split: option.splits if_splits)

lemma buildMeter_same [simp]:
  "mt_id (buildMeter d item r fresh sb) = meter_id d" "mt_itemid (buildMeter d item r fresh sb) = md_itemid d"
  by (simp_all add: buildMeter_def base_meter_def Let_def split: option.split)

lemma summarise_counts:
  "ms_total (summarise ms) = length ms"
  "ms_current (summarise ms) = length (filter (\<lambda>m. mt_state m = MOk) ms)"
  "ms_stale (summarise ms) = length (filter (\<lambda>m. mt_state m = MStale) ms)"
  "ms_unavailable (summarise ms) = length (filter (\<lambda>m. mt_state m \<noteq> MOk \<and> mt_state m \<noteq> MStale) ms)"
  "ms_critical (summarise ms) = length (filter (\<lambda>m. mt_state m = MOk \<and> mt_zone m = Some ZCritical) ms)"
  "ms_warn (summarise ms) = length (filter (\<lambda>m. mt_state m = MOk \<and> mt_zone m = Some ZWarn) ms)"
  "ms_down (summarise ms) = length (filter (\<lambda>m. mt_link m = LinkDown) ms)"
proof -
  have "let r = fold count_meter ms s in
    ms_total r = ms_total s \<and> ms_current r = ms_current s + length (filter (\<lambda>m. mt_state m = MOk) ms) \<and>
    ms_stale r = ms_stale s + length (filter (\<lambda>m. mt_state m = MStale) ms) \<and>
    ms_unavailable r = ms_unavailable s + length (filter (\<lambda>m. mt_state m \<noteq> MOk \<and> mt_state m \<noteq> MStale) ms) \<and>
    ms_critical r = ms_critical s + length (filter (\<lambda>m. mt_state m = MOk \<and> mt_zone m = Some ZCritical) ms) \<and>
    ms_warn r = ms_warn s + length (filter (\<lambda>m. mt_state m = MOk \<and> mt_zone m = Some ZWarn) ms) \<and>
    ms_down r = ms_down s + length (filter (\<lambda>m. mt_link m = LinkDown) ms)" for s
    by (induction ms arbitrary: s) (simp_all add: Let_def count_meter_def)
  from this [of "\<lparr>ms_total = length ms, ms_current = 0, ms_critical = 0, ms_warn = 0, ms_stale = 0, ms_unavailable = 0, ms_down = 0, ms_otherHigh = 0\<rparr>"]
  show "ms_total (summarise ms) = length ms"
    "ms_current (summarise ms) = length (filter (\<lambda>m. mt_state m = MOk) ms)"
    "ms_stale (summarise ms) = length (filter (\<lambda>m. mt_state m = MStale) ms)"
    "ms_unavailable (summarise ms) = length (filter (\<lambda>m. mt_state m \<noteq> MOk \<and> mt_state m \<noteq> MStale) ms)"
    "ms_critical (summarise ms) = length (filter (\<lambda>m. mt_state m = MOk \<and> mt_zone m = Some ZCritical) ms)"
    "ms_warn (summarise ms) = length (filter (\<lambda>m. mt_state m = MOk \<and> mt_zone m = Some ZWarn) ms)"
    "ms_down (summarise ms) = length (filter (\<lambda>m. mt_link m = LinkDown) ms)"
    by (simp_all add: summarise_def Let_def)
qed

lemma summary_adds_up: "ms_current (summarise ms) + ms_stale (summarise ms) + ms_unavailable (summarise ms) = length ms"
proof -
  have "length (filter (\<lambda>m. mt_state m = MOk) ms) + length (filter (\<lambda>m. mt_state m = MStale) ms) +
      length (filter (\<lambda>m. mt_state m \<noteq> MOk \<and> mt_state m \<noteq> MStale) ms) = length ms"
    by (induction ms) auto
  then show ?thesis by (simp add: summarise_counts)
qed

text \<open>The items the widgets name, as they were read.\<close>

definition items_read :: "(string list \<Rightarrow> 'e + 'i list) \<Rightarrow> string list \<Rightarrow> 'i list" where
  "items_read item_get ids = (case (if ids \<noteq> [] then item_get ids else Inr []) of Inr xs \<Rightarrow> xs | Inl _ \<Rightarrow> [])"

text \<open>What backs a meter that reads as current, and one whose link reads as down.\<close>

definition ok_evidence where
  "ok_evidence number_text now history_get items m it \<longleftrightarrow>
     mt_itemid m = Some (mi_itemid it) \<and> \<not> disabled (mi_status it) (pi_state it) \<and>
     (\<exists>it' \<in> set items. \<exists>rd. mi_itemid it' = mi_itemid it \<and> gives_reading history_get it' rd \<and>
        fresh_reading number_text now it rd \<and> mt_value m = Some (rd_value rd) \<and> mt_clock m = Some (rd_clock rd))"

definition down_evidence where
  "down_evidence now neighbours_on neighbour_get items m it \<longleftrightarrow>
     mt_itemid m = Some (mi_itemid it) \<and>
     (\<exists>found main f ids neighbours n rd.
        neighbours_on (js_set (map ky_hostid (List.map_filter keyed_of items))) = Inr found \<and>
        main \<in> set (List.map_filter keyed_of items) \<and> ky_itemid main = mi_itemid it \<and>
        f \<in> set found \<and> same_interface ''status'' main f \<and>
        neighbour_get ids = Inr neighbours \<and> n \<in> set neighbours \<and> si_itemid n = ky_itemid f \<and>
        currentReading (Some n) now = Some rd \<and> (rd_value rd = 2 \<or> rd_value rd = 7))"

lemma show_meter_ok:
  assumes found: "readings history_get items = Inr found"
    and ok: "mt_state (show_meter number_text now items found pairs neighbours d) = MOk"
  shows "\<exists>it \<in> set items. ok_evidence number_text now history_get items (show_meter number_text now items found pairs neighbours d) it"
proof -
  let ?m = "show_meter number_text now items found pairs neighbours d"
  from ok obtain it rd where it: "truthy (md_itemid d)" "last_of mi_itemid items (the (md_itemid d)) = Some it"
    and rd: "table_get found (mi_itemid it) = Some (Some rd)" and fresh: "fresh_reading number_text now it rd"
    and dis: "\<not> disabled (mi_status it) (pi_state it)" and shown: "mt_value ?m = Some (rd_value rd)" "mt_clock ?m = Some (rd_clock rd)"
    unfolding show_meter_def Let_def by (auto dest!: buildMeter_ok split: option.splits if_splits)
  have item: "it \<in> set items" "mi_itemid it = the (md_itemid d)" using last_of_Some [OF it(2)] by simp_all
  have "mt_itemid ?m = Some (mi_itemid it)" using it(1) item(2) by (auto simp: show_meter_def Let_def truthy_def)
  moreover obtain it' where "it' \<in> set items" "mi_itemid it' = mi_itemid it" "gives_reading history_get it' rd"
    using readings_get [OF found rd] by blast
  ultimately show ?thesis using item(1) fresh dis shown unfolding ok_evidence_def by blast
qed

lemma show_meter_down:
  assumes pairs_read: "(if items \<noteq> [] then findSiblings neighbours_on items else Inr []) = Inr pairs"
    and neighbours_read: "(if ids \<noteq> [] then neighbour_get ids else Inr []) = Inr neighbours"
    and down: "mt_link (show_meter number_text now items found pairs neighbours d) = LinkDown"
  shows "\<exists>it \<in> set items. down_evidence now neighbours_on neighbour_get items (show_meter number_text now items found pairs neighbours d) it"
proof -
  let ?m = "show_meter number_text now items found pairs neighbours d"
  from down obtain it p j n rd where it: "truthy (md_itemid d)" "last_of mi_itemid items (the (md_itemid d)) = Some it"
    and p: "table_get pairs (mi_itemid it) = Some p" "statusId p = Some j" and n: "last_of si_itemid neighbours j = Some n"
    and rd: "currentReading (Some n) now = Some rd" "rd_value rd = 2 \<or> rd_value rd = 7"
    unfolding show_meter_def Let_def
    by (auto dest!: buildMeter_down simp: truthy_def currentReading_def split: option.splits if_splits)
  have item: "it \<in> set items" "mi_itemid it = the (md_itemid d)" using last_of_Some [OF it(2)] by simp_all
  have n_in: "n \<in> set neighbours" "si_itemid n = j" using last_of_Some [OF n] by simp_all
  have pairs: "findSiblings neighbours_on items = Inr pairs" using pairs_read item(1) by (auto split: if_splits)
  have neighbours: "neighbour_get ids = Inr neighbours" using neighbours_read n_in(1) by (auto split: if_splits)
  have id: "mt_itemid ?m = Some (mi_itemid it)" using it(1) item(2) by (auto simp: show_meter_def Let_def truthy_def)
  obtain found' where found': "neighbours_on (js_set (map ky_hostid (List.map_filter keyed_of items))) = Inr found'"
    and eq: "pairs = pairSiblings (List.map_filter keyed_of items) found'"
    using pairs p(1) by (auto simp: findSiblings_def Let_def and_then_Inr split: if_splits)
  from pairSiblings_get [OF p(1) [unfolded eq]] p(2) obtain main f where
    "main \<in> set (List.map_filter keyed_of items)" "ky_itemid main = mi_itemid it" "f \<in> set found'" "ky_itemid f = j" "same_interface ''status'' main f"
    by auto
  then show ?thesis using item(1) id found' neighbours rd n_in unfolding down_evidence_def by metis
qed

text \<open>The key a widget is known by, read off its definition.\<close>

definition definition_key :: "meter_definition \<Rightarrow> string" where
  "definition_key d = (if truthy (md_itemid d) then ''item:'' @ the (md_itemid d) else ''title:'' @ titleKey (md_title d))"

lemma definition_key_of [simp]: "definition_key (definition_of i page w) = widget_key w"
  by (simp add: definition_key_def definition_of_def widget_key_def Let_def)

definition gauge_key :: "nat \<times> dash_page \<times> widget \<Rightarrow> string" where
  "gauge_key x = widget_key (snd (snd x))"

lemma take_new_keys:
  "distinct (map definition_key (take_new seen ws)) \<and>
   set (map definition_key (take_new seen ws)) = gauge_key ` set ws - set seen"
proof (induction ws arbitrary: seen)
  case (Cons x ws)
  obtain i page w where x: "x = (i, page, w)" by (cases x) auto
  have key: "gauge_key x = widget_key w" by (simp add: gauge_key_def x)
  show ?case
  proof (cases "widget_key w \<in> set seen")
    case True
    then show ?thesis using Cons [of seen] key by (auto simp: x)
  next
    case False
    from Cons [of "widget_key w # seen"] have
      d: "distinct (map definition_key (take_new (widget_key w # seen) ws))" and
      k: "set (map definition_key (take_new (widget_key w # seen) ws)) = gauge_key ` set ws - insert (widget_key w) (set seen)" by auto
    have "set (map definition_key (take_new seen (x # ws))) = insert (widget_key w) (gauge_key ` set ws - insert (widget_key w) (set seen))"
      using False k by (simp add: x)
    also have "\<dots> = gauge_key ` set (x # ws) - set seen" using False key by auto
    finally show ?thesis using False d k by (simp add: x)
  qed
qed simp

lemma definitions_keys:
  "distinct (map definition_key (definitionsFrom d))"
  "set (map definition_key (definitionsFrom d)) = gauge_key ` set (all_gauges d)"
  using take_new_keys [of "[]" "all_gauges d"] by (simp_all add: definitionsFrom_def)

text \<open>
  Two gauges without an item, one without a title and one called Untitled, are two meters under one id.
\<close>

lemma untitled_gauges_share_an_id:
  fixes d :: meter_definition
  defines "d \<equiv> \<lparr>md_title = [], md_page = ''Page 1'', md_itemid = None, md_min = None, md_max = None, md_thresholds = []\<rparr>"
  shows "definition_key d \<noteq> definition_key (d\<lparr>md_title := ''Untitled''\<rparr>)" "meter_id d = meter_id (d\<lparr>md_title := ''Untitled''\<rparr>)"
proof -
  have "titleKey ''Untitled'' = ''untitled''" "titleKey [] = []" by code_simp+
  then show "definition_key d \<noteq> definition_key (d\<lparr>md_title := ''Untitled''\<rparr>)" "meter_id d = meter_id (d\<lparr>md_title := ''Untitled''\<rparr>)"
    by (simp_all add: d_def definition_key_def meter_id_def truthy_def)
qed

subsection \<open>Properties\<close>


text \<open>The zone of a value is the last one that starts at or below it; the zones are in the order of their starts.\<close>

lemma zoneOf_last:
  "zoneOf v zones = (case rev (filter (\<lambda>z. zn_from z \<le> v) zones) of z # _ \<Rightarrow> zn_level z
     | [] \<Rightarrow> (case zones of z # _ \<Rightarrow> zn_level z | [] \<Rightarrow> ZNone))"
proof -
  have "fold (\<lambda>z level. if v \<ge> zn_from z then zn_level z else level) zs l =
      (case rev (filter (\<lambda>z. zn_from z \<le> v) zs) of z # _ \<Rightarrow> zn_level z | [] \<Rightarrow> l)" for zs l
    by (induction zs arbitrary: l) (auto split: list.splits)
  then show ?thesis by (simp add: zoneOf_def)
qed

lemma le_last_sorted: "sorted (map f xs) \<Longrightarrow> y \<in> set xs \<Longrightarrow> f y \<le> f (last xs)" for f :: "'a \<Rightarrow> 'b :: linorder"
  by (induction xs rule: rev_induct) (auto simp: sorted_append)

lemma buildZones_sorted: "buildZones thresholds mn \<noteq> [] \<and> sorted (map zn_from (buildZones thresholds mn)) \<and> zn_from (hd (buildZones thresholds mn)) \<le> mn"
proof -
  let ?zs = "js_sort (\<lambda>a b. compare (zn_from a) (zn_from b)) (map (\<lambda>(v, color). \<lparr>zn_from = v, zn_level = levelOfColor color\<rparr>) thresholds)"
  have "sorted_wrt (\<lambda>a b. compare (zn_from a) (zn_from b) \<le> 0) ?zs" by (rule sorted_js_sort [OF consistent_key])
  then have s: "sorted (map zn_from ?zs)"
    unfolding sorted_map by (rule sorted_wrt_mono_rel [rotated]) (auto simp: compare_def split: if_splits)
  show ?thesis
  proof (cases ?zs)
    case (Cons z zs)
    then show ?thesis using s by (auto simp: buildZones_def Let_def)
  qed (simp add: buildZones_def)
qed

text \<open>
  A meter's place on its scale is right: with a usable scale its fraction is the value's place between the two
  ends, never outside 0 and 1, and its zone is that of the highest threshold the value has reached; without one
  there is neither, and the meter says so.
\<close>

theorem scale_is_read_right:
  "case buildMeter d (Some it) (Some rd) fresh sb of m \<Rightarrow>
     (case (mt_fraction m, mt_zone m) of
        (Some x, Some z) \<Rightarrow>
          \<not> disabled (mi_status it) (pi_state it) \<and> mt_state m = (if fresh then MOk else MStale) \<and>
          (case mt_max m of None \<Rightarrow> False | Some mx \<Rightarrow> mt_min m < mx \<and> 0 \<le> x \<and> x \<le> 1 \<and>
             (if mt_min m \<le> rd_value rd \<and> rd_value rd \<le> mx then rd_value rd = mt_min m + x * (mx - mt_min m) else True)) \<and>
          (if mt_min m \<le> rd_value rd then \<exists>zn \<in> set (mt_zones m). z = zn_level zn \<and> zn_from zn \<le> rd_value rd \<and>
             list_all (\<lambda>y. zn_from y \<le> zn_from zn \<or> rd_value rd < zn_from y) (mt_zones m) else True)
      | (None, None) \<Rightarrow> mt_state m = (if disabled (mi_status it) (pi_state it) then MUnsupported else MInvalid)
      | _ \<Rightarrow> False)"
proof -
  define mn where "mn = (case parseScale (md_min d) (mi_units it) of Some v \<Rightarrow> v | None \<Rightarrow> 0)"
  define mx where "mx = parseScale (md_max d) (mi_units it)"
  define zones where "zones = buildZones (scale_thresholds d (mi_units it)) mn"
  let ?m = "buildMeter d (Some it) (Some rd) fresh sb" and ?v = "rd_value rd"
  have m: "mt_min ?m = mn" "mt_max ?m = mx" "mt_zones ?m = zones"
    by (simp_all add: buildMeter_def Let_def mn_def mx_def zones_def)
  show ?thesis
  proof (cases "disabled (mi_status it) (pi_state it) \<or> \<not> usable_scale mn mx")
    case True
    then show ?thesis
      by (auto simp: buildMeter_def base_meter_def Let_def usable_scale_def fraction_of_def simp flip: mn_def mx_def split: option.splits)
  next
    case False
    then obtain top where top: "mx = Some top" "mn < top" and on: "\<not> disabled (mi_status it) (pi_state it)"
      by (auto simp: usable_scale_def split: option.splits)
    have shown: "mt_fraction ?m = fraction_of mn mx ?v" "mt_zone ?m = Some (zoneOf ?v zones)" "mt_state ?m = (if fresh then MOk else MStale)"
      using False by (simp_all add: buildMeter_def Let_def zones_def mn_def mx_def)
    have frac: "fraction_of mn mx ?v = Some (min 1 (max 0 ((?v - mn) / (top - mn))))" using top by (simp add: fraction_of_def)
    have exact: "?v = mn + min 1 (max 0 ((?v - mn) / (top - mn))) * (top - mn)" if "mn \<le> ?v" "?v \<le> top"
      using that top by (simp add: field_simps max_def min_def)
    have zone: "\<exists>zn \<in> set zones. zoneOf ?v zones = zn_level zn \<and> zn_from zn \<le> ?v \<and> list_all (\<lambda>y. zn_from y \<le> zn_from zn \<or> ?v < zn_from y) zones"
      if above: "mn \<le> ?v"
    proof -
      let ?f = "filter (\<lambda>z. zn_from z \<le> ?v) zones"
      have z: "zones \<noteq> []" "sorted (map zn_from zones)" "zn_from (hd zones) \<le> mn" using buildZones_sorted unfolding zones_def by blast+
      then have "hd zones \<in> set ?f" using above by auto
      then have ne: "?f \<noteq> []" by (metis empty_iff list.set(1))
      have fs: "sorted (map zn_from ?f)" using z(2) by (simp add: sorted_filter)
      have "zn_from y \<le> zn_from (last ?f)" if "y \<in> set ?f" for y using le_last_sorted [OF fs that] .
      moreover have "last ?f \<in> set ?f" using ne by (rule last_in_set)
      moreover have "zoneOf ?v zones = zn_level (last ?f)"
        using ne by (cases ?f rule: rev_cases) (simp_all add: zoneOf_last)
      ultimately show ?thesis by (intro bexI [of _ "last ?f"]) (auto simp: list_all_iff)
    qed
    show ?thesis unfolding shown frac m using top on exact zone by (simp add: case_prod_unfold)
  qed
qed

end
