(* ===== verification/Capacity.thy ===== *)
theory Capacity
  imports Reachability
begin

text \<open>
  How busy the estate is: the capacity report over days of trends (\<open>server/src/services/capacity.ts\<close>), the busiest
  hosts right now (\<open>server/src/services/topHosts.ts\<close>) and the web scenarios (\<open>server/src/services/webMonitoring.ts\<close>).
  \<open>item.get\<close>, \<open>history.get\<close>, the sliced trend read (the component Slices) and \<open>localeCompare\<close> are parameters.
  Averages are exact rationals.
\<close>

subsection \<open>Which item measures what\<close>

text \<open>\<open>Number(text) || 0\<close>; the numbers of a trend row and of an item arrive as decimal text.\<close>

definition decimal :: "string \<Rightarrow> rat" where
  "decimal s = (case js_number s of Num q \<Rightarrow> q | _ \<Rightarrow> 0)"

definition letter :: "char \<Rightarrow> bool" where
  "letter c \<longleftrightarrow> (CHR ''a'' \<le> c \<and> c \<le> CHR ''z'') \<or> (CHR ''A'' \<le> c \<and> c \<le> CHR ''Z'')"

definition SNMP_PARAM :: rx where
  "SNMP_PARAM = Seqs [Start, Lit ''['', Cls letter, Star (Cls (\<lambda>c. word_char c \<or> c = CHR ''.'')), Lit ''.'', Plus Digit, Lit '']'', End]"

definition pused_rx :: rx where
  "pused_rx = Seqs [Lit '','', Spaces, Lit ''pused]'', End]"

record metric =
  me_key :: string
  me_label :: string
  me_search :: string
  me_match :: "string \<Rightarrow> bool"
  me_free :: bool

text \<open>\<open>me_free\<close> marks the one metric whose values are free shares, shown as \<open>100 - v\<close>.\<close>

definition METRICS :: "metric list" where
  "METRICS =
     [\<lparr>me_key = ''cpu'', me_label = ''CPU utilisation'', me_search = ''system.cpu.util'',
       me_match = (\<lambda>k. k = ''system.cpu.util'' \<or> k = ''system.cpu.util[]'' \<or> rx_test SNMP_PARAM (drop (length ''system.cpu.util'') k)),
       me_free = False\<rparr>,
      \<lparr>me_key = ''memory'', me_label = ''Memory utilisation'', me_search = ''vm.memory.util'',
       me_match = (\<lambda>k. k = ''vm.memory.util'' \<or> k = ''vm.memory.utilization'' \<or> rx_test SNMP_PARAM (drop (length ''vm.memory.util'') k)),
       me_free = False\<rparr>,
      \<lparr>me_key = ''disk'', me_label = ''Filesystem used'', me_search = ''vfs.fs'', me_match = rx_test pused_rx, me_free = False\<rparr>,
      \<lparr>me_key = ''disk'', me_label = ''Filesystem used'', me_search = ''vfs.fs.pfree'', me_match = (\<lambda>k. k = ''vfs.fs.pfree''), me_free = True\<rparr>]"

definition capacityMetricFor :: "string \<Rightarrow> string option" where
  "capacityMetricFor key = map_option me_key (find (\<lambda>m. startsWith key (me_search m) \<and> me_match m key) METRICS)"

subsection \<open>The capacity report\<close>

definition HISTORY_FALLBACK_LIMIT :: nat where "HISTORY_FALLBACK_LIMIT = 10000"

datatype source = SrcTrend | SrcHistory | SrcNone

record cap_item =
  ci_itemid :: string
  ci_name :: string
  ci_key :: string
  ci_units :: "string option"
  ci_value_type :: string
  ci_hosts :: "(string \<times> string) list option"

record capacity_row =
  cr_metric :: string
  cr_label :: string
  cr_itemid :: string
  cr_hostid :: string
  cr_host :: string
  cr_name :: string
  cr_units :: string
  cr_avg :: rat
  cr_max :: rat
  cr_source :: source

record metric_rows =
  mr_key :: string
  mr_label :: string
  mr_rows :: "capacity_row list"

record aggregate =
  ag_sum :: rat
  ag_n :: nat
  ag_max :: rat

text \<open>
  A row of trends or history, as item, average and maximum. The highest value starts at minus infinity, so the
  first row's maximum stands for it here.
\<close>

type_synonym sample_row = "string \<times> rat \<times> rat"

definition add_to :: "sample_row \<Rightarrow> aggregate \<Rightarrow> aggregate" where
  "add_to r a = a\<lparr>ag_sum := ag_sum a + fst (snd r), ag_n := Suc (ag_n a), ag_max := max (ag_max a) (snd (snd r))\<rparr>"

definition aggregates :: "sample_row list \<Rightarrow> (string, aggregate) table" where
  "aggregates rows = group_into fst (\<lambda>r. \<lparr>ag_sum = 0, ag_n = 0, ag_max = snd (snd r)\<rparr>) add_to rows"

definition trend_sample :: "string \<times> string \<times> string \<Rightarrow> sample_row" where
  "trend_sample r = (fst r, decimal (fst (snd r)), decimal (snd (snd r)))"

definition history_sample :: "string \<times> string \<Rightarrow> sample_row" where
  "history_sample r = (fst r, decimal (snd r), decimal (snd r))"

definition first_host :: "(string \<times> string) list option \<Rightarrow> string \<times> string" where
  "first_host hs = (case hs of Some (h # _) \<Rightarrow> h | _ \<Rightarrow> ([], []))"

definition shown_value :: "metric \<Rightarrow> rat \<Rightarrow> rat" where
  "shown_value m v = (if me_free m then 100 - v else v)"

definition capacity_row_of :: "metric \<Rightarrow> source \<Rightarrow> (string, aggregate) table \<Rightarrow> cap_item \<Rightarrow> capacity_row option" where
  "capacity_row_of m src agg i =
     (case table_get agg (ci_itemid i) of
        None \<Rightarrow> None
      | Some a \<Rightarrow>
          let av = (if ag_n a \<noteq> 0 then shown_value m (ag_sum a / of_nat (ag_n a)) else 0); mx = shown_value m (ag_max a)
          in Some \<lparr>cr_metric = me_key m, cr_label = me_label m, cr_itemid = ci_itemid i, cr_hostid = fst (first_host (ci_hosts i)),
                   cr_host = snd (first_host (ci_hosts i)), cr_name = ci_name i,
                   cr_units = (case ci_units i of Some u \<Rightarrow> (if u = [] then ''%'' else u) | None \<Rightarrow> ''%''),
                   cr_avg = av, cr_max = (if me_free m then max av mx else mx), cr_source = src\<rparr>)"

definition metric_of_items ::
  "(string list \<Rightarrow> nat \<Rightarrow> int \<Rightarrow> int \<Rightarrow> nat \<Rightarrow> 'e + (string \<times> string) list) \<Rightarrow> int \<Rightarrow> int \<Rightarrow> (string, aggregate) table \<Rightarrow>
   metric \<times> cap_item list \<Rightarrow> 'e + metric_rows" where
  "metric_of_items history from to trend_agg mi =
     (case mi of (m, items) \<Rightarrow>
        let answer = (\<lambda>rows. \<lparr>mr_key = me_key m, mr_label = me_label m, mr_rows = rows\<rparr>) in
        if items = [] then Inr (answer [])
        else if list_ex (\<lambda>i. table_get trend_agg (ci_itemid i) \<noteq> None) items
        then Inr (answer (List.map_filter (capacity_row_of m SrcTrend trend_agg) items))
        else and_then (history (map ci_itemid items) (if js_number (ci_value_type (hd items)) = Num 3 then 3 else 0)
                         (max from (to - 86400)) to HISTORY_FALLBACK_LIMIT) (\<lambda>hist.
          let agg = aggregates (map history_sample hist); src = (if hist = [] then SrcNone else SrcHistory) in
          Inr (answer (List.map_filter (capacity_row_of m src agg) items))))"

text \<open>The report's metrics by key: the two disk matchers share one.\<close>

definition by_metric :: "metric_rows list \<Rightarrow> (string, metric_rows) table" where
  "by_metric ms =
     group_into mr_key (\<lambda>m. m\<lparr>mr_rows := []\<rparr>) (\<lambda>m e. e\<lparr>mr_rows := mr_rows e @ mr_rows m\<rparr>) ms"

text \<open>One row per device: its busiest item, the first of equals.\<close>

definition device :: "capacity_row \<Rightarrow> string" where
  "device r = (if cr_hostid r \<noteq> [] then cr_hostid r else cr_itemid r)"

definition busier :: "capacity_row \<Rightarrow> capacity_row \<Rightarrow> capacity_row" where
  "busier r prev = (if cr_avg r > cr_avg prev then r else prev)"

definition busiest :: "nat \<Rightarrow> capacity_row list \<Rightarrow> capacity_row list" where
  "busiest n rows =
     take n (js_sort (\<lambda>a b. compare (cr_avg b) (cr_avg a)) (map snd (group_into device (\<lambda>r. r) busier rows)))"

subsection \<open>Interfaces\<close>

record if_traffic =
  it_itemid :: string
  it_key :: string
  it_name :: string
  it_lastvalue :: string
  it_hosts :: "(string \<times> string) list option"

definition if_index_rx :: rx where
  "if_index_rx = Seqs [Lit ''.'', Cap 1 (Plus Digit), Lit '']'', End]"

definition index_of_key :: "string \<Rightarrow> string option" where
  "index_of_key k = map_option (\<lambda>m. cap m 1) (rx_caps if_index_rx k)"

text \<open>The key \<open>host:index\<close> of an interface, as a pair.\<close>

definition if_id :: "if_traffic \<Rightarrow> string \<times> string option" where
  "if_id i = (fst (first_host (it_hosts i)), index_of_key (it_key i))"

record candidate =
  ca_in :: if_traffic
  ca_out :: "if_traffic option"
  ca_speed :: rat
  ca_latest :: rat

definition candidate_of ::
  "(string \<times> string option, rat) table \<Rightarrow> (string \<times> string option, if_traffic) table \<Rightarrow> if_traffic \<Rightarrow> candidate" where
  "candidate_of speedOf outOf i =
     (let speed = (case table_get speedOf (if_id i) of Some s \<Rightarrow> s | None \<Rightarrow> 0);
          outgoing = table_get outOf (if_id i);
          latest = max (decimal (it_lastvalue i)) (case outgoing of Some x \<Rightarrow> decimal (it_lastvalue x) | None \<Rightarrow> 0)
      in \<lparr>ca_in = i, ca_out = outgoing, ca_speed = speed, ca_latest = (if speed > 0 then latest / speed else 0)\<rparr>)"

definition octets_rx :: rx where "octets_rx = LitI ''octets''"

definition candidates_of :: "nat \<Rightarrow> if_traffic list \<Rightarrow> if_traffic list \<Rightarrow> if_traffic list \<Rightarrow> candidate list" where
  "candidates_of n ins outs speeds =
     (let speedOf = fold (\<lambda>s. table_set (if_id s) (decimal (it_lastvalue s))) speeds [];
          outOf = fold (\<lambda>x. table_set (if_id x) x) outs [];
          traffic = filter (\<lambda>i. rx_test octets_rx (it_key i) \<and> index_of_key (it_key i) \<noteq> None) ins
      in take (max (n * 4) 40) (js_sort (\<lambda>a b. compare (ca_latest b) (ca_latest a))
           (filter (\<lambda>c. ca_speed c > 0 \<and> ca_latest c > 0) (map (candidate_of speedOf outOf) traffic))))"

text \<open>Here the highest value starts at zero.\<close>

definition traffic_aggregates :: "sample_row list \<Rightarrow> (string, aggregate) table" where
  "traffic_aggregates rows = group_into fst (\<lambda>_. \<lparr>ag_sum = 0, ag_n = 0, ag_max = 0\<rparr>) add_to rows"

definition pct :: "(string, aggregate) table \<Rightarrow> string option \<Rightarrow> rat \<Rightarrow> (aggregate \<Rightarrow> rat) \<Rightarrow> rat" where
  "pct agg itemid speed pick =
     (case itemid of
        None \<Rightarrow> 0
      | Some i \<Rightarrow> (case table_get agg i of Some a \<Rightarrow> (if ag_n a = 0 then 0 else pick a / speed * 100) | None \<Rightarrow> 0))"

definition mean_of :: "aggregate \<Rightarrow> rat" where
  "mean_of a = ag_sum a / of_nat (ag_n a)"

definition port_rx :: rx where
  "port_rx = Seqs [Start, Lit ''Interface'', Plus Space, Cap 1 (Plus (NoneOf ''(:''))]"

definition IFUTIL_LABEL :: string where "IFUTIL_LABEL = ''Interface utilisation (busiest direction)''"

definition traffic_row :: "(string, aggregate) table \<Rightarrow> candidate \<Rightarrow> capacity_row" where
  "traffic_row agg c =
     (let i = ca_in c; host = first_host (it_hosts i);
          port = (case rx_caps port_rx (it_name i) of Some m \<Rightarrow> trim (cap m 1) | None \<Rightarrow> it_name i);
          in_id = Some (it_itemid i); out_id = map_option it_itemid (ca_out c)
      in \<lparr>cr_metric = ''ifutil'', cr_label = IFUTIL_LABEL, cr_itemid = it_itemid i, cr_hostid = fst host, cr_host = snd host, cr_name = port,
          cr_units = ''%'', cr_avg = max (pct agg in_id (ca_speed c) mean_of) (pct agg out_id (ca_speed c) mean_of),
          cr_max = min 100 (max (pct agg in_id (ca_speed c) ag_max) (pct agg out_id (ca_speed c) ag_max)), cr_source = SrcTrend\<rparr>)"

definition candidate_items :: "candidate list \<Rightarrow> string list" where
  "candidate_items cs = concat (map (\<lambda>c. it_itemid (ca_in c) # (case ca_out c of Some x \<Rightarrow> [it_itemid x] | None \<Rightarrow> [])) cs)"

definition interfaceUtilisation ::
  "(string \<Rightarrow> 'e + if_traffic list) \<Rightarrow> (string list \<Rightarrow> int \<Rightarrow> int \<Rightarrow> 'e + (string \<times> string \<times> string) list) \<Rightarrow> int \<Rightarrow> int \<Rightarrow> nat \<Rightarrow> 'e + metric_rows" where
  "interfaceUtilisation read trends from to n =
     and_then (read ''net.if.in['') (\<lambda>ins. and_then (read ''net.if.out['') (\<lambda>outs. and_then (read ''net.if.speed['') (\<lambda>speeds.
       let cs = candidates_of n ins outs speeds; answer = (\<lambda>rows. \<lparr>mr_key = ''ifutil'', mr_label = IFUTIL_LABEL, mr_rows = rows\<rparr>) in
       if cs = [] then Inr (answer [])
       else and_then (trends (candidate_items cs) from to) (\<lambda>rows.
         let agg = traffic_aggregates (map trend_sample rows) in
         Inr (answer (if rows = [] then []
           else take n (js_sort (\<lambda>a b. compare (cr_avg b) (cr_avg a)) (map (traffic_row agg) cs))))))))"

record capacity_report =
  cp_days :: int
  cp_metrics :: "metric_rows list"

text \<open>The matched items of every metric, and the rows they give.\<close>

definition matched_items :: "(string \<Rightarrow> 'e + cap_item list) \<Rightarrow> 'e + cap_item list list" where
  "matched_items item_get =
     all_or_error (map (\<lambda>m. and_then (item_get (me_search m)) (\<lambda>is. Inr (filter (\<lambda>i. me_match m (ci_key i)) is))) METRICS)"

definition per_matcher ::
  "(string \<Rightarrow> 'e + cap_item list) \<Rightarrow> (string list \<Rightarrow> int \<Rightarrow> int \<Rightarrow> 'e + (string \<times> string \<times> string) list) \<Rightarrow>
   (string list \<Rightarrow> nat \<Rightarrow> int \<Rightarrow> int \<Rightarrow> nat \<Rightarrow> 'e + (string \<times> string) list) \<Rightarrow> int \<Rightarrow> int \<Rightarrow> 'e + metric_rows list" where
  "per_matcher item_get trends history from to =
     and_then (matched_items item_get) (\<lambda>matched.
     and_then (trends (js_set (map ci_itemid (concat matched))) from to) (\<lambda>rows.
       all_or_error (map (metric_of_items history from to (aggregates (map trend_sample rows))) (zip METRICS matched))))"

definition getCapacity ::
  "(string \<Rightarrow> 'e + cap_item list) \<Rightarrow> (string list \<Rightarrow> int \<Rightarrow> int \<Rightarrow> 'e + (string \<times> string \<times> string) list) \<Rightarrow>
   (string list \<Rightarrow> nat \<Rightarrow> int \<Rightarrow> int \<Rightarrow> nat \<Rightarrow> 'e + (string \<times> string) list) \<Rightarrow> (string \<Rightarrow> 'e + if_traffic list) \<Rightarrow> int \<Rightarrow> int \<Rightarrow> nat \<Rightarrow>
   'e + capacity_report" where
  "getCapacity item_get trends history read_if now days n =
     (let to = now; from = to - days * 86400 in
      and_then (per_matcher item_get trends history from to) (\<lambda>per.
        let metrics = map (\<lambda>(key, m). m\<lparr>mr_rows := busiest n (mr_rows m)\<rparr>) (by_metric per) in
      and_then (interfaceUtilisation read_if trends from to n) (\<lambda>ifs.
        Inr \<lparr>cp_days = days, cp_metrics = metrics @ [ifs]\<rparr>)))"

subsection \<open>The busiest hosts now\<close>

record top_item = collected_item +
  tp_itemid :: string
  tp_key :: string
  tp_lastvalue :: "string option"
  tp_hosts :: "(string \<times> string) list option"

record top_row =
  tr_hostid :: string
  tr_host :: string
  tr_itemid :: string
  tr_value :: rat
  tr_clock :: jsnum

record top_metric =
  tm_key :: string
  tm_label :: string
  tm_considered :: nat
  tm_current :: nat
  tm_rows :: "top_row list"

definition TOP_METRICS :: "(string \<times> string \<times> string) list" where
  "TOP_METRICS = [(''cpu'', ''CPU utilisation'', ''system.cpu.util''), (''memory'', ''Memory utilisation'', ''vm.memory.util'')]"

text \<open>A value that says something about now.\<close>

definition current_value :: "int \<Rightarrow> top_item \<Rightarrow> rat option" where
  "current_value now it =
     (case tp_lastvalue it of
        None \<Rightarrow> None
      | Some t \<Rightarrow> (if t = [] \<or> \<not> isFresh it now then None else finite_number (js_number t)))"

definition metric_items :: "string \<Rightarrow> top_item list \<Rightarrow> top_item list" where
  "metric_items key items = filter (\<lambda>i. or_nil (tp_hosts i) \<noteq> [] \<and> capacityMetricFor (tp_key i) = Some key) items"

definition top_row_of :: "top_item \<Rightarrow> rat \<Rightarrow> top_row" where
  "top_row_of it v =
     \<lparr>tr_hostid = fst (first_host (tp_hosts it)), tr_host = snd (first_host (tp_hosts it)), tr_itemid = tp_itemid it, tr_value = v,
      tr_clock = number_of (pi_lastclock it)\<rparr>"

definition hotter :: "int \<Rightarrow> top_item \<Rightarrow> top_row option \<Rightarrow> top_row option" where
  "hotter now it held =
     (case current_value now it of
        None \<Rightarrow> held
      | Some v \<Rightarrow> (case held of None \<Rightarrow> Some (top_row_of it v) | Some h \<Rightarrow> (if v > tr_value h then Some (top_row_of it v) else held)))"

definition hottest :: "int \<Rightarrow> top_item list \<Rightarrow> (string, top_row option) table" where
  "hottest now items = group_into (\<lambda>i. fst (first_host (tp_hosts i))) (\<lambda>_. None) (hotter now) items"

definition top_metric_of :: "(string \<Rightarrow> string \<Rightarrow> int) \<Rightarrow> nat \<Rightarrow> int \<Rightarrow> string \<times> string \<times> string \<Rightarrow> top_item list \<Rightarrow> top_metric" where
  "top_metric_of locale_compare n now m items =
     (case m of (key, label, _) \<Rightarrow>
        let best = hottest now (metric_items key items); current = List.map_filter snd best in
        \<lparr>tm_key = key, tm_label = label, tm_considered = length best, tm_current = length current,
         tm_rows = take n (js_sort (\<lambda>a b. or_else (compare (tr_value b) (tr_value a)) (locale_compare (tr_host a) (tr_host b))) current)\<rparr>)"

definition getTopHosts :: "(string \<Rightarrow> string \<Rightarrow> int) \<Rightarrow> nat \<Rightarrow> int \<Rightarrow> (string \<Rightarrow> 'e + top_item list) \<Rightarrow> 'e + int \<times> top_metric list" where
  "getTopHosts locale_compare n now item_get =
     and_then (all_or_error (map (\<lambda>m. and_then (item_get (snd (snd m))) (\<lambda>items. Inr (top_metric_of locale_compare n now m items))) TOP_METRICS)) (\<lambda>metrics.
       Inr (now, metrics))"

subsection \<open>Web scenarios\<close>

record web_failure =
  wf_hostid :: string
  wf_host :: string
  wf_name :: string
  wf_itemid :: string
  wf_step :: rat
  wf_clock :: jsnum

record web_monitoring =
  wm_generatedAt :: int
  wm_total :: nat
  wm_ok :: nat
  wm_failed :: nat
  wm_unknown :: nat
  wm_failures :: "web_failure list"

definition WEB_KEY :: string where "WEB_KEY = ''web.test.fail[''"

definition ends_with :: "string \<Rightarrow> string \<Rightarrow> bool" where
  "ends_with s t \<longleftrightarrow> startsWith (rev s) (rev t)"

text \<open>\<open>replace(/\\"/g, '"')\<close>.\<close>

fun unescape_quotes :: "string \<Rightarrow> string" where
  "unescape_quotes (c # d # rest) =
     (if c = CHR 0x5C \<and> d = CHR 0x22 then d # unescape_quotes rest else c # unescape_quotes (d # rest))"
| "unescape_quotes s = s"

definition scenarioName :: "string \<Rightarrow> string" where
  "scenarioName key =
     (let inner = (if startsWith key WEB_KEY \<and> ends_with key '']'' then take (length key - length WEB_KEY - 1) (drop (length WEB_KEY) key) else key)
      in if 2 \<le> length inner \<and> hd inner = CHR 0x22 \<and> List.last inner = CHR 0x22
         then unescape_quotes (take (length inner - 2) (drop 1 inner)) else inner)"

definition scenarios :: "top_item list \<Rightarrow> top_item list" where
  "scenarios items = filter (\<lambda>i. or_nil (tp_hosts i) \<noteq> [] \<and> startsWith (tp_key i) WEB_KEY) items"

definition failure_of :: "top_item \<Rightarrow> rat \<Rightarrow> web_failure" where
  "failure_of it v =
     \<lparr>wf_hostid = fst (first_host (tp_hosts it)), wf_host = snd (first_host (tp_hosts it)), wf_name = scenarioName (tp_key it),
      wf_itemid = tp_itemid it, wf_step = v, wf_clock = number_of (pi_lastclock it)\<rparr>"

text \<open>The loop: how many are fine, how many unknown, and the failed ones.\<close>

definition count_scenario :: "int \<Rightarrow> top_item \<Rightarrow> nat \<times> nat \<times> web_failure list \<Rightarrow> nat \<times> nat \<times> web_failure list" where
  "count_scenario now it st =
     (case st of (ok, unknown, failures) \<Rightarrow>
        (case current_value now it of
           None \<Rightarrow> (ok, Suc unknown, failures)
         | Some v \<Rightarrow> (if v = 0 then (Suc ok, unknown, failures) else (ok, unknown, failures @ [failure_of it v]))))"

definition web_of :: "(string \<Rightarrow> string \<Rightarrow> int) \<Rightarrow> nat \<Rightarrow> int \<Rightarrow> top_item list \<Rightarrow> web_monitoring" where
  "web_of locale_compare n now items =
     (case fold (count_scenario now) (scenarios items) (0, 0, []) of (ok, unknown, failures) \<Rightarrow>
        \<lparr>wm_generatedAt = now, wm_total = ok + unknown + length failures, wm_ok = ok, wm_failed = length failures, wm_unknown = unknown,
         wm_failures = take n (js_sort (\<lambda>a b. or_else (locale_compare (wf_host a) (wf_host b)) (locale_compare (wf_name a) (wf_name b))) failures)\<rparr>)"

definition getWebMonitoring :: "(string \<Rightarrow> string \<Rightarrow> int) \<Rightarrow> nat \<Rightarrow> int \<Rightarrow> 'e + top_item list \<Rightarrow> 'e + web_monitoring" where
  "getWebMonitoring locale_compare n now item_get = and_then item_get (\<lambda>items. Inr (web_of locale_compare n now items))"

subsection \<open>Lemmas\<close>

lemma fold_busier:
  "fold busier ys r = s \<Longrightarrow> s \<in> insert r (set ys) \<and> (\<forall>y \<in> insert r (set ys). cr_avg y \<le> cr_avg s)"
proof (induction ys arbitrary: r)
  case (Cons y ys)
  from Cons.prems have "fold busier ys (busier y r) = s" by simp
  from Cons.IH [OF this] show ?case by (auto simp: busier_def split: if_splits)
qed simp

text \<open>What a list of busiest rows promises.\<close>

definition shows_busiest :: "nat \<Rightarrow> capacity_row list \<Rightarrow> capacity_row list \<Rightarrow> bool" where
  "shows_busiest n all shown \<longleftrightarrow>
     set shown \<subseteq> set all \<and> distinct (map device shown) \<and> length shown = min n (card (device ` set all)) \<and>
     sorted_wrt (\<lambda>a b. cr_avg b \<le> cr_avg a) shown \<and>
     (\<forall>r \<in> set all. (\<exists>s \<in> set shown. device s = device r \<and> cr_avg r \<le> cr_avg s) \<or> (\<forall>s \<in> set shown. cr_avg r \<le> cr_avg s))"

lemma busiest_shows: "shows_busiest n rows (busiest n rows)"
proof -
  let ?t = "group_into device (\<lambda>r. r) busier rows"
  let ?s = "js_sort (\<lambda>a b. compare (cr_avg b) (cr_avg a)) (map snd ?t)"
  have entry: "s \<in> set rows \<and> device s = k \<and> (\<forall>y \<in> set rows. device y = k \<longrightarrow> cr_avg y \<le> cr_avg s)" if "(k, s) \<in> set ?t" for k s
  proof -
    let ?ys = "filter (\<lambda>x. device x = k) rows"
    have ne: "?ys \<noteq> []" and s: "fold busier ?ys (hd ?ys) = s" using that by (auto simp: group_into_entry Let_def filter_empty_conv)
    show ?thesis using fold_busier [OF s] hd_in_set [OF ne] by auto
  qed
  have keys: "map device (map snd ?t) = map fst ?t" using entry by fastforce
  have d: "distinct (map device ?s)"
    unfolding distinct_map_js_sort keys using wf_group_into [of device "\<lambda>r. r" busier rows] by (simp add: wf_table_def)
  have "length ?t = card (set (map fst ?t))"
    using distinct_card [of "map fst ?t"] wf_group_into [of device "\<lambda>r. r" busier rows] by (simp add: wf_table_def)
  then have len: "length ?s = card (device ` set rows)" using group_into_keys [of device "\<lambda>r. r" busier rows] by simp
  have from_rows: "s \<in> set rows" if "s \<in> set ?s" for s using that entry by auto
  have cover: "(\<exists>s \<in> set (take n ?s). device s = device r \<and> cr_avg r \<le> cr_avg s) \<or> (\<forall>s \<in> set (take n ?s). cr_avg r \<le> cr_avg s)" if r: "r \<in> set rows" for r
  proof -
    have "device r \<in> fst ` set ?t" using r by (simp add: group_into_keys)
    then obtain s where s: "(device r, s) \<in> set ?t" by auto
    then have best: "device s = device r" "cr_avg r \<le> cr_avg s" and mem: "s \<in> set ?s" using entry [OF s] r by force+
    show ?thesis
    proof (cases "s \<in> set (take n ?s)")
      case False
      then have "cr_avg s \<le> cr_avg y" if "y \<in> set (take n ?s)" for y
        using first_rows_before_rest [OF largest_first that mem False] by simp
      then show ?thesis using best(2) by (meson order_trans)
    qed (use best in blast)
  qed
  have "set (busiest n rows) \<subseteq> set rows" using from_rows by (auto simp: busiest_def dest: in_set_takeD)
  moreover have "distinct (map device (busiest n rows))" using d by (simp add: busiest_def flip: take_map)
  moreover have "length (busiest n rows) = min n (card (device ` set rows))" using len by (simp add: busiest_def min.commute)
  moreover have "sorted_wrt (\<lambda>a b. cr_avg b \<le> cr_avg a) (busiest n rows)" unfolding busiest_def by (rule sorted_wrt_take [OF largest_first])
  ultimately show ?thesis using cover unfolding shows_busiest_def busiest_def by blast
qed

text \<open>An aggregate is the sum, the count and the maximum of the rows of its item, in whatever order they came.\<close>

lemma fold_add_to:
  "fold add_to rs a = \<lparr>ag_sum = ag_sum a + sum_list (map (\<lambda>r. fst (snd r)) rs), ag_n = ag_n a + length rs,
     ag_max = fold (\<lambda>r m. max m (snd (snd r))) rs (ag_max a)\<rparr>"
  by (induction rs arbitrary: a) (simp_all add: add_to_def)

lemma Max_insert_max: "finite A \<Longrightarrow> Max (insert (max x y) A) = Max (insert x (insert y A))" for x :: rat
  by (cases "A = {}") (simp_all add: max.assoc)

lemma fold_max_Max: "fold (\<lambda>r m. max m (g r)) rs x = Max (insert x (g ` set rs))" for x :: rat
  by (induction rs arbitrary: x) (simp_all add: Max_insert_max del: Max_insert)

definition rows_of_item :: "string \<Rightarrow> sample_row list \<Rightarrow> sample_row list" where
  "rows_of_item i rows = filter (\<lambda>r. fst r = i) rows"

definition row_figures :: "metric \<Rightarrow> sample_row list \<Rightarrow> capacity_row \<Rightarrow> bool" where
  "row_figures m rows r \<longleftrightarrow>
     (let rs = rows_of_item (cr_itemid r) rows; mean = sum_list (map (\<lambda>x. fst (snd x)) rs) / of_nat (length rs) in
      rs \<noteq> [] \<and> cr_avg r = shown_value m mean \<and>
      cr_max r = (if me_free m then max (cr_avg r) (100 - Max ((\<lambda>x. snd (snd x)) ` set rs)) else Max ((\<lambda>x. snd (snd x)) ` set rs)))"

lemma aggregates_get:
  "table_get (aggregates rows) i = (let rs = rows_of_item i rows in
     if rs = [] then None else Some \<lparr>ag_sum = sum_list (map (\<lambda>r. fst (snd r)) rs), ag_n = length rs, ag_max = Max ((\<lambda>r. snd (snd r)) ` set rs)\<rparr>)"
proof (cases "rows_of_item i rows")
  case (Cons r rs)
  have "snd (snd r) \<in> (\<lambda>r. snd (snd r)) ` set (r # rs)" by simp
  then show ?thesis using Cons
    by (simp add: aggregates_def group_into_get rows_of_item_def fold_add_to fold_max_Max insert_absorb Let_def add_to_def)
qed (simp add: aggregates_def group_into_get rows_of_item_def Let_def)

lemma capacity_row_figures:
  "capacity_row_of m src (aggregates rows) i = Some r \<Longrightarrow> row_figures m rows r \<and> cr_itemid r = ci_itemid i \<and> cr_metric r = me_key m \<and> cr_source r = src"
  by (auto simp: capacity_row_of_def aggregates_get row_figures_def Let_def shown_value_def split: if_splits)

lemma metric_of_items_rows:
  assumes "metric_of_items history from to (aggregates rows) (m, items) = Inr p"
  shows "mr_key p = me_key m" "r \<in> set (mr_rows p) \<Longrightarrow> cr_source r = SrcTrend \<Longrightarrow> row_figures m rows r \<and> cr_metric r = me_key m"
  using assms capacity_row_figures
  by (auto simp: metric_of_items_def Let_def and_then_Inr set_map_filter split: if_splits)

lemma all_or_error_values: "all_or_error rs = Inr xs \<Longrightarrow> rs = map Inr xs"
  by (induction rs arbitrary: xs rule: all_or_error.induct) (auto split: sum.splits)

lemma by_metric_rows: "(k, m) \<in> set (by_metric ms) \<Longrightarrow> mr_key m = k \<and> mr_rows m = concat (map mr_rows (filter (\<lambda>p. mr_key p = k) ms))"
proof -
  have app: "fold (\<lambda>m e. e\<lparr>mr_rows := mr_rows e @ mr_rows m\<rparr>) xs e = e\<lparr>mr_rows := mr_rows e @ concat (map mr_rows xs)\<rparr>" for xs e
    by (induction xs arbitrary: e) simp_all
  assume "(k, m) \<in> set (by_metric ms)"
  then have ne: "filter (\<lambda>p. mr_key p = k) ms \<noteq> []"
    and m: "m = fold (\<lambda>m e. e\<lparr>mr_rows := mr_rows e @ mr_rows m\<rparr>) (filter (\<lambda>p. mr_key p = k) ms) ((hd (filter (\<lambda>p. mr_key p = k) ms))\<lparr>mr_rows := []\<rparr>)"
    by (auto simp: by_metric_def group_into_entry Let_def filter_empty_conv)
  have "mr_key (hd (filter (\<lambda>p. mr_key p = k) ms)) = k" using hd_in_set [OF ne] by simp
  then show ?thesis by (simp add: m app)
qed

lemma interface_rows:
  "interfaceUtilisation read trends from to n = Inr m \<Longrightarrow>
     mr_key m = ''ifutil'' \<and> length (mr_rows m) \<le> n \<and> sorted_wrt (\<lambda>a b. cr_avg b \<le> cr_avg a) (mr_rows m) \<and> list_all (\<lambda>r. cr_max r \<le> 100) (mr_rows m)"
  using sorted_wrt_take [OF largest_first [of cr_avg]]
  by (auto simp: interfaceUtilisation_def and_then_Inr Let_def list_all_iff traffic_row_def split: if_splits dest!: in_set_takeD)

text \<open>The hottest current value of a host, and the row that shows it.\<close>

definition host_of_item :: "top_item \<Rightarrow> string" where
  "host_of_item i = fst (first_host (tp_hosts i))"

definition current_items :: "int \<Rightarrow> top_item list \<Rightarrow> (top_item \<times> rat) set" where
  "current_items now items = {(i, v). i \<in> set items \<and> current_value now i = Some v}"

definition hottest_row :: "(top_item \<times> rat) set \<Rightarrow> top_row option \<Rightarrow> bool" where
  "hottest_row vs e \<longleftrightarrow> (case e of
      None \<Rightarrow> vs = {}
    | Some r \<Rightarrow> (\<exists>(i, v) \<in> vs. r = top_row_of i v) \<and> (\<forall>(i, v) \<in> vs. v \<le> tr_value r))"

lemma value_of_row [simp]: "tr_value (top_row_of i v) = v"
  by (simp add: top_row_of_def)

lemma hotter_step:
  assumes "hottest_row vs e"
  shows "hottest_row (case current_value now i of Some v \<Rightarrow> insert (i, v) vs | None \<Rightarrow> vs) (hotter now i e)"
proof (cases "current_value now i")
  case None
  then show ?thesis using assms by (simp add: hotter_def)
next
  case (Some v)
  show ?thesis
  proof (cases e)
    case None
    then show ?thesis using assms Some by (simp add: hotter_def hottest_row_def)
  next
    case e: (Some r)
    show ?thesis
    proof (cases "v > tr_value r")
      case True
      then show ?thesis using assms Some e by (fastforce simp: hotter_def hottest_row_def)
    next
      case False
      then show ?thesis using assms Some e by (auto simp: hotter_def hottest_row_def)
    qed
  qed
qed

lemma fold_hotter: "hottest_row (current_items now is) (fold (hotter now) is None)"
proof (induction "is" rule: rev_induct)
  case Nil
  then show ?case by (simp add: hottest_row_def current_items_def)
next
  case (snoc i "is")
  have "current_items now (is @ [i]) = (case current_value now i of Some v \<Rightarrow> insert (i, v) (current_items now is) | None \<Rightarrow> current_items now is)"
    by (auto simp: current_items_def split: option.splits)
  then show ?case using hotter_step [OF snoc, where now = now and i = i] by simp
qed

lemma hottest_entry:
  "(k, e) \<in> set (hottest now items) \<Longrightarrow> hottest_row (current_items now (filter (\<lambda>i. host_of_item i = k) items)) e"
  using fold_hotter [of now "filter (\<lambda>i. host_of_item i = k) items"]
  by (auto simp: hottest_def group_into_entry Let_def host_of_item_def)

lemma hottest_keys: "distinct (map fst (hottest now items))" "fst ` set (hottest now items) = host_of_item ` set items"
  using wf_group_into [of "\<lambda>i. fst (first_host (tp_hosts i))" "\<lambda>_. None" "hotter now" items]
  by (auto simp: wf_table_def hottest_def group_into_keys host_of_item_def)

text \<open>What the list of one metric promises.\<close>

definition shows_hottest :: "nat \<Rightarrow> int \<Rightarrow> top_item list \<Rightarrow> top_metric \<Rightarrow> bool" where
  "shows_hottest n now items m \<longleftrightarrow>
     tm_considered m = card (host_of_item ` set items) \<and>
     tm_current m = card (host_of_item ` {i \<in> set items. current_value now i \<noteq> None}) \<and>
     length (tm_rows m) = min n (tm_current m) \<and> distinct (map tr_hostid (tm_rows m)) \<and>
     sorted_wrt (\<lambda>a b. tr_value b \<le> tr_value a) (tm_rows m) \<and>
     (\<forall>r \<in> set (tm_rows m). (\<exists>i \<in> set items. current_value now i = Some (tr_value r) \<and> r = top_row_of i (tr_value r)) \<and>
        (\<forall>i \<in> set items. \<forall>v. host_of_item i = tr_hostid r \<longrightarrow> current_value now i = Some v \<longrightarrow> v \<le> tr_value r)) \<and>
     (\<forall>i \<in> set items. \<forall>v. current_value now i = Some v \<longrightarrow>
        host_of_item i \<in> tr_hostid ` set (tm_rows m) \<or> (\<forall>r \<in> set (tm_rows m). v \<le> tr_value r))"

text \<open>A comparator that looks at one figure first sorts by it, whatever it does with equals.\<close>

lemma sorted_first_key:
  fixes f :: "'a \<Rightarrow> 'b :: linorder"
  assumes "\<And>a b. cmp a b \<le> 0 \<Longrightarrow> f b \<le> f a" "\<And>a b. 0 < cmp a b \<Longrightarrow> f a \<le> f b"
  shows "sorted_wrt (\<lambda>a b. f b \<le> f a) (js_sort cmp xs)"
proof -
  have "sorted_wrt (\<lambda>a b. f b \<le> f a) ys \<Longrightarrow> sorted_wrt (\<lambda>a b. f b \<le> f a) (sort_insert cmp x ys)" for x ys
    by (induction ys) (use assms in \<open>auto simp: not_le intro: order_trans\<close>)
  then show ?thesis by (induction xs) (simp_all add: js_sort_def)
qed

lemma distinct_values:
  "(\<And>k e. (k, Some e) \<in> set t \<Longrightarrow> g e = k) \<Longrightarrow> distinct (map fst t) \<Longrightarrow> distinct (map g (List.map_filter snd t))"
proof (induction t)
  case (Cons p t)
  obtain k e where p: "p = (k, e)" by (cases p) auto
  have "g ` set (List.map_filter snd t) \<subseteq> fst ` set t" using Cons.prems(1) by (force simp: set_map_filter)
  then show ?case using Cons p by (cases e) (auto simp: map_filter_simps)
qed (simp add: map_filter_simps)

lemma top_metric_shows: "shows_hottest n now (metric_items (fst m) items) (top_metric_of locale_compare n now m items)"
proof -
  obtain key label search where m: "m = (key, label, search)" by (cases m) auto
  let ?items = "metric_items key items" and ?best = "hottest now (metric_items key items)"
  let ?cmp = "\<lambda>a b. or_else (compare (tr_value b) (tr_value a)) (locale_compare (tr_host a) (tr_host b))"
  let ?cur = "List.map_filter snd ?best"
  let ?s = "js_sort ?cmp ?cur"
  have entry: "hottest_row (current_items now (filter (\<lambda>i. host_of_item i = k) ?items)) e" if "(k, e) \<in> set ?best" for k e
    using hottest_entry [OF that] .
  have row: "tr_hostid r = k \<and> (\<exists>i \<in> set ?items. current_value now i = Some (tr_value r) \<and> r = top_row_of i (tr_value r)) \<and>
      (\<forall>i \<in> set ?items. \<forall>v. host_of_item i = k \<longrightarrow> current_value now i = Some v \<longrightarrow> v \<le> tr_value r)" if "(k, Some r) \<in> set ?best" for k r
    using entry [OF that] by (fastforce simp: hottest_row_def current_items_def top_row_of_def host_of_item_def)
  have none: "current_value now i = None" if "(k, None) \<in> set ?best" "i \<in> set ?items" "host_of_item i = k" for k i
    using entry [OF that(1)] that(2,3) by (auto simp: hottest_row_def current_items_def)
  have cur: "r \<in> set ?cur \<longleftrightarrow> (tr_hostid r, Some r) \<in> set ?best" for r
  proof
    assume "r \<in> set ?cur"
    then obtain k where k: "(k, Some r) \<in> set ?best" by (auto simp: set_map_filter)
    then show "(tr_hostid r, Some r) \<in> set ?best" using row [OF k] by simp
  next
    assume "(tr_hostid r, Some r) \<in> set ?best"
    then show "r \<in> set ?cur" by (force simp: set_map_filter)
  qed
  have d: "distinct (map tr_hostid ?cur)"
    by (rule distinct_values) (use row hottest_keys in blast)+
  have hosts: "tr_hostid ` set ?cur = host_of_item ` {i \<in> set ?items. current_value now i \<noteq> None}"
  proof (intro equalityI subsetI)
    fix h assume "h \<in> tr_hostid ` set ?cur"
    then obtain r where r: "r \<in> set ?cur" "tr_hostid r = h" by auto
    then have "(h, Some r) \<in> set ?best" using cur by blast
    then obtain i where i: "i \<in> set ?items" "current_value now i = Some (tr_value r)" "r = top_row_of i (tr_value r)" using row by blast
    have "tr_hostid (top_row_of i (tr_value r)) = host_of_item i" by (simp add: top_row_of_def host_of_item_def)
    then have "h = host_of_item i" using i(3) r(2) by simp
    then show "h \<in> host_of_item ` {i \<in> set ?items. current_value now i \<noteq> None}" using i by auto
  next
    fix h assume "h \<in> host_of_item ` {i \<in> set ?items. current_value now i \<noteq> None}"
    then obtain i where i: "i \<in> set ?items" "current_value now i \<noteq> None" "h = host_of_item i" by auto
    then have "h \<in> fst ` set ?best" by (simp add: hottest_keys)
    then obtain e where e: "(h, e) \<in> set ?best" by auto
    have "e \<noteq> None"
    proof
      assume "e = None"
      then show False using none [OF _ i(1) i(3) [symmetric]] e i(2) by blast
    qed
    then obtain r where "e = Some r" by auto
    then have r: "(h, Some r) \<in> set ?best" using e by simp
    then have "tr_hostid r = h" using row by blast
    moreover have "r \<in> set ?cur" using cur r \<open>tr_hostid r = h\<close> by blast
    ultimately show "h \<in> tr_hostid ` set ?cur" by (rule image_eqI [OF sym])
  qed
  have sorted: "sorted_wrt (\<lambda>a b. tr_value b \<le> tr_value a) ?s"
    by (rule sorted_first_key) (auto simp: or_else_signs)
  have cover: "host_of_item i \<in> tr_hostid ` set (take n ?s) \<or> (\<forall>r \<in> set (take n ?s). v \<le> tr_value r)"
    if i: "i \<in> set ?items" "current_value now i = Some v" for i v
  proof -
    have "host_of_item i \<in> tr_hostid ` set ?cur" unfolding hosts using i by auto
    then obtain r where r: "r \<in> set ?cur" "tr_hostid r = host_of_item i" by (elim imageE) simp
    then have "v \<le> tr_value r" using row [of "host_of_item i" r] cur [of r] i by auto
    show ?thesis
    proof (cases "r \<in> set (take n ?s)")
      case True
      then show ?thesis using r(2) by force
    next
      case False
      then have "tr_value r \<le> tr_value y" if "y \<in> set (take n ?s)" for y
        using first_rows_before_rest [OF sorted that _ False] r(1) by simp
      then show ?thesis using \<open>v \<le> tr_value r\<close> by (meson order_trans)
    qed
  qed
  have "length ?best = card (host_of_item ` set ?items)"
    using distinct_card [OF hottest_keys(1), of now ?items] by (simp add: hottest_keys)
  moreover have cc: "length ?cur = card (host_of_item ` {i \<in> set ?items. current_value now i \<noteq> None})"
    using distinct_card [OF d] by (simp add: hosts)
  moreover have "(\<exists>i \<in> set ?items. current_value now i = Some (tr_value r) \<and> r = top_row_of i (tr_value r)) \<and>
      (\<forall>i \<in> set ?items. \<forall>v. host_of_item i = tr_hostid r \<longrightarrow> current_value now i = Some v \<longrightarrow> v \<le> tr_value r)" if "r \<in> set (take n ?s)" for r
  proof -
    have "r \<in> set ?cur" using in_set_takeD [OF that] by simp
    then show ?thesis using row [of "tr_hostid r" r] cur by blast
  qed
  moreover have "distinct (map tr_hostid (take n ?s))" using d by (simp flip: take_map)
  moreover have "sorted_wrt (\<lambda>a b. tr_value b \<le> tr_value a) (take n ?s)" using sorted by (rule sorted_wrt_take)
  ultimately show ?thesis using cover unfolding shows_hottest_def m
    by (simp add: top_metric_of_def Let_def min.commute)
qed

subsection \<open>Properties\<close>


text \<open>
  The list of the busiest hosts is about now. For CPU and for memory it counts the hosts that have such an item
  and those with a current value; each listed host shows the highest current value of its items, none is listed
  twice or on an old value, the hottest come first, and a host that is left out is not hotter than a listed one.
\<close>

theorem top_hosts_are_current:
  "case getTopHosts locale_compare n now item_get of
     Inl _ \<Rightarrow> True
   | Inr (t, ms) \<Rightarrow> t = now \<and> length ms = length TOP_METRICS \<and>
       list_all (\<lambda>(m, shown). tm_key shown = fst m \<and>
         (case item_get (snd (snd m)) of Inl _ \<Rightarrow> False | Inr items \<Rightarrow> shows_hottest n now (metric_items (fst m) items) shown)) (zip TOP_METRICS ms)"
proof (cases "getTopHosts locale_compare n now item_get")
  case (Inr r)
  then obtain ms where r: "r = (now, ms)"
    and all: "all_or_error (map (\<lambda>m. and_then (item_get (snd (snd m))) (\<lambda>items. Inr (top_metric_of locale_compare n now m items))) TOP_METRICS) = Inr ms"
    by (auto simp: getTopHosts_def and_then_Inr)
  have eq: "map (\<lambda>m. and_then (item_get (snd (snd m))) (\<lambda>items. Inr (top_metric_of locale_compare n now m items))) TOP_METRICS = map Inr ms"
    by (rule all_or_error_values [OF all])
  have len: "length ms = length TOP_METRICS" using arg_cong [OF eq, of length] unfolding length_map by (rule sym)
  have "tm_key (ms ! i) = fst (TOP_METRICS ! i) \<and>
      (case item_get (snd (snd (TOP_METRICS ! i))) of Inl _ \<Rightarrow> False | Inr items \<Rightarrow> shows_hottest n now (metric_items (fst (TOP_METRICS ! i)) items) (ms ! i))"
    if "i < length TOP_METRICS" for i
  proof -
    have "and_then (item_get (snd (snd (TOP_METRICS ! i)))) (\<lambda>items. Inr (top_metric_of locale_compare n now (TOP_METRICS ! i) items)) = Inr (ms ! i)"
      using arg_cong [OF eq, of "\<lambda>xs. xs ! i"] that len by simp
    then obtain items where "item_get (snd (snd (TOP_METRICS ! i))) = Inr items" "ms ! i = top_metric_of locale_compare n now (TOP_METRICS ! i) items"
      by (auto simp: and_then_Inr)
    then show ?thesis using top_metric_shows [of n now "TOP_METRICS ! i" items locale_compare]
      by (simp add: top_metric_of_def Let_def split: prod.split)
  qed
  then show ?thesis using Inr r len by (auto simp: list_all_length)
qed simp

text \<open>
  Every enabled scenario is counted once: fine only on a current result of zero, unknown exactly without a
  current result, and failed otherwise; the listed failures are failed scenarios, as many as were asked for.
\<close>

theorem web_scenarios_are_counted:
  "case getWebMonitoring locale_compare n now item_get of
     Inl e \<Rightarrow> item_get = Inl e
   | Inr w \<Rightarrow> (case item_get of Inl _ \<Rightarrow> False | Inr items \<Rightarrow>
       wm_total w = length (scenarios items) \<and> wm_total w = wm_ok w + wm_failed w + wm_unknown w \<and>
       wm_ok w = length (filter (\<lambda>i. current_value now i = Some 0) (scenarios items)) \<and>
       wm_unknown w = length (filter (\<lambda>i. current_value now i = None) (scenarios items)) \<and>
       length (wm_failures w) = min n (wm_failed w) \<and>
       list_all (\<lambda>f. wf_step f \<noteq> 0 \<and> (\<exists>i \<in> set (scenarios items). current_value now i = Some (wf_step f) \<and> f = failure_of i (wf_step f))) (wm_failures w))"
proof (cases item_get)
  case (Inr items)
  let ?failed = "\<lambda>i. case current_value now i of Some v \<Rightarrow> (if v = 0 then None else Some (failure_of i v)) | None \<Rightarrow> None"
  have run: "fold (count_scenario now) is (ok, unknown, fs) =
      (ok + length (filter (\<lambda>i. current_value now i = Some 0) is), unknown + length (filter (\<lambda>i. current_value now i = None) is),
       fs @ List.map_filter ?failed is)" for "is" ok unknown fs
  proof (induction "is" arbitrary: ok unknown fs)
    case (Cons i "is")
    then show ?case by (cases "current_value now i") (simp_all add: count_scenario_def map_filter_simps)
  qed (simp add: map_filter_simps)
  have split: "length (filter (\<lambda>i. current_value now i = Some 0) is) + length (List.map_filter ?failed is) +
      length (filter (\<lambda>i. current_value now i = None) is) = length is" for "is"
    by (induction "is") (auto simp: map_filter_simps split: option.split)
  define fs where "fs = List.map_filter ?failed (scenarios items)"
  have st: "fold (count_scenario now) (scenarios items) (0, 0, []) =
      (length (filter (\<lambda>i. current_value now i = Some 0) (scenarios items)), length (filter (\<lambda>i. current_value now i = None) (scenarios items)), fs)"
    using run [of "scenarios items" 0 0 "[]"] by (simp add: fs_def)
  have total: "length (filter (\<lambda>i. current_value now i = Some 0) (scenarios items)) + length fs +
      length (filter (\<lambda>i. current_value now i = None) (scenarios items)) = length (scenarios items)"
    unfolding fs_def by (rule split)
  have "wf_step f \<noteq> 0 \<and> (\<exists>i \<in> set (scenarios items). current_value now i = Some (wf_step f) \<and> f = failure_of i (wf_step f))" if f: "f \<in> set fs" for f
  proof -
    obtain i v where "i \<in> set (scenarios items)" "current_value now i = Some v" "v \<noteq> 0" "f = failure_of i v"
      using f by (auto simp: fs_def set_map_filter split: option.splits if_splits)
    then show ?thesis by (auto simp: failure_of_def)
  qed
  then have shown: "list_all (\<lambda>f. wf_step f \<noteq> 0 \<and> (\<exists>i \<in> set (scenarios items). current_value now i = Some (wf_step f) \<and> f = failure_of i (wf_step f)))
      (take n (js_sort cmp fs))" for cmp
    unfolding list_all_iff by (auto dest: in_set_takeD)
  show ?thesis using Inr total shown by (simp add: getWebMonitoring_def web_of_def st min.commute add_ac)
qed (simp add: getWebMonitoring_def)

end
