(* ===== verification/Cache.thy ===== *)
theory Cache
  imports JsText
begin

text \<open>
  The in-memory cache of \<open>server/src/core/cache.ts\<close>: the store in least-recently-used order with its
  byte counters, the fetches in flight, the write holds, and every operation on them. The
  asynchronous \<open>cached\<close> is split at its \<open>await\<close>s into the call, the end of the fetch, and the return
  to a caller whose fetch failed; a run is a list of such events, each with the clock it reads
  (milliseconds). Logging is left out. The values are a type parameter \<open>'v\<close> and their measured size
  a parameter \<open>measure_of\<close>; \<open>approxBytes\<close> is the measure on JSON values.
\<close>

definition MAX_ENTRIES :: nat where "MAX_ENTRIES = 500"
definition MAX_BYTES :: int where "MAX_BYTES = 64 * 1024 * 1024"
definition MAX_PINNED_BYTES :: int where "MAX_PINNED_BYTES = MAX_BYTES div 2"
definition HOLD_TTL_MS :: int where "HOLD_TTL_MS = 2000"

subsection \<open>\<open>approxBytes\<close>\<close>

text \<open>
  On a JSON value, which has no \<open>Map\<close>, \<open>Set\<close> or typed array and no sharing: the walk over an
  explicit stack, last pushed first, of at most \<open>budget\<close> values.
\<close>

fun own_bytes :: "jsval \<Rightarrow> nat" where
  "own_bytes (JStr s) = 16 + length s"
| "own_bytes (JNum q) = 8"
| "own_bytes (JArr xs) = 16 + 8 * length xs"
| "own_bytes (JObj fs) = 24 + 8 * length fs"
| "own_bytes _ = 0"

fun children :: "jsval \<Rightarrow> jsval list" where
  "children (JArr xs) = xs"
| "children (JObj fs) = map snd fs"
| "children _ = []"

fun approx_loop :: "nat \<Rightarrow> jsval list \<Rightarrow> nat \<Rightarrow> nat" where
  "approx_loop 0 todo bytes = bytes"
| "approx_loop (Suc b) [] bytes = bytes"
| "approx_loop (Suc b) (v # todo) bytes = approx_loop b (rev (children v) @ todo) (bytes + own_bytes v)"

definition approxBytes :: "jsval \<Rightarrow> nat \<Rightarrow> nat" where
  "approxBytes v budget = approx_loop budget [v] 0"

subsection \<open>State\<close>

record 'v entry =
  stored_at :: int
  cached_value :: 'v
  bytes :: nat
  pinned :: bool
  refreshing :: bool

text \<open>A flight is an object with an identity, here a number: its key, its \<open>pin\<close> option, whether it is cancelled.\<close>

record flight =
  flight_key :: string
  flight_pin :: bool
  cancelled :: bool

record 'v cache =
  store :: "(string, 'v entry) table"
  heldBytes :: int
  pinnedBytes :: int
  inflight :: "(string, nat) table"
  holds :: "(string, int) table"
  flights :: "(nat, flight) table"
  next_flight :: nat

definition empty_cache :: "'v cache" where
  "empty_cache = \<lparr>store = [], heldBytes = 0, pinnedBytes = 0, inflight = [], holds = [], flights = [], next_flight = 0\<rparr>"

subsection \<open>The store\<close>

definition discard :: "string \<Rightarrow> 'v cache \<Rightarrow> 'v cache" where
  "discard key c =
     (case table_get (store c) key of
        None \<Rightarrow> c
      | Some e \<Rightarrow> c\<lparr>store := table_delete key (store c), heldBytes := heldBytes c - int (bytes e),
                   pinnedBytes := (if pinned e then pinnedBytes c - int (bytes e) else pinnedBytes c)\<rparr>)"

text \<open>The least recently used key among those whose entry is wanted.\<close>

definition oldest :: "('v entry \<Rightarrow> bool) \<Rightarrow> 'v cache \<Rightarrow> string option" where
  "oldest want c = map_option fst (find (\<lambda>p. want (snd p)) (store c))"

lemma oldest_present: "oldest want c = Some k \<Longrightarrow> \<exists>e. table_get (store c) k = Some e"
proof -
  assume "oldest want c = Some k"
  then obtain p where "find (\<lambda>p. want (snd p)) (store c) = Some p" "fst p = k" by (auto simp: oldest_def)
  then have "p \<in> set (store c)" by (metis find_Some_iff nth_mem)
  then show ?thesis using \<open>fst p = k\<close> by (metis domIff dom_map_of_conv_image_fst imageI option.exhaust)
qed

lemma discard_shrinks: "table_get (store c) k = Some e \<Longrightarrow> length (store (discard k c)) < length (store c)"
proof -
  assume a: "table_get (store c) k = Some e"
  then have "(k, e) \<in> set (store c)" by (rule table_get_in_set)
  then have "length (filter (\<lambda>p. fst p \<noteq> k) (store c)) < length (store c)"
    by (intro length_filter_less [of "(k, e)"]) auto
  then show ?thesis using a by (simp add: discard_def table_delete_filter)
qed

text \<open>The two loops of \<open>evict\<close>.\<close>

function evict_pinned :: "'v cache \<Rightarrow> 'v cache" where
  "evict_pinned c =
     (if pinnedBytes c > MAX_PINNED_BYTES then
        (case oldest pinned c of None \<Rightarrow> c | Some key \<Rightarrow> evict_pinned (discard key c))
      else c)"
  by pat_completeness auto
termination
  by (relation "measure (\<lambda>c. length (store c))") (auto dest!: oldest_present discard_shrinks)

definition victim :: "'v cache \<Rightarrow> string option" where
  "victim c = (case oldest (\<lambda>e. \<not> pinned e) c of Some k \<Rightarrow> Some k | None \<Rightarrow> oldest (\<lambda>e. True) c)"

lemma victim_present: "victim c = Some k \<Longrightarrow> \<exists>e. table_get (store c) k = Some e"
  by (auto simp: victim_def split: option.splits dest: oldest_present)

function evict_any :: "'v cache \<Rightarrow> 'v cache" where
  "evict_any c =
     (if length (store c) > MAX_ENTRIES \<or> heldBytes c > MAX_BYTES then
        (case victim c of None \<Rightarrow> c | Some key \<Rightarrow> evict_any (discard key c))
      else c)"
  by pat_completeness auto
termination
  by (relation "measure (\<lambda>c. length (store c))") (auto dest!: victim_present discard_shrinks)

declare evict_pinned.simps [simp del] evict_any.simps [simp del]

definition evict :: "'v cache \<Rightarrow> 'v cache" where
  "evict c = evict_any (evict_pinned c)"

definition remember :: "string \<Rightarrow> 'v entry \<Rightarrow> 'v cache \<Rightarrow> 'v cache" where
  "remember key e c =
     (let d = discard key c in
      evict (d\<lparr>store := table_set key e (store d), heldBytes := heldBytes d + int (bytes e),
               pinnedBytes := (if pinned e then pinnedBytes d + int (bytes e) else pinnedBytes d)\<rparr>))"

definition keep :: "('v \<Rightarrow> nat) \<Rightarrow> int \<Rightarrow> string \<Rightarrow> 'v \<Rightarrow> bool \<Rightarrow> 'v cache \<Rightarrow> 'v cache" where
  "keep measure_of now key x pin c =
     (if int (measure_of x) > MAX_BYTES then discard key c
      else remember key \<lparr>stored_at = now, cached_value = x, bytes = measure_of x, pinned = pin, refreshing = False\<rparr> c)"

subsection \<open>Holds and invalidation\<close>

text \<open>\<open>isHeld\<close> also forgets the holds that are over.\<close>

definition isHeld :: "string \<Rightarrow> int \<Rightarrow> 'v cache \<Rightarrow> bool \<times> 'v cache" where
  "isHeld key now c =
     (let live = filter (\<lambda>h. \<not> snd h \<le> now) (holds c) in
      (list_ex (\<lambda>h. startsWith key (fst h)) live, c\<lparr>holds := live\<rparr>))"

definition discard_matching :: "string \<Rightarrow> 'v cache \<Rightarrow> 'v cache" where
  "discard_matching pre c = fold discard (filter (\<lambda>k. startsWith k pre) (table_keys (store c))) c"

definition cancel_matching :: "string \<Rightarrow> 'v cache \<Rightarrow> 'v cache" where
  "cancel_matching pre c =
     (let ids = map snd (filter (\<lambda>p. startsWith (fst p) pre) (inflight c)) in
      c\<lparr>flights := map (\<lambda>(i, f). (i, if i \<in> set ids then f\<lparr>cancelled := True\<rparr> else f)) (flights c),
        inflight := filter (\<lambda>p. \<not> startsWith (fst p) pre) (inflight c)\<rparr>)"

definition invalidate :: "string \<Rightarrow> int \<Rightarrow> int \<Rightarrow> 'v cache \<Rightarrow> nat \<times> 'v cache" where
  "invalidate pre holdMs now c =
     (let dropped = length (filter (\<lambda>k. startsWith k pre) (table_keys (store c)));
          d = cancel_matching pre (discard_matching pre c);
          d = (if pre = [] then d\<lparr>holds := []\<rparr> else d);
          d = (if holdMs > 0
               then d\<lparr>holds := table_set pre
                        (max (case table_get (holds d) pre of Some u \<Rightarrow> u | None \<Rightarrow> 0) (now + holdMs)) (holds d)\<rparr>
               else d)
      in (dropped, d))"

subsection \<open>Fetching\<close>

record options =
  staleMs :: int
  staleIfError :: bool
  pin_option :: bool

text \<open>Register a flight for the key; \<open>fn\<close> runs between this and the flight's end.\<close>

definition begin_flight :: "string \<Rightarrow> bool \<Rightarrow> 'v cache \<Rightarrow> nat \<times> 'v cache" where
  "begin_flight key pin c =
     (next_flight c,
      c\<lparr>flights := table_set (next_flight c) \<lparr>flight_key = key, flight_pin = pin, cancelled = False\<rparr> (flights c),
        inflight := table_set key (next_flight c) (inflight c), next_flight := Suc (next_flight c)\<rparr>)"

text \<open>\<open>hit.refreshing = true\<close> on the entry held for the key.\<close>

definition flag_refreshing :: "string \<Rightarrow> (string, 'v entry) table \<Rightarrow> (string, 'v entry) table" where
  "flag_refreshing key s = map (\<lambda>(k, e). (k, if k = key then e\<lparr>refreshing := True\<rparr> else e)) s"

text \<open>What a call of \<open>cached\<close> does at once: answer, or await a flight (remembering whether the key was held).\<close>

datatype 'v answer = Answer 'v | Await nat bool

definition cached_call :: "string \<Rightarrow> int \<Rightarrow> options \<Rightarrow> int \<Rightarrow> 'v cache \<Rightarrow> 'v answer \<times> 'v cache" where
  "cached_call key ttlMs opts now c0 =
     (let (held, c) = isHeld key now c0;
          ttl = (if held then min ttlMs HOLD_TTL_MS else ttlMs);
          stale = (if held then 0 else max 0 (staleMs opts));
          await = (case table_get (inflight c) key of
                     Some i \<Rightarrow> (Await i held, c)
                   | None \<Rightarrow> (let (i, d) = begin_flight key (pin_option opts) c in (Await i held, d)))
      in case table_get (store c) key of
           None \<Rightarrow> await
         | Some hit \<Rightarrow>
             (let age = now - stored_at hit in
              if age < ttl then (Answer (cached_value hit), remember key hit c)
              else if age < ttl + stale then
                (let d = remember key hit c in
                 if \<not> refreshing hit \<and> table_get (inflight d) key = None
                 then (Answer (cached_value hit),
                       snd (begin_flight key (pin_option opts)
                         (d\<lparr>store := flag_refreshing key (store d)\<rparr>)))
                 else (Answer (cached_value hit), d))
              else await))"

text \<open>The end of a flight: store the value unless cancelled, then give the key up if it is still its own.\<close>

definition flight_end :: "('v \<Rightarrow> nat) \<Rightarrow> nat \<Rightarrow> string + 'v \<Rightarrow> int \<Rightarrow> 'v cache \<Rightarrow> 'v cache" where
  "flight_end measure_of i result now c =
     (case table_get (flights c) i of
        None \<Rightarrow> c
      | Some f \<Rightarrow>
          (let d = (case result of
                 Inr x \<Rightarrow> (if \<not> cancelled f then keep measure_of now (flight_key f) x (flight_pin f) c else c)
               | Inl _ \<Rightarrow> c);
               d = (if table_get (inflight d) (flight_key f) = Some i
                    then d\<lparr>inflight := table_delete (flight_key f) (inflight d)\<rparr> else d)
           in d\<lparr>flights := table_delete i (flights d)\<rparr>))"

text \<open>The \<open>catch\<close> of \<open>cached\<close>: a caller whose awaited flight failed, with the age it reports as stale.\<close>

definition cached_failed :: "string \<Rightarrow> options \<Rightarrow> bool \<Rightarrow> string \<Rightarrow> int \<Rightarrow> 'v cache \<Rightarrow> (string + 'v \<times> int) \<times> 'v cache" where
  "cached_failed key opts held err now c =
     (case (if staleIfError opts \<and> \<not> held then table_get (store c) key else None) of
        None \<Rightarrow> (Inl err, c)
      | Some old \<Rightarrow> (Inr (cached_value old, now - stored_at old), remember key old c))"

subsection \<open>Events and runs\<close>

datatype 'v event =
    Call string int options
  | FlightEnd nat "string + 'v"
  | CallFailed string options bool string
  | Invalidate string int

fun cache_step :: "('v \<Rightarrow> nat) \<Rightarrow> 'v event \<times> int \<Rightarrow> 'v cache \<Rightarrow> 'v cache" where
  "cache_step m (Call key ttl opts, now) c = snd (cached_call key ttl opts now c)"
| "cache_step m (FlightEnd i r, now) c = flight_end m i r now c"
| "cache_step m (CallFailed key opts held err, now) c = snd (cached_failed key opts held err now c)"
| "cache_step m (Invalidate pre holdMs, now) c = snd (invalidate pre holdMs now c)"

definition cache_run :: "('v \<Rightarrow> nat) \<Rightarrow> ('v event \<times> int) list \<Rightarrow> 'v cache \<Rightarrow> 'v cache" where
  "cache_run m es c = fold (cache_step m) es c"

subsection \<open>The byte counters\<close>

definition entry_bytes :: "(string \<times> 'v entry) list \<Rightarrow> int" where
  "entry_bytes s = sum_list (map (\<lambda>p. int (bytes (snd p))) s)"

definition pins :: "(string, 'v entry) table \<Rightarrow> (string, 'v entry) table" where
  "pins s = filter (\<lambda>p. pinned (snd p)) s"

definition store_ok :: "'v cache \<Rightarrow> bool" where
  "store_ok c \<longleftrightarrow> wf_table (store c) \<and> heldBytes c = entry_bytes (store c) \<and> pinnedBytes c = entry_bytes (pins (store c))"

definition in_bounds :: "'v cache \<Rightarrow> bool" where
  "in_bounds c \<longleftrightarrow> length (store c) \<le> MAX_ENTRIES \<and> heldBytes c \<le> MAX_BYTES \<and> pinnedBytes c \<le> MAX_PINNED_BYTES"

lemma entry_bytes_simps [simp]: "entry_bytes [] = 0" "entry_bytes (p # s) = int (bytes (snd p)) + entry_bytes s"
  "entry_bytes (s @ r) = entry_bytes s + entry_bytes r"
  by (simp_all add: entry_bytes_def)

lemma entry_bytes_nonneg [simp]: "0 \<le> entry_bytes s"
  by (induction s) auto

lemma entry_bytes_filter_le: "entry_bytes (filter P s) \<le> entry_bytes s"
  by (induction s) auto

lemma entry_bytes_delete:
  "wf_table s \<Longrightarrow> table_get s k = Some e \<Longrightarrow> entry_bytes (table_delete k s) = entry_bytes s - int (bytes e)"
proof (induction s)
  case (Cons p s)
  show ?case
  proof (cases "fst p = k")
    case True
    then have "table_delete k s = s" using Cons.prems(1) by (auto simp: wf_table_def delete_idem)
    then show ?thesis using True Cons.prems by (cases p) auto
  next
    case False
    then show ?thesis using Cons by (cases p) (auto simp: wf_table_def)
  qed
qed simp

lemma pins_delete: "pins (table_delete k s) = table_delete k (pins s)"
  by (simp add: pins_def table_delete_filter conj_commute)

lemma wf_pins: "wf_table s \<Longrightarrow> wf_table (pins s)"
  by (simp add: pins_def wf_table_filter)

lemma pins_get: "wf_table s \<Longrightarrow> table_get (pins s) k = Some e \<longleftrightarrow> table_get s k = Some e \<and> pinned e"
proof
  assume wf: "wf_table s" and "table_get (pins s) k = Some e"
  then have "(k, e) \<in> set (pins s)" by (simp add: table_get_in_set)
  then show "table_get s k = Some e \<and> pinned e" using wf by (auto simp: pins_def wf_table_get)
next
  assume wf: "wf_table s" and "table_get s k = Some e \<and> pinned e"
  then have "(k, e) \<in> set (pins s)" by (auto simp: pins_def table_get_in_set)
  then show "table_get (pins s) k = Some e" using wf by (simp add: wf_table_get wf_pins)
qed

lemma store_ok_discard [inv_intros]: "store_ok c \<Longrightarrow> store_ok (discard k c)"
proof (cases "table_get (store c) k")
  case (Some e)
  assume ok: "store_ok c"
  have "entry_bytes (pins (table_delete k (store c))) = (if pinned e then pinnedBytes c - int (bytes e) else pinnedBytes c)"
  proof (cases "pinned e")
    case True
    then show ?thesis using ok Some entry_bytes_delete [of "pins (store c)" k e]
      by (simp add: store_ok_def pins_delete pins_get wf_pins)
  next
    case False
    have wf: "wf_table (store c)" using ok by (simp add: store_ok_def)
    have "table_get (pins (store c)) k = None"
    proof (cases "table_get (pins (store c)) k")
      case (Some e')
      then have "table_get (store c) k = Some e' \<and> pinned e'" using pins_get [OF wf] by blast
      then show ?thesis using False \<open>table_get (store c) k = Some e\<close> by simp
    qed
    then have "table_delete k (pins (store c)) = pins (store c)" by (simp add: map_of_eq_None_iff delete_idem)
    then show ?thesis using False ok by (simp add: store_ok_def pins_delete)
  qed
  then show ?thesis using ok Some by (simp add: discard_def store_ok_def wf_table_delete entry_bytes_delete)
qed (simp add: discard_def)

lemma store_discard [simp]: "store (discard k c) = table_delete k (store c)"
  by (auto simp: discard_def map_of_eq_None_iff delete_idem split: option.splits)

text \<open>Storing changes nothing but the store and its counters.\<close>

lemma discard_frame [simp]: "inflight (discard k c) = inflight c" "holds (discard k c) = holds c"
  "flights (discard k c) = flights c" "next_flight (discard k c) = next_flight c"
  by (auto simp: discard_def split: option.splits)

text \<open>Whatever \<open>discard\<close> keeps, eviction keeps.\<close>

lemma evict_pinned_preserves: "P c \<Longrightarrow> (\<And>k c. P c \<Longrightarrow> P (discard k c)) \<Longrightarrow> P (evict_pinned c)"
proof (induction c rule: evict_pinned.induct)
  case (1 c)
  then show ?case using evict_pinned.simps [of c] by (simp split: option.splits)
qed

lemma evict_any_preserves: "P c \<Longrightarrow> (\<And>k c. P c \<Longrightarrow> P (discard k c)) \<Longrightarrow> P (evict_any c)"
proof (induction c rule: evict_any.induct)
  case (1 c)
  then show ?case using evict_any.simps [of c] by (simp split: option.splits)
qed

lemma evict_preserves: "P c \<Longrightarrow> (\<And>k c. P c \<Longrightarrow> P (discard k c)) \<Longrightarrow> P (evict c)"
  unfolding evict_def
  by (rule evict_any_preserves [where P = P], rule evict_pinned_preserves [where P = P]) blast+

lemma evict_inflight [simp]: "inflight (evict c) = inflight c"
  by (rule evict_preserves [where P = "\<lambda>d. inflight d = inflight c"]) simp_all

lemma evict_holds [simp]: "holds (evict c) = holds c"
  by (rule evict_preserves [where P = "\<lambda>d. holds d = holds c"]) simp_all

lemma evict_flights [simp]: "flights (evict c) = flights c"
  by (rule evict_preserves [where P = "\<lambda>d. flights d = flights c"]) simp_all

lemma evict_next_flight [simp]: "next_flight (evict c) = next_flight c"
  by (rule evict_preserves [where P = "\<lambda>d. next_flight d = next_flight c"]) simp_all

lemma remember_frame [simp]: "inflight (remember k e c) = inflight c" "holds (remember k e c) = holds c"
  "flights (remember k e c) = flights c" "next_flight (remember k e c) = next_flight c"
  by (simp_all add: remember_def Let_def)

lemma keep_frame [simp]: "inflight (keep m now k x p c) = inflight c" "holds (keep m now k x p c) = holds c"
  "flights (keep m now k x p c) = flights c" "next_flight (keep m now k x p c) = next_flight c"
  by (simp_all add: keep_def)

lemma store_ok_evict [inv_intros]: "store_ok c \<Longrightarrow> store_ok (evict c)"
  by (rule evict_preserves [where P = store_ok]) (auto intro: store_ok_discard)

lemma evict_get: "table_get (store (evict c)) k = Some e \<Longrightarrow> table_get (store c) k = Some e"
proof -
  have "\<forall>e. table_get (store (evict c)) k = Some e \<longrightarrow> table_get (store c) k = Some e"
    by (rule evict_preserves [where P = "\<lambda>d. \<forall>e. table_get (store d) k = Some e \<longrightarrow> table_get (store c) k = Some e"])
       (auto simp: delete_conv)
  then show "table_get (store (evict c)) k = Some e \<Longrightarrow> table_get (store c) k = Some e" by blast
qed

lemma store_ok_insert:
  assumes ok: "store_ok d" and new: "table_get (store d) key = None"
  shows "store_ok (d\<lparr>store := table_set key e (store d), heldBytes := heldBytes d + int (bytes e),
               pinnedBytes := (if pinned e then pinnedBytes d + int (bytes e) else pinnedBytes d)\<rparr>)"
proof -
  have "table_set key e (store d) = store d @ [(key, e)]"
    using new by (simp add: table_set_fresh map_of_eq_None_iff)
  moreover have "wf_table (table_set key e (store d))" using ok by (simp add: store_ok_def wf_table_set)
  ultimately show ?thesis using ok by (auto simp: store_ok_def pins_def)
qed

lemma store_ok_remember [inv_intros]: "store_ok c \<Longrightarrow> store_ok (remember key e c)"
  unfolding remember_def Let_def
  by (intro store_ok_evict store_ok_insert store_ok_discard) (simp_all add: delete_conv)

lemma evict_pinned_bound: "store_ok c \<Longrightarrow> pinnedBytes (evict_pinned c) \<le> MAX_PINNED_BYTES"
proof (induction c rule: evict_pinned.induct)
  case (1 c)
  show ?case
  proof (cases "pinnedBytes c > MAX_PINNED_BYTES")
    case True
    show ?thesis
    proof (cases "oldest pinned c")
      case None
      then have "pins (store c) = []" by (auto simp: oldest_def find_None_iff pins_def filter_empty_conv)
      then have "pinnedBytes c = 0" using "1.prems" by (simp add: store_ok_def)
      then show ?thesis using True by (simp add: MAX_PINNED_BYTES_def MAX_BYTES_def)
    next
      case (Some k)
      then show ?thesis using True "1.IH" [OF True Some store_ok_discard [OF "1.prems"]] evict_pinned.simps [of c] by simp
    qed
  next
    case False
    then show ?thesis using evict_pinned.simps [of c] by simp
  qed
qed

lemma evict_any_bound: "store_ok c \<Longrightarrow> length (store (evict_any c)) \<le> MAX_ENTRIES \<and> heldBytes (evict_any c) \<le> MAX_BYTES"
proof (induction c rule: evict_any.induct)
  case (1 c)
  show ?case
  proof (cases "length (store c) > MAX_ENTRIES \<or> heldBytes c > MAX_BYTES")
    case True
    show ?thesis
    proof (cases "victim c")
      case None
      then have "store c = []" by (cases "store c") (auto simp: victim_def oldest_def split: option.splits)
      then show ?thesis using True "1.prems" by (simp add: store_ok_def MAX_BYTES_def)
    next
      case (Some k)
      then show ?thesis using True "1.IH" [OF True Some store_ok_discard [OF "1.prems"]] evict_any.simps [of c] by simp
    qed
  next
    case False
    then show ?thesis using evict_any.simps [of c] by simp
  qed
qed

lemma pinnedBytes_discard_le: "pinnedBytes (discard k c) \<le> pinnedBytes c"
  by (auto simp: discard_def split: option.splits)

lemma in_bounds_evict: "store_ok c \<Longrightarrow> in_bounds (evict c)"
proof -
  assume ok: "store_ok c"
  have ok': "store_ok (evict_pinned c)" by (rule evict_pinned_preserves [where P = store_ok]) (auto intro: ok store_ok_discard)
  have "pinnedBytes (evict_any (evict_pinned c)) \<le> pinnedBytes (evict_pinned c)"
    by (rule evict_any_preserves [where P = "\<lambda>d. pinnedBytes d \<le> pinnedBytes (evict_pinned c)"])
       (auto intro: order_trans [OF pinnedBytes_discard_le])
  then show ?thesis using evict_pinned_bound [OF ok] evict_any_bound [OF ok'] by (simp add: in_bounds_def evict_def)
qed

lemma in_bounds_remember: "store_ok c \<Longrightarrow> in_bounds (remember key e c)"
  unfolding remember_def Let_def
  by (intro in_bounds_evict store_ok_insert store_ok_discard) (simp_all add: delete_conv)

lemma in_bounds_discard: "store_ok c \<Longrightarrow> in_bounds c \<Longrightarrow> in_bounds (discard k c)"
proof -
  assume "store_ok c" "in_bounds c"
  moreover have "heldBytes (discard k c) \<le> heldBytes c" by (auto simp: discard_def split: option.splits)
  ultimately show ?thesis using pinnedBytes_discard_le [of k c] length_table_delete [of k "store c"]
    unfolding in_bounds_def by auto
qed

definition sound :: "'v cache \<Rightarrow> bool" where
  "sound c \<longleftrightarrow> store_ok c \<and> in_bounds c"

lemma sound_remember [inv_intros]: "sound c \<Longrightarrow> sound (remember key e c)"
  by (simp add: sound_def store_ok_remember in_bounds_remember)

lemma sound_discard [inv_intros]: "sound c \<Longrightarrow> sound (discard key c)"
  by (simp add: sound_def store_ok_discard in_bounds_discard)

lemma sound_keep [inv_intros]: "sound c \<Longrightarrow> sound (keep m now key x p c)"
  by (simp add: keep_def sound_discard sound_remember)

text \<open>Changes outside the store and its counters, and a changed flag, leave it sound.\<close>

lemma sound_cong:
  "sound c \<Longrightarrow> store d = store c \<Longrightarrow> heldBytes d = heldBytes c \<Longrightarrow> pinnedBytes d = pinnedBytes c \<Longrightarrow> sound d"
  by (simp add: sound_def store_ok_def in_bounds_def)

lemma sound_updates [simp]: "sound (c\<lparr>inflight := x\<rparr>) = sound c" "sound (c\<lparr>flights := y\<rparr>) = sound c"
  "sound (c\<lparr>holds := h\<rparr>) = sound c" "sound (c\<lparr>next_flight := n\<rparr>) = sound c"
  by (simp_all add: sound_def store_ok_def in_bounds_def)

lemma flag_refreshing_simps [simp]:
  "table_keys (flag_refreshing key s) = table_keys s" "entry_bytes (flag_refreshing key s) = entry_bytes s"
  "entry_bytes (pins (flag_refreshing key s)) = entry_bytes (pins s)" "length (flag_refreshing key s) = length s"
  by (induction s) (auto simp: flag_refreshing_def pins_def split: if_splits)

lemma sound_flag [inv_intros]: "sound c \<Longrightarrow> sound (c\<lparr>store := flag_refreshing key (store c)\<rparr>)"
  by (simp add: sound_def store_ok_def in_bounds_def wf_table_def)

subsection \<open>Flights\<close>

definition flights_ok :: "'v cache \<Rightarrow> bool" where
  "flights_ok c \<longleftrightarrow> wf_table (flights c) \<and> wf_table (inflight c) \<and>
     (\<forall>k i. table_get (inflight c) k = Some i \<longrightarrow>
        (\<exists>f. table_get (flights c) i = Some f \<and> flight_key f = k \<and> \<not> cancelled f)) \<and>
     (\<forall>i f. table_get (flights c) i = Some f \<longrightarrow>
        i < next_flight c \<and> (\<not> cancelled f \<longrightarrow> table_get (inflight c) (flight_key f) = Some i))"

lemma flights_ok_cong:
  "flights_ok c \<Longrightarrow> flights d = flights c \<Longrightarrow> inflight d = inflight c \<Longrightarrow> next_flight d = next_flight c \<Longrightarrow> flights_ok d"
  by (simp add: flights_ok_def)

lemma table_get_filter_key: "table_get (filter (\<lambda>p. P (fst p)) s) k = (if P k then table_get s k else None)"
  by (induction s) auto

lemma table_get_map_val: "table_get (map (\<lambda>(i, f). (i, g i f)) s) k = map_option (g k) (table_get s k)"
  by (induction s) auto

lemma flights_ok_begin [inv_intros]:
  "flights_ok c \<Longrightarrow> table_get (inflight c) key = None \<Longrightarrow> flights_ok (snd (begin_flight key pin c))"
  unfolding flights_ok_def begin_flight_def
  by (auto simp: table_simps wf_table_set less_SucI split: if_splits) (metis option.distinct(1) less_irrefl)+

definition cancel_ids :: "string \<Rightarrow> 'v cache \<Rightarrow> nat set" where
  "cancel_ids pre c = snd ` {p \<in> set (inflight c). startsWith (fst p) pre}"

lemma cancel_matching_simps:
  "table_get (flights (cancel_matching pre c)) i =
     map_option (\<lambda>f. if i \<in> cancel_ids pre c then f\<lparr>cancelled := True\<rparr> else f) (table_get (flights c) i)"
  "table_get (inflight (cancel_matching pre c)) k = (if startsWith k pre then None else table_get (inflight c) k)"
  "store (cancel_matching pre c) = store c" "holds (cancel_matching pre c) = holds c"
  "heldBytes (cancel_matching pre c) = heldBytes c" "pinnedBytes (cancel_matching pre c) = pinnedBytes c"
  "next_flight (cancel_matching pre c) = next_flight c"
  "table_keys (flights (cancel_matching pre c)) = table_keys (flights c)"
  by (auto simp: cancel_matching_def Let_def table_get_map_val cancel_ids_def split_beta
      table_get_filter_key [where P = "\<lambda>k. \<not> startsWith k pre"] intro: option.map_cong)

lemma cancel_ids_iff:
  assumes "flights_ok c" "table_get (flights c) i = Some f"
  shows "i \<in> cancel_ids pre c \<longleftrightarrow> \<not> cancelled f \<and> startsWith (flight_key f) pre"
proof
  assume "i \<in> cancel_ids pre c"
  then obtain k where k: "(k, i) \<in> set (inflight c)" "startsWith k pre" by (auto simp: cancel_ids_def)
  then have "table_get (inflight c) k = Some i" using assms(1) by (simp add: flights_ok_def wf_table_get)
  then have "flight_key f = k \<and> \<not> cancelled f" using assms unfolding flights_ok_def by fastforce
  then show "\<not> cancelled f \<and> startsWith (flight_key f) pre" using k(2) by simp
next
  assume "\<not> cancelled f \<and> startsWith (flight_key f) pre"
  moreover have "\<not> cancelled f \<Longrightarrow> (flight_key f, i) \<in> set (inflight c)"
    using assms unfolding flights_ok_def by (blast intro: table_get_in_set)
  ultimately show "i \<in> cancel_ids pre c" by (force simp: cancel_ids_def)
qed

lemma flights_ok_cancel [inv_intros]:
  assumes ok: "flights_ok c"
  shows "flights_ok (cancel_matching pre c)"
proof -
  have wf: "wf_table (flights (cancel_matching pre c))" "wf_table (inflight (cancel_matching pre c))"
    using ok by (simp_all add: flights_ok_def wf_table_def cancel_matching_simps)
       (simp add: cancel_matching_def Let_def wf_table_filter [unfolded wf_table_def])
  have "\<exists>f. table_get (flights (cancel_matching pre c)) i = Some f \<and> flight_key f = k \<and> \<not> cancelled f"
    if k: "table_get (inflight (cancel_matching pre c)) k = Some i" for k i
  proof -
    have k': "\<not> startsWith k pre" "table_get (inflight c) k = Some i"
      using k by (auto simp: cancel_matching_simps split: if_splits)
    then obtain f where f: "table_get (flights c) i = Some f" "flight_key f = k" "\<not> cancelled f"
      using ok by (auto simp: flights_ok_def)
    then have "i \<notin> cancel_ids pre c" using cancel_ids_iff [OF ok f(1)] k'(1) by simp
    then show ?thesis using f by (simp add: cancel_matching_simps)
  qed
  moreover have "i < next_flight (cancel_matching pre c) \<and>
      (\<not> cancelled f \<longrightarrow> table_get (inflight (cancel_matching pre c)) (flight_key f) = Some i)"
    if here: "table_get (flights (cancel_matching pre c)) i = Some f" for i f
  proof -
    obtain g where g: "table_get (flights c) i = Some g" "f = (if i \<in> cancel_ids pre c then g\<lparr>cancelled := True\<rparr> else g)"
      using here by (auto simp: cancel_matching_simps)
    then show ?thesis using ok cancel_ids_iff [OF ok g(1), of pre]
      by (auto simp: cancel_matching_simps flights_ok_def)
  qed
  ultimately show ?thesis using wf unfolding flights_ok_def by blast
qed

lemma fold_discard_get: "table_get (store (fold discard ks c)) k = (if k \<in> set ks then None else table_get (store c) k)"
  by (induction ks arbitrary: c) (auto simp: delete_conv)

lemma fold_discard_frame [simp]: "inflight (fold discard ks c) = inflight c" "holds (fold discard ks c) = holds c"
  "flights (fold discard ks c) = flights c" "next_flight (fold discard ks c) = next_flight c"
  by (induction ks arbitrary: c) simp_all

lemma sound_fold_discard [inv_intros]: "sound c \<Longrightarrow> sound (fold discard ks c)"
  by (induction ks arbitrary: c) (simp_all add: sound_discard)

lemma discard_matching_get:
  "table_get (store (discard_matching pre c)) k = (if startsWith k pre then None else table_get (store c) k)"
  by (auto simp: discard_matching_def fold_discard_get map_of_eq_None_iff)

lemma flights_ok_end:
  assumes ok: "flights_ok c"
  shows "flights_ok (flight_end m i r now c)"
proof (cases "table_get (flights c) i")
  case None
  then show ?thesis using ok by (simp add: flight_end_def)
next
  case (Some f)
  let ?own = "table_get (inflight c) (flight_key f) = Some i"
  let ?d = "flight_end m i r now c"
  have fr: "flights ?d = table_delete i (flights c)" "next_flight ?d = next_flight c"
    "inflight ?d = (if ?own then table_delete (flight_key f) (inflight c) else inflight c)"
    using Some by (auto simp: flight_end_def Let_def split: sum.splits)
  have wf: "wf_table (flights ?d)" "wf_table (inflight ?d)"
    using ok by (auto simp: fr flights_ok_def wf_table_delete)
  have "\<exists>g. table_get (flights ?d) j = Some g \<and> flight_key g = k \<and> \<not> cancelled g"
    if k: "table_get (inflight ?d) k = Some j" for k j
  proof -
    have k': "table_get (inflight c) k = Some j" "?own \<Longrightarrow> k \<noteq> flight_key f"
      using k by (auto simp: fr delete_conv split: if_splits)
    then obtain g where g: "table_get (flights c) j = Some g" "flight_key g = k" "\<not> cancelled g"
      using ok by (auto simp: flights_ok_def)
    then have "j \<noteq> i" using k' Some by auto
    then show ?thesis using g by (simp add: fr delete_conv)
  qed
  moreover have "j < next_flight ?d \<and> (\<not> cancelled g \<longrightarrow> table_get (inflight ?d) (flight_key g) = Some j)"
    if j: "table_get (flights ?d) j = Some g" for j g
  proof -
    have j': "j \<noteq> i" "table_get (flights c) j = Some g" using j by (auto simp: fr delete_conv split: if_splits)
    then have "j < next_flight c" "\<not> cancelled g \<Longrightarrow> table_get (inflight c) (flight_key g) = Some j"
      using ok by (auto simp: flights_ok_def)
    then show ?thesis using j'(1) by (cases "cancelled g") (auto simp: fr delete_conv)
  qed
  ultimately show ?thesis using wf unfolding flights_ok_def by blast
qed

subsection \<open>The invariant of a run\<close>

definition cache_inv :: "'v cache \<Rightarrow> bool" where
  "cache_inv c \<longleftrightarrow> sound c \<and> flights_ok c"

lemma isHeld_frame [simp]: "store (snd (isHeld key now c)) = store c" "heldBytes (snd (isHeld key now c)) = heldBytes c"
  "pinnedBytes (snd (isHeld key now c)) = pinnedBytes c" "inflight (snd (isHeld key now c)) = inflight c"
  "flights (snd (isHeld key now c)) = flights c" "next_flight (snd (isHeld key now c)) = next_flight c"
  by (simp_all add: isHeld_def Let_def)

lemma begin_frame [simp]: "store (snd (begin_flight key pin c)) = store c"
  "heldBytes (snd (begin_flight key pin c)) = heldBytes c" "pinnedBytes (snd (begin_flight key pin c)) = pinnedBytes c"
  "holds (snd (begin_flight key pin c)) = holds c"
  by (simp_all add: begin_flight_def)

lemma cache_inv_isHeld: "cache_inv c \<Longrightarrow> cache_inv (snd (isHeld key now c))"
  by (auto simp: cache_inv_def intro: sound_cong flights_ok_cong)

lemma cache_inv_remember: "cache_inv c \<Longrightarrow> cache_inv (remember key e c)"
  by (auto simp: cache_inv_def intro: sound_remember flights_ok_cong)

lemma cache_inv_begin: "cache_inv c \<Longrightarrow> table_get (inflight c) key = None \<Longrightarrow> cache_inv (snd (begin_flight key pin c))"
  by (auto simp: cache_inv_def flights_ok_begin intro: sound_cong)

text \<open>The four ways a call of \<open>cached\<close> can go.\<close>

lemma cached_call_cases:
  fixes opts key now c0 ttlMs
  defines "held \<equiv> fst (isHeld key now c0)" and "c \<equiv> snd (isHeld key now c0)"
  defines "ttl \<equiv> (if held then min ttlMs HOLD_TTL_MS else ttlMs)"
    and "stale \<equiv> (if held then 0 else max 0 (staleMs opts))"
  obtains
    (fresh) hit where "table_get (store c) key = Some hit" "now - stored_at hit < ttl"
      "cached_call key ttlMs opts now c0 = (Answer (cached_value hit), remember key hit c)"
  | (stale_refresh) hit d where "table_get (store c) key = Some hit" "now - stored_at hit < ttl + stale"
      "d = remember key hit c" "table_get (inflight d) key = None"
      "cached_call key ttlMs opts now c0 = (Answer (cached_value hit),
         snd (begin_flight key (pin_option opts) (d\<lparr>store := flag_refreshing key (store d)\<rparr>)))"
  | (stale_only) hit where "table_get (store c) key = Some hit" "now - stored_at hit < ttl + stale"
      "cached_call key ttlMs opts now c0 = (Answer (cached_value hit), remember key hit c)"
  | (join) i where "table_get (inflight c) key = Some i" "cached_call key ttlMs opts now c0 = (Await i held, c)"
  | (fetch) "table_get (inflight c) key = None"
      "cached_call key ttlMs opts now c0 = (Await (next_flight c) held, snd (begin_flight key (pin_option opts) c))"
proof -
  have eq: "isHeld key now c0 = (held, c)" by (simp add: held_def c_def)
  show thesis
  proof (cases "table_get (store c) key")
    case None
    then show thesis using join fetch
      by (cases "table_get (inflight c) key") (simp_all add: cached_call_def eq Let_def begin_flight_def)
  next
    case (Some hit)
    show thesis
    proof (cases "now - stored_at hit < ttl")
      case True
      then show thesis using fresh Some by (simp add: cached_call_def eq Let_def ttl_def)
    next
      case no: False
      show thesis
      proof (cases "now - stored_at hit < ttl + stale")
        case True
        show thesis
        proof (cases "\<not> refreshing hit \<and> table_get (inflight (remember key hit c)) key = None")
          case refresh: True
          show thesis
            by (rule stale_refresh [OF Some True refl])
               (use refresh no Some True in \<open>simp_all add: cached_call_def eq Let_def ttl_def stale_def\<close>)
        next
          case False
          then have "cached_call key ttlMs opts now c0 = (Answer (cached_value hit), remember key hit c)"
            unfolding cached_call_def eq Let_def prod.case Some option.case
            using no True by (simp only: if_False if_True flip: ttl_def stale_def)
          then show thesis by (rule stale_only [OF Some True])
        qed
      next
        case False
        then show thesis using join fetch Some no
          by (cases "table_get (inflight c) key") (simp_all add: cached_call_def eq Let_def begin_flight_def ttl_def stale_def)
      qed
    qed
  qed
qed

lemma cache_inv_call: "cache_inv c0 \<Longrightarrow> cache_inv (snd (cached_call key ttlMs opts now c0))"
proof -
  assume inv: "cache_inv c0"
  then have c: "cache_inv (snd (isHeld key now c0))" by (rule cache_inv_isHeld)
  show ?thesis
  proof (cases rule: cached_call_cases [of key now c0 ttlMs opts])
    case (stale_refresh hit d)
    then have "cache_inv d" using c cache_inv_remember by blast
    then have "cache_inv (d\<lparr>store := flag_refreshing key (store d)\<rparr>)"
      by (auto simp: cache_inv_def sound_flag intro: flights_ok_cong)
    then show ?thesis using stale_refresh by (simp add: cache_inv_begin)
  qed (use c in \<open>simp_all add: cache_inv_remember cache_inv_begin\<close>)
qed

lemma cache_inv_end: "cache_inv c \<Longrightarrow> cache_inv (flight_end m i r now c)"
proof -
  assume inv: "cache_inv c"
  have "sound (flight_end m i r now c)"
    using inv sound_keep
    by (auto simp: cache_inv_def flight_end_def Let_def split: option.splits sum.splits)
  then show ?thesis using inv flights_ok_end by (auto simp: cache_inv_def)
qed

lemma cache_inv_failed: "cache_inv c \<Longrightarrow> cache_inv (snd (cached_failed key opts held err now c))"
  by (auto simp: cached_failed_def cache_inv_remember split: option.splits if_splits)

lemma cache_inv_invalidate: "cache_inv c \<Longrightarrow> cache_inv (snd (invalidate pre h now c))"
proof -
  assume inv: "cache_inv c"
  have "sound (discard_matching pre c)" using inv by (simp add: cache_inv_def discard_matching_def sound_fold_discard)
  then have "sound (cancel_matching pre (discard_matching pre c))" by (rule sound_cong) (simp_all add: cancel_matching_simps)
  moreover have "flights_ok (discard_matching pre c)"
    using inv by (auto simp: cache_inv_def discard_matching_def intro: flights_ok_cong)
  then have "flights_ok (cancel_matching pre (discard_matching pre c))" by (rule flights_ok_cancel)
  ultimately show ?thesis
    by (auto simp: cache_inv_def invalidate_def Let_def intro: sound_cong flights_ok_cong)
qed

lemma cache_inv_step: "cache_inv c \<Longrightarrow> cache_inv (cache_step m ev c)"
  by (cases "(m, ev, c)" rule: cache_step.cases)
     (simp_all add: cache_inv_call cache_inv_end cache_inv_failed cache_inv_invalidate)

lemma cache_inv_run: "cache_inv c \<Longrightarrow> cache_inv (cache_run m es c)"
  by (induction es arbitrary: c) (simp_all add: cache_run_def cache_inv_step)

lemma cache_inv_empty: "cache_inv empty_cache"
  by (simp add: cache_inv_def sound_def store_ok_def in_bounds_def flights_ok_def empty_cache_def
      pins_def MAX_BYTES_def MAX_PINNED_BYTES_def)

subsection \<open>What a write leaves behind\<close>

text \<open>
  With the values tagged by the flight that fetched them: every entry of a matching key comes from
  flight \<open>n\<close> or later, and no uncancelled flight before \<open>n\<close> can still store one.
\<close>

definition since :: "('v \<Rightarrow> nat) \<Rightarrow> nat \<Rightarrow> string \<Rightarrow> 'v cache \<Rightarrow> bool" where
  "since tag n pre c \<longleftrightarrow> n \<le> next_flight c \<and>
     (\<forall>k e. startsWith k pre \<longrightarrow> table_get (store c) k = Some e \<longrightarrow> n \<le> tag (cached_value e)) \<and>
     (\<forall>i f. table_get (flights c) i = Some f \<longrightarrow> startsWith (flight_key f) pre \<longrightarrow> \<not> cancelled f \<longrightarrow> n \<le> i)"

lemma remember_get: "table_get (store (remember key e c)) k = Some e' \<Longrightarrow> (k = key \<and> e' = e) \<or> table_get (store c) k = Some e'"
  unfolding remember_def Let_def by (drule evict_get) (auto simp: update_conv delete_conv split: if_splits)

lemma keep_get: "table_get (store (keep m now key x p c)) k = Some e \<Longrightarrow>
  (k = key \<and> cached_value e = x) \<or> table_get (store c) k = Some e"
  by (auto simp: keep_def delete_conv split: if_splits dest: remember_get)

lemma flag_get: "table_get (flag_refreshing key s) k = Some e \<Longrightarrow> \<exists>e'. table_get s k = Some e' \<and> cached_value e = cached_value e'"
  by (auto simp: flag_refreshing_def table_get_map_val)

lemma since_remember: "since tag n pre c \<Longrightarrow> table_get (store c) key = Some e \<Longrightarrow> since tag n pre (remember key e c)"
  unfolding since_def by (auto dest: remember_get)

lemma since_begin: "since tag n pre c \<Longrightarrow> since tag n pre (snd (begin_flight key pin c))"
  unfolding since_def by (auto simp: begin_flight_def update_conv split: if_splits)

lemma since_isHeld: "since tag n pre c \<Longrightarrow> since tag n pre (snd (isHeld key now c))"
  by (simp add: since_def)

lemma since_call: "since tag n pre c0 \<Longrightarrow> since tag n pre (snd (cached_call key ttlMs opts now c0))"
proof -
  assume "since tag n pre c0"
  then have c: "since tag n pre (snd (isHeld key now c0))" by (rule since_isHeld)
  show ?thesis
  proof (cases rule: cached_call_cases [of key now c0 ttlMs opts])
    case (stale_refresh hit d)
    then have "since tag n pre d" using c since_remember by blast
    then have "since tag n pre (d\<lparr>store := flag_refreshing key (store d)\<rparr>)"
      unfolding since_def by (auto dest!: flag_get)
    then show ?thesis using stale_refresh by (simp add: since_begin)
  qed (use c in \<open>simp_all add: since_remember since_begin\<close>)
qed

lemma since_end:
  assumes s: "since tag n pre c" and tagged: "\<And>x. r = Inr x \<Longrightarrow> tag x = i"
  shows "since tag n pre (flight_end m i r now c)"
proof (cases "table_get (flights c) i")
  case None
  then show ?thesis using s by (simp add: flight_end_def)
next
  case (Some f)
  have "n \<le> tag (cached_value e)"
    if "startsWith k pre" "table_get (store (flight_end m i r now c)) k = Some e" for k e
    using that s tagged Some
    by (auto simp: flight_end_def Let_def since_def split: sum.splits if_splits dest: keep_get)
  then show ?thesis using s Some unfolding since_def
    by (auto simp: flight_end_def Let_def delete_conv split: sum.splits if_splits)
qed

lemma since_failed: "since tag n pre c \<Longrightarrow> since tag n pre (snd (cached_failed key opts held err now c))"
  by (auto simp: cached_failed_def since_remember split: option.splits if_splits)

lemma invalidate_simps:
  "table_get (store (snd (invalidate p h now c))) k = (if startsWith k p then None else table_get (store c) k)"
  "flights (snd (invalidate p h now c)) = flights (cancel_matching p (discard_matching p c))"
  "next_flight (snd (invalidate p h now c)) = next_flight c"
  by (auto simp: invalidate_def Let_def cancel_matching_simps discard_matching_get)
     (simp_all add: discard_matching_def)

lemma since_invalidate: "since tag n pre c \<Longrightarrow> since tag n pre (snd (invalidate p h now c))"
  unfolding since_def invalidate_simps
  by (auto simp: cancel_matching_simps discard_matching_def split: if_splits)

lemma since_start: "flights_ok c \<Longrightarrow> since tag (next_flight c) pre (snd (invalidate pre h now c))"
proof -
  assume ok: "flights_ok c"
  have ok': "flights_ok (discard_matching pre c)" using ok by (auto simp: discard_matching_def intro: flights_ok_cong)
  have "cancelled f" if f: "table_get (flights (snd (invalidate pre h now c))) i = Some f" "startsWith (flight_key f) pre" for i f
  proof -
    obtain g where g: "table_get (flights (discard_matching pre c)) i = Some g"
      "f = (if i \<in> cancel_ids pre (discard_matching pre c) then g\<lparr>cancelled := True\<rparr> else g)"
      using f(1) by (auto simp: invalidate_simps cancel_matching_simps)
    then show ?thesis using cancel_ids_iff [OF ok' g(1), of pre] f(2) by auto
  qed
  then show ?thesis unfolding since_def by (auto simp: invalidate_simps)
qed

definition tagged :: "('v \<Rightarrow> nat) \<Rightarrow> ('v event \<times> int) list \<Rightarrow> bool" where
  "tagged tag es \<longleftrightarrow> list_all (\<lambda>(ev, now). case ev of FlightEnd i (Inr x) \<Rightarrow> tag x = i | _ \<Rightarrow> True) es"

lemma since_step:
  "since tag n pre c \<Longrightarrow> tagged tag [ev] \<Longrightarrow> since tag n pre (cache_step m ev c)"
  by (cases "(m, ev, c)" rule: cache_step.cases)
     (auto simp: since_call since_failed since_invalidate tagged_def split: sum.splits intro!: since_end)

lemma since_run: "since tag n pre c \<Longrightarrow> tagged tag es \<Longrightarrow> since tag n pre (cache_run m es c)"
proof (induction es arbitrary: c)
  case Nil
  then show ?case by (simp add: cache_run_def)
next
  case (Cons ev es)
  have "tagged tag [ev]" "tagged tag es" using Cons.prems(2) by (auto simp: tagged_def)
  then show ?case using Cons since_step [of tag n pre c ev m] by (simp add: cache_run_def)
qed

text \<open>A hold stays in force until it is over, unless everything is invalidated.\<close>

definition hold_until :: "string \<Rightarrow> int \<Rightarrow> 'v cache \<Rightarrow> bool" where
  "hold_until pre u c \<longleftrightarrow> (\<exists>w \<ge> u. table_get (holds c) pre = Some w)"

lemma table_get_filter_val: "table_get s k = Some w \<Longrightarrow> P w \<Longrightarrow> table_get (filter (\<lambda>p. P (snd p)) s) k = Some w"
  by (induction s) (auto split: if_splits)

lemma hold_isHeld:
  assumes "hold_until pre u c" "now < u"
  shows "hold_until pre u (snd (isHeld key now c)) \<and> (startsWith key pre \<longrightarrow> fst (isHeld key now c))"
proof -
  obtain w where w: "u \<le> w" "table_get (holds c) pre = Some w" using assms(1) by (auto simp: hold_until_def)
  then have f: "table_get (filter (\<lambda>h. \<not> snd h \<le> now) (holds c)) pre = Some w"
    using assms(2) table_get_filter_val [of "holds c" pre w "\<lambda>w. \<not> w \<le> now"] by simp
  then have "(pre, w) \<in> set (filter (\<lambda>h. \<not> snd h \<le> now) (holds c))" by (rule table_get_in_set)
  then show ?thesis using w f by (auto simp: isHeld_def Let_def hold_until_def list_ex_iff)
qed

lemma cached_call_holds [simp]: "holds (snd (cached_call key ttlMs opts now c)) = holds (snd (isHeld key now c))"
  by (cases rule: cached_call_cases [of key now c ttlMs opts]) simp_all

lemma hold_step:
  assumes "hold_until pre u c" "snd ev < u" "\<And>h. fst ev \<noteq> Invalidate [] h"
  shows "hold_until pre u (cache_step m ev c)"
proof (cases "(m, ev, c)" rule: cache_step.cases)
  case (1 m key ttl opts now c)
  then show ?thesis using assms hold_isHeld [of pre u c now key] by (auto simp: hold_until_def)
next
  case (2 m i r now c)
  then show ?thesis using assms by (auto simp: hold_until_def flight_end_def Let_def split: option.splits sum.splits)
next
  case (3 m key opts held err now c)
  then show ?thesis using assms by (auto simp: hold_until_def cached_failed_def split: option.splits if_splits)
next
  case (4 m p h now c)
  then have "p \<noteq> []" using assms(3) by auto
  then show ?thesis using 4 assms(1)
    by (auto simp: hold_until_def invalidate_def Let_def cancel_matching_simps discard_matching_def update_conv)
qed

lemma hold_run:
  "hold_until pre u c \<Longrightarrow> \<forall>ev \<in> set es. snd ev < u \<and> (\<forall>h. fst ev \<noteq> Invalidate [] h) \<Longrightarrow> hold_until pre u (cache_run m es c)"
proof (induction es arbitrary: c)
  case Nil
  then show ?case by (simp add: cache_run_def)
next
  case (Cons ev es)
  then have "hold_until pre u (cache_step m ev c)" by (intro hold_step) auto
  then show ?case using Cons by (simp add: cache_run_def)
qed

lemma hold_start: "0 < h \<Longrightarrow> hold_until pre (now + h) (snd (invalidate pre h now c))"
  by (auto simp: hold_until_def invalidate_def Let_def update_conv)

subsection \<open>Eviction spares the pins\<close>

text \<open>With the pins within their bounds, the second loop of \<open>evict\<close> only ever takes unpinned entries.\<close>

definition pins_fit :: "'v cache \<Rightarrow> bool" where
  "pins_fit c \<longleftrightarrow> store_ok c \<and> length (pins (store c)) \<le> MAX_ENTRIES \<and> pinnedBytes c \<le> MAX_PINNED_BYTES"

lemma pins_discard_unpinned:
  assumes "table_get (store c) k = Some e" "\<not> pinned e" "wf_table (store c)"
  shows "pins (store (discard k c)) = pins (store c)"
proof -
  have "k \<notin> fst ` set (pins (store c))"
    using assms by (auto simp: pins_def dest: wf_table_get [rotated])
  then show ?thesis by (simp add: pins_delete delete_idem)
qed

lemma pins_fit_victim:
  assumes fit: "pins_fit c" and v: "victim c = Some k" and over: "length (store c) > MAX_ENTRIES \<or> heldBytes c > MAX_BYTES"
  shows "\<exists>e. table_get (store c) k = Some e \<and> \<not> pinned e"
proof (cases "find (\<lambda>p. \<not> pinned (snd p)) (store c)")
  case None
  then have all: "\<forall>p \<in> set (store c). pinned (snd p)" by (auto simp: find_None_iff)
  then have "pins (store c) = store c" by (auto simp: pins_def filter_id_conv)
  then have "heldBytes c = pinnedBytes c" "length (store c) \<le> MAX_ENTRIES" "pinnedBytes c \<le> MAX_PINNED_BYTES"
    using fit by (auto simp: pins_fit_def store_ok_def)
  then show ?thesis using over by (simp add: MAX_PINNED_BYTES_def MAX_BYTES_def)
next
  case (Some p)
  then have p: "p \<in> set (store c)" "\<not> pinned (snd p)" by (auto simp: find_Some_iff simp del: set_conv_nth)
  moreover have "fst p = k" using Some v by (simp add: victim_def oldest_def)
  moreover have "wf_table (store c)" using fit by (simp add: pins_fit_def store_ok_def)
  ultimately have "table_get (store c) k = Some (snd p)" by (intro wf_table_get) auto
  then show ?thesis using p(2) by blast
qed

lemma pinnedBytes_discard_unpinned:
  "table_get (store c) k = Some e \<Longrightarrow> \<not> pinned e \<Longrightarrow> pinnedBytes (discard k c) = pinnedBytes c"
  by (simp add: discard_def)

lemma evict_any_spares_pins: "pins_fit c \<Longrightarrow> pins (store (evict_any c)) = pins (store c)"
proof (induction c rule: evict_any.induct)
  case (1 c)
  show ?case
  proof (cases "length (store c) > MAX_ENTRIES \<or> heldBytes c > MAX_BYTES")
    case False
    then show ?thesis by (simp add: evict_any.simps [of c])
  next
    case over: True
    show ?thesis
    proof (cases "victim c")
      case None
      then show ?thesis by (simp add: evict_any.simps [of c])
    next
      case (Some k)
      obtain e where e: "table_get (store c) k = Some e" "\<not> pinned e" using pins_fit_victim [OF 1(2) Some over] by auto
      have ok: "store_ok c" using 1(2) by (simp add: pins_fit_def)
      then have same: "pins (store (discard k c)) = pins (store c)"
        using pins_discard_unpinned [OF e] by (simp add: store_ok_def)
      then have "pins_fit (discard k c)"
        using 1(2) ok store_ok_discard pinnedBytes_discard_unpinned [OF e] by (simp add: pins_fit_def)
      then show ?thesis using 1(1) [OF over Some] over Some same by (simp add: evict_any.simps [of c])
    qed
  qed
qed

lemma length_pins: "length (pins s) \<le> length s"
  by (simp add: pins_def)

lemma remember_spares_pins:
  assumes snd: "sound c" and e: "\<not> pinned e"
  shows "pins (store (remember key e c)) = table_delete key (pins (store c))"
proof -
  let ?d = "discard key c"
  let ?i = "?d\<lparr>store := table_set key e (store ?d), heldBytes := heldBytes ?d + int (bytes e), pinnedBytes := pinnedBytes ?d\<rparr>"
  have ok: "store_ok ?d" and bnd: "in_bounds ?d" using sound_discard [OF snd, of key] by (auto simp: sound_def)
  have "table_set key e (table_delete key (store c)) = table_delete key (store c) @ [(key, e)]"
    by (simp add: table_set_fresh delete_keys)
  then have pi: "pins (store ?i) = table_delete key (pins (store c))" using e by (simp add: pins_delete [symmetric]) (simp add: pins_def)
  have "store_ok ?i" using store_ok_insert [OF ok, of key e] e by (simp add: delete_conv)
  moreover have "length (pins (store ?i)) \<le> MAX_ENTRIES"
    using bnd pi length_pins [of "store ?d"] by (simp add: in_bounds_def pins_delete [symmetric])
  ultimately have fit: "pins_fit ?i" using bnd by (simp add: pins_fit_def in_bounds_def)
  then have "evict_pinned ?i = ?i" using evict_pinned.simps [of ?i] by (simp add: pins_fit_def)
  then have "pins (store (remember key e c)) = pins (store (evict_any ?i))" using e by (simp add: remember_def evict_def Let_def)
  then show ?thesis using evict_any_spares_pins [OF fit] pi by simp
qed


subsection \<open>Properties\<close>

text \<open>
  Whatever sequence of calls, finished and failed fetches and invalidations the cache has
  been through, and whatever the sizes of the values: its two counters are the sums of the sizes of
  the entries held and of the pinned ones, it holds at most \<open>MAX_ENTRIES\<close> values of together at most
  \<open>MAX_BYTES\<close>, the pinned ones take at most half of that, and no key occurs twice.
\<close>

theorem cache_stays_bounded:
  "let c = cache_run m es empty_cache
   in length (store c) \<le> 500 \<and> heldBytes c \<le> 64 * 1024 * 1024 \<and> pinnedBytes c \<le> 32 * 1024 * 1024 \<and>
      heldBytes c = (\<Sum>p\<leftarrow>store c. int (bytes (snd p))) \<and>
      pinnedBytes c = (\<Sum>p\<leftarrow>filter (\<lambda>p. pinned (snd p)) (store c). int (bytes (snd p))) \<and>
      distinct (table_keys (store c))"
  using cache_inv_run [OF cache_inv_empty, of m es]
  by (auto simp: Let_def cache_inv_def sound_def store_ok_def in_bounds_def MAX_ENTRIES_def MAX_BYTES_def
      MAX_PINNED_BYTES_def entry_bytes_def pins_def wf_table_def)

text \<open>
  C20. Concurrent misses coalesce: in a reachable state, while an uncancelled fetch of a key is in
  flight, a call for that key starts no second one. It either answers from the store or awaits
  exactly that flight, and the flights are as before.
\<close>

theorem one_fetch_per_key:
  assumes "c = cache_run m es empty_cache"
    and "table_get (flights c) i = Some f" "\<not> cancelled f" "flight_key f = key"
    and "cached_call key ttlMs opts now c = (a, d)"
  shows "flights d = flights c \<and> inflight d = inflight c \<and> (\<forall>j held. a \<noteq> Await j held \<or> j = i)"
proof -
  have "flights_ok c" using assms(1) cache_inv_run [OF cache_inv_empty, of m es] by (simp add: cache_inv_def)
  then have busy: "table_get (inflight c) key = Some i" using assms(2-4) by (auto simp: flights_ok_def)
  show ?thesis
    by (cases rule: cached_call_cases [of key now c ttlMs opts]) (use assms(5) busy in auto)
qed

text \<open>
  C4. A write is never undone by the cache. Take any reachable state \<open>c0\<close>, invalidate a prefix in
  it, and let anything happen afterwards, with every fetched value tagged by its flight. Then for a
  key with that prefix an answer from the store, an answer given instead of an error, and an awaited
  flight all come from a fetch that was started after the invalidation.
\<close>

theorem write_is_never_undone:
  assumes "c0 = cache_run m es0 empty_cache"
    and "tagged tag es" "c = cache_run m es (snd (invalidate pre h t0 c0))"
    and "startsWith key pre"
  shows "(case fst (cached_call key ttlMs opts now c) of
            Answer x \<Rightarrow> next_flight c0 \<le> tag x
          | Await i held \<Rightarrow> next_flight c0 \<le> i) \<and>
         (case fst (cached_failed key opts held err now c) of
            Inr (x, age) \<Rightarrow> next_flight c0 \<le> tag x
          | Inl e \<Rightarrow> e = err)"
proof (rule conjI)
  have ok0: "cache_inv c0" using assms(1) cache_inv_run [OF cache_inv_empty] by auto
  have s: "since tag (next_flight c0) pre c"
    unfolding assms(3) using ok0 by (intro since_run [OF since_start assms(2)]) (simp add: cache_inv_def)
  have inv: "cache_inv c" using cache_inv_run [OF cache_inv_invalidate [OF ok0]] assms(3) by auto
  show "case fst (cached_failed key opts held err now c) of
          Inr (x, age) \<Rightarrow> next_flight c0 \<le> tag x | Inl e \<Rightarrow> e = err"
    using s assms(4) by (auto simp: cached_failed_def since_def split: option.splits)
  show "case fst (cached_call key ttlMs opts now c) of
          Answer x \<Rightarrow> next_flight c0 \<le> tag x | Await i held \<Rightarrow> next_flight c0 \<le> i"
  proof (cases rule: cached_call_cases [of key now c ttlMs opts])
    case (join i)
    then have "\<exists>f. table_get (flights c) i = Some f \<and> flight_key f = key \<and> \<not> cancelled f"
      using inv by (auto simp: cache_inv_def flights_ok_def)
    then show ?thesis using join s assms(4) by (auto simp: since_def)
  qed (use s assms(4) in \<open>auto simp: since_def\<close>)
qed


text \<open>
  While a hold lasts, nobody is answered with a value older than \<open>HOLD_TTL_MS\<close> (or the key's own
  shorter time to live), and a caller that has to wait is marked as held, so that a failing fetch
  gives it the error and never an old value. The hold set by an invalidation with a positive
  \<open>holdMs\<close> lasts that long whatever else happens, other than an invalidation of everything.
\<close>

theorem hold_is_respected:
  assumes "0 < h" "c = cache_run m es (snd (invalidate pre h t0 c0))"
    and "\<forall>ev \<in> set es. snd ev < t0 + h \<and> (\<forall>h'. fst ev \<noteq> Invalidate [] h')"
    and "now < t0 + h" "startsWith key pre"
  shows "case fst (cached_call key ttlMs opts now c) of
           Answer x \<Rightarrow> (\<exists>e. table_get (store c) key = Some e \<and> cached_value e = x \<and>
                          now - stored_at e < min ttlMs 2000)
         | Await i held \<Rightarrow> held \<and> fst (cached_failed key opts held err now' c') = Inl err"
proof -
  have "hold_until pre (t0 + h) c"
    using hold_run [OF hold_start [OF assms(1)] assms(3)] assms(2) by simp
  then have held: "fst (isHeld key now c)" using hold_isHeld assms(4,5) by blast
  show ?thesis
    by (cases rule: cached_call_cases [of key now c ttlMs opts])
       (simp_all add: held HOLD_TTL_MS_def cached_failed_def)
qed

text \<open>
  A flood of ordinary values cannot push out the pinned ones: after storing an unpinned value
  of any size in a sound state, exactly the pinned entries of the other keys are held as before.
\<close>

theorem pins_survive_floods:
  assumes "c = cache_run m es empty_cache" "key' \<noteq> key"
    and "table_get (store c) key' = Some e" "pinned e"
  shows "table_get (store (keep m' now key x False c)) key' = Some e"
proof -
  have snd: "sound c" using assms(1) cache_inv_run [OF cache_inv_empty, of m es] by (simp add: cache_inv_def)
  show ?thesis
  proof (cases "int (m' x) > MAX_BYTES")
    case True
    then show ?thesis using assms(2,3) by (simp add: keep_def delete_conv)
  next
    case False
    let ?e = "\<lparr>stored_at = now, cached_value = x, bytes = m' x, pinned = False, refreshing = False\<rparr>"
    have "sound (remember key ?e c)" using snd by (rule sound_remember)
    then have wf: "wf_table (store (remember key ?e c))" "wf_table (store c)"
      using snd by (simp_all add: sound_def store_ok_def)
    have "table_get (pins (store (remember key ?e c))) key' = Some e"
      using remember_spares_pins [OF snd, of ?e key] assms(2-4) wf by (simp add: delete_conv pins_get)
    then show ?thesis using False wf by (simp add: keep_def pins_get)
  qed
qed


text \<open>A concrete run: values are numbers tagged by their flight, keys are short strings.\<close>

lemmas cache_eval = cache_run_def cached_call_def isHeld_def begin_flight_def flight_end_def keep_def remember_def
  evict_def discard_def evict_any.simps evict_pinned.simps MAX_ENTRIES_def MAX_BYTES_def MAX_PINNED_BYTES_def
  HOLD_TTL_MS_def empty_cache_def invalidate_def discard_matching_def cancel_matching_def Let_def

definition plain_call :: options where
  "plain_call = \<lparr>staleMs = 0, staleIfError = True, pin_option = False\<rparr>"

lemma one_fetch_per_key_witness:
  "\<exists>f. let c = cache_run (\<lambda>x. 8) [(Call ''p'' 100 plain_call, 0)] (empty_cache :: nat cache)
       in table_get (flights c) 0 = Some f \<and> \<not> cancelled f \<and>
          flights (snd (cached_call ''p'' 100 plain_call 5 c)) = flights c"
proof -
  let ?c = "cache_run (\<lambda>x. 8) [(Call ''p'' 100 plain_call, 0)] (empty_cache :: nat cache)"
  have f: "table_get (flights ?c) 0 = Some \<lparr>flight_key = ''p'', flight_pin = False, cancelled = False\<rparr>"
    by (simp add: cache_eval plain_call_def)
  show ?thesis
    using f one_fetch_per_key [OF refl f _ _ prod.collapse [symmetric], of "''p''" 100 plain_call 5]
    by (auto simp: Let_def)
qed

lemma write_is_never_undone_witness:
  "(let c0 = cache_run (\<lambda>x. 8) [(Call ''p'' 100 plain_call, 0), (FlightEnd 0 (Inr 0), 1), (Call ''q'' 100 plain_call, 2)] (empty_cache :: nat cache);
        c = cache_run (\<lambda>x. 8) [(Call ''p'' 100 plain_call, 4), (FlightEnd 2 (Inr 2), 5)] (snd (invalidate ''p'' 1000 3 c0))
    in (case fst (cached_call ''p'' 100 plain_call 6 c) of Answer x \<Rightarrow> next_flight c0 \<le> x | Await i held \<Rightarrow> next_flight c0 \<le> i) \<and>
       fst (cached_call ''p'' 100 plain_call 2 c0) = Answer 0)"
proof -
  let ?c0 = "cache_run (\<lambda>x. 8) [(Call ''p'' 100 plain_call, 0), (FlightEnd 0 (Inr 0), 1), (Call ''q'' 100 plain_call, 2)] (empty_cache :: nat cache)"
  let ?es = "[(Call ''p'' 100 plain_call, 4), (FlightEnd 2 (Inr 2), 5)] :: (nat event \<times> int) list"
  have t: "tagged (\<lambda>x. x) ?es" by (simp add: tagged_def)
  have k: "startsWith ''p'' ''p''" by (simp add: startsWith_def)
  have "fst (cached_call ''p'' 100 plain_call 2 ?c0) = Answer 0" by (simp add: cache_eval plain_call_def)
  then show ?thesis using write_is_never_undone [OF refl t refl k, where m = "\<lambda>x. 8" and h = 1000 and ?t0.0 = 3 and ttlMs = 100
        and opts = plain_call and now = 6] by (auto simp: Let_def)
qed

lemma hold_is_respected_witness:
  "(let c = cache_run (\<lambda>x. 8) [(Call ''p'' 5000 plain_call, 4), (FlightEnd 0 (Inr 7), 5)] (snd (invalidate ''p'' 20000 3 (empty_cache :: nat cache)))
    in fst (cached_call ''p'' 5000 plain_call 1000 c) = Answer 7 \<and>
       (case fst (cached_call ''p'' 5000 plain_call 3000 c) of
          Answer x \<Rightarrow> (\<exists>e. table_get (store c) ''p'' = Some e \<and> cached_value e = x \<and> 3000 - stored_at e < min 5000 2000)
        | Await i held \<Rightarrow> held \<and> fst (cached_failed ''p'' plain_call held ''down'' 4000 c) = Inl ''down''))"
proof -
  let ?es = "[(Call ''p'' 5000 plain_call, 4), (FlightEnd 0 (Inr 7), 5)] :: (nat event \<times> int) list"
  let ?c = "cache_run (\<lambda>x. 8) ?es (snd (invalidate ''p'' 20000 3 (empty_cache :: nat cache)))"
  have "fst (cached_call ''p'' 5000 plain_call 1000 ?c) = Answer 7" by (simp add: cache_eval plain_call_def startsWith_def)
  moreover have "\<forall>ev \<in> set ?es. snd ev < 3 + 20000 \<and> (\<forall>h'. fst ev \<noteq> Invalidate [] h')" by simp
  moreover have "startsWith ''p'' ''p''" by (simp add: startsWith_def)
  ultimately show ?thesis
    unfolding Let_def
    using hold_is_respected [OF _ refl, where h = 20000 and es = ?es and ?t0.0 = 3 and now = 3000 and key = "''p''"
        and pre = "''p''" and ttlMs = 5000 and opts = plain_call and m = "\<lambda>x. 8" and ?c0.0 = empty_cache and err = "''down''"
        and now' = 4000]
    by simp
qed

lemma pins_survive_floods_witness:
  "\<exists>e. table_get (store (keep (\<lambda>x. 64 * 1024 * 1024) 9 ''g'' 5 False
          (cache_run (\<lambda>x. 8) [(Call ''p'' 100 (plain_call\<lparr>pin_option := True\<rparr>), 0), (FlightEnd 0 (Inr 0), 1)] (empty_cache :: nat cache)))) ''p'' = Some e"
proof -
  let ?c = "cache_run (\<lambda>x. 8) [(Call ''p'' 100 (plain_call\<lparr>pin_option := True\<rparr>), 0), (FlightEnd 0 (Inr 0), 1)] (empty_cache :: nat cache)"
  have p: "table_get (store ?c) ''p'' = Some \<lparr>stored_at = 1, cached_value = 0, bytes = 8, pinned = True, refreshing = False\<rparr>"
    by (simp add: cache_eval plain_call_def)
  show ?thesis using pins_survive_floods [OF refl _ p, where key = "''g''" and m' = "\<lambda>x. 64 * 1024 * 1024" and now = 9 and x = 5] by simp
qed

end
