(* ===== verification/ZabbixClient.thy ===== *)
theory ZabbixClient
  imports Naming JsonText
begin

text \<open>
  The JSON-RPC client (\<open>server/src/clients/zabbix.ts\<close>) and what a browser is told of a failure
  (\<open>server/src/http/errors.ts\<close>). \<open>fetch\<close> and \<open>JSON.parse\<close> are parameters, as is the text of a number that is
  not whole. What goes to the log only (\<open>detail\<close>) is kept in the error values, so that the property can say
  that it goes no further.
\<close>

subsection \<open>JSON\<close>

fun json_value :: "(rat \<Rightarrow> string) \<Rightarrow> jsval \<Rightarrow> string" where
  "json_value num_text JUndef = ''null''"
| "json_value num_text JNull = ''null''"
| "json_value num_text (JBool b) = (if b then ''true'' else ''false'')"
| "json_value num_text (JNum q) = num_text q"
| "json_value num_text (JStr s) = json_string s"
| "json_value num_text (JArr vs) = CHR ''['' # join '','' (map (json_value num_text) vs) @ '']''"
| "json_value num_text (JObj kvs) =
     CHR ''{'' # join '','' (map (\<lambda>(k, v). json_string k @ CHR '':'' # json_value num_text v) (filter (\<lambda>(k, v). v \<noteq> JUndef) kvs)) @ ''}''"

fun truthy :: "jsval \<Rightarrow> bool" where
  "truthy JUndef = False"
| "truthy JNull = False"
| "truthy (JBool b) = b"
| "truthy (JNum q) = (q \<noteq> 0)"
| "truthy (JStr s) = (s \<noteq> [])"
| "truthy (JArr vs) = True"
| "truthy (JObj kvs) = True"

text \<open>\<open>json.error\<close> and \<open>json.result\<close>: absent on an array and on an object without the key.\<close>

fun property :: "string \<Rightarrow> jsval \<Rightarrow> jsval" where
  "property k (JObj kvs) = (case table_get kvs k of Some v \<Rightarrow> v | None \<Rightarrow> JUndef)"
| "property k _ = JUndef"

subsection \<open>Errors\<close>

text \<open>A log text: the setting it names, the text, and whether it was cut short (an ellipsis follows).\<close>

type_synonym log_detail = "string \<times> string \<times> bool"

datatype zbx_error =
    ZabbixAuth string
  | ZabbixTimeout string log_detail
  | ZabbixApi string "log_detail option"
  | ZabbixWriteDisabled

definition AUTH_HINTS :: "string list" where
  "AUTH_HINTS = [''token expired'', ''re-login'', ''not authorised'', ''not authorized'', ''invalid token'', ''session terminated'']"

definition isAuthFailure :: "(rat \<Rightarrow> string) \<Rightarrow> jsval \<Rightarrow> bool" where
  "isAuthFailure num_text error =
     (let t = toLowerCase (json_value num_text error) in list_ex (\<lambda>hint. includes_text t hint) AUTH_HINTS)"

fun collapse :: "string \<Rightarrow> string" where
  "collapse [] = []"
| "collapse (c # s) =
     (if is_space c then (case collapse s of [] \<Rightarrow> [CHR '' ''] | d # r \<Rightarrow> if d = CHR '' '' then d # r else CHR '' '' # d # r)
      else c # collapse s)"

definition snippet :: "string \<Rightarrow> string \<times> bool" where
  "snippet body = (let flat = trim (collapse body) in (take 300 flat, length flat > 300))"

subsection \<open>One call\<close>

record zbx_config =
  zbxUrl :: string
  zbxToken :: string
  zbxWriteToken :: string
  zbxTimeoutMs :: nat

record rpc_request =
  rq_token :: string
  rq_body :: string

text \<open>What \<open>fetch\<close> and reading the body come to: an answer, or a failure with its name, the code of its cause, if that is text, and the cause's own message.\<close>

datatype fetch_outcome =
    Answered bool nat string string
  | Thrown "string option" "string option" string

definition request_body :: "(rat \<Rightarrow> string) \<Rightarrow> string \<Rightarrow> jsval \<Rightarrow> nat \<Rightarrow> string" where
  "request_body num_text meth params n =
     json_value num_text (JObj [(''jsonrpc'', JStr ''2.0''), (''method'', JStr meth), (''params'', params), (''id'', JNum (of_nat n))])"

definition read_answer ::
  "(rat \<Rightarrow> string) \<Rightarrow> (string \<Rightarrow> jsval option) \<Rightarrow> zbx_config \<Rightarrow> string \<Rightarrow> fetch_outcome \<Rightarrow> zbx_error + jsval" where
  "read_answer num_text parse cfg meth out =
     (case out of
        Thrown nm code cause \<Rightarrow>
          (if nm = Some ''TimeoutError'' \<or> nm = Some ''AbortError'' then
             Inl (ZabbixTimeout (''Zabbix did not respond to '' @ meth @ '' within '' @ show_nat (zbxTimeoutMs cfg) @ '' ms. ''
                    @ ''It may be overloaded or unreachable. Check ZBX_URL and the Zabbix server.'') (zbxUrl cfg, [], False))
           else
             Inl (ZabbixApi (''Could not reach Zabbix for '' @ meth @ (case code of Some c \<Rightarrow> '' ('' @ c @ '')'' | None \<Rightarrow> [])
                    @ ''. Check ZBX_URL and that the Zabbix frontend is running.'') (Some (zbxUrl cfg, cause, False))))
      | Answered ok status statusText body \<Rightarrow>
          (if \<not> ok then
             Inl (ZabbixApi (meth @ '': HTTP '' @ show_nat status @ '' '' @ statusText) (Some (zbxUrl cfg, snippet body)))
           else
             (let json = (case parse body of Some v \<Rightarrow> v | None \<Rightarrow> JNull) in
              case json of
                JArr _ \<Rightarrow> Inr JUndef
              | JObj _ \<Rightarrow>
                  (if truthy (property ''error'' json) then
                     (if isAuthFailure num_text (property ''error'' json) then
                        Inl (ZabbixAuth (''Zabbix rejected the API token (expired, invalid, or revoked). Update ZABBIX_API_TOKEN ''
                               @ ''(or ZABBIX_WRITE_TOKEN, for acknowledge/close) in server/.env.''))
                      else Inl (ZabbixApi (meth @ '': '' @ json_value num_text (property ''error'' json)) None))
                   else Inr (property ''result'' json))
              | _ \<Rightarrow>
                  Inl (ZabbixApi (meth @ '': Zabbix returned a non-JSON response. Check that ZBX_URL points at api_jsonrpc.php ''
                         @ ''and that the Zabbix frontend is not out of memory.'') (Some (zbxUrl cfg, snippet body))))))"

text \<open>The state is the number of the last request.\<close>

definition rpc_call ::
  "(rat \<Rightarrow> string) \<Rightarrow> (string \<Rightarrow> jsval option) \<Rightarrow> zbx_config \<Rightarrow> (rpc_request \<Rightarrow> fetch_outcome) \<Rightarrow> string \<Rightarrow> string \<Rightarrow> jsval \<Rightarrow> nat
     \<Rightarrow> (zbx_error + jsval) \<times> nat" where
  "rpc_call num_text parse cfg fetch token meth params n =
     (read_answer num_text parse cfg meth (fetch \<lparr>rq_token = token, rq_body = request_body num_text meth params (Suc n)\<rparr>), Suc n)"

definition zbx ::
  "(rat \<Rightarrow> string) \<Rightarrow> (string \<Rightarrow> jsval option) \<Rightarrow> zbx_config \<Rightarrow> (rpc_request \<Rightarrow> fetch_outcome) \<Rightarrow> string \<Rightarrow> jsval \<Rightarrow> nat
     \<Rightarrow> (zbx_error + jsval) \<times> nat" where
  "zbx num_text parse cfg fetch meth params n = rpc_call num_text parse cfg fetch (zbxToken cfg) meth params n"

definition zbxWrite ::
  "(rat \<Rightarrow> string) \<Rightarrow> (string \<Rightarrow> jsval option) \<Rightarrow> zbx_config \<Rightarrow> (rpc_request \<Rightarrow> fetch_outcome) \<Rightarrow> string \<Rightarrow> jsval \<Rightarrow> nat
     \<Rightarrow> (zbx_error + jsval) \<times> nat" where
  "zbxWrite num_text parse cfg fetch meth params n =
     (if zbxWriteToken cfg = [] then (Inl ZabbixWriteDisabled, n)
      else rpc_call num_text parse cfg fetch (zbxWriteToken cfg) meth params n)"

subsection \<open>What the browser is told\<close>

text \<open>
  Whatever a handler throws. The fields of a plain error are read defensively; a status that is no number
  in the source's reading counts as none.
\<close>

datatype thrown =
    BadRequest string
  | Invalid string
  | FromZabbix zbx_error
  | AiDisabled string
  | AiBusy string
  | AiUpstream string string
  | Plain jsval jsval jsval jsval

record error_reply =
  er_status :: nat
  er_error :: string
  er_message :: jsval
  er_retryAfter :: "string option"

definition SOURCE_DOWN :: string where "SOURCE_DOWN = ''The data source is not answering.''"

definition sourceDown :: "string \<Rightarrow> string" where
  "sourceDown requestId = SOURCE_DOWN @ '' Tell an administrator and quote reference '' @ requestId @ ''.''"

definition reply_with :: "nat \<Rightarrow> string \<Rightarrow> string \<Rightarrow> error_reply" where
  "reply_with status code message = \<lparr>er_status = status, er_error = code, er_message = JStr message, er_retryAfter = None\<rparr>"

definition number_value :: "jsval \<Rightarrow> jsnum" where
  "number_value v = (case v of JNum q \<Rightarrow> Num q | JStr s \<Rightarrow> js_number s | JNull \<Rightarrow> Num 0 | JBool b \<Rightarrow> Num (if b then 1 else 0) | _ \<Rightarrow> NaN)"

definition WRITE_OFF :: string where
  "WRITE_OFF = ''Acknowledge and Close are not switched on for this portal. Tell an administrator.''"

definition internal_reply :: "string \<Rightarrow> error_reply" where
  "internal_reply requestId =
     reply_with 500 ''internal'' (''The portal hit an unexpected error. Tell an administrator and quote reference '' @ requestId @ ''.'')"

definition errorReply :: "thrown \<Rightarrow> string \<Rightarrow> error_reply" where
  "errorReply err requestId =
     (case err of
        BadRequest m \<Rightarrow> reply_with 400 ''bad_request'' m
      | Invalid m \<Rightarrow> reply_with 400 ''bad_request'' m
      | FromZabbix (ZabbixAuth m) \<Rightarrow> reply_with 503 ''zabbix_auth'' (sourceDown requestId)
      | FromZabbix (ZabbixTimeout m d) \<Rightarrow> reply_with 503 ''zabbix_timeout'' (sourceDown requestId)
      | FromZabbix ZabbixWriteDisabled \<Rightarrow> reply_with 503 ''zabbix_write_disabled'' WRITE_OFF
      | FromZabbix (ZabbixApi m d) \<Rightarrow> reply_with 502 ''zabbix_error'' (sourceDown requestId)
      | AiDisabled m \<Rightarrow> reply_with 503 ''ai_disabled'' m
      | AiBusy m \<Rightarrow> (reply_with 503 ''ai_busy'' m)\<lparr>er_retryAfter := Some ''10''\<rparr>
      | AiUpstream m d \<Rightarrow> reply_with 502 ''ai_error'' m
      | Plain statusCode code1 code2 message \<Rightarrow>
          (case number_value statusCode of
             Num q \<Rightarrow>
               (if 400 \<le> q \<and> q < 500 then
                  \<lparr>er_status = nat \<lfloor>q\<rfloor>, er_error = (case code1 of JStr e \<Rightarrow> e | _ \<Rightarrow> (case code2 of JStr c \<Rightarrow> toLowerCase c | _ \<Rightarrow> ''bad_request'')),
                   er_message = message, er_retryAfter = None\<rparr>
                else internal_reply requestId)
           | _ \<Rightarrow> internal_reply requestId))"

definition notFound :: "string \<Rightarrow> string \<Rightarrow> error_reply" where
  "notFound meth url = reply_with 404 ''not_found'' (''No such endpoint: '' @ meth @ '' '' @ hd (split_on (CHR ''?'') url))"

subsection \<open>Property\<close>

text \<open>
  C31. Nothing Zabbix says reaches a browser. Whatever the network, Zabbix or its settings do, a read that
  fails is answered with one of three fixed replies that depend on the request's own reference only, a
  write with one of these or the fixed note that writing is off; and an error nobody planned for is answered
  with the fixed internal error unless it carries a status between 400 and 499. So no token, address, method
  name or text of Zabbix is in any of them.
\<close>

theorem zabbix_words_stay_in_the_log:
  "(case fst (zbx num_text parse cfg fetch meth params n) of
      Inl e \<Rightarrow> errorReply (FromZabbix e) ref \<in>
        {reply_with 503 ''zabbix_auth'' (sourceDown ref), reply_with 503 ''zabbix_timeout'' (sourceDown ref),
         reply_with 502 ''zabbix_error'' (sourceDown ref)}
    | Inr v \<Rightarrow> True) \<and>
   (case fst (zbxWrite num_text parse cfg fetch meth params n) of
      Inl e \<Rightarrow> errorReply (FromZabbix e) ref \<in>
        {reply_with 503 ''zabbix_auth'' (sourceDown ref), reply_with 503 ''zabbix_timeout'' (sourceDown ref),
         reply_with 502 ''zabbix_error'' (sourceDown ref), reply_with 503 ''zabbix_write_disabled'' WRITE_OFF}
    | Inr v \<Rightarrow> True) \<and>
   (errorReply (Plain st c1 c2 msg) ref = internal_reply ref \<or>
    (\<exists>q. number_value st = Num q \<and> 400 \<le> q \<and> q < 500 \<and> er_status (errorReply (Plain st c1 c2 msg) ref) = nat \<lfloor>q\<rfloor>))"
proof -
  have calls: "case fst (rpc_call num_text parse cfg fetch token meth params n) of Inl e \<Rightarrow> e \<noteq> ZabbixWriteDisabled | Inr v \<Rightarrow> True" for token
    by (auto simp: rpc_call_def read_answer_def Let_def split: fetch_outcome.splits jsval.splits)
  have replies: "errorReply (FromZabbix e) ref \<in>
        {reply_with 503 ''zabbix_auth'' (sourceDown ref), reply_with 503 ''zabbix_timeout'' (sourceDown ref),
         reply_with 502 ''zabbix_error'' (sourceDown ref)} \<or> e = ZabbixWriteDisabled" for e
    by (cases e) (simp_all add: errorReply_def)
  have off: "errorReply (FromZabbix ZabbixWriteDisabled) ref = reply_with 503 ''zabbix_write_disabled'' WRITE_OFF"
    by (simp add: errorReply_def)
  have plain: "errorReply (Plain st c1 c2 msg) ref = internal_reply ref \<or>
    (\<exists>q. number_value st = Num q \<and> 400 \<le> q \<and> q < 500 \<and> er_status (errorReply (Plain st c1 c2 msg) ref) = nat \<lfloor>q\<rfloor>)"
    by (cases "number_value st") (simp_all add: errorReply_def)
  show ?thesis
    using calls [of "zbxToken cfg"] calls [of "zbxWriteToken cfg"] replies off plain
    unfolding zbx_def zbxWrite_def by (auto split: sum.splits)
qed

end
