(* ===== verification/WriteBack.thy ===== *)
theory WriteBack
  imports Cache LiveStream ZabbixClient "HOL-Library.Word"
begin

unbundle bit_operations_syntax

text \<open>
  Acknowledge and close, the portal's only write path (\<open>server/src/services/actions.ts\<close>,
  \<open>server/src/routes/actions.ts\<close>). The state is the response cache of \<open>Cache\<close> and the live stream of
  \<open>LiveStream\<close>; \<open>write\<close> is \<open>zbxWrite\<close> for \<open>event.acknowledge\<close>, given the event ids, the action bits and the
  message. What was asked of Zabbix is part of the result. Log lines are left out.
\<close>

subsection \<open>Constants and readings\<close>

definition ACTION_CLOSE :: nat where "ACTION_CLOSE = 1"
definition ACTION_ACKNOWLEDGE :: nat where "ACTION_ACKNOWLEDGE = 2"
definition ACTION_MESSAGE :: nat where "ACTION_MESSAGE = 4"
definition MAX_MESSAGE :: nat where "MAX_MESSAGE = 2048"
definition MAX_EVENTIDS :: nat where "MAX_EVENTIDS = 50"

definition STALE_AFTER_WRITE :: "string list" where
  "STALE_AFTER_WRITE = [''problems'', ''stats'', ''probsByGroup'', ''sites'', ''aging'', ''services'', ''hosts:overview'', ''map:'', ''chat:snapshot'']"

definition WRITE_HOLD_MS :: int where "WRITE_HOLD_MS = 15000"

text \<open>Control characters, the one format character of Latin-1 (the soft hyphen) and brackets.\<close>

definition dropped_char :: "char \<Rightarrow> bool" where
  "dropped_char c \<longleftrightarrow> (of_char c :: nat) < 32 \<or> (127 \<le> (of_char c :: nat) \<and> (of_char c :: nat) < 160) \<or> c = CHR 0xAD \<or> c = CHR ''['' \<or> c = CHR '']''"

definition actor :: "jsval \<Rightarrow> string" where
  "actor sub =
     (let name = (case sub of JStr s \<Rightarrow> take 64 (trim (filter (\<lambda>c. \<not> dropped_char c) s)) | _ \<Rightarrow> [])
      in if name = [] then ''anonymous'' else name)"

definition as_list :: "jsval \<Rightarrow> jsval list" where
  "as_list v = (case v of JArr vs \<Rightarrow> vs | _ \<Rightarrow> [v])"

definition texts :: "jsval list \<Rightarrow> string list" where
  "texts vs = List.map_filter (\<lambda>v. case v of JStr s \<Rightarrow> Some s | _ \<Rightarrow> None) vs"

definition idsForLog :: "jsval \<Rightarrow> string list" where
  "idsForLog body = map (take 32) (take MAX_EVENTIDS (texts (as_list (property ''eventids'' body))))"

record trail =
  t_user :: string
  t_ip :: string
  t_eventids :: "string list"
  t_acknowledge :: bool
  t_close :: bool

definition trailOf :: "jsval \<Rightarrow> string \<Rightarrow> jsval \<Rightarrow> trail" where
  "trailOf sub ip body =
     \<lparr>t_user = actor sub, t_ip = ip, t_eventids = idsForLog body,
      t_acknowledge = (case property ''acknowledge'' body of JBool b \<Rightarrow> b | _ \<Rightarrow> True),
      t_close = (property ''close'' body = JBool True)\<rparr>"

subsection \<open>The route\<close>

record write_config =
  wc_token :: string
  wc_auth :: bool
  wc_allowWithoutAuth :: bool

definition writeBackEnabled :: "write_config \<Rightarrow> bool" where
  "writeBackEnabled cfg \<longleftrightarrow> wc_token cfg \<noteq> [] \<and> (wc_auth cfg \<or> wc_allowWithoutAuth cfg)"

datatype ack_reply =
    Refused nat string string
  | Failed zbx_error
  | Done "string list + jsval" nat

definition is_nothing :: "jsval \<Rightarrow> bool" where
  "is_nothing v \<longleftrightarrow> v = JUndef \<or> v = JNull"

definition body_error :: "jsval \<Rightarrow> string option" where
  "body_error body =
     (case body of JUndef \<Rightarrow> None | JNull \<Rightarrow> None | JObj _ \<Rightarrow> None | _ \<Rightarrow> Some ''The request body must be a JSON object.'')"

definition flag_error :: "string \<Rightarrow> jsval \<Rightarrow> string option" where
  "flag_error flag body =
     (if \<not> is_nothing (property flag body) \<and> \<not> (\<exists>b \<in> {True, False}. property flag body = JBool b)
      then Some (flag @ '' must be true or false.'') else None)"

definition ids_error :: "string list \<Rightarrow> string option" where
  "ids_error ids =
     (if ids = [] then Some ''eventids is required: one or more Zabbix event ids.''
      else if length ids > MAX_EVENTIDS then Some (''At most '' @ show_nat MAX_EVENTIDS @ '' event ids per request.'')
      else if list_ex (\<lambda>i. \<not> (i \<noteq> [] \<and> all_digits i)) ids then Some ''eventids must be numeric Zabbix event ids.''
      else None)"

definition message_error :: "jsval \<Rightarrow> string option" where
  "message_error body =
     (let m = property ''message'' body in
      if \<not> is_nothing m \<and> (case m of JStr _ \<Rightarrow> False | _ \<Rightarrow> True) then Some ''message must be text.'' else None)"

definition wanted_ids :: "jsval \<Rightarrow> string list" where
  "wanted_ids body = filter (\<lambda>i. i \<noteq> []) (texts (as_list (property ''eventids'' body)))"

definition note_of :: "jsval \<Rightarrow> string" where
  "note_of body = trim (case property ''message'' body of JStr s \<Rightarrow> s | _ \<Rightarrow> [])"

definition asked_bits :: "jsval \<Rightarrow> nat" where
  "asked_bits body =
     (let acknowledge = (case property ''acknowledge'' body of JBool b \<Rightarrow> b | _ \<Rightarrow> True);
          close = (property ''close'' body = JBool True)
      in (if acknowledge then ACTION_ACKNOWLEDGE else 0) OR (if close then ACTION_CLOSE else 0)
           OR (if note_of body \<noteq> [] then ACTION_MESSAGE else 0))"

definition tagged_message :: "string \<Rightarrow> string \<Rightarrow> string" where
  "tagged_message user note =
     (let tag = ''[portal:'' @ user @ '']'' in take MAX_MESSAGE (if note \<noteq> [] then tag @ '' '' @ note else tag))"

type_synonym asked = "string list \<times> nat \<times> string"

definition invalidate_stale :: "int \<Rightarrow> 'v cache \<Rightarrow> 'v cache" where
  "invalidate_stale now c = fold (\<lambda>k c. snd (invalidate k WRITE_HOLD_MS now c)) STALE_AFTER_WRITE c"

definition acknowledge_route ::
  "write_config \<Rightarrow> (asked \<Rightarrow> zbx_error + jsval) \<Rightarrow> jsval \<Rightarrow> jsval \<Rightarrow> int \<Rightarrow> 'v cache \<times> live
     \<Rightarrow> ack_reply \<times> asked option \<times> 'v cache \<times> live" where
  "acknowledge_route cfg write sub body now st =
     (if \<not> writeBackEnabled cfg then
        (Refused 503 ''zabbix_write_disabled''
           (if wc_token cfg \<noteq> [] then ''Acknowledge and Close are off while sign-in is off. Tell an administrator.''
            else ''Acknowledge and Close are not switched on for this portal. Tell an administrator.''), None, st)
      else
        (let ids = wanted_ids body; asked = asked_bits body in
         case first_error [body_error body, ids_error ids, message_error body, flag_error ''acknowledge'' body, flag_error ''close'' body,
                           (if asked = 0 then Some ''Nothing to do. Supply acknowledge, close, or a message.'' else None)] of
           Some m \<Rightarrow> (Refused 400 ''bad_request'' m, None, st)
         | None \<Rightarrow>
             (let call = (ids, asked OR ACTION_MESSAGE, tagged_message (actor sub) (note_of body)) in
              case write call of
                Inl e \<Rightarrow> (Failed e, Some call, st)
              | Inr result \<Rightarrow>
                  (Done (if is_nothing (property ''eventids'' result) then Inl ids else Inr (property ''eventids'' result)) asked,
                   Some call, invalidate_stale now (fst st), notifyProblemsChanged (snd st)))))"

subsection \<open>What a write leaves behind\<close>

definition forgotten :: "string \<Rightarrow> int \<Rightarrow> 'v cache \<Rightarrow> bool" where
  "forgotten pre until c \<longleftrightarrow>
     (\<forall>k. startsWith k pre \<longrightarrow> table_get (store c) k = None \<and> table_get (inflight c) k = None) \<and>
     (\<exists>u. table_get (holds c) pre = Some u \<and> until \<le> u)"

lemma cancel_matching_frame [simp]:
  "store (cancel_matching pre c) = store c" "holds (cancel_matching pre c) = holds c" "holds (discard_matching pre c) = holds c"
  "inflight (discard_matching pre c) = inflight c"
  by (simp_all add: cancel_matching_def discard_matching_def Let_def)

lemma invalidate_get:
  "table_get (store (snd (invalidate pre h now c))) k = (if startsWith k pre then None else table_get (store c) k)"
  "table_get (inflight (snd (invalidate pre h now c))) k = (if startsWith k pre then None else table_get (inflight c) k)"
  by (simp_all add: invalidate_def Let_def discard_matching_get cancel_matching_simps)

lemma invalidate_holds:
  "pre \<noteq> [] \<Longrightarrow> 0 < h \<Longrightarrow> table_get (holds (snd (invalidate pre h now c))) q =
     (if q = pre then Some (max (case table_get (holds c) pre of Some u \<Rightarrow> u | None \<Rightarrow> 0) (now + h)) else table_get (holds c) q)"
  by (simp add: invalidate_def Let_def table_simps)

lemma forgotten_start: "pre \<noteq> [] \<Longrightarrow> 0 < h \<Longrightarrow> forgotten pre (now + h) (snd (invalidate pre h now c))"
  by (auto simp: forgotten_def invalidate_get invalidate_holds)

lemma forgotten_keep: "pre \<noteq> [] \<Longrightarrow> 0 < h \<Longrightarrow> forgotten q until c \<Longrightarrow> forgotten q until (snd (invalidate pre h now c))"
  by (auto simp: forgotten_def invalidate_get invalidate_holds)

lemma forgotten_fold:
  assumes "\<forall>q \<in> set qs. q \<noteq> []" "0 < h" "pre \<in> set qs \<or> forgotten pre (now + h) c"
  shows "forgotten pre (now + h) (fold (\<lambda>k c. snd (invalidate k h now c)) qs c)"
  using assms
proof (induction qs arbitrary: c)
  case (Cons q qs)
  have "pre \<in> set qs \<or> forgotten pre (now + h) (snd (invalidate q h now c))"
    using Cons.prems forgotten_start [of q h now c] forgotten_keep [of q h pre "now + h" c now] by auto
  then show ?case using Cons by simp
qed simp

lemma stale_forgotten: "pre \<in> set STALE_AFTER_WRITE \<Longrightarrow> forgotten pre (now + 15000) (invalidate_stale now c)"
  using forgotten_fold [of STALE_AFTER_WRITE 15000 pre now c]
  by (simp add: invalidate_stale_def WRITE_HOLD_MS_def STALE_AFTER_WRITE_def)

subsection \<open>Properties\<close>

lemma set_trim: "set (trim s) \<subseteq> set s"
  by (auto simp: trim_def dest!: set_dropWhileD)

lemma actor_clean: "actor sub \<noteq> [] \<and> length (actor sub) \<le> 64 \<and> CHR ''['' \<notin> set (actor sub) \<and> CHR '']'' \<notin> set (actor sub)"
proof -
  have "c \<in> set (take 64 (trim (filter (\<lambda>c. \<not> dropped_char c) s))) \<Longrightarrow> \<not> dropped_char c" for c s
    using set_trim [of "filter (\<lambda>c. \<not> dropped_char c) s"] by (auto dest: in_set_takeD)
  then have "CHR ''['' \<notin> set (take 64 (trim (filter (\<lambda>c. \<not> dropped_char c) s))) \<and> CHR '']'' \<notin> set (take 64 (trim (filter (\<lambda>c. \<not> dropped_char c) s)))" for s
    unfolding dropped_char_def by blast
  then show ?thesis by (auto simp: actor_def Let_def split: jsval.splits)
qed

text \<open>
  C13. What reaches Zabbix is exactly what was allowed and asked for. A write is made only while writing is
  switched on; it then names at least one and at most fifty events, each id a decimal number taken from the
  body; its action has the message bit and otherwise just the bits the body asks for; and its message is at
  most 2,048 characters long and opens with the acting user's tag, which no name can close early. Without
  a write the reply is a refusal and neither the cache nor the stream has changed.
\<close>

theorem write_is_fenced:
  "let (reply, sent, st') = acknowledge_route cfg write sub body now st in
   case sent of
     None \<Rightarrow> (\<exists>status code m. reply = Refused status code m) \<and> st' = st
   | Some (ids, action, message) \<Rightarrow>
       wc_token cfg \<noteq> [] \<and> (wc_auth cfg \<or> wc_allowWithoutAuth cfg) \<and>
       ids \<noteq> [] \<and> length ids \<le> 50 \<and> list_all (\<lambda>i. i \<noteq> [] \<and> all_digits i \<and> JStr i \<in> set (as_list (property ''eventids'' body))) ids \<and>
       action = (if property ''acknowledge'' body = JBool False then 0 else 2) + (if property ''close'' body = JBool True then 1 else 0) + 4 \<and>
       length message \<le> 2048 \<and>
       (\<exists>user rest. message = ''[portal:'' @ user @ '']'' @ rest \<and> user = actor sub \<and> CHR '']'' \<notin> set user \<and> CHR ''['' \<notin> set user)"
proof -
  define ids where "ids = wanted_ids body"
  define err where "err = first_error [body_error body, ids_error ids, message_error body, flag_error ''acknowledge'' body,
     flag_error ''close'' body, (if asked_bits body = 0 then Some ''Nothing to do. Supply acknowledge, close, or a message.'' else None)]"
  show ?thesis
  proof (cases "writeBackEnabled cfg \<and> err = None")
    case False
    then show ?thesis by (auto simp: acknowledge_route_def Let_def err_def ids_def split: option.splits)
  next
    case True
    then have en: "wc_token cfg \<noteq> []" "wc_auth cfg \<or> wc_allowWithoutAuth cfg" by (auto simp: writeBackEnabled_def)
    have none: "ids_error ids = None" "flag_error ''acknowledge'' body = None" "flag_error ''close'' body = None"
      using True by (auto simp: err_def first_error_None)
    have ids: "ids \<noteq> []" "length ids \<le> 50" "list_all (\<lambda>i. i \<noteq> [] \<and> all_digits i) ids"
      using none(1) by (auto simp: ids_error_def MAX_EVENTIDS_def list_ex_iff list_all_iff split: if_splits)
    have origin: "JStr i \<in> set (as_list (property ''eventids'' body))" if "i \<in> set ids" for i
      using that by (auto simp: ids_def wanted_ids_def texts_def map_filter_def split: jsval.splits)
    have all: "list_all (\<lambda>i. i \<noteq> [] \<and> all_digits i \<and> JStr i \<in> set (as_list (property ''eventids'' body))) ids"
      using ids(3) origin by (auto simp: list_all_iff)
    have ack: "property ''acknowledge'' body \<in> {JUndef, JNull, JBool True, JBool False}"
      using none(2) by (auto simp: flag_error_def is_nothing_def split: if_splits)
    have action: "asked_bits body OR ACTION_MESSAGE =
        (if property ''acknowledge'' body = JBool False then 0 else 2) + (if property ''close'' body = JBool True then 1 else 0) + 4"
      using ack by (auto simp: asked_bits_def Let_def ACTION_MESSAGE_def ACTION_CLOSE_def ACTION_ACKNOWLEDGE_def)
    have msg: "\<exists>rest. tagged_message (actor sub) nt = ''[portal:'' @ actor sub @ '']'' @ rest" "length (tagged_message (actor sub) nt) \<le> 2048" for nt
    proof -
      define tag where "tag = ''[portal:'' @ actor sub @ '']''"
      have len: "length tag \<le> MAX_MESSAGE" using actor_clean [of sub] by (simp add: tag_def MAX_MESSAGE_def)
      have "\<exists>rest. take MAX_MESSAGE (tag @ r) = tag @ rest" for r using len by simp
      from this [of "[]"] this [of "'' '' @ nt"] have "\<exists>rest. tagged_message (actor sub) nt = tag @ rest"
        unfolding tagged_message_def Let_def tag_def [symmetric] by (cases "nt = []") (simp_all only: append_Nil2 if_False if_True simp_thms)
      then show "\<exists>rest. tagged_message (actor sub) nt = ''[portal:'' @ actor sub @ '']'' @ rest" unfolding tag_def by simp
      show "length (tagged_message (actor sub) nt) \<le> 2048" by (simp add: tagged_message_def Let_def MAX_MESSAGE_def)
    qed
    have sent: "fst (snd (acknowledge_route cfg write sub body now st)) = Some (ids, asked_bits body OR ACTION_MESSAGE, tagged_message (actor sub) (note_of body))"
      using True by (simp add: acknowledge_route_def Let_def err_def ids_def split: sum.splits)
    show ?thesis using sent en ids(1,2) all action msg actor_clean [of sub] by (auto simp: split_def)
  qed
qed

text \<open>
  C18. After a write that Zabbix took, nothing older than it is shown: whatever the cache held or was
  fetching under any of the nine key prefixes is gone or cancelled, each prefix is held for fifteen
  seconds, and every connected screen has a forced read on its way.
\<close>

theorem write_refreshes_everything:
  assumes "acknowledge_route cfg write sub body now (c, s) = (Done ids asked, sent, c', s')"
    and "pre \<in> set STALE_AFTER_WRITE" "startsWith key pre"
  shows "table_get (store c') key = None \<and> table_get (inflight c') key = None \<and>
     (\<forall>t < now + 15000. fst (isHeld key t c')) \<and>
     (clients s \<noteq> [] \<longrightarrow> (\<exists>r \<in> set (reads s'). rd_force r \<and> rd_number r = Suc (readsStarted s)))"
proof -
  have c': "c' = invalidate_stale now c" and s': "s' = notifyProblemsChanged s"
    using assms(1) by (auto simp: acknowledge_route_def Let_def split: if_splits option.splits sum.splits)
  have f: "forgotten pre (now + 15000) c'" unfolding c' using assms(2) by (rule stale_forgotten)
  then obtain u where u: "table_get (holds c') pre = Some u" "now + 15000 \<le> u" by (auto simp: forgotten_def)
  have "fst (isHeld key t c')" if "t < now + 15000" for t
    using u that assms(3) table_get_in_set [OF u(1)] by (force simp: isHeld_def Let_def list_ex_iff)
  then show ?thesis using f assms(3) by (auto simp: forgotten_def s' notifyProblemsChanged_def refresh_begin_def)
qed

lemma write_refreshes_everything_witness:
  "\<exists>ids asked sent c' s'. acknowledge_route \<lparr>wc_token = ''t'', wc_auth = True, wc_allowWithoutAuth = False\<rparr> (\<lambda>_. Inr JUndef) (JStr ''ana'')
       (JObj [(''eventids'', JStr ''5''), (''close'', JBool True)]) 7 (empty_cache :: nat cache, one_screen) = (Done ids asked, sent, c', s') \<and>
     table_get (store c') ''problems'' = None \<and> fst (isHeld ''problems'' 15000 c') \<and> length (reads s') = 2"
proof -
  let ?b = "JObj [(''eventids'', JStr ''5''), (''close'', JBool True)]"
  have d: "wanted_ids ?b = [''5'']" by (simp add: wanted_ids_def as_list_def texts_def map_filter_simps)
  have n: "note_of ?b = []" by (simp add: note_of_def trim_def)
  have five: "ids_error [''5''] = None" by (simp add: ids_error_def MAX_EVENTIDS_def is_digit_def less_eq_char_def)
  have a: "asked_bits ?b = 3" by (simp add: asked_bits_def n ACTION_ACKNOWLEDGE_def ACTION_CLOSE_def)
  have e: "body_error ?b = None" "message_error ?b = None" "flag_error ''acknowledge'' ?b = None" "flag_error ''close'' ?b = None"
    by (simp_all add: body_error_def message_error_def flag_error_def is_nothing_def)
  obtain ids asked sent c' s' where r: "acknowledge_route \<lparr>wc_token = ''t'', wc_auth = True, wc_allowWithoutAuth = False\<rparr> (\<lambda>_. Inr JUndef) (JStr ''ana'')
       ?b 7 (empty_cache :: nat cache, one_screen) = (Done ids asked, sent, c', s')" and s': "s' = notifyProblemsChanged one_screen"
    by (simp add: acknowledge_route_def writeBackEnabled_def d a e five Let_def del: property.simps)
  have p: "''problems'' \<in> set STALE_AFTER_WRITE" "startsWith ''problems'' ''problems''" by (simp_all add: STALE_AFTER_WRITE_def startsWith_def)
  have "length (reads s') = 2" by (simp add: s' one_screen_eq live_start_def notifyProblemsChanged_def refresh_begin_def)
  then show ?thesis using r write_refreshes_everything [OF r p] by auto
qed

end
