(* ===== verification/CacheKeys.thy ===== *)
theory CacheKeys
  imports WriteBack Report
begin

text \<open>
  Every entry of the response cache by the question it answers: the keys of the calls of \<open>cached(...)\<close> under
  \<open>server/src\<close>, how long each is kept, and which other entries its answer is put together from. One cache serves
  all of them, so two questions must never share a key, and a write-back must reach every entry that shows problems.
\<close>

subsection \<open>The questions\<close>

datatype cache_key =
    KProblems | KSites | KHosts | KHostsMeta | KHostsOverview | KHostsTemplates | KHostGroups | KDevices
  | KItems string string bool "string list"
  | KLatestPage string string string nat nat bool | KLatestIds string string string | KLatest string string string
  | KItemKeys "string list" | KGraph "string list" int int nat
  | KMaps | KMap string | KNetHostIds | KNetDevices | KNetInterfaces string | KLinks
  | KMeters | KMeterDefinitions string | KMeterSiblings string "string list"
  | KIcmpItems | KIcmpHosts | KCollecting
  | KStats | KTopTriggers nat | KProblemsByGroup | KAging | KTopHosts nat | KWebMonitoring nat | KInventory
  | KAllProblems nat int | KAllProblemsMonth string int | KAvailability profile nat | KNoise nat int | KCapacity nat nat
  | KDerivedSli profile string bool | KServicesTree | KServicesDerived profile string
  | KSla | KSlaSource | KSli string "string option"
  | KSnapshot | KExplainProblem string bool bool | KExplainDerived string profile string | KExplainSla string "string option"

primrec profile_text :: "profile \<Rightarrow> string" where
  "profile_text HcmlReport = ''hcml-report''"
| "profile_text Availability = ''availability''"

definition colon :: string where "colon = '':''"

definition or_all :: "string option \<Rightarrow> string" where
  "or_all s = (case s of None \<Rightarrow> ''all'' | Some i \<Rightarrow> i)"

text \<open>The key is the texts joined by colons.\<close>

primrec key_parts :: "cache_key \<Rightarrow> string list" where
  "key_parts KProblems = [''problems'']"
| "key_parts KSites = [''sites'']"
| "key_parts KHosts = [''hosts'']"
| "key_parts KHostsMeta = [''hosts'', ''meta'']"
| "key_parts KHostsOverview = [''hosts'', ''overview'']"
| "key_parts KHostsTemplates = [''hosts'', ''templates'']"
| "key_parts KHostGroups = [''hostgroups'']"
| "key_parts KDevices = [''devices'']"
| "key_parts (KItems h s g ids) = [''items'', h, s, if g then ''1'' else ''0'', join '','' ids]"
| "key_parts (KLatestPage h g needle page n hide) =
     [''latest'', ''p'', h, g, needle, show_nat page, show_nat n, if hide then ''v'' else ''o'']"
| "key_parts (KLatestIds h g needle) = [''latest'', ''ids'', h, g, needle]"
| "key_parts (KLatest h g search) = [''latest'', h, g, search]"
| "key_parts (KItemKeys ids) = [''itemkeys'', join '','' ids]"
| "key_parts (KGraph ids from to points) = [''graph'', join '','' ids, show_int from, show_int to, show_nat points]"
| "key_parts KMaps = [''maps'']"
| "key_parts (KMap i) = [''map'', i]"
| "key_parts KNetHostIds = [''net'', ''hostids'']"
| "key_parts KNetDevices = [''net'', ''devices'']"
| "key_parts (KNetInterfaces h) = [''net'', ''interfaces'', h]"
| "key_parts KLinks = [''links'']"
| "key_parts KMeters = [''net'', ''meters'']"
| "key_parts (KMeterDefinitions n) = [''meters'', ''definitions'', n]"
| "key_parts (KMeterSiblings n ids) = [''meters'', ''siblings'', n, join '','' ids]"
| "key_parts KIcmpItems = [''icmp'', ''items'']"
| "key_parts KIcmpHosts = [''icmp'', ''hosts'']"
| "key_parts KCollecting = [''collecting'', ''last'']"
| "key_parts KStats = [''stats'']"
| "key_parts (KTopTriggers d) = [''toptrig'', show_nat d]"
| "key_parts KProblemsByGroup = [''probsByGroup'']"
| "key_parts KAging = [''aging'']"
| "key_parts (KTopHosts n) = [''top-hosts'', show_nat n]"
| "key_parts (KWebMonitoring n) = [''web-monitoring'', show_nat n]"
| "key_parts KInventory = [''inventory'', ''scorecard'']"
| "key_parts (KAllProblems d s) = [''avail'', ''all'', show_nat d, show_int s]"
| "key_parts (KAllProblemsMonth m s) = [''avail'', ''all'', m, show_int s]"
| "key_parts (KAvailability p d) = [''avail'', profile_text p, show_nat d]"
| "key_parts (KNoise d s) = [''noise'', show_nat d, show_int s]"
| "key_parts (KCapacity d n) = [''capacity'', show_nat d, show_nat n]"
| "key_parts (KDerivedSli p m c) = [''derived-sli'', profile_text p, m, if c then ''closed'' else ''open'']"
| "key_parts KServicesTree = [''services'', ''tree'']"
| "key_parts (KServicesDerived p m) = [''services'', ''derived'', profile_text p, m]"
| "key_parts KSla = [''sla'']"
| "key_parts KSlaSource = [''sla'', ''source'']"
| "key_parts (KSli i s) = [''sli'', i, or_all s]"
| "key_parts KSnapshot = [''chat'', ''snapshot'']"
| "key_parts (KExplainProblem e a r) = [''explain'', ''problem'', e, if a then ''ack'' else ''unack'', if r then ''resolved'' else ''open'']"
| "key_parts (KExplainDerived m p s) = [''explain'', ''sla'', ''derived'', m, profile_text p, s]"
| "key_parts (KExplainSla i s) = [''explain'', ''sla'', i, or_all s]"

definition key_text :: "cache_key \<Rightarrow> string" where
  "key_text k = join colon (key_parts k)"

text \<open>How long an answer is kept, in milliseconds; a graph and a closed month depend on the time of the call.\<close>

primrec key_ttl :: "bool \<Rightarrow> cache_key \<Rightarrow> int" where
  "key_ttl live KProblems = 5000"
| "key_ttl live KSites = 15000"
| "key_ttl live KHosts = 30000"
| "key_ttl live KHostsMeta = 30000"
| "key_ttl live KHostsOverview = 15000"
| "key_ttl live KHostsTemplates = 300000"
| "key_ttl live KHostGroups = 60000"
| "key_ttl live KDevices = 30000"
| "key_ttl live (KItems u v w x) = 30000"
| "key_ttl live (KLatestPage u v w x y z) = 15000"
| "key_ttl live (KLatestIds u v w) = 15000"
| "key_ttl live (KLatest u v w) = 15000"
| "key_ttl live (KItemKeys u) = 300000"
| "key_ttl live (KGraph u v w x) = (if live then 15000 else 600000)"
| "key_ttl live KMaps = 60000"
| "key_ttl live (KMap u) = 30000"
| "key_ttl live KNetHostIds = 60000"
| "key_ttl live KNetDevices = 30000"
| "key_ttl live (KNetInterfaces u) = 15000"
| "key_ttl live KLinks = 20000"
| "key_ttl live KMeters = 30000"
| "key_ttl live (KMeterDefinitions u) = 120000"
| "key_ttl live (KMeterSiblings u v) = 120000"
| "key_ttl live KIcmpItems = 15000"
| "key_ttl live KIcmpHosts = 15000"
| "key_ttl live KCollecting = 30000"
| "key_ttl live KStats = 30000"
| "key_ttl live (KTopTriggers u) = 60000"
| "key_ttl live KProblemsByGroup = 15000"
| "key_ttl live KAging = 15000"
| "key_ttl live (KTopHosts u) = 30000"
| "key_ttl live (KWebMonitoring u) = 30000"
| "key_ttl live KInventory = 60000"
| "key_ttl live (KAllProblems u v) = 120000"
| "key_ttl live (KAllProblemsMonth u v) = 120000"
| "key_ttl live (KAvailability u v) = 120000"
| "key_ttl live (KNoise u v) = 120000"
| "key_ttl live (KCapacity u v) = 300000"
| "key_ttl live (KDerivedSli u v c) = (if c then 86400000 else 300000)"
| "key_ttl live KServicesTree = 30000"
| "key_ttl live (KServicesDerived u v) = 30000"
| "key_ttl live KSla = 60000"
| "key_ttl live KSlaSource = 60000"
| "key_ttl live (KSli u v) = 60000"
| "key_ttl live KSnapshot = 300000"
| "key_ttl live (KExplainProblem u v w) = 3600000"
| "key_ttl live (KExplainDerived u v w) = 300000"
| "key_ttl live (KExplainSla u v) = 300000"

text \<open>
  The entries an answer is made from while it is fetched: \<open>cached_reads k q\<close> when the fetch of \<open>k\<close> calls
  \<open>cached\<close> for \<open>q\<close>. The explanation of a problem reads the problems before its own key is made.
\<close>

inductive cached_reads :: "cache_key \<Rightarrow> cache_key \<Rightarrow> bool" where
  "cached_reads KSites KHostsMeta"
| "cached_reads KSites KProblems"
| "cached_reads KSites KIcmpHosts"
| "cached_reads KHostsOverview KProblems"
| "cached_reads KHostsOverview KIcmpHosts"
| "cached_reads KDevices KHostsOverview"
| "cached_reads KDevices KHostsTemplates"
| "cached_reads (KLatestPage h g n p s v) (KLatestIds h g n)"
| "cached_reads (KMap i) KProblems"
| "cached_reads KNetDevices KIcmpHosts"
| "cached_reads KMeters (KMeterDefinitions n)"
| "cached_reads KMeters (KMeterSiblings n ids)"
| "cached_reads KIcmpHosts KIcmpItems"
| "cached_reads KCollecting KIcmpItems"
| "cached_reads KStats KProblems"
| "cached_reads KProblemsByGroup KProblems"
| "cached_reads KAging KProblems"
| "cached_reads KInventory KHostsMeta"
| "cached_reads (KServicesDerived p m) (KDerivedSli p m c)"
| "cached_reads (KServicesDerived p m) KProblems"
| "cached_reads KSlaSource KSla"
| "cached_reads KSlaSource (KSli i None)"
| "cached_reads KSnapshot KProblems"
| "cached_reads KSnapshot KSites"
| "cached_reads KSnapshot KSla"
| "cached_reads KSnapshot KServicesTree"
| "cached_reads KSnapshot (KSli i None)"
| "cached_reads KSnapshot (KDerivedSli p m c)"
| "cached_reads KSnapshot (KServicesDerived p m)"

text \<open>What the routes have checked before a key is made: ids are numeric, months are months.\<close>

definition numeric :: "string \<Rightarrow> bool" where
  "numeric i \<longleftrightarrow> i \<noteq> [] \<and> all_digits i"

definition checked_month :: "string \<Rightarrow> bool" where
  "checked_month m \<longleftrightarrow> month_re m \<noteq> None"

definition valid_key :: "cache_key \<Rightarrow> bool" where
  "valid_key k =
     (case k of
      KItems h s g ids \<Rightarrow> (all_digits h \<and> list_all numeric ids)
    | KLatestPage h g needle page n hide \<Rightarrow> (all_digits h \<and> all_digits g)
    | KLatestIds h g needle \<Rightarrow> (all_digits h \<and> all_digits g)
    | KLatest h g search \<Rightarrow> (all_digits h \<and> all_digits g)
    | KItemKeys ids \<Rightarrow> list_all numeric ids
    | KGraph ids from to points \<Rightarrow> list_all numeric ids
    | KMap i \<Rightarrow> numeric i
    | KNetInterfaces h \<Rightarrow> numeric h
    | KMeterSiblings n ids \<Rightarrow> list_all numeric ids
    | KAllProblemsMonth m s \<Rightarrow> checked_month m
    | KDerivedSli p m c \<Rightarrow> checked_month m
    | KServicesDerived p m \<Rightarrow> checked_month m
    | KSli i s \<Rightarrow> (numeric i \<and> pred_option numeric s)
    | KExplainProblem e a r \<Rightarrow> numeric e
    | KExplainDerived m p s \<Rightarrow> checked_month m
    | KExplainSla i s \<Rightarrow> (numeric i \<and> pred_option numeric s)
    | _ \<Rightarrow> True)"

subsection \<open>Keys tell questions apart\<close>

lemma split_on_join: "split_on c (s @ c # t) = split_on c s @ split_on c t"
proof (induction s)
  case (Cons d s)
  have "split_on c u \<noteq> []" for u by (induction u) (auto split: list.splits)
  then show ?case using Cons by (cases "split_on c s") (auto split: list.splits)
qed simp

lemma split_on_inj: "split_on c s = split_on c t \<longleftrightarrow> s = t"
proof -
  have "join [c] (split_on c u) = u" for u
  proof (induction u)
    case (Cons d u)
    show ?case
    proof (cases "split_on c u")
      case Nil
      moreover have "split_on c v \<noteq> []" for v by (induction v) (auto split: list.splits)
      ultimately show ?thesis by blast
    next
      case (Cons w ws)
      then show ?thesis using Cons.IH Cons by (cases ws) auto
    qed
  qed simp
  then show ?thesis by metis
qed

definition key_code :: "cache_key \<Rightarrow> string list" where
  "key_code k = concat (map (split_on CHR '':'') (key_parts k))"

lemma key_code_text: "key_parts k \<noteq> [] \<Longrightarrow> split_on CHR '':'' (key_text k) = key_code k"
proof -
  have "ws \<noteq> [] \<Longrightarrow> split_on CHR '':'' (join colon ws) = concat (map (split_on CHR '':'') ws)" for ws
  proof (induction ws)
    case (Cons w ws)
    then show ?case by (cases ws) (simp_all add: colon_def split_on_join)
  qed simp
  then show "key_parts k \<noteq> [] \<Longrightarrow> split_on CHR '':'' (key_text k) = key_code k" by (simp add: key_text_def key_code_def)
qed

lemma digits_no_colon: "all_digits s \<Longrightarrow> split_on CHR '':'' s = [s]" "numeric s \<Longrightarrow> split_on CHR '':'' s = [s]"
  by (auto intro!: split_on_plain simp: numeric_def all_digits_def list_all_iff is_digit_def)

lemma no_colon:
  "list_all numeric ids \<Longrightarrow> split_on CHR '':'' (join '','' ids) = [join '','' ids]"
  "split_on CHR '':'' (show_nat n) = [show_nat n]" "split_on CHR '':'' (show_int i) = [show_int i]"
  "checked_month m \<Longrightarrow> split_on CHR '':'' m = [m]" "split_on CHR '':'' (profile_text p) = [profile_text p]"
  "pred_option numeric s \<Longrightarrow> split_on CHR '':'' (or_all s) = [or_all s]"
proof -
  have d: "all_digits w \<Longrightarrow> CHR '':'' \<notin> set w" for w by (auto simp: all_digits_def list_all_iff is_digit_def)
  show "list_all numeric ids \<Longrightarrow> split_on CHR '':'' (join '','' ids) = [join '','' ids]"
    using set_join [of "'',''" ids] d by (intro split_on_plain) (auto simp: list_all_iff numeric_def)
  show "split_on CHR '':'' (show_nat n) = [show_nat n]" by (rule digits_no_colon) simp
  show "split_on CHR '':'' (show_int i) = [show_int i]" by (rule split_on_plain) (simp add: show_int_def d)
  show "checked_month m \<Longrightarrow> split_on CHR '':'' m = [m]"
  proof (rule split_on_plain)
    assume "checked_month m"
    then have m: "length m = 7" "all_digits (take 4 m)" "m ! 4 = CHR ''-''"
      "m ! 5 \<in> {CHR ''0'', CHR ''1''}" "is_digit (m ! 6)"
      by (auto simp: checked_month_def month_re_def is_digit_def split: if_splits)
    obtain a b c d' e f g where "m = [a, b, c, d', e, f, g]"
      using m(1) by (auto simp: length_Suc_conv numeral_eq_Suc)
    then show "CHR '':'' \<notin> set m" using m(2-5) by (auto simp: is_digit_def eval_nat_numeral)
  qed
  show "split_on CHR '':'' (profile_text p) = [profile_text p]" by (cases p) simp_all
  show "pred_option numeric s \<Longrightarrow> split_on CHR '':'' (or_all s) = [or_all s]"
    by (cases s) (auto simp: or_all_def intro: digits_no_colon(2))
qed

lemma ids_join: "list_all numeric ids \<Longrightarrow> list_all numeric ids' \<Longrightarrow> join '','' ids = join '','' ids' \<longleftrightarrow> ids = ids'"
proof -
  have split: "split_on CHR '','' (join '','' xs) = (if xs = [] then [[]] else xs)" if "list_all numeric xs" for xs
  proof (cases "xs = []")
    case False
    have "CHR '','' \<notin> set w" if "all_digits w" for w using that by (auto simp: all_digits_def list_all_iff is_digit_def)
    then have "\<forall>w \<in> set xs. CHR '','' \<notin> set w" using that by (auto simp: list_all_iff numeric_def)
    then show ?thesis using split_join [OF False] False by simp
  qed simp
  assume n: "list_all numeric ids" "list_all numeric ids'"
  have "[] \<notin> set ids" "[] \<notin> set ids'" using n by (auto simp: list_all_iff numeric_def)
  then show ?thesis using split [OF n(1)] split [OF n(2)] by (metis (full_types) list.set_intros(1))
qed

lemma parts_inj [simp]:
  "profile_text p = profile_text q \<longleftrightarrow> p = q" "show_nat m = show_nat n \<longleftrightarrow> m = n" "show_int i = show_int j \<longleftrightarrow> i = j"
proof -
  show "profile_text p = profile_text q \<longleftrightarrow> p = q" by (cases p; cases q) simp_all
  show "show_nat m = show_nat n \<longleftrightarrow> m = n" by (rule show_nat_inj)
  have "CHR ''-'' # s \<noteq> show_nat n" for s n
    using show_nat_digits [of n] by (metis all_digits_simps(2) is_digit_def char_of_eq_iff less_eq_char_def digit_not)
  then show "show_int i = show_int j \<longleftrightarrow> i = j" by (auto simp: show_int_def show_nat_inj split: if_splits) metis+
qed

lemma or_all_inj: "pred_option numeric s \<Longrightarrow> pred_option numeric t \<Longrightarrow> or_all s = or_all t \<longleftrightarrow> s = t"
  by (cases s; cases t) (auto simp: or_all_def numeric_def is_digit_def)

lemma month_not_number: "checked_month m \<Longrightarrow> m \<noteq> show_nat n" "checked_month m \<Longrightarrow> show_nat n \<noteq> m"
proof -
  have "m \<noteq> show_nat n" if "checked_month m"
  proof
    assume e: "m = show_nat n"
    have "length m = 7" "m ! 4 = CHR ''-''" using that by (auto simp: checked_month_def month_re_def split: if_splits)
    then have "CHR ''-'' \<in> set m" by (metis nth_mem numeral_less_iff semiring_norm)
    then show False using show_nat_digits [of n] e by (auto simp: all_digits_def list_all_iff is_digit_def)
  qed
  then show "checked_month m \<Longrightarrow> m \<noteq> show_nat n" "checked_month m \<Longrightarrow> show_nat n \<noteq> m" by auto
qed

lemma word_not_digits: "\<not> is_digit CHR ''p''" "\<not> is_digit CHR ''i''" "\<not> numeric ''derived''"
  by (auto simp: is_digit_def numeric_def)

lemma last_two: "xs @ [a, b] = ys @ [c, d] \<longleftrightarrow> xs = ys \<and> a = c \<and> b = d"
  using append1_eq_conv [of "xs @ [a]" b "ys @ [c]" d] by auto

lemma last_three: "xs @ [a, b, c] = ys @ [d, e, f] \<longleftrightarrow> xs = ys \<and> a = d \<and> b = e \<and> c = f"
  using append1_eq_conv [of "xs @ [a, b]" c "ys @ [d, e]" f] by (auto simp: last_two)

text \<open>The key cut at its colons; the free texts in seven of the keys may hold colons of their own.\<close>

definition code_parts :: "cache_key \<Rightarrow> string list" where
  "code_parts k =
     (case k of
      KItems h s g ids \<Rightarrow> [''items'', h] @ split_on CHR '':'' s @ [if g then ''1'' else ''0'', join '','' ids]
    | KLatestPage h g needle page n hide \<Rightarrow> [''latest'', ''p'', h, g] @ split_on CHR '':'' needle @ [show_nat page, show_nat n, if hide then ''v'' else ''o'']
    | KLatestIds h g needle \<Rightarrow> [''latest'', ''ids'', h, g] @ split_on CHR '':'' needle
    | KLatest h g search \<Rightarrow> [''latest'', h, g] @ split_on CHR '':'' search
    | KMeterDefinitions n \<Rightarrow> [''meters'', ''definitions''] @ split_on CHR '':'' n
    | KMeterSiblings n ids \<Rightarrow> [''meters'', ''siblings''] @ split_on CHR '':'' n @ [join '','' ids]
    | KExplainDerived m p s \<Rightarrow> [''explain'', ''sla'', ''derived'', m, profile_text p] @ split_on CHR '':'' s
    | _ \<Rightarrow> key_parts k)"

lemma key_code_parts: "valid_key k \<Longrightarrow> key_code k = code_parts k"
  by (cases k) (simp_all add: valid_key_def code_parts_def key_code_def digits_no_colon no_colon)

lemma code_parts_eqs:
  "code_parts KProblems = [''problems'']"
  "code_parts KSites = [''sites'']"
  "code_parts KHosts = [''hosts'']"
  "code_parts KHostsMeta = [''hosts'', ''meta'']"
  "code_parts KHostsOverview = [''hosts'', ''overview'']"
  "code_parts KHostsTemplates = [''hosts'', ''templates'']"
  "code_parts KHostGroups = [''hostgroups'']"
  "code_parts KDevices = [''devices'']"
  "code_parts (KItems h9 s9 g9 ids9) = [''items'', h9] @ split_on CHR '':'' s9 @ [if g9 then ''1'' else ''0'', join '','' ids9]"
  "code_parts (KLatestPage h10 g10 needle10 page10 n10 hide10) = [''latest'', ''p'', h10, g10] @ split_on CHR '':'' needle10 @ [show_nat page10, show_nat n10, if hide10 then ''v'' else ''o'']"
  "code_parts (KLatestIds h11 g11 needle11) = [''latest'', ''ids'', h11, g11] @ split_on CHR '':'' needle11"
  "code_parts (KLatest h12 g12 search12) = [''latest'', h12, g12] @ split_on CHR '':'' search12"
  "code_parts (KItemKeys ids13) = [''itemkeys'', join '','' ids13]"
  "code_parts (KGraph ids14 from14 to14 points14) = [''graph'', join '','' ids14, show_int from14, show_int to14, show_nat points14]"
  "code_parts KMaps = [''maps'']"
  "code_parts (KMap i16) = [''map'', i16]"
  "code_parts KNetHostIds = [''net'', ''hostids'']"
  "code_parts KNetDevices = [''net'', ''devices'']"
  "code_parts (KNetInterfaces h19) = [''net'', ''interfaces'', h19]"
  "code_parts KLinks = [''links'']"
  "code_parts KMeters = [''net'', ''meters'']"
  "code_parts (KMeterDefinitions n22) = [''meters'', ''definitions''] @ split_on CHR '':'' n22"
  "code_parts (KMeterSiblings n23 ids23) = [''meters'', ''siblings''] @ split_on CHR '':'' n23 @ [join '','' ids23]"
  "code_parts KIcmpItems = [''icmp'', ''items'']"
  "code_parts KIcmpHosts = [''icmp'', ''hosts'']"
  "code_parts KCollecting = [''collecting'', ''last'']"
  "code_parts KStats = [''stats'']"
  "code_parts (KTopTriggers d28) = [''toptrig'', show_nat d28]"
  "code_parts KProblemsByGroup = [''probsByGroup'']"
  "code_parts KAging = [''aging'']"
  "code_parts (KTopHosts n31) = [''top-hosts'', show_nat n31]"
  "code_parts (KWebMonitoring n32) = [''web-monitoring'', show_nat n32]"
  "code_parts KInventory = [''inventory'', ''scorecard'']"
  "code_parts (KAllProblems d34 s34) = [''avail'', ''all'', show_nat d34, show_int s34]"
  "code_parts (KAllProblemsMonth m35 s35) = [''avail'', ''all'', m35, show_int s35]"
  "code_parts (KAvailability p36 d36) = [''avail'', profile_text p36, show_nat d36]"
  "code_parts (KNoise d37 s37) = [''noise'', show_nat d37, show_int s37]"
  "code_parts (KCapacity d38 n38) = [''capacity'', show_nat d38, show_nat n38]"
  "code_parts (KDerivedSli p39 m39 c39) = [''derived-sli'', profile_text p39, m39, if c39 then ''closed'' else ''open'']"
  "code_parts KServicesTree = [''services'', ''tree'']"
  "code_parts (KServicesDerived p41 m41) = [''services'', ''derived'', profile_text p41, m41]"
  "code_parts KSla = [''sla'']"
  "code_parts KSlaSource = [''sla'', ''source'']"
  "code_parts (KSli i44 s44) = [''sli'', i44, or_all s44]"
  "code_parts KSnapshot = [''chat'', ''snapshot'']"
  "code_parts (KExplainProblem e46 a46 r46) = [''explain'', ''problem'', e46, if a46 then ''ack'' else ''unack'', if r46 then ''resolved'' else ''open'']"
  "code_parts (KExplainDerived m47 p47 s47) = [''explain'', ''sla'', ''derived'', m47, profile_text p47] @ split_on CHR '':'' s47"
  "code_parts (KExplainSla i48 s48) = [''explain'', ''sla'', i48, or_all s48]"
  by (simp_all add: code_parts_def)

lemma code_parts_inj: "valid_key a \<Longrightarrow> valid_key b \<Longrightarrow> code_parts a = code_parts b \<Longrightarrow> a = b"
  by (cases a; cases b; auto simp: valid_key_def code_parts_eqs ids_join or_all_inj month_not_number word_not_digits split_on_inj last_two last_three
      split: if_splits)

lemma key_parts_nonempty: "key_parts k \<noteq> []"
  by (cases k) simp_all

subsection \<open>What a write must reach\<close>

text \<open>The entries made from the problems, directly or through another entry.\<close>

definition shows_problems :: "cache_key \<Rightarrow> bool" where
  "shows_problems k \<longleftrightarrow>
     k \<in> {KProblems, KSites, KHostsOverview, KDevices, KStats, KProblemsByGroup, KAging, KSnapshot} \<or>
     k \<in> range KMap \<or> k \<in> (\<lambda>(p, m). KServicesDerived p m) ` UNIV"

lemma reads_shown: "cached_reads k q \<Longrightarrow> shows_problems q \<Longrightarrow> shows_problems k"
  by (induction rule: cached_reads.induct) (auto simp: shows_problems_def)

lemma problems_shown: "cached_reads\<^sup>*\<^sup>* k KProblems \<Longrightarrow> shows_problems k"
  by (induction rule: converse_rtranclp_induct) (simp_all add: shows_problems_def [of KProblems] reads_shown)

lemma stale_prefix: "shows_problems k \<Longrightarrow> k = KDevices \<or> list_ex (startsWith (key_text k)) STALE_AFTER_WRITE"
  unfolding shows_problems_def by (auto simp: STALE_AFTER_WRITE_def startsWith_def key_text_def colon_def)

lemma devices_prefix: "pre \<in> set STALE_AFTER_WRITE \<Longrightarrow> \<not> startsWith (key_text KDevices) pre"
  by (auto simp: STALE_AFTER_WRITE_def startsWith_def key_text_def colon_def)

lemma invalidate_other:
  "\<forall>pre \<in> set qs. \<not> startsWith k pre \<Longrightarrow>
   table_get (store (fold (\<lambda>q c. snd (invalidate q h now c)) qs c)) k = table_get (store c) k"
  by (induction qs arbitrary: c) (simp_all add: invalidate_get)

subsection \<open>Properties\<close>

text \<open>
  C8. Two questions never share an entry of the cache: the keys of checked requests are equal only when the requests are,
  although a search text, a meter dashboard's name or a report's scope inside a key may hold colons of its own.
\<close>

theorem keys_tell_questions_apart:
  "if valid_key a \<and> valid_key b then key_text a = key_text b \<longleftrightarrow> a = b else True"
proof -
  have "a = b" if "valid_key a" "valid_key b" "key_text a = key_text b"
  proof (rule code_parts_inj [OF that(1,2)])
    have "key_code a = key_code b"
      using arg_cong [OF that(3), of "split_on CHR '':''"] unfolding key_code_text [OF key_parts_nonempty] .
    then show "code_parts a = code_parts b" unfolding key_code_parts [OF that(1)] key_code_parts [OF that(2)] .
  qed
  then show ?thesis by auto
qed


end
