(* ===== verification/Spec2Isabelle.thy ===== *)
theory Spec2Isabelle
  imports Gate CallLimits LiveStream DerivedTree Settings Availability Noise Scorecard Links Network Graphs HostData Maps
    Activity Archive Meters Capacity CacheKeys
begin

text \<open>
  A verification development for the server of the HCML monitoring portal (\<open>server/src\<close>): a TypeScript program
  that reads a Zabbix server through its JSON-RPC API, turns what it reads into reports, charts and a live
  problem list for the browser, and acknowledges or closes problems on behalf of its users.

  \<^bold>\<open>The parts and how they meet.\<close> A request passes the sign-in guard (Auth), is read by the parameter helpers
  (Requests), takes its place at the gate for slow reports when it is one (Gate, CallLimits), and is answered by
  a service. A service asks the cache (Cache) under a key of its own (CacheKeys); on a miss it asks Zabbix through
  the client (ZabbixClient), long ranges in slices (Slices). Problems are read once for every screen (Problems) and
  pushed to the open ones (LiveStream); the one write goes to Zabbix, empties the entries that depend on it and
  wakes the stream (WriteBack). The availability engine replays the events of a month into intervals of downtime
  (Naming, Replay, Intervals), takes maintenance (Maintenance) and missing data (Coverage) into account and sums up
  (Report); the trees of business services stand beside it (ServiceTree, DerivedTree). Every start reads its
  settings from the environment (Settings).

  \<^bold>\<open>How the code is modelled.\<close> A function of a module is a definition of the same name; an interface is a record,
  a union of string literals a datatype, \<open>undefined\<close> and \<open>null\<close> are \<open>None\<close>, a \<open>throw\<close> is the left side of a sum. A
  \<open>Map\<close> is an association list in insertion order, because the code iterates over it. Texts are lists of
  characters, numbers \<open>int\<close>, \<open>nat\<close> or exact rationals (\<open>rat\<close>) where the code divides; the rounding of doubles is
  not modelled and the code's own rounding (\<open>Math.floor\<close>, \<open>Math.round\<close>, \<open>toFixed\<close>) is. Bytes and hashes are words.
  Whatever is not in the repository (the answers of Zabbix, \<open>Intl.Collator\<close>, the time zone database, scrypt, the
  verification of a token, the clock) is an argument of the definitions that use it; what is needed of it is an
  assumption of the theorem, and a witness instantiates it.

  \<^bold>\<open>Theories, by the files they model.\<close>

  \<^item> Prelude, JsText, JsonText, Regex, Interfaces: the shared language. List and option lemmas, association lists
    as maps, grouping, \<open>all_or_error\<close> for \<open>Promise.all\<close>; strings as the code reads them (\<open>trim\<close>, \<open>split\<close>,
    \<open>Number(text)\<close>); \<open>JSON.stringify\<close>; a matcher for the regular expressions the code uses, whose repetition
    consumes at least a character each time, so that fuel equal to the characters left is always enough; the
    locales the components are clients of.
  \<^item> Requests: \<open>core/validate.ts\<close>, \<open>core/acceptEncoding.ts\<close>, the sentences of \<open>core/schemas.ts\<close>.
  \<^item> Calendar: \<open>sli/time.ts\<close>, months and days of the report zone; day numbers are shown to be a bijection.
  \<^item> Settings: \<open>core/config.ts\<close>, every setting with its default, range and the checks that stop a start.
  \<^item> Intervals: \<open>sli/intervals.ts\<close>; union, intersection, complement and seconds agree with sets of instants.
  \<^item> Naming, Replay, Coverage, Maintenance, Report: \<open>domain/naming.ts\<close>, \<open>sli/engine.ts\<close>, \<open>sli/maintenance.ts\<close>. The
    event replay is compared with the state the latest event gives each instant, coverage with the instants near
    a sample, maintenance windows with the set of occurrences of a period, and the report with the sums of its rows.
  \<^item> Slices: \<open>sli/events.ts\<close>, the adaptive slicing of long reads, and its \<open>mapLimit\<close> as steps of its workers.
    A read of a range that must be cut halves it, so the width of the range bounds the recursion.
  \<^item> ServiceTree, DerivedTree: \<open>services/services.ts\<close>, \<open>sli/tree.ts\<close>; a node is built to depth 12 as in the code.
  \<^item> Problems, LiveStream: \<open>domain/queries.ts\<close>, \<open>services/stream.ts\<close>, \<open>routes/stream.ts\<close>; the module's state as a
    record and an inductive step relation with its invariants.
  \<^item> Cache, CacheKeys, WriteBack: \<open>core/cache.ts\<close>, every call of \<open>cached(...)\<close> with its key, lifetime and what it
    depends on, \<open>services/actions.ts\<close> with \<open>routes/actions.ts\<close>. The cache is a state with its operations; an
    invariant over all interleavings shows that an answer read before a write is never stored after it.
  \<^item> Gate, CallLimits: \<open>core/gate.ts\<close>, \<open>clients/limits.ts\<close>.
  \<^item> Passwords, Auth: \<open>security/passwords.ts\<close>, \<open>security/auth.ts\<close>, \<open>security/pageAccess.ts\<close>,
    \<open>security/viewerPolicy.ts\<close>; the tables of revoked tokens and failed sign-ins with their bounds.
  \<^item> Reachability: \<open>domain/reachability.ts\<close>. Sites, HostData: \<open>services/sites.ts\<close>, \<open>services/hosts.ts\<close> with their
    routes. Scorecard: \<open>services/inventory.ts\<close>. Links, Network: \<open>services/links.ts\<close>, \<open>services/net.ts\<close>.
    Maps: \<open>services/maps.ts\<close>.
  \<^item> Incidents, Availability, Noise: \<open>services/incidents.ts\<close>, \<open>services/availability.ts\<close>, \<open>services/noise.ts\<close>; the
    incident of a window is compared with the stored history of problem and recovery events.
  \<^item> Charts, Graphs: \<open>services/history.ts\<close>, \<open>routes/history.ts\<close>; history is read in pages of 100000 rows
    and stands in for missing trends for at most 7 days.
  \<^item> Activity, Capacity, Meters: \<open>services/reports.ts\<close>, \<open>services/aging.ts\<close>, \<open>services/capacity.ts\<close>,
    \<open>services/topHosts.ts\<close>, \<open>services/webMonitoring.ts\<close>, \<open>services/meters.ts\<close>; lists of the busiest are compared with
    the rows they were picked from, and a figure about now is shown to rest on a value that is fresh.
  \<^item> Archive: \<open>export/zip.ts\<close>; a reader of the ZIP format, written apart from the writer, reads back what was packed.
  \<^item> ZabbixClient: \<open>clients/zabbix.ts\<close>, \<open>http/errors.ts\<close>.

  \<^bold>\<open>What the groups of lemmas show.\<close> Functional exactness of the reports against an independent description
  (sets of instants, stored histories, counts); invariants of the stateful modules over every order of their
  operations; bounds of every table and every read; equivalence of the optimised code with the plain definition
  (batches of 2000, pages, slices); the error that comes out when a read fails; and what a viewer may not see.

  \<^bold>\<open>Bounds and fuel.\<close> The loops of the code are structural recursions, recursions on a width that shrinks, or
  bounded by a depth the code itself has (12 levels of services). The regular expressions run on as much fuel as
  there are characters left. Nothing is claimed for a run that stops for lack of fuel.

  \<^bold>\<open>Not modelled.\<close> The PDF and spreadsheet writers and their fonts and logo (layout, no decisions the portal relies
  on), the AI client and the assistant's prompts and texts (their call limits are), \<open>services/sla.ts\<close> (the
  portal's own reports replace Zabbix's), the wiring of the plugins in \<open>http/\<close> and
  \<open>core/staleness.ts\<close>, logging, and the React user interface under \<open>web/src\<close>, whose generated types mirror
  the server's.
\<close>

end
